(* ===== verification/Relix_Prelude.thy ===== *)
theory Relix_Prelude
  imports Main "HOL-Library.Word" "HOL-Library.Multiset"
begin

text \<open>
  The shared ground of the development: the machine integers of the C sources, the result type
  of kernel code (a value, a panic or a process that went to sleep), its sequencing combinator,
  the errno values of \<^verbatim>\<open>include/errno.h\<close> and the lemmas on lists and words the components use.
\<close>

unbundle bit_operations_syntax

section \<open>Types\<close>

type_synonym byte = "8 word"
type_synonym u16 = "16 word"
type_synonym u32 = "32 word"
type_synonym u64 = "64 word"

text \<open>
  What \<^verbatim>\<open>sleep(chan, lk)\<close> can wait on. The C code passes an address; the model names the object
  at that address.
\<close>

datatype chan =
    ChanBufLock nat \<comment> \<open>the sleep-lock of a buffer of the block cache\<close>
  | ChanInodeLock nat \<comment> \<open>the sleep-lock of an entry of the inode table\<close>
  | ChanBuf nat \<comment> \<open>a buffer waiting for the disk\<close>
  | ChanLog
  | ChanProc nat \<comment> \<open>a parent waiting for a child\<close>
  | ChanTicks
  | ChanPipeRead nat \<comment> \<open>the address of \<open>nread\<close> of a pipe's ring buffer\<close>
  | ChanPipeWrite nat
  | ChanInput \<comment> \<open>the read index of the console's line buffer\<close>
  | ChanHpet

text \<open>
  Kernel code either returns, panics, or gives up the processor in \<^verbatim>\<open>sleep\<close> at a point where
  it has to wait for another process.
\<close>

datatype stop = Panic string | Sleep chan

type_synonym 'a kres = "stop + 'a"

section \<open>Sequencing\<close>

named_theorems kres_simps \<open>rewriting of results of sequenced kernel code\<close>

definition bindr :: "'e + 'a \<Rightarrow> ('a \<Rightarrow> 'e + 'b) \<Rightarrow> 'e + 'b" where
  "bindr m f = (case m of Inl e \<Rightarrow> Inl e | Inr x \<Rightarrow> f x)"

lemma bindr_Inl [simp, kres_simps]: "bindr (Inl e) f = Inl e"
  by (simp add: bindr_def)

lemma bindr_Inr [simp, kres_simps]: "bindr (Inr x) f = f x"
  by (simp add: bindr_def)

lemma bindr_eq_Inr [kres_simps]: "bindr m f = Inr y \<longleftrightarrow> (\<exists>x. m = Inr x \<and> f x = Inr y)"
  by (cases m) auto

lemma bindr_eq_Inl [kres_simps]:
  "bindr m f = Inl e \<longleftrightarrow> m = Inl e \<or> (\<exists>x. m = Inr x \<and> f x = Inl e)"
  by (cases m) auto

lemma bindr_InrE:
  assumes "bindr m f = Inr y"
  obtains x where "m = Inr x" and "f x = Inr y"
  using assms by (auto simp: bindr_eq_Inr)

lemma bindr_assoc: "bindr (bindr m f) g = bindr m (\<lambda>x. bindr (f x) g)"
  by (cases m) auto

definition guardr :: "bool \<Rightarrow> 'e \<Rightarrow> 'e + unit" where
  "guardr b e = (if b then Inr () else Inl e)"

lemma guardr_eq_Inr [kres_simps]: "guardr b e = Inr u \<longleftrightarrow> b"
  by (simp add: guardr_def)

lemma guardr_eq_Inl [kres_simps]: "guardr b e = Inl e' \<longleftrightarrow> \<not> b \<and> e' = e"
  by (auto simp: guardr_def)

lemma guardr_True [simp]: "guardr True e = Inr ()"
  by (simp add: guardr_def)

lemma guardr_False [simp]: "guardr False e = Inl e"
  by (simp add: guardr_def)

section \<open>Error numbers\<close>

text \<open>System calls return a negated errno value as a (signed) integer.\<close>

abbreviation (input) EPERM :: int where "EPERM \<equiv> 1"
abbreviation (input) ENOENT :: int where "ENOENT \<equiv> 2"
abbreviation (input) ESRCH :: int where "ESRCH \<equiv> 3"
abbreviation (input) EIO :: int where "EIO \<equiv> 5"
abbreviation (input) ENXIO :: int where "ENXIO \<equiv> 6"
abbreviation (input) E2BIG :: int where "E2BIG \<equiv> 7"
abbreviation (input) ENOEXEC :: int where "ENOEXEC \<equiv> 8"
abbreviation (input) EBADF :: int where "EBADF \<equiv> 9"
abbreviation (input) ECHILD :: int where "ECHILD \<equiv> 10"
abbreviation (input) EAGAIN :: int where "EAGAIN \<equiv> 11"
abbreviation (input) ENOMEM :: int where "ENOMEM \<equiv> 12"
abbreviation (input) EACCES :: int where "EACCES \<equiv> 13"
abbreviation (input) EFAULT :: int where "EFAULT \<equiv> 14"
abbreviation (input) EEXIST :: int where "EEXIST \<equiv> 17"
abbreviation (input) ENODEV :: int where "ENODEV \<equiv> 19"
abbreviation (input) ENOTDIR :: int where "ENOTDIR \<equiv> 20"
abbreviation (input) EISDIR :: int where "EISDIR \<equiv> 21"
abbreviation (input) EINVAL :: int where "EINVAL \<equiv> 22"
abbreviation (input) ENFILE :: int where "ENFILE \<equiv> 23"
abbreviation (input) EMFILE :: int where "EMFILE \<equiv> 24"
abbreviation (input) ENOTTY :: int where "ENOTTY \<equiv> 25"
abbreviation (input) ENOSPC :: int where "ENOSPC \<equiv> 28"
abbreviation (input) ESPIPE :: int where "ESPIPE \<equiv> 29"
abbreviation (input) EROFS :: int where "EROFS \<equiv> 30"
abbreviation (input) EPIPE :: int where "EPIPE \<equiv> 32"
abbreviation (input) EDOM :: int where "EDOM \<equiv> 33"
abbreviation (input) ENOSYS :: int where "ENOSYS \<equiv> 38"
abbreviation (input) ENOTEMPTY :: int where "ENOTEMPTY \<equiv> 39"
abbreviation (input) ELOOP :: int where "ELOOP \<equiv> 40"

section \<open>Lists\<close>

text \<open>The index of the first element with a property: the C idiom of a table scan.\<close>

fun first_index :: "('a \<Rightarrow> bool) \<Rightarrow> 'a list \<Rightarrow> nat option" where
  "first_index P [] = None"
| "first_index P (x # xs) = (if P x then Some 0 else map_option Suc (first_index P xs))"

lemma first_index_SomeD:
  "first_index P xs = Some i \<Longrightarrow> i < length xs \<and> P (xs ! i) \<and> (\<forall>j<i. \<not> P (xs ! j))"
proof (induction xs arbitrary: i)
  case (Cons x xs)
  then show ?case
    by (auto split: if_splits simp: less_Suc_eq_0_disj)
qed simp

lemma first_index_None_iff: "first_index P xs = None \<longleftrightarrow> (\<forall>x\<in>set xs. \<not> P x)"
  by (induction xs) auto

lemma first_index_SomeI:
  assumes "i < length xs" and "P (xs ! i)" and "\<And>j. j < i \<Longrightarrow> \<not> P (xs ! j)"
  shows "first_index P xs = Some i"
proof (cases "first_index P xs")
  case None
  with assms show ?thesis by (auto simp: first_index_None_iff)
next
  case (Some k)
  then have "k < length xs" "P (xs ! k)" "\<forall>j<k. \<not> P (xs ! j)"
    by (auto dest: first_index_SomeD)
  with assms have "k = i" by (meson linorder_neqE_nat)
  with Some show ?thesis by simp
qed

lemma first_index_cong_Some:
  "first_index P xs = Some i \<Longrightarrow> length ys = length xs \<Longrightarrow>
   (\<And>j. j \<le> i \<Longrightarrow> P (ys ! j) = P (xs ! j)) \<Longrightarrow> first_index P ys = Some i"
  by (rule first_index_SomeI) (auto dest: first_index_SomeD)

lemma nth_list_update_if: "j < length xs \<Longrightarrow> xs[i := x] ! j = (if i = j then x else xs ! j)"
  by (auto simp: nth_list_update)

text \<open>Overwriting part of an array, as a \<^verbatim>\<open>memmove\<close> into it does.\<close>

definition blit :: "nat \<Rightarrow> 'a list \<Rightarrow> 'a list \<Rightarrow> 'a list" where
  "blit off new xs = take off xs @ new @ drop (off + length new) xs"

lemma length_blit [simp]: "off + length new \<le> length xs \<Longrightarrow> length (blit off new xs) = length xs"
  by (simp add: blit_def)

lemma nth_blit:
  assumes "off + length new \<le> length xs" and "i < length xs"
  shows "blit off new xs ! i =
    (if off \<le> i \<and> i < off + length new then new ! (i - off) else xs ! i)"
  using assms by (auto simp: blit_def nth_append min_def)

lemma take_drop_blit_same [simp]:
  "off + length new \<le> length xs \<Longrightarrow> n = length new \<Longrightarrow> take n (drop off (blit off new xs)) = new"
  by (simp add: blit_def)

lemma take_drop_blit_other:
  assumes "off + length new \<le> length xs" and "p + n \<le> off \<or> off + length new \<le> p"
  shows "take n (drop p (blit off new xs)) = take n (drop p xs)"
proof (rule nth_equalityI)
  show "length (take n (drop p (blit off new xs))) = length (take n (drop p xs))"
    using assms(1) by simp
next
  fix i assume "i < length (take n (drop p (blit off new xs)))"
  with assms show "take n (drop p (blit off new xs)) ! i = take n (drop p xs) ! i"
    by (auto simp: nth_blit)
qed

lemma blit_all: "length new = length xs \<Longrightarrow> blit 0 new xs = new"
  by (simp add: blit_def)

lemma blit_Nil [simp]: "blit off [] xs = xs"
  by (simp add: blit_def)

lemma list_update_blit: "i < length xs \<Longrightarrow> xs[i := x] = blit i [x] xs"
  by (simp add: blit_def upd_conv_take_nth_drop)

section \<open>Words\<close>

lemma add_mod_inj:
  assumes "(a + i) mod m = (a + j) mod m" and "i < m" and "j < m"
  shows "i = (j :: nat)"
proof -
  have "(int a + int i) mod int m = (int a + int j) mod int m"
    using assms(1) by (metis of_nat_add of_nat_mod)
  then have dvd: "int m dvd int i - int j"
    by (simp add: mod_eq_dvd_iff)
  have "\<bar>int i - int j\<bar> < int m"
    using assms(2,3) by auto
  with dvd have "int i - int j = 0"
    using dvd_imp_le_int [of "int i - int j" "int m"] by linarith
  then show ?thesis by simp
qed

lemma mult_div_exact: "(n :: nat) mod k = 0 \<Longrightarrow> k * (n div k) = n"
  by (simp add: mod_0_imp_dvd)

text \<open>Subtraction of unsigned 64-bit integers that are modelled as naturals.\<close>

definition usub :: "nat \<Rightarrow> nat \<Rightarrow> nat" where
  "usub a b = (a + (2 ^ 64 - b)) mod 2 ^ 64"

lemma usub_eq: "b \<le> a \<Longrightarrow> a < 2 ^ 64 \<Longrightarrow> usub a b = a - b"
proof -
  assume "b \<le> a" "a < 2 ^ 64"
  then have "a + (2 ^ 64 - b) = (a - b) + 2 ^ 64" by simp
  with \<open>a < 2 ^ 64\<close> show ?thesis by (simp only: usub_def mod_add_self2) simp
qed

lemma usub_zero: "b = 1 \<Longrightarrow> usub 0 b = 2 ^ 64 - 1"
  by (simp add: usub_def)

lemma unat_lt_iff [simp]: "unat (x :: 'a::len word) < unat y \<longleftrightarrow> x < y"
  by (simp add: word_less_nat_alt)

lemma uint_eq_iff [simp]: "uint (x :: 'a::len word) = uint y \<longleftrightarrow> x = y"
  by (simp add: word_uint_eq_iff)

lemma sint_eq_iff [simp]: "sint (x :: 'a::len word) = sint y \<longleftrightarrow> x = y"
  by (metis uint_sint uint_eq_iff)

lemma uint_zero_iff [simp]: "uint (x :: 'a::len word) = 0 \<longleftrightarrow> x = 0"
  by (simp add: uint_0_iff)

lemma unat_byte_lt [simp]: "unat (b :: byte) < 256"
  using unsigned_less [of b, where 'a = nat] by simp

lemma uint_byte_bounds: "0 \<le> uint (b :: byte)" "uint (b :: byte) < 256"
  using unsigned_less [of b, where 'a = int] by simp_all

end
