(* ===== verification/Klib_Ctype.thy ===== *)
theory Klib_Ctype
  imports Relix_Prelude
begin

text \<open>
  The character classes of \<^verbatim>\<open>lib/ctype.c\<close>, shared by the kernel and the C library. Arguments and
  results are C \<^verbatim>\<open>int\<close>s; character constants are written as their ASCII codes. The lemmas give
  the exact sets the predicates accept, the relations between the classes, and the inverse
  relation of the two case mappings.
\<close>

section \<open>Definitions\<close>

definition isdigit :: "int \<Rightarrow> bool" where
  "isdigit c \<longleftrightarrow> 48 \<le> c \<and> c \<le> 57"

definition isupper :: "int \<Rightarrow> bool" where
  "isupper c \<longleftrightarrow> 65 \<le> c \<and> c \<le> 90"

definition islower :: "int \<Rightarrow> bool" where
  "islower c \<longleftrightarrow> 97 \<le> c \<and> c \<le> 122"

definition toupper :: "int \<Rightarrow> int" where
  "toupper c = (if 97 \<le> c \<and> c \<le> 122 then c - 32
                else if 65 \<le> c \<and> c \<le> 90 then c
                else c)"

definition tolower :: "int \<Rightarrow> int" where
  "tolower c = (if 65 \<le> c \<and> c \<le> 90 then c + 32
                else if 97 \<le> c \<and> c \<le> 122 then c
                else c)"

definition isxdigit :: "int \<Rightarrow> bool" where
  "isxdigit c \<longleftrightarrow> (48 \<le> c \<and> c \<le> 57) \<or> (97 \<le> tolower c \<and> tolower c \<le> 122)"

definition isspace :: "int \<Rightarrow> bool" where
  "isspace c \<longleftrightarrow> c = 32 \<or> c = 12 \<or> c = 10 \<or> c = 13 \<or> c = 9 \<or> c = 11"

definition isalpha :: "int \<Rightarrow> bool" where
  "isalpha c \<longleftrightarrow> islower c \<or> isupper c"

definition isgraph :: "int \<Rightarrow> bool" where
  "isgraph c \<longleftrightarrow> 33 \<le> c \<and> c \<le> 126"

definition isprint :: "int \<Rightarrow> bool" where
  "isprint c \<longleftrightarrow> isgraph c \<or> c = 32"

definition ispunct :: "int \<Rightarrow> bool" where
  "ispunct c \<longleftrightarrow> (33 \<le> c \<and> c \<le> 47) \<or> (58 \<le> c \<and> c \<le> 64) \<or> (91 \<le> c \<and> c \<le> 96) \<or>
     (123 \<le> c \<and> c \<le> 126)"

definition isalnum :: "int \<Rightarrow> bool" where
  "isalnum c \<longleftrightarrow> isalpha c \<or> isdigit c"

definition iscntrl :: "int \<Rightarrow> bool" where
  "iscntrl c \<longleftrightarrow> c \<le> 31 \<or> c = 127"

definition isblank :: "int \<Rightarrow> bool" where
  "isblank c \<longleftrightarrow> c = 32 \<or> c = 9"

definition isascii :: "int \<Rightarrow> bool" where
  "isascii c \<longleftrightarrow> c \<le> 127"

lemmas ctype_defs = isdigit_def isupper_def islower_def toupper_def tolower_def isxdigit_def
  isspace_def isalpha_def isgraph_def isprint_def ispunct_def isalnum_def iscntrl_def
  isblank_def isascii_def

section \<open>Properties\<close>

lemma tolower_idem [simp]: "tolower (tolower c) = tolower c"
  by (simp add: ctype_defs)

lemma toupper_idem [simp]: "toupper (toupper c) = toupper c"
  by (simp add: ctype_defs)

lemma tolower_toupper [simp]: "tolower (toupper c) = tolower c"
  by (simp add: ctype_defs)

lemma toupper_tolower [simp]: "toupper (tolower c) = toupper c"
  by (simp add: ctype_defs)

text \<open>The ASCII range splits into the control characters, the space and the graphic characters.\<close>

lemma ctype_partition:
  assumes "0 \<le> c" and "c \<le> 127"
  shows "(isgraph c \<longleftrightarrow> \<not> iscntrl c \<and> c \<noteq> 32)" and "(isprint c \<longleftrightarrow> \<not> iscntrl c)"
  using assms by (auto simp: isgraph_def iscntrl_def isprint_def)

lemma alnum_punct_disjoint: "\<not> (isalnum c \<and> ispunct c)"
  by (auto simp: isalnum_def isalpha_def isdigit_def islower_def isupper_def ispunct_def)

lemma isgraph_iff: "isgraph c \<longleftrightarrow> isalnum c \<or> ispunct c"
  unfolding ctype_defs by arith

text \<open>\<open>isxdigit\<close> compares with \<open>'z'\<close>: it accepts every letter and every digit.\<close>

lemma isxdigit_eq_isalnum: "isxdigit c = isalnum c"
  unfolding ctype_defs by (cases "65 \<le> c \<and> c \<le> 90") auto

end
