(* ===== verification/Klib_String.thy ===== *)
theory Klib_String
  imports Klib_Ctype
begin

text \<open>
  The string and memory routines of \<^verbatim>\<open>kernel/kernel_string.c\<close>.

  A \<^verbatim>\<open>char *\<close> is the list of bytes from the pointer to the end of the object it points into, so
  \<^verbatim>\<open>*p\<close> is the head and \<^verbatim>\<open>p++\<close> the tail; reading or writing past the end of the object is
  the value \<open>None\<close>. A returned pointer is an offset into its argument, \<^verbatim>\<open>NULL\<close> the inner
  \<open>None\<close>. A routine that writes returns the destination object after the call. \<^verbatim>\<open>char\<close> is
  signed on x86-64, hence \<open>sint\<close> where a character is compared with an \<^verbatim>\<open>int\<close>.

  The lemmas state the result of each routine in terms of \<open>cstr\<close>, the contents of a
  NUL-terminated string, and that no routine leaves its buffers when its arguments are strings
  in buffers of sufficient size.
\<close>

section \<open>Reading routines\<close>

fun strlen :: "byte list \<Rightarrow> nat option" where
  "strlen [] = None"
| "strlen (c # s) = (if c = 0 then Some 0 else map_option Suc (strlen s))"

text \<open>\<^verbatim>\<open>strnlen\<close> tests its argument for NULL.\<close>

fun strnlen_loop :: "byte list \<Rightarrow> nat \<Rightarrow> nat option" where
  "strnlen_loop s 0 = Some 0"
| "strnlen_loop [] (Suc n) = None"
| "strnlen_loop (c # s) (Suc n) = (if c = 0 then Some 0 else map_option Suc (strnlen_loop s n))"

definition strnlen :: "byte list option \<Rightarrow> nat \<Rightarrow> nat option" where
  "strnlen s sz = (case s of None \<Rightarrow> Some 0 | Some p \<Rightarrow> strnlen_loop p sz)"

fun strncmp :: "byte list \<Rightarrow> byte list \<Rightarrow> nat \<Rightarrow> int option" where
  "strncmp p q 0 = Some 0"
| "strncmp [] q (Suc n) = None"
| "strncmp (a # p) [] (Suc n) = None"
| "strncmp (a # p) (b # q) (Suc n) =
     (if a \<noteq> 0 \<and> a = b then strncmp p q n else Some (uint a - uint b))"

definition strcmp :: "byte list \<Rightarrow> byte list \<Rightarrow> int option" where
  "strcmp p q = (case strlen p of None \<Rightarrow> None | Some np \<Rightarrow>
     (case strlen q of None \<Rightarrow> None | Some nq \<Rightarrow> strncmp p q (min np nq + 1)))"

fun strncasecmp :: "byte list \<Rightarrow> byte list \<Rightarrow> nat \<Rightarrow> int option" where
  "strncasecmp p q 0 = Some 0"
| "strncasecmp [] q (Suc n) = None"
| "strncasecmp (a # p) [] (Suc n) = None"
| "strncasecmp (a # p) (b # q) (Suc n) =
     (if a \<noteq> 0 \<and> tolower (sint a) = tolower (sint b) then strncasecmp p q n
      else Some (uint a - uint b))"

definition strcasecmp :: "byte list \<Rightarrow> byte list \<Rightarrow> int option" where
  "strcasecmp p q = (case strlen p of None \<Rightarrow> None | Some np \<Rightarrow>
     (case strlen q of None \<Rightarrow> None | Some nq \<Rightarrow> strncasecmp p q (min np nq)))"

text \<open>\<open>strstr_at\<close> is the inner loop: does the second string match at this position?\<close>

fun strstr_at :: "byte list \<Rightarrow> byte list \<Rightarrow> bool option" where
  "strstr_at p1 [] = None"
| "strstr_at p1 (b # p2) =
     (if b = 0 then Some True
      else (case p1 of [] \<Rightarrow> None | a # p1' \<Rightarrow> if a = b then strstr_at p1' p2 else Some False))"

fun strstr :: "byte list \<Rightarrow> byte list \<Rightarrow> nat option option" where
  "strstr [] s2 = None"
| "strstr (c # s1) s2 =
     (if c = 0 then Some None
      else (case strstr_at (c # s1) s2 of
              None \<Rightarrow> None
            | Some True \<Rightarrow> Some (Some 0)
            | Some False \<Rightarrow> map_option (map_option Suc) (strstr s1 s2)))"

fun strchr :: "byte list \<Rightarrow> int \<Rightarrow> nat option option" where
  "strchr [] c = None"
| "strchr (x # s) c =
     (if x = 0 then Some None
      else if sint x = c then Some (Some 0)
      else map_option (map_option Suc) (strchr s c))"

fun strrchr_loop :: "byte list \<Rightarrow> int \<Rightarrow> nat \<Rightarrow> nat option" where
  "strrchr_loop s c 0 = None"
| "strrchr_loop s c (Suc i) = (if sint (s ! i) = c then Some i else strrchr_loop s c i)"

definition strrchr :: "byte list \<Rightarrow> int \<Rightarrow> nat option option" where
  "strrchr s c = map_option (strrchr_loop s c) (strlen s)"

fun memcmp :: "byte list \<Rightarrow> byte list \<Rightarrow> nat \<Rightarrow> int option" where
  "memcmp v1 v2 0 = Some 0"
| "memcmp [] v2 (Suc n) = None"
| "memcmp (a # v1) [] (Suc n) = None"
| "memcmp (a # v1) (b # v2) (Suc n) = (if a \<noteq> b then Some (uint a - uint b) else memcmp v1 v2 n)"

text \<open>\<open>in_str\<close> is the scan of the second argument in the three routines below.\<close>

fun in_str :: "byte \<Rightarrow> byte list \<Rightarrow> bool option" where
  "in_str c [] = None"
| "in_str c (b # p) = (if b = 0 then Some False else if c = b then Some True else in_str c p)"

fun strcspn :: "byte list \<Rightarrow> byte list \<Rightarrow> nat option" where
  "strcspn [] s2 = None"
| "strcspn (c # s1) s2 =
     (if c = 0 then Some 0
      else (case in_str c s2 of None \<Rightarrow> None | Some True \<Rightarrow> Some 0
            | Some False \<Rightarrow> map_option Suc (strcspn s1 s2)))"

fun strspn :: "byte list \<Rightarrow> byte list \<Rightarrow> nat option" where
  "strspn [] s2 = None"
| "strspn (c # s1) s2 =
     (if c = 0 then Some 0
      else (case in_str c s2 of None \<Rightarrow> None | Some False \<Rightarrow> Some 0
            | Some True \<Rightarrow> map_option Suc (strspn s1 s2)))"

fun strpbrk :: "byte list \<Rightarrow> byte list \<Rightarrow> nat option option" where
  "strpbrk [] s2 = None"
| "strpbrk (c # s1) s2 =
     (if c = 0 then Some None
      else (case in_str c s2 of None \<Rightarrow> None | Some True \<Rightarrow> Some (Some 0)
            | Some False \<Rightarrow> map_option (map_option Suc) (strpbrk s1 s2)))"

section \<open>Writing routines\<close>

fun strcpy :: "byte list \<Rightarrow> byte list \<Rightarrow> byte list option" where
  "strcpy s [] = None"
| "strcpy [] (c # t) = None"
| "strcpy (d # s) (c # t) = (if c = 0 then Some (0 # s) else map_option ((#) c) (strcpy s t))"

fun pad0 :: "byte list \<Rightarrow> nat \<Rightarrow> byte list option" where
  "pad0 dst 0 = Some dst"
| "pad0 [] (Suc n) = None"
| "pad0 (d # dst) (Suc n) = map_option ((#) 0) (pad0 dst n)"

fun strncpy :: "byte list \<Rightarrow> byte list \<Rightarrow> nat \<Rightarrow> byte list option" where
  "strncpy dst src 0 = Some dst"
| "strncpy dst [] (Suc n) = None"
| "strncpy dst (c # src) (Suc n) =
     (if c \<noteq> 0 then (case dst of [] \<Rightarrow> None | d # dst' \<Rightarrow> map_option ((#) c) (strncpy dst' src n))
      else pad0 dst (Suc n))"

text \<open>
  \<^verbatim>\<open>stpncpy\<close> counts with a \<^verbatim>\<open>size_t\<close> that \<^verbatim>\<open>n-- > 0\<close> decrements once more when it fails:
  from 0 it wraps to \<open>2 ^ 64 - 1\<close>. \<open>stpncpy_copy\<close> is the first loop; it returns the bytes
  written, the rest of the destination and the counter. The second loop,
  \<^verbatim>\<open>while (n-- > 1)\<close>, runs \<open>n - 1\<close> times.
\<close>

fun stpncpy_copy :: "byte list \<Rightarrow> byte list \<Rightarrow> nat \<Rightarrow> (byte list \<times> byte list \<times> nat) option" where
  "stpncpy_copy dst src 0 = Some ([], dst, 2 ^ 64 - 1)"
| "stpncpy_copy dst [] (Suc n) = None"
| "stpncpy_copy [] (c # src) (Suc n) = None"
| "stpncpy_copy (d # dst) (c # src) (Suc n) =
     (if c \<noteq> 0 then map_option (\<lambda>(w, r, m). (c # w, r, m)) (stpncpy_copy dst src n)
      else Some ([c], dst, n))"

definition stpncpy :: "byte list \<Rightarrow> byte list \<Rightarrow> nat \<Rightarrow> (byte list \<times> nat) option" where
  "stpncpy dst src n = (case stpncpy_copy dst src n of None \<Rightarrow> None
     | Some (w, r, m) \<Rightarrow> map_option (\<lambda>r'. (w @ r', length w + (m - 1))) (pad0 r (m - 1)))"

text \<open>
  \<^verbatim>\<open>strtok\<close> keeps its position in a static variable, an offset into the string here. It
  overwrites the delimiter after the token with a NUL.
\<close>

definition is_delim :: "byte list \<Rightarrow> byte \<Rightarrow> bool" where
  "is_delim delim c = (case strchr delim (sint c) of Some (Some _) \<Rightarrow> True | _ \<Rightarrow> False)"

fun span_len :: "(byte \<Rightarrow> bool) \<Rightarrow> byte list \<Rightarrow> nat option" where
  "span_len P [] = None"
| "span_len P (c # s) = (if c \<noteq> 0 \<and> P c then map_option Suc (span_len P s) else Some 0)"

definition strtok ::
  "nat option \<Rightarrow> byte list \<Rightarrow> byte list \<Rightarrow> nat option \<Rightarrow> (nat option \<times> byte list \<times> nat option) option"
where
  "strtok str buf delim token =
     (let token = (case str of None \<Rightarrow> token | Some p \<Rightarrow> Some p) in
      case token of None \<Rightarrow> Some (None, buf, token)
      | Some t \<Rightarrow> (if strlen delim = None then None else
         (case span_len (is_delim delim) (drop t buf) of None \<Rightarrow> None | Some k \<Rightarrow>
           (if buf ! (t + k) = 0 then Some (None, buf, Some (t + k))
            else (case span_len (\<lambda>c. \<not> is_delim delim c) (drop (t + k) buf) of None \<Rightarrow> None
                  | Some m \<Rightarrow>
                     (if buf ! (t + k + m) \<noteq> 0
                      then Some (Some (t + k), buf[t + k + m := 0], Some (t + k + m + 1))
                      else Some (Some (t + k), buf, Some (t + k + m))))))))"

text \<open>
  \<^verbatim>\<open>memset\<close> stores 32-bit words when address and length are multiples of four (\<^verbatim>\<open>stosl\<close>),
  bytes otherwise (\<^verbatim>\<open>stosb\<close>).
\<close>

definition le32 :: "u32 \<Rightarrow> byte list" where
  "le32 w = [ucast w, ucast (drop_bit 8 w), ucast (drop_bit 16 w), ucast (drop_bit 24 w)]"

fun stosl :: "byte list \<Rightarrow> u32 \<Rightarrow> nat \<Rightarrow> byte list option" where
  "stosl dst w 0 = Some dst"
| "stosl dst w (Suc n) =
     (if length dst < 4 then None else map_option ((@) (le32 w)) (stosl (drop 4 dst) w n))"

fun stosb :: "byte list \<Rightarrow> byte \<Rightarrow> nat \<Rightarrow> byte list option" where
  "stosb dst b 0 = Some dst"
| "stosb [] b (Suc n) = None"
| "stosb (d # dst) b (Suc n) = map_option ((#) b) (stosb dst b n)"

definition memset_word :: "u32 \<Rightarrow> u32" where
  "memset_word c = (let c = c AND 0xFF in push_bit 24 c OR push_bit 16 c OR push_bit 8 c OR c)"

definition memset :: "nat \<Rightarrow> byte list \<Rightarrow> u32 \<Rightarrow> nat \<Rightarrow> byte list option" where
  "memset addr dst c n =
     (if addr mod 4 = 0 \<and> n mod 4 = 0
      then stosl dst (memset_word c) (n div 4)
      else stosb dst (ucast c) n)"

text \<open>
  \<^verbatim>\<open>memmove\<close> within one object: \<open>d\<close> and \<open>s\<close> are the offsets of destination and source.
\<close>

fun copy_forward :: "byte list \<Rightarrow> nat \<Rightarrow> nat \<Rightarrow> nat \<Rightarrow> byte list" where
  "copy_forward buf d s 0 = buf"
| "copy_forward buf d s (Suc n) = copy_forward (buf[d := buf ! s]) (Suc d) (Suc s) n"

fun copy_backward :: "byte list \<Rightarrow> nat \<Rightarrow> nat \<Rightarrow> nat \<Rightarrow> byte list" where
  "copy_backward buf d s 0 = buf"
| "copy_backward buf d s (Suc n) = copy_backward (buf[d + n := buf ! (s + n)]) d s n"

definition memmove :: "byte list \<Rightarrow> nat \<Rightarrow> nat \<Rightarrow> nat \<Rightarrow> byte list option" where
  "memmove buf d s n =
     (if d = s \<or> n = 0 then Some buf
      else if length buf < d + n \<or> length buf < s + n then None
      else if d < s then Some (copy_forward buf d s n)
      else Some (copy_backward buf d s n))"

text \<open>\<^verbatim>\<open>memcpy\<close> copies between distinct objects, eight bytes at a time when it can.\<close>

fun movsb :: "byte list \<Rightarrow> byte list \<Rightarrow> nat \<Rightarrow> byte list option" where
  "movsb dst src 0 = Some dst"
| "movsb [] src (Suc n) = None"
| "movsb (d # dst) [] (Suc n) = None"
| "movsb (d # dst) (c # src) (Suc n) = map_option ((#) c) (movsb dst src n)"

fun movsq :: "byte list \<Rightarrow> byte list \<Rightarrow> nat \<Rightarrow> byte list option" where
  "movsq dst src 0 = Some dst"
| "movsq dst src (Suc n) =
     (if length dst < 8 \<or> length src < 8 then None
      else map_option ((@) (take 8 src)) (movsq (drop 8 dst) (drop 8 src) n))"

definition memcpy :: "byte list \<Rightarrow> byte list \<Rightarrow> nat \<Rightarrow> byte list option" where
  "memcpy dst src n = (if n mod 8 = 0 then movsq dst src (n div 8) else movsb dst src n)"

definition stpcpy :: "byte list \<Rightarrow> byte list \<Rightarrow> (byte list \<times> nat) option" where
  "stpcpy dst src = (case strlen src of None \<Rightarrow> None | Some n \<Rightarrow>
     (case memcpy dst src n of None \<Rightarrow> None | Some dst' \<Rightarrow>
        (if n < length dst' then Some (dst'[n := 0], n) else None)))"

definition strcat :: "byte list \<Rightarrow> byte list \<Rightarrow> byte list option" where
  "strcat dst src = (case strlen dst of None \<Rightarrow> None | Some k \<Rightarrow>
     map_option (\<lambda>(tail, _). take k dst @ tail) (stpcpy (drop k dst) src))"

definition strncat :: "byte list \<Rightarrow> byte list \<Rightarrow> nat \<Rightarrow> byte list option" where
  "strncat dst src n = (case strlen dst of None \<Rightarrow> None | Some start \<Rightarrow>
     map_option ((@) (take start dst)) (movsb (drop start dst) src n))"

fun safestrcpy_loop :: "byte list \<Rightarrow> byte list \<Rightarrow> nat \<Rightarrow> byte list option" where
  "safestrcpy_loop [] t n = None"
| "safestrcpy_loop (d # s) t 0 = Some (0 # s)"
| "safestrcpy_loop (d # s) [] (Suc n) = None"
| "safestrcpy_loop (d # s) (c # t) (Suc n) =
     (if c \<noteq> 0 then map_option ((#) c) (safestrcpy_loop s t n)
      else (case s of [] \<Rightarrow> None | d' # s' \<Rightarrow> Some (0 # 0 # s')))"

definition safestrcpy :: "byte list \<Rightarrow> byte list \<Rightarrow> nat \<Rightarrow> byte list option" where
  "safestrcpy s t n = (if n = 0 then Some s else safestrcpy_loop s t (n - 1))"

definition strlcpy_nostrlen :: "byte list \<Rightarrow> byte list \<Rightarrow> nat \<Rightarrow> nat \<Rightarrow> byte list option" where
  "strlcpy_nostrlen dst src dst_len src_len = safestrcpy dst src (min dst_len src_len)"

text \<open>The user-space \<^verbatim>\<open>strcmp\<close> of \<^verbatim>\<open>userspace/libc/string.c\<close>, a single loop.\<close>

fun libc_strcmp :: "byte list \<Rightarrow> byte list \<Rightarrow> int option" where
  "libc_strcmp [] q = None"
| "libc_strcmp (a # p) [] = None"
| "libc_strcmp (a # p) (b # q) =
     (if a \<noteq> 0 \<and> a = b then libc_strcmp p q else Some (uint a - uint b))"

section \<open>The contents of a string\<close>

definition cstr :: "byte list \<Rightarrow> byte list" where
  "cstr s = takeWhile (\<lambda>c. c \<noteq> 0) s"

definition is_cstr :: "byte list \<Rightarrow> bool" where
  "is_cstr s \<longleftrightarrow> 0 \<in> set s"

named_theorems cstr_simps \<open>results of the string routines in terms of string contents\<close>

lemma cstr_Nil [simp, cstr_simps]: "cstr [] = []"
  by (simp add: cstr_def)

lemma cstr_Cons [simp, cstr_simps]: "cstr (c # s) = (if c = 0 then [] else c # cstr s)"
  by (simp add: cstr_def)

lemma is_cstr_Nil [simp, cstr_simps]: "\<not> is_cstr []"
  by (simp add: is_cstr_def)

lemma is_cstr_Cons [simp, cstr_simps]: "is_cstr (c # s) \<longleftrightarrow> c = 0 \<or> is_cstr s"
  by (auto simp: is_cstr_def)

lemma cstr_no_NUL: "0 \<notin> set (cstr s)"
  unfolding cstr_def using set_takeWhileD by fastforce

lemma length_cstr_less: "is_cstr s \<Longrightarrow> length (cstr s) < length s"
  by (induction s) auto

lemma length_cstr_le: "length (cstr s) \<le> length s"
  by (simp add: cstr_def length_takeWhile_le)

lemma take_length_cstr: "take (length (cstr s)) s = cstr s"
  by (simp add: cstr_def takeWhile_eq_take [symmetric])

lemma nth_length_cstr: "is_cstr s \<Longrightarrow> s ! length (cstr s) = 0"
  by (induction s) auto

lemma cstr_append_NUL: "0 \<notin> set u \<Longrightarrow> cstr (u @ 0 # s) = u"
  by (induction u) auto

lemma cstr_decomp: "is_cstr s \<Longrightarrow> s = cstr s @ 0 # drop (Suc (length (cstr s))) s"
  by (induction s) auto

lemma strlen_eq [cstr_simps]: "strlen s = (if is_cstr s then Some (length (cstr s)) else None)"
  by (induction s) auto

lemma in_str_eq [cstr_simps]: "is_cstr s \<Longrightarrow> in_str c s = Some (c \<in> set (cstr s))"
  by (induction s) auto

section \<open>Comparison\<close>

text \<open>The order of strings: lexicographic on their contents as unsigned bytes.\<close>

definition cstr_less :: "byte list \<Rightarrow> byte list \<Rightarrow> bool" where
  "cstr_less p q \<longleftrightarrow> (cstr p, cstr q) \<in> lexord {(a, b). uint a < uint b}"

lemma uint_pos: "b \<noteq> 0 \<Longrightarrow> 0 < uint (b :: byte)"
  by (metis uint_0_iff uint_nonnegative order_le_less)

lemma libc_strcmp_total: "is_cstr p \<Longrightarrow> is_cstr q \<Longrightarrow> \<exists>r. libc_strcmp p q = Some r"
proof (induction p q rule: libc_strcmp.induct)
  case (3 a p b q)
  then show ?case by (cases "a \<noteq> 0 \<and> a = b") auto
qed auto

lemma libc_strcmp_zero:
  "is_cstr p \<Longrightarrow> is_cstr q \<Longrightarrow> libc_strcmp p q = Some r \<Longrightarrow> r = 0 \<longleftrightarrow> cstr p = cstr q"
  by (induction p q rule: libc_strcmp.induct) (auto split: if_splits)

lemma libc_strcmp_less:
  "is_cstr p \<Longrightarrow> is_cstr q \<Longrightarrow> libc_strcmp p q = Some r \<Longrightarrow> r < 0 \<longleftrightarrow> cstr_less p q"
proof (induction p q rule: libc_strcmp.induct)
  case (3 a p b q)
  then show ?case
    by (cases "a \<noteq> 0 \<and> a = b") (auto simp: cstr_less_def uint_pos split: if_splits)
qed auto

lemma strncmp_enough:
  "is_cstr p \<Longrightarrow> is_cstr q \<Longrightarrow> min (length (cstr p)) (length (cstr q)) < n \<Longrightarrow>
   strncmp p q n = libc_strcmp p q"
proof (induction p q n rule: strncmp.induct)
  case (4 a p b q n)
  then show ?case by (cases "a \<noteq> 0 \<and> a = b") auto
qed auto

lemma strcmp_eq_libc: "is_cstr p \<Longrightarrow> is_cstr q \<Longrightarrow> strcmp p q = libc_strcmp p q"
  by (simp add: strcmp_def strlen_eq strncmp_enough)

lemma strncmp_zero_iff:
  "n \<le> length p \<Longrightarrow> n \<le> length q \<Longrightarrow>
   strncmp p q n = Some 0 \<longleftrightarrow> take n (cstr p) = take n (cstr q)"
proof (induction p q n rule: strncmp.induct)
  case (4 a p b q n)
  then show ?case by (cases "a \<noteq> 0 \<and> a = b") auto
qed auto

lemma strncmp_total:
  "is_cstr p \<or> n \<le> length p \<Longrightarrow> is_cstr q \<or> n \<le> length q \<Longrightarrow> \<exists>r. strncmp p q n = Some r"
proof (induction p q n rule: strncmp.induct)
  case (4 a p b q n)
  then show ?case by (cases "a \<noteq> 0 \<and> a = b") auto
qed auto

lemma strncmp_zero_cstr:
  "is_cstr p \<or> n \<le> length p \<Longrightarrow> is_cstr q \<or> n \<le> length q \<Longrightarrow>
   strncmp p q n = Some 0 \<longleftrightarrow> take n (cstr p) = take n (cstr q)"
proof (induction p q n rule: strncmp.induct)
  case (4 a p b q n)
  then show ?case by (cases "a \<noteq> 0 \<and> a = b") auto
qed auto

lemma memcmp_zero_iff:
  "n \<le> length p \<Longrightarrow> n \<le> length q \<Longrightarrow> memcmp p q n = Some 0 \<longleftrightarrow> take n p = take n q"
proof (induction p q n rule: memcmp.induct)
  case (4 a p b q n)
  then show ?case by (cases "a = b") auto
qed auto

text \<open>
  \<^verbatim>\<open>strcasecmp\<close> bounds the comparison by the shorter length without the terminator, so a string
  equals each of its extensions.
\<close>

lemma strncasecmp_prefix:
  "n \<le> length (cstr p) \<Longrightarrow> n \<le> length (cstr q) \<Longrightarrow>
   take n (cstr p) = take n (cstr q) \<Longrightarrow> strncasecmp p q n = Some 0"
  by (induction p q n rule: strncasecmp.induct) (auto split: if_splits)

lemma strcasecmp_extension:
  "is_cstr p \<Longrightarrow> is_cstr q \<Longrightarrow> cstr q = cstr p @ u \<Longrightarrow> strcasecmp p q = Some 0"
  by (simp add: strcasecmp_def strlen_eq strncasecmp_prefix)

section \<open>Searching\<close>

lemma strchr_eq:
  "is_cstr s \<Longrightarrow> strchr s c = Some (first_index (\<lambda>x. sint x = c) (cstr s))"
  by (induction s) auto

lemma is_delim_iff: "is_cstr delim \<Longrightarrow> is_delim delim c \<longleftrightarrow> c \<in> set (cstr delim)"
  by (auto simp: is_delim_def strchr_eq first_index_None_iff dest!: first_index_SomeD
           split: option.splits)

lemma strrchr_loop_Some:
  "strrchr_loop s c n = Some i \<Longrightarrow> i < n \<and> sint (s ! i) = c \<and> (\<forall>j. i < j \<and> j < n \<longrightarrow> sint (s ! j) \<noteq> c)"
  by (induction n) (auto split: if_splits simp: less_Suc_eq)

lemma strrchr_loop_None: "strrchr_loop s c n = None \<longleftrightarrow> (\<forall>j<n. sint (s ! j) \<noteq> c)"
  by (induction n) (auto simp: less_Suc_eq)

text \<open>\<open>occurs_at\<close>: the contents of the second string occur in the first at an offset.\<close>

definition occurs_at :: "byte list \<Rightarrow> byte list \<Rightarrow> nat \<Rightarrow> bool" where
  "occurs_at s2 s1 i \<longleftrightarrow> take (length (cstr s2)) (drop i (cstr s1)) = cstr s2"

lemma strstr_at_eq:
  "is_cstr s1 \<Longrightarrow> is_cstr s2 \<Longrightarrow> strstr_at s1 s2 = Some (occurs_at s2 s1 0)"
proof (induction s1 s2 rule: strstr_at.induct)
  case (2 p1 b p2)
  then show ?case
    by (cases p1) (auto simp: occurs_at_def)
qed simp

lemma strstr_eq:
  "is_cstr s1 \<Longrightarrow> is_cstr s2 \<Longrightarrow>
   strstr s1 s2 = Some (first_index (occurs_at s2 s1) [0..<length (cstr s1)])"
proof (induction s1)
  case (Cons c s1)
  have shift: "first_index (occurs_at s2 (c # s1)) [1..<Suc n] = first_index (occurs_at s2 s1) [0..<n]"
    if "c \<noteq> 0" for n
  proof -
    have "first_index P (map Suc xs) = first_index (\<lambda>i. P (Suc i)) xs" for P xs
      by (induction xs) auto
    then have "first_index (occurs_at s2 (c # s1)) [1..<Suc n] =
        first_index (\<lambda>i. occurs_at s2 (c # s1) (Suc i)) [0..<n]"
      by (metis One_nat_def map_Suc_upt)
    also have "\<dots> = first_index (occurs_at s2 s1) [0..<n]"
      using that by (simp add: occurs_at_def [abs_def])
    finally show ?thesis .
  qed
  from Cons show ?case
    using shift [of "length (cstr s1)"]
    by (auto simp: strstr_at_eq upt_conv_Cons simp del: upt_Suc split: bool.splits)
qed simp

lemma strcspn_eq: "is_cstr s1 \<Longrightarrow> is_cstr s2 \<Longrightarrow>
   strcspn s1 s2 = Some (length (takeWhile (\<lambda>c. c \<notin> set (cstr s2)) (cstr s1)))"
  by (induction s1) (auto simp: in_str_eq)

lemma strspn_eq: "is_cstr s1 \<Longrightarrow> is_cstr s2 \<Longrightarrow>
   strspn s1 s2 = Some (length (takeWhile (\<lambda>c. c \<in> set (cstr s2)) (cstr s1)))"
  by (induction s1) (auto simp: in_str_eq)

lemma strpbrk_eq: "is_cstr s1 \<Longrightarrow> is_cstr s2 \<Longrightarrow>
   strpbrk s1 s2 = Some (first_index (\<lambda>c. c \<in> set (cstr s2)) (cstr s1))"
  by (induction s1) (auto simp: in_str_eq)

lemma span_len_eq:
  "is_cstr s \<Longrightarrow> span_len P s = Some (length (takeWhile P (cstr s)))"
  by (induction s) auto

section \<open>Copying\<close>

lemma pad0_eq: "pad0 dst n = (if n \<le> length dst then Some (replicate n 0 @ drop n dst) else None)"
  by (induction dst n rule: pad0.induct) auto

lemma movsb_eq:
  "movsb dst src n =
     (if n \<le> length dst \<and> n \<le> length src then Some (take n src @ drop n dst) else None)"
  by (induction dst src n rule: movsb.induct) auto

lemma movsq_eq:
  "movsq dst src n =
     (if 8 * n \<le> length dst \<and> 8 * n \<le> length src
      then Some (take (8 * n) src @ drop (8 * n) dst) else None)"
proof (induction n arbitrary: dst src)
  case (Suc n)
  show ?case
    by (auto simp: Suc take_add add.commute)
qed simp

lemma memcpy_eq:
  "memcpy dst src n =
     (if n \<le> length dst \<and> n \<le> length src then Some (take n src @ drop n dst) else None)"
  by (auto simp: memcpy_def movsb_eq movsq_eq mult_div_exact)

lemma stpcpy_eq:
  assumes "is_cstr src" and "length (cstr src) < length dst"
  shows "stpcpy dst src =
    Some (cstr src @ 0 # drop (Suc (length (cstr src))) dst, length (cstr src))"
proof -
  have "length (cstr src) < length src"
    using assms(1) by (rule length_cstr_less)
  moreover have "(cstr src @ drop (length (cstr src)) dst)[length (cstr src) := 0] =
      cstr src @ 0 # drop (Suc (length (cstr src))) dst"
    using assms(2) by (simp add: list_update_append Cons_nth_drop_Suc [symmetric])
  ultimately show ?thesis
    using assms by (simp add: stpcpy_def strlen_eq memcpy_eq take_length_cstr)
qed

lemma strcpy_eq:
  "is_cstr src \<Longrightarrow> length (cstr src) < length dst \<Longrightarrow>
   strcpy dst src = Some (cstr src @ 0 # drop (Suc (length (cstr src))) dst)"
  by (induction dst src rule: strcpy.induct) auto

lemma strcat_eq:
  assumes "is_cstr dst" and "is_cstr src" and "length (cstr dst) + length (cstr src) < length dst"
  shows "\<exists>r. strcat dst src = Some r \<and> length r = length dst \<and> cstr r = cstr dst @ cstr src"
proof -
  let ?k = "length (cstr dst)" and ?m = "length (cstr src)"
  let ?r = "cstr dst @ cstr src @ 0 # drop (Suc (?k + ?m)) dst"
  have "strcat dst src = Some ?r"
    using assms
    by (simp add: strcat_def strlen_eq stpcpy_eq take_length_cstr ac_simps)
  moreover have "cstr ?r = cstr dst @ cstr src"
    using cstr_append_NUL [of "cstr dst @ cstr src"] by (simp add: cstr_no_NUL)
  moreover have "length ?r = length dst"
    using assms(3) by simp
  ultimately show ?thesis by blast
qed

lemma strncpy_eq:
  "n \<le> length dst \<Longrightarrow> is_cstr src \<or> n \<le> length src \<Longrightarrow>
   strncpy dst src n = Some (take n (cstr src @ replicate n 0) @ drop n dst)"
proof (induction dst src n rule: strncpy.induct)
  case (3 dst c src n)
  then show ?case
    by (cases dst) (auto simp: pad0_eq replicate_append_same [symmetric])
qed auto

lemma strncat_overrun:
  "is_cstr dst \<Longrightarrow> length src < n \<Longrightarrow> strncat dst src n = None"
  by (simp add: strncat_def strlen_eq movsb_eq)

lemma safestrcpy_loop_eq:
  "n < length s \<Longrightarrow> is_cstr t \<or> n \<le> length t \<Longrightarrow>
   \<exists>r. safestrcpy_loop s t n = Some r \<and> length r = length s \<and>
       cstr r = take n (cstr t) \<and> drop (Suc n) r = drop (Suc n) s"
proof (induction s t n rule: safestrcpy_loop.induct)
  case (4 d s c t n)
  then show ?case
    by (cases "c \<noteq> 0") (auto split: list.splits)
qed auto

text \<open>
  When the source fills all \<open>n\<close> bytes the counter of \<^verbatim>\<open>stpncpy\<close> wraps around and the padding loop
  leaves any buffer of realistic size.
\<close>

lemma stpncpy_copy_full:
  "n \<le> length dst \<Longrightarrow> n \<le> length (cstr src) \<Longrightarrow>
   stpncpy_copy dst src n = Some (take n src, drop n dst, 2 ^ 64 - 1)"
  by (induction dst src n rule: stpncpy_copy.induct) (auto split: if_splits)

lemma stpncpy_wraps:
  assumes "n \<le> length (cstr src)" and "n \<le> length dst" and "length dst < 2 ^ 64 - 2"
  shows "stpncpy dst src n = None"
  using assms by (simp add: stpncpy_def stpncpy_copy_full pad0_eq)

section \<open>Filling and moving\<close>

lemma stosb_eq: "stosb dst b n = (if n \<le> length dst then Some (replicate n b @ drop n dst) else None)"
  by (induction dst b n rule: stosb.induct) auto

lemma le32_repeat: "le32 (memset_word c) = replicate 4 (ucast c)"
proof -
  have low: "c AND 0xFF = take_bit 8 c"
    by (simp add: take_bit_eq_mask mask_eq_exp_minus_1)
  have bits: "bit (memset_word c) (8 * k + j) \<longleftrightarrow> bit c j" if "k < 4" "j < 8" for k j
  proof -
    from \<open>k < 4\<close> have "k \<in> {0, 1, 2, 3}" by auto
    then show ?thesis
      using \<open>j < 8\<close> unfolding memset_word_def low Let_def
      by (auto simp: bit_simps)
  qed
  have "ucast (drop_bit (8 * k) (memset_word c)) = (ucast c :: byte)" if "k < 4" for k
    using that by (intro bit_word_eqI) (simp add: bit_simps bits)
  from this [of 0] this [of 1] this [of 2] this [of 3] show ?thesis
    by (simp add: le32_def numeral_eq_Suc)
qed

lemma stosl_eq:
  "le32 w = replicate 4 b \<Longrightarrow>
   stosl dst w n = (if 4 * n \<le> length dst then Some (replicate (4 * n) b @ drop (4 * n) dst) else None)"
proof (induction n arbitrary: dst)
  case (Suc n)
  then show ?case
    by (auto simp: replicate_add [symmetric] add.commute simp flip: append_assoc)
qed simp

lemma memset_eq:
  "memset addr dst c n =
     (if n \<le> length dst then Some (replicate n (ucast c) @ drop n dst) else None)"
  by (auto simp: memset_def stosb_eq stosl_eq [OF le32_repeat] mult_div_exact)

lemma copy_forward_eq:
  "d < s \<Longrightarrow> s + n \<le> length buf \<Longrightarrow> copy_forward buf d s n = blit d (take n (drop s buf)) buf"
proof (induction n arbitrary: buf d s)
  case (Suc n)
  let ?b = "buf[d := buf ! s]"
  have "copy_forward buf d s (Suc n) = blit (Suc d) (take n (drop (Suc s) ?b)) ?b"
    using Suc.prems by (simp add: Suc.IH)
  also have "take n (drop (Suc s) ?b) = take n (drop (Suc s) buf)"
    using Suc.prems by simp
  also have "blit (Suc d) (take n (drop (Suc s) buf)) ?b = blit d (take (Suc n) (drop s buf)) buf"
    using Suc.prems
    by (intro nth_equalityI)
       (auto simp: nth_blit nth_list_update nth_Cons' Suc_le_eq simp flip: Cons_nth_drop_Suc)
  finally show ?case .
qed (simp add: blit_def)

lemma copy_backward_eq:
  "s \<le> d \<Longrightarrow> d + n \<le> length buf \<Longrightarrow> copy_backward buf d s n = blit d (take n (drop s buf)) buf"
proof (induction n arbitrary: buf)
  case (Suc n)
  let ?b = "buf[d + n := buf ! (s + n)]"
  have "copy_backward buf d s (Suc n) = blit d (take n (drop s ?b)) ?b"
    using Suc.prems by (simp add: Suc.IH)
  also have "take n (drop s ?b) = take n (drop s buf)"
    using Suc.prems by (auto simp: list_eq_iff_nth_eq nth_list_update)
  also have "blit d (take n (drop s buf)) ?b = blit d (take (Suc n) (drop s buf)) buf"
  proof -
    have len: "length (take (Suc n) (drop s buf)) = Suc n" "length (take n (drop s buf)) = n"
      using Suc.prems by auto
    then show ?thesis
      using Suc.prems
      by (intro nth_equalityI) (auto simp: nth_blit nth_list_update len simp del: length_take)
  qed
  finally show ?case .
qed (simp add: blit_def)

lemma memmove_eq:
  assumes "d + n \<le> length buf" and "s + n \<le> length buf"
  shows "memmove buf d s n = Some (blit d (take n (drop s buf)) buf)"
proof (cases "d = s")
  case True
  with assms show ?thesis
    by (auto simp: memmove_def blit_def take_add [symmetric] add.commute
             simp flip: append_assoc take_drop intro!: sym [OF append_take_drop_id])
next
  case False
  with assms show ?thesis
    by (auto simp: memmove_def copy_forward_eq copy_backward_eq)
qed

section \<open>Tokens\<close>

text \<open>
  The string at the current position is split as \<open>a @ b @ c\<close>: leading delimiters, the token, and
  what follows it.
\<close>

lemma strtok_shape:
  assumes buf: "buf = pre @ a @ b @ c @ 0 # rest" and "is_cstr delim"
    and a: "set a \<subseteq> set (cstr delim)" and b: "set b \<inter> set (cstr delim) = {}"
    and nz: "0 \<notin> set (a @ b @ c)"
    and hd: "c \<noteq> [] \<Longrightarrow> hd c \<in> set (cstr delim)" and bc: "b = [] \<Longrightarrow> c = []"
  shows "strtok (Some (length pre)) buf delim tok = Some
    (if b = [] then (None, buf, Some (length (pre @ a)))
     else if c = [] then (Some (length (pre @ a)), buf, Some (length (pre @ a @ b)))
     else (Some (length (pre @ a)), pre @ a @ b @ 0 # tl c @ 0 # rest,
           Some (length (pre @ a @ b) + 1)))"
proof -
  have P: "is_delim delim x \<longleftrightarrow> x \<in> set (cstr delim)" for x
    using assms(2) by (rule is_delim_iff)
  have span: "span_len Q (u @ v @ 0 # rest) = Some (length u)"
    if "\<forall>x\<in>set u. Q x" "0 \<notin> set u" "v \<noteq> [] \<Longrightarrow> \<not> Q (hd v)" for Q u v
    using that by (induction u) (cases v, auto)
  have k: "span_len (is_delim delim) (a @ (b @ c) @ 0 # rest) = Some (length a)"
    using a b nz bc by (intro span) (auto simp: P hd_append disjoint_iff)
  have m: "span_len (\<lambda>x. \<not> is_delim delim x) (b @ c @ 0 # rest) = Some (length b)"
    using b nz hd by (intro span) (auto simp: P)
  show ?thesis
    using k m nz bc assms(2)
    by (cases b; cases c) (auto simp: strtok_def buf strlen_eq nth_append list_update_append)
qed

section \<open>Properties\<close>



text \<open>
  C35: \<^verbatim>\<open>memmove\<close> within one object leaves in the destination range exactly the bytes the source
  range had before the call and changes nothing else, however the two ranges overlap.
\<close>

theorem memmove_moves:
  assumes "d + n \<le> length buf" and "s + n \<le> length buf"
  shows "\<exists>r. memmove buf d s n = Some r \<and> length r = length buf \<and>
    take n (drop d r) = take n (drop s buf) \<and>
    (\<forall>i. i < d \<or> d + n \<le> i \<longrightarrow> i < length buf \<longrightarrow> r ! i = buf ! i)"
  using assms by (auto simp: memmove_eq nth_blit)

theorem memmove_moves_witness:
  "\<exists>r. memmove [1, 2, 3, 4, 5] 1 0 4 = Some r \<and> take 4 (drop 1 r) = [1, 2, 3, 4]"
  using memmove_moves [of 1 4 "[1, 2, 3, 4, 5]" 0] by auto

text \<open>
  \<^verbatim>\<open>__safestrcpy\<close> into a buffer of at least \<open>n > 0\<close> bytes stays inside its first \<open>n\<close> bytes
  and leaves a NUL-terminated string there: the source's contents cut at \<open>n - 1\<close> characters.
\<close>

theorem safestrcpy_terminates:
  assumes "0 < n" and "n \<le> length s" and "is_cstr t \<or> n \<le> length t"
  shows "\<exists>r. safestrcpy s t n = Some r \<and> length r = length s \<and>
    cstr r = take (n - 1) (cstr t) \<and> length (cstr r) < n \<and> drop n r = drop n s"
proof -
  have "n - 1 < length s" and "is_cstr t \<or> n - 1 \<le> length t" and "Suc (n - 1) = n"
    using assms by auto
  then show ?thesis
    using safestrcpy_loop_eq [of "n - 1" s t] assms(1) by (auto simp: safestrcpy_def)
qed

theorem safestrcpy_terminates_witness:
  "\<exists>r. safestrcpy [9, 9, 9, 9] [97, 98, 99, 100, 0] 3 = Some r \<and> cstr r = [97, 98]"
  using safestrcpy_terminates [of 3 "[9, 9, 9, 9]" "[97, 98, 99, 100, 0]"] by auto

text \<open>
  \<^verbatim>\<open>stpncpy\<close> with a source of at least \<open>n\<close> characters never returns properly: its counter
  wraps around below zero and the padding loop writes past the end of every destination object.
\<close>

theorem stpncpy_overruns:
  assumes "n \<le> length (cstr src)" and "length dst < 2 ^ 64 - 2"
  shows "stpncpy dst src n = None"
proof (cases "n \<le> length dst")
  case True
  with assms show ?thesis by (intro stpncpy_wraps) auto
next
  case False
  have "stpncpy_copy dst src n = None" if "n \<le> length (cstr src)" "length dst < n" for dst src n
    using that by (induction dst src n rule: stpncpy_copy.induct) (auto split: if_splits)
  with assms False show ?thesis by (simp add: stpncpy_def)
qed

theorem stpncpy_overruns_witness: "stpncpy [0, 0, 0, 0] [97, 98, 0] 2 = None"
  using stpncpy_overruns [of 2 "[97, 98, 0]" "[0, 0, 0, 0]"] by simp

end
