(* ===== verification/Klib_Ring.thy ===== *)
theory Klib_Ring
  imports Relix_Prelude
begin

text \<open>
  First-in first-out buffers: the contract shared by the ring buffer and the linked queue of
  \<^verbatim>\<open>lib/\<close>, and the ring buffer of \<^verbatim>\<open>lib/ring_buffer.c\<close>, whose read and write counters are 64-bit
  words that wrap around.
\<close>

section \<open>The contract of a FIFO\<close>

text \<open>
  \<open>put\<close> fails when the buffer has no room, \<open>get\<close> when it is empty. \<open>item\<close> is the stored value of
  an argument of \<open>put\<close>, which may carry more (the node an allocator returned).
\<close>

datatype 'i fifo_op = Put 'i | Get

locale fifo =
  fixes inv :: "'s \<Rightarrow> bool"
    and contents :: "'s \<Rightarrow> 'a list"
    and item :: "'i \<Rightarrow> 'a"
    and put :: "'i \<Rightarrow> 's \<Rightarrow> 's option"
    and get :: "'s \<Rightarrow> ('a \<times> 's) option"
  assumes put_Some: "inv s \<Longrightarrow> put x s = Some s' \<Longrightarrow> inv s' \<and> contents s' = contents s @ [item x]"
    and get_None: "inv s \<Longrightarrow> get s = None \<longleftrightarrow> contents s = []"
    and get_Some: "inv s \<Longrightarrow> get s = Some (y, s') \<Longrightarrow> inv s' \<and> contents s = y # contents s'"
begin

text \<open>A schedule of puts and gets; the result lists the accepted and the delivered values.\<close>

fun run :: "'i fifo_op list \<Rightarrow> 's \<Rightarrow> 'a list \<times> 'a list \<times> 's" where
  "run [] s = ([], [], s)"
| "run (Put x # ops) s = (case put x s of
     None \<Rightarrow> run ops s
   | Some s' \<Rightarrow> (case run ops s' of (ins, outs, t) \<Rightarrow> (item x # ins, outs, t)))"
| "run (Get # ops) s = (case get s of
     None \<Rightarrow> run ops s
   | Some (y, s') \<Rightarrow> (case run ops s' of (ins, outs, t) \<Rightarrow> (ins, y # outs, t)))"

lemma run_fifo:
  "inv s \<Longrightarrow> run ops s = (ins, outs, t) \<Longrightarrow> inv t \<and> contents s @ ins = outs @ contents t"
proof (induction ops s arbitrary: ins outs rule: run.induct)
  case (2 x ops s)
  then show ?case
    by (fastforce split: option.splits prod.splits dest: put_Some)
next
  case (3 ops s)
  then show ?case
    by (fastforce split: option.splits prod.splits dest: get_Some)
qed simp

lemma run_outs_prefix:
  "inv s \<Longrightarrow> contents s = [] \<Longrightarrow> run ops s = (ins, outs, t) \<Longrightarrow> outs = take (length outs) ins"
  using run_fifo by fastforce

end

section \<open>The ring buffer\<close>

record ring_buf =
  nread :: u64
  nwrite :: u64
  rsize :: u64
  rdata :: "byte list"

text \<open>One iteration of the loops of \<^verbatim>\<open>ring_buffer_push\<close> and \<^verbatim>\<open>ring_buffer_pop\<close>.\<close>

definition ring_put :: "byte \<Rightarrow> ring_buf \<Rightarrow> ring_buf" where
  "ring_put b rb = rb\<lparr>rdata := (rdata rb)[unat (nwrite rb mod rsize rb) := b], nwrite := nwrite rb + 1\<rparr>"

definition ring_get :: "ring_buf \<Rightarrow> byte \<times> ring_buf" where
  "ring_get rb = (rdata rb ! unat (nread rb mod rsize rb), rb\<lparr>nread := nread rb + 1\<rparr>)"

text \<open>
  \<open>ring_buffer_create\<close> calls the allocator twice; its two outcomes are arguments (the memory
  of the data array has arbitrary contents). The second result counts the blocks allocated and
  still live.
\<close>

definition ring_buffer_create ::
  "u64 \<Rightarrow> bool \<Rightarrow> byte list option \<Rightarrow> ring_buf option \<times> nat" where
  "ring_buffer_create nbytes alloc1 alloc2 =
     (if \<not> alloc1 then (None, 0)
      else if nbytes = 0 then (None, 1)
      else (case alloc2 of None \<Rightarrow> (None, 1)
            | Some d \<Rightarrow> (Some \<lparr>nread = 0, nwrite = 0, rsize = nbytes, rdata = d\<rparr>, 2)))"

definition RING_BUFFER_UNINITIALIZED :: int where "RING_BUFFER_UNINITIALIZED = - 1"
definition RING_BUFFER_SUCCESS :: int where "RING_BUFFER_SUCCESS = 0"

definition ring_buffer_push :: "ring_buf option \<Rightarrow> byte list \<Rightarrow> int \<times> ring_buf option" where
  "ring_buffer_push rb dat = (case rb of None \<Rightarrow> (RING_BUFFER_UNINITIALIZED, None)
     | Some r \<Rightarrow> (RING_BUFFER_SUCCESS, Some (fold ring_put dat r)))"

fun ring_pop_loop :: "nat \<Rightarrow> ring_buf \<Rightarrow> byte list \<times> ring_buf" where
  "ring_pop_loop 0 rb = ([], rb)"
| "ring_pop_loop (Suc n) rb =
     (if nread rb = nwrite rb then ([], rb)
      else (let (b, rb') = ring_get rb; (bs, rb'') = ring_pop_loop n rb' in (b # bs, rb'')))"

definition ring_buffer_pop :: "ring_buf option \<Rightarrow> nat \<Rightarrow> int \<times> byte list \<times> ring_buf option" where
  "ring_buffer_pop rb n = (case rb of None \<Rightarrow> (RING_BUFFER_UNINITIALIZED, [], None)
     | Some r \<Rightarrow> (let (bs, r') = ring_pop_loop n r in (RING_BUFFER_SUCCESS, bs, Some r')))"

text \<open>\<open>ring_buffer_destroy\<close> returns the number of blocks it gave to the deallocator.\<close>

definition ring_buffer_destroy :: "ring_buf option \<Rightarrow> nat" where
  "ring_buffer_destroy rb = (case rb of None \<Rightarrow> 0 | Some _ \<Rightarrow> 2)"

definition ring_buffer_is_empty :: "ring_buf option \<Rightarrow> bool" where
  "ring_buffer_is_empty rb = (case rb of None \<Rightarrow> False | Some r \<Rightarrow> nread r = nwrite r)"

text \<open>
  The conjunction of the C expression \<^verbatim>\<open>(rb && rb->nwrite + 1) % rb->size\<close> is a truth value,
  0 or 1.
\<close>

definition ring_buffer_is_full :: "ring_buf option \<Rightarrow> bool" where
  "ring_buffer_is_full rb = (case rb of None \<Rightarrow> False
     | Some r \<Rightarrow> (if nwrite r + 1 \<noteq> 0 then 1 else 0) mod rsize r = nread r)"

section \<open>Abstraction to a list\<close>

definition ring_count :: "ring_buf \<Rightarrow> nat" where
  "ring_count rb = unat (nwrite rb - nread rb)"

definition ring_index :: "ring_buf \<Rightarrow> nat \<Rightarrow> nat" where
  "ring_index rb i = unat (nread rb + of_nat i) mod unat (rsize rb)"

definition ring_contents :: "ring_buf \<Rightarrow> byte list" where
  "ring_contents rb = map (\<lambda>i. rdata rb ! ring_index rb i) [0..<ring_count rb]"

text \<open>
  The counters run freely modulo \<open>2 ^ 64\<close>, so the slot of a counter value is stable across the
  wrap-around exactly when the size divides \<open>2 ^ 64\<close>, as \<^verbatim>\<open>PIPE_BUF\<close> does.
\<close>

definition ring_inv :: "ring_buf \<Rightarrow> bool" where
  "ring_inv rb \<longleftrightarrow> rsize rb \<noteq> 0 \<and> unat (rsize rb) dvd 2 ^ 64 \<and>
     length (rdata rb) = unat (rsize rb) \<and> ring_count rb \<le> unat (rsize rb)"

lemma ring_inv_size_pos: "ring_inv rb \<Longrightarrow> 0 < unat (rsize rb)"
  by (simp add: ring_inv_def unat_gt_0)

lemma length_ring_contents [simp]: "length (ring_contents rb) = ring_count rb"
  by (simp add: ring_contents_def)

lemma unat_add_of_nat_mod:
  assumes "k dvd 2 ^ 64"
  shows "unat (x + of_nat i :: u64) mod k = (unat x + i) mod k"
proof -
  have "unat (x + of_nat i) = (unat x + i) mod 2 ^ 64"
    by (simp add: unat_word_ariths unat_of_nat mod_add_right_eq)
  with assms show ?thesis by (simp add: mod_mod_cancel)
qed

lemma ring_index_eq: "ring_inv rb \<Longrightarrow> ring_index rb i = (unat (nread rb) + i) mod unat (rsize rb)"
  by (simp add: ring_index_def ring_inv_def unat_add_of_nat_mod)

lemma ring_index_inj:
  assumes "ring_inv rb" and "i < unat (rsize rb)" and "j < unat (rsize rb)"
    and "ring_index rb i = ring_index rb j"
  shows "i = j"
  using assms by (auto simp: ring_index_eq intro: add_mod_inj)

lemma ring_write_index:
  assumes "ring_inv rb"
  shows "unat (nwrite rb mod rsize rb) = ring_index rb (ring_count rb)"
proof -
  have "nread rb + of_nat (ring_count rb) = nwrite rb"
    by (simp add: ring_count_def)
  then show ?thesis
    by (simp add: ring_index_def unat_mod)
qed

lemma ring_count_zero_iff: "ring_count rb = 0 \<longleftrightarrow> nread rb = nwrite rb"
  by (auto simp: ring_count_def unat_eq_0)

lemma ring_contents_Nil_iff: "ring_contents rb = [] \<longleftrightarrow> nread rb = nwrite rb"
  by (simp flip: ring_count_zero_iff add: ring_contents_def)

lemma ring_count_put:
  assumes "ring_inv rb" and "ring_count rb < unat (rsize rb)"
  shows "ring_count (ring_put b rb) = Suc (ring_count rb)"
proof -
  have "ring_count rb + 1 < 2 ^ 64"
    using assms(2) unsigned_less [of "rsize rb", where 'a = nat] by simp
  then have "unat ((nwrite rb - nread rb) + 1) = Suc (ring_count rb)"
    by (simp add: ring_count_def unat_word_ariths)
  then show ?thesis
    by (simp add: ring_count_def ring_put_def algebra_simps)
qed

lemma ring_put_spec:
  assumes "ring_inv rb" and "ring_count rb < unat (rsize rb)"
  shows "ring_inv (ring_put b rb)" and "ring_contents (ring_put b rb) = ring_contents rb @ [b]"
proof -
  let ?rb = "ring_put b rb" and ?n = "ring_count rb"
  have idx: "ring_index ?rb i = ring_index rb i" for i
    by (simp add: ring_index_def ring_put_def)
  have dat: "rdata ?rb = (rdata rb)[ring_index rb ?n := b]"
    using assms(1) by (simp add: ring_put_def ring_write_index)
  show "ring_inv ?rb"
    using assms ring_count_put [OF assms] by (simp add: ring_inv_def dat) (simp add: ring_put_def)
  have in_range: "ring_index rb ?n < length (rdata rb)"
    using assms by (simp add: ring_index_eq ring_inv_def ring_inv_size_pos unat_gt_0)
  have "rdata ?rb ! ring_index rb i = rdata rb ! ring_index rb i" if "i < ?n" for i
  proof -
    have "ring_index rb i \<noteq> ring_index rb ?n"
      using ring_index_inj [of rb i ?n] assms that by auto
    then show ?thesis by (simp add: dat)
  qed
  then show "ring_contents ?rb = ring_contents rb @ [b]"
    using in_range by (simp add: ring_contents_def ring_count_put [OF assms] idx dat)
qed

lemma ring_get_spec:
  assumes "ring_inv rb" and "nread rb \<noteq> nwrite rb"
  shows "ring_inv (snd (ring_get rb))"
    and "ring_contents rb = fst (ring_get rb) # ring_contents (snd (ring_get rb))"
    and "ring_count rb = Suc (ring_count (snd (ring_get rb)))"
proof -
  let ?rb = "snd (ring_get rb)"
  have "nwrite rb - nread rb \<noteq> 0" using assms(2) by simp
  then have "unat (nwrite rb - nread rb - 1) = unat (nwrite rb - nread rb) - 1"
    by (simp add: unat_minus_one)
  moreover have "0 < unat (nwrite rb - nread rb)"
    using \<open>nwrite rb - nread rb \<noteq> 0\<close> by (simp add: unat_gt_0)
  ultimately show count: "ring_count rb = Suc (ring_count ?rb)"
    by (simp add: ring_count_def ring_get_def algebra_simps)
  then show "ring_inv ?rb"
    using assms(1) by (simp add: ring_inv_def) (simp add: ring_get_def)
  have idx: "ring_index ?rb i = ring_index rb (Suc i)" for i
    by (simp add: ring_index_def ring_get_def algebra_simps)
  have "fst (ring_get rb) = rdata rb ! ring_index rb 0"
    by (simp add: ring_get_def ring_index_def unat_mod)
  moreover have "rdata ?rb = rdata rb"
    by (simp add: ring_get_def)
  ultimately show "ring_contents rb = fst (ring_get rb) # ring_contents ?rb"
    by (simp add: ring_contents_def count idx map_upt_Suc del: upt_Suc)
qed

text \<open>The test for a full buffer that the pipe code makes before each write.\<close>

definition ring_full :: "ring_buf \<Rightarrow> bool" where
  "ring_full rb \<longleftrightarrow> nwrite rb = nread rb + rsize rb"

lemma ring_full_iff: "ring_full rb \<longleftrightarrow> ring_count rb = unat (rsize rb)"
  by (simp add: ring_full_def ring_count_def word_unat_eq_iff [symmetric] diff_eq_eq add.commute)

lemma ring_not_full: "ring_inv rb \<Longrightarrow> \<not> ring_full rb \<Longrightarrow> ring_count rb < unat (rsize rb)"
  by (simp add: ring_full_iff ring_inv_def)

definition ring_offer :: "byte \<Rightarrow> ring_buf \<Rightarrow> ring_buf option" where
  "ring_offer b rb = (if ring_full rb then None else Some (ring_put b rb))"

definition ring_take :: "ring_buf \<Rightarrow> (byte \<times> ring_buf) option" where
  "ring_take rb = (if nread rb = nwrite rb then None else Some (ring_get rb))"

interpretation ring: fifo ring_inv ring_contents "\<lambda>b. b" ring_offer ring_take
proof unfold_locales
  fix s x s' assume "ring_inv s" and "ring_offer x s = Some s'"
  then show "ring_inv s' \<and> ring_contents s' = ring_contents s @ [x]"
    by (auto simp: ring_offer_def ring_put_spec ring_not_full split: if_splits)
next
  fix s assume "ring_inv s"
  then show "ring_take s = None \<longleftrightarrow> ring_contents s = []"
    by (simp add: ring_take_def ring_contents_Nil_iff)
next
  fix s y s' assume "ring_inv s" and "ring_take s = Some (y, s')"
  then show "ring_inv s' \<and> ring_contents s = y # ring_contents s'"
    using ring_get_spec [of s] by (auto simp: ring_take_def split: if_splits)
qed

section \<open>The loops\<close>

lemma rsize_ring_put [simp]: "rsize (ring_put b rb) = rsize rb"
  by (simp add: ring_put_def)

lemma fold_ring_put:
  "ring_inv rb \<Longrightarrow> ring_count rb + length bs \<le> unat (rsize rb) \<Longrightarrow>
   ring_inv (fold ring_put bs rb) \<and> ring_contents (fold ring_put bs rb) = ring_contents rb @ bs"
  by (induction bs arbitrary: rb) (auto simp: ring_put_spec ring_count_put)

lemma ring_pop_loop_spec:
  "ring_inv rb \<Longrightarrow> ring_pop_loop n rb = (bs, rb') \<Longrightarrow>
   ring_inv rb' \<and> bs = take n (ring_contents rb) \<and> ring_contents rb' = drop n (ring_contents rb)"
proof (induction n arbitrary: rb bs)
  case (Suc n)
  show ?case
  proof (cases "nread rb = nwrite rb")
    case True
    then have "ring_contents rb = []" by (simp add: ring_contents_Nil_iff)
    with True Suc.prems show ?thesis by auto
  next
    case False
    obtain b rb1 where g: "ring_get rb = (b, rb1)" by fastforce
    with ring_get_spec [OF Suc.prems(1) False] have
      "ring_inv rb1" "ring_contents rb = b # ring_contents rb1" by auto
    with g False Suc.prems(2) Suc.IH [of rb1] show ?thesis
      by (auto split: prod.splits)
  qed
qed simp

lemma rsize_ring_get [simp]: "rsize (snd (ring_get rb)) = rsize rb"
  by (simp add: ring_get_def)

lemma rsize_ring_pop_loop: "ring_pop_loop n rb = (bs, rb') \<Longrightarrow> rsize rb' = rsize rb"
proof (induction n arbitrary: rb bs)
  case (Suc n)
  then show ?case
    by (auto simp: ring_get_def Let_def split: if_splits prod.splits)
qed simp

lemma ring_create_inv:
  assumes "ring_buffer_create n True (Some d) = (Some rb, k)" and "unat n dvd 2 ^ 64"
    and "length d = unat n"
  shows "ring_inv rb \<and> ring_contents rb = []"
  using assms by (auto simp: ring_buffer_create_def ring_inv_def ring_contents_def ring_count_def
                       split: if_splits)

section \<open>Properties\<close>



text \<open>
  \<^verbatim>\<open>ring_buffer_push\<close> of bytes that fit followed by \<^verbatim>\<open>ring_buffer_pop\<close> of the whole buffer
  returns the old contents and then the pushed bytes, and leaves the buffer empty.
\<close>

theorem ring_buffer_push_pop:
  assumes "ring_inv rb" and "ring_count rb + length bs \<le> unat (rsize rb)"
    and "unat (rsize rb) \<le> n"
  shows "\<exists>rb1 rb2. ring_buffer_push (Some rb) bs = (RING_BUFFER_SUCCESS, Some rb1) \<and>
    ring_buffer_pop (Some rb1) n = (RING_BUFFER_SUCCESS, ring_contents rb @ bs, Some rb2) \<and>
    ring_buffer_is_empty (Some rb2)"
proof -
  let ?rb1 = "fold ring_put bs rb"
  obtain out rb2 where pop: "ring_pop_loop n ?rb1 = (out, rb2)" by fastforce
  have 1: "ring_inv ?rb1" "ring_contents ?rb1 = ring_contents rb @ bs"
    using fold_ring_put assms by auto
  have "length (ring_contents rb @ bs) \<le> n"
    using assms by simp
  with ring_pop_loop_spec [OF 1(1) pop] 1(2) have
    "out = ring_contents rb @ bs" "ring_contents rb2 = []" by auto
  with pop show ?thesis
    by (simp add: ring_buffer_push_def ring_buffer_pop_def ring_buffer_is_empty_def
        ring_contents_Nil_iff)
qed

theorem ring_buffer_push_pop_witness:
  "\<exists>rb1 rb2. ring_buffer_push (Some \<lparr>nread = 3, nwrite = 3, rsize = 2, rdata = [0, 0]\<rparr>) [9]
      = (RING_BUFFER_SUCCESS, Some rb1) \<and>
    ring_buffer_pop (Some rb1) 2 = (RING_BUFFER_SUCCESS, [9], Some rb2) \<and>
    ring_buffer_is_empty (Some rb2)"
proof -
  let ?rb = "\<lparr>nread = 3, nwrite = 3, rsize = 2, rdata = [0, 0]\<rparr> :: ring_buf"
  have "ring_inv ?rb" and "ring_contents ?rb = []" and "ring_count ?rb = 0"
    by (simp_all add: ring_inv_def ring_count_def ring_contents_def)
  then show ?thesis
    using ring_buffer_push_pop [of ?rb "[9]" 2] by simp
qed

end
