(* ===== verification/Klib_Queue.thy ===== *)
theory Klib_Queue
  imports Klib_Ring
begin

text \<open>
  The linked queue that the macro \<^verbatim>\<open>QUEUE_T\<close> of \<^verbatim>\<open>lib/queue.c\<close> defines for each element type, over
  an explicit heap of nodes. An allocation is the address the allocator returned, an argument of
  the operation (\<open>None\<close> for \<^verbatim>\<open>NULL\<close>); deallocation removes the node from the heap. Dereferencing
  \<^verbatim>\<open>NULL\<close> or a freed node is the value \<open>None\<close>.
\<close>

section \<open>Definitions\<close>

record 'a qnode =
  qdata :: 'a
  qnext :: "nat option"

record 'a queue =
  front :: "nat option"
  rear :: "nat option"
  qsize :: nat
  qheap :: "nat \<rightharpoonup> 'a qnode"

definition QUEUE_UNINITIALIZED :: int where "QUEUE_UNINITIALIZED = - 1"
definition QUEUE_SUCCESS :: int where "QUEUE_SUCCESS = 0"
definition QUEUE_EMPTY :: int where "QUEUE_EMPTY = 1"
definition QUEUE_OOM :: int where "QUEUE_OOM = 2"
definition QUEUE_FULL :: int where "QUEUE_FULL = 3"

lemmas queue_codes =
  QUEUE_UNINITIALIZED_def QUEUE_SUCCESS_def QUEUE_EMPTY_def QUEUE_OOM_def QUEUE_FULL_def

definition create_queue :: "bool \<Rightarrow> 'a queue option" where
  "create_queue allocated =
     (if \<not> allocated then None
      else Some \<lparr>front = None, rear = None, qsize = 0, qheap = Map.empty\<rparr>)"

definition is_empty :: "'a queue \<Rightarrow> bool" where
  "is_empty q \<longleftrightarrow> qsize q = 0"

definition set_next :: "nat option \<Rightarrow> nat \<Rightarrow> (nat \<rightharpoonup> 'a qnode) \<Rightarrow> (nat \<rightharpoonup> 'a qnode) option" where
  "set_next p new h = (case p of None \<Rightarrow> None | Some r \<Rightarrow>
     (case h r of None \<Rightarrow> None | Some nd \<Rightarrow> Some (h(r \<mapsto> nd\<lparr>qnext := Some new\<rparr>))))"

definition enqueue ::
  "'a queue option \<Rightarrow> 'a \<Rightarrow> nat option \<Rightarrow> nat \<Rightarrow> (int \<times> 'a queue option) option" where
  "enqueue q value new limit = (case q of None \<Rightarrow> Some (QUEUE_UNINITIALIZED, None)
     | Some q \<Rightarrow>
        (if limit \<le> qsize q then Some (QUEUE_FULL, Some q)
         else (case new of None \<Rightarrow> Some (QUEUE_OOM, Some q)
           | Some a \<Rightarrow>
              (let h = (qheap q)(a \<mapsto> \<lparr>qdata = value, qnext = None\<rparr>) in
               map_option (\<lambda>(f, h). (QUEUE_SUCCESS,
                   Some (q\<lparr>front := f, rear := Some a, qsize := qsize q + 1, qheap := h\<rparr>)))
                 (if is_empty q then Some (Some a, h)
                  else map_option (Pair (front q)) (set_next (rear q) a h))))))"

definition dequeue :: "'a queue option \<Rightarrow> (int \<times> 'a option \<times> 'a queue option) option" where
  "dequeue q = (case q of None \<Rightarrow> Some (QUEUE_UNINITIALIZED, None, None)
     | Some q \<Rightarrow>
        (if is_empty q then Some (QUEUE_EMPTY, None, Some q)
         else (case front q of None \<Rightarrow> None
           | Some temp \<Rightarrow> (case qheap q temp of None \<Rightarrow> None
              | Some nd \<Rightarrow> Some (QUEUE_SUCCESS, Some (qdata nd),
                  Some (q\<lparr>front := qnext nd, rear := (if qnext nd = None then None else rear q),
                          qsize := qsize q - 1, qheap := (qheap q)(temp := None)\<rparr>))))))"

text \<open>The loop of \<^verbatim>\<open>clean_queue\<close> runs while the queue is not empty; each turn shrinks it by one.\<close>

fun clean_loop :: "nat \<Rightarrow> 'a queue \<Rightarrow> 'a queue option" where
  "clean_loop n q =
     (if is_empty q then Some q
      else (case n of 0 \<Rightarrow> None
            | Suc m \<Rightarrow> (case dequeue (Some q) of Some (_, _, Some q') \<Rightarrow> clean_loop m q' | _ \<Rightarrow> None)))"

declare clean_loop.simps [simp del]

definition clean_queue :: "'a queue option \<Rightarrow> 'a queue option option" where
  "clean_queue q = (case q of None \<Rightarrow> Some None | Some q \<Rightarrow> map_option Some (clean_loop (qsize q) q))"

text \<open>\<^verbatim>\<open>free_queue\<close> also frees the queue itself; no queue is left.\<close>

definition free_queue :: "'a queue option \<Rightarrow> 'a queue option option" where
  "free_queue q = map_option (\<lambda>_. None) (clean_queue q)"

section \<open>Abstraction to a list\<close>

fun walk :: "(nat \<rightharpoonup> 'a qnode) \<Rightarrow> nat option \<Rightarrow> nat \<Rightarrow> 'a list" where
  "walk h p 0 = []"
| "walk h None (Suc n) = []"
| "walk h (Some a) (Suc n) = (case h a of None \<Rightarrow> [] | Some nd \<Rightarrow> qdata nd # walk h (qnext nd) n)"

definition queue_contents :: "'a queue \<Rightarrow> 'a list" where
  "queue_contents q = walk (qheap q) (front q) (qsize q)"

fun chain :: "(nat \<rightharpoonup> 'a qnode) \<Rightarrow> nat option \<Rightarrow> nat list \<Rightarrow> bool" where
  "chain h p [] \<longleftrightarrow> p = None"
| "chain h p (a # as) \<longleftrightarrow> p = Some a \<and> (case h a of None \<Rightarrow> False | Some nd \<Rightarrow> chain h (qnext nd) as)"

definition queue_inv :: "'a queue \<Rightarrow> bool" where
  "queue_inv q \<longleftrightarrow> (\<exists>as. chain (qheap q) (front q) as \<and> distinct as \<and> dom (qheap q) = set as \<and>
     qsize q = length as \<and> rear q = (if as = [] then None else Some (last as)))"

lemma chain_cong: "chain h p as \<Longrightarrow> (\<And>a. a \<in> set as \<Longrightarrow> h' a = h a) \<Longrightarrow> chain h' p as"
  by (induction as arbitrary: p) (auto split: option.splits)

lemma walk_cong:
  "chain h p as \<Longrightarrow> (\<And>a. a \<in> set as \<Longrightarrow> h' a = h a) \<Longrightarrow> walk h' p (length as) = walk h p (length as)"
  by (induction as arbitrary: p) (auto split: option.splits)

lemma chain_snoc:
  assumes "chain h p as" and "distinct as" and "as \<noteq> []" and "a \<notin> set as"
    and "h (last as) = Some nd"
    and h': "h' = h(a \<mapsto> \<lparr>qdata = v, qnext = None\<rparr>, last as \<mapsto> nd\<lparr>qnext := Some a\<rparr>)"
  shows "chain h' p (as @ [a]) \<and> walk h' p (Suc (length as)) = walk h p (length as) @ [v]"
  using assms(1-5) unfolding h'
proof (induction as arbitrary: p)
  case (Cons b as)
  show ?case
  proof (cases "as = []")
    case True
    with Cons.prems show ?thesis by auto
  next
    case False
    with Cons.prems obtain nb where nb: "h b = Some nb" "chain h (qnext nb) as" "p = Some b"
      by (auto split: option.splits)
    have "b \<noteq> last as" "b \<noteq> a"
      using False Cons.prems by auto
    with Cons.IH [OF nb(2)] Cons.prems False nb show ?thesis by auto
  qed
qed simp

lemma chain_last_in_heap: "chain h p as \<Longrightarrow> as \<noteq> [] \<Longrightarrow> \<exists>nd. h (last as) = Some nd"
  by (induction as arbitrary: p) (auto split: option.splits)

lemma enqueue_spec:
  assumes "queue_inv q" and "a \<notin> dom (qheap q)" and "qsize q < limit"
  shows "\<exists>q'. enqueue (Some q) v (Some a) limit = Some (QUEUE_SUCCESS, Some q') \<and> queue_inv q' \<and>
    queue_contents q' = queue_contents q @ [v] \<and> qsize q' = qsize q + 1"
proof -
  obtain as where as: "chain (qheap q) (front q) as" "distinct as" "dom (qheap q) = set as"
    "qsize q = length as" "rear q = (if as = [] then None else Some (last as))"
    using assms(1) by (auto simp: queue_inv_def)
  show ?thesis
  proof (cases "as = []")
    case True
    with as assms(3) show ?thesis
      by (auto simp: enqueue_def is_empty_def queue_inv_def queue_contents_def intro!: exI [of _ "[a]"])
  next
    case False
    then obtain nd where nd: "qheap q (last as) = Some nd"
      using as(1) chain_last_in_heap by blast
    have "a \<notin> set as" "last as \<noteq> a"
      using assms(2) as(3) False by auto
    with chain_snoc [OF as(1,2) False _ nd refl, of a v] as False nd assms(3) show ?thesis
      by (auto simp: enqueue_def is_empty_def set_next_def queue_inv_def queue_contents_def
               intro!: exI [of _ "as @ [a]"])
  qed
qed

lemma dequeue_spec:
  assumes "queue_inv q" and "qsize q \<noteq> 0"
  shows "\<exists>v q'. dequeue (Some q) = Some (QUEUE_SUCCESS, Some v, Some q') \<and> queue_inv q' \<and>
    queue_contents q = v # queue_contents q' \<and> qsize q = qsize q' + 1"
proof -
  obtain a as where as: "chain (qheap q) (front q) (a # as)" "distinct (a # as)"
    "dom (qheap q) = set (a # as)" "qsize q = length (a # as)" "rear q = Some (last (a # as))"
    using assms by (auto simp: queue_inv_def neq_Nil_conv)
  from as(1) obtain nd where
    nd: "front q = Some a" "qheap q a = Some nd" "chain (qheap q) (qnext nd) as"
    by (auto split: option.splits)
  let ?h = "(qheap q)(a := None)"
  have "chain ?h (qnext nd) as" "walk ?h (qnext nd) (length as) = walk (qheap q) (qnext nd) (length as)"
    using as(2) by (auto intro!: chain_cong [OF nd(3)] walk_cong [OF nd(3)])
  moreover have "qnext nd = None \<longleftrightarrow> as = []"
    using nd(3) by (cases as) auto
  ultimately show ?thesis
    using as nd
    by (auto simp: dequeue_def is_empty_def queue_inv_def queue_contents_def intro!: exI [of _ as])
qed

lemma queue_contents_Nil_iff: "queue_inv q \<Longrightarrow> queue_contents q = [] \<longleftrightarrow> qsize q = 0"
  using dequeue_spec [of q] by (cases "qsize q = 0") (auto simp: queue_contents_def)

section \<open>The queue is a FIFO\<close>

definition queue_offer :: "nat \<Rightarrow> nat \<times> 'a \<Rightarrow> 'a queue \<Rightarrow> 'a queue option" where
  "queue_offer limit x q = (if fst x \<in> dom (qheap q) then None else
     (case enqueue (Some q) (snd x) (Some (fst x)) limit of
        Some (rc, Some q') \<Rightarrow> if rc = QUEUE_SUCCESS then Some q' else None
      | _ \<Rightarrow> None))"

definition queue_take :: "'a queue \<Rightarrow> ('a \<times> 'a queue) option" where
  "queue_take q = (case dequeue (Some q) of Some (_, Some v, Some q') \<Rightarrow> Some (v, q') | _ \<Rightarrow> None)"

interpretation lq: fifo queue_inv queue_contents snd "queue_offer limit" queue_take for limit
proof unfold_locales
  fix s :: "'a queue" and x :: "nat \<times> 'a" and s' :: "'a queue"
  assume "queue_inv s" and put: "queue_offer limit x s = Some s'"
  moreover from put have "fst x \<notin> dom (qheap s)" "qsize s < limit"
    by (auto simp: queue_offer_def enqueue_def queue_codes not_le split: if_splits)
  ultimately show "queue_inv s' \<and> queue_contents s' = queue_contents s @ [snd x]"
    using enqueue_spec [of s "fst x" limit "snd x"]
    by (auto simp: queue_offer_def split: if_splits)
next
  fix s :: "'a queue" assume "queue_inv s"
  then show "queue_take s = None \<longleftrightarrow> queue_contents s = []"
    using dequeue_spec [of s] queue_contents_Nil_iff [of s]
    by (cases "qsize s = 0") (auto simp: queue_take_def dequeue_def is_empty_def)
next
  fix s s' :: "'a queue" and y assume "queue_inv s" and "queue_take s = Some (y, s')"
  then show "queue_inv s' \<and> queue_contents s = y # queue_contents s'"
    using dequeue_spec [of s]
    by (cases "qsize s = 0") (auto simp: queue_take_def dequeue_def is_empty_def)
qed

lemma clean_loop_spec:
  "queue_inv q \<Longrightarrow> qsize q = n \<Longrightarrow> \<exists>q'. clean_loop n q = Some q' \<and> qsize q' = 0 \<and> dom (qheap q') = {}"
proof (induction n arbitrary: q)
  case 0
  then show ?case
    by (auto simp: clean_loop.simps [of 0] is_empty_def queue_inv_def)
next
  case (Suc n)
  then obtain v q' where "dequeue (Some q) = Some (QUEUE_SUCCESS, Some v, Some q')" "queue_inv q'"
    "qsize q = qsize q' + 1"
    using dequeue_spec [of q] by auto
  with Suc show ?case
    by (auto simp: clean_loop.simps [of "Suc n"] is_empty_def)
qed

section \<open>Properties\<close>



text \<open>
  C33: \<^verbatim>\<open>clean_queue\<close> of a well-formed queue terminates, empties it and frees every node.
\<close>

theorem clean_queue_frees:
  assumes "queue_inv q"
  shows "\<exists>q'. clean_queue (Some q) = Some (Some q') \<and> is_empty q' \<and> dom (qheap q') = {}"
  using clean_loop_spec [OF assms refl] by (auto simp: clean_queue_def is_empty_def)

theorem clean_queue_frees_witness:
  "\<exists>q'. clean_queue (Some \<lparr>front = Some 3, rear = Some 3, qsize = 1,
      qheap = [3 \<mapsto> \<lparr>qdata = True, qnext = None\<rparr>]\<rparr>) = Some (Some q') \<and> dom (qheap q') = {}"
proof -
  have "queue_inv \<lparr>front = Some 3, rear = Some 3, qsize = 1,
      qheap = [3 \<mapsto> \<lparr>qdata = True, qnext = None\<rparr>]\<rparr>"
    by (auto simp: queue_inv_def intro!: exI [of _ "[3]"])
  from clean_queue_frees [OF this] show ?thesis by blast
qed

end
