(* ===== verification/Klib_Search.thy ===== *)
theory Klib_Search
  imports Relix_Prelude
begin

text \<open>
  \<^verbatim>\<open>bsearch\<close> of \<^verbatim>\<open>lib/search.c\<close>. The array is a list of elements, a pointer into it an index, and
  the comparison function an argument. The loop halves the number of remaining elements; its
  termination is proved with the definition.
\<close>

function bsearch_loop :: "('k \<Rightarrow> 'a \<Rightarrow> int) \<Rightarrow> 'k \<Rightarrow> 'a list \<Rightarrow> nat \<Rightarrow> nat \<Rightarrow> nat option" where
  "bsearch_loop compar key arr base nmemb =
     (if nmemb = 0 then None
      else (let corr = nmemb mod 2; half = nmemb div 2; pivot = base + half;
                rc = compar key (arr ! pivot) in
            if rc > 0 then bsearch_loop compar key arr (pivot + 1) (half - (1 - corr))
            else if rc = 0 then Some pivot
            else bsearch_loop compar key arr base half))"
  by pat_completeness auto
termination
  by (relation "measure (\<lambda>(_, _, _, _, n). n)") auto

declare bsearch_loop.simps [simp del]

definition bsearch :: "('k \<Rightarrow> 'a \<Rightarrow> int) \<Rightarrow> 'k \<Rightarrow> 'a list \<Rightarrow> nat option" where
  "bsearch compar key arr = bsearch_loop compar key arr 0 (length arr)"

text \<open>
  The array is ordered for the key: elements the key is greater than come first, then those it
  equals, then those it is less than.
\<close>

definition ordered_for :: "('k \<Rightarrow> 'a \<Rightarrow> int) \<Rightarrow> 'k \<Rightarrow> 'a list \<Rightarrow> bool" where
  "ordered_for compar key arr \<longleftrightarrow>
     sorted_wrt (\<lambda>x y. sgn (compar key y) \<le> sgn (compar key x)) arr"

lemma ordered_forD:
  assumes "ordered_for compar key arr" and "i \<le> j" and "j < length arr"
  shows "compar key (arr ! i) < 0 \<Longrightarrow> compar key (arr ! j) < 0"
    and "compar key (arr ! j) > 0 \<Longrightarrow> compar key (arr ! i) > 0"
proof -
  have "sgn (compar key (arr ! j)) \<le> sgn (compar key (arr ! i))"
  proof (cases "i = j")
    case False
    with assms show ?thesis
      by (auto simp: ordered_for_def sorted_wrt_iff_nth_less)
  qed simp
  then show "compar key (arr ! i) < 0 \<Longrightarrow> compar key (arr ! j) < 0"
    and "compar key (arr ! j) > 0 \<Longrightarrow> compar key (arr ! i) > 0"
    by (auto simp: sgn_if split: if_splits)
qed

text \<open>
  The size of the right half: with the correction, what remains right of the pivot is exactly
  the elements after it.
\<close>

lemma right_half: "0 < n \<Longrightarrow> n div 2 + 1 + (n div 2 - (1 - n mod 2)) = (n :: nat)"
  by (cases "even n") (auto elim!: evenE oddE)

lemma bsearch_loop_correct:
  assumes "ordered_for compar key arr"
  shows "base + nmemb \<le> length arr \<Longrightarrow>
    (\<forall>i<length arr. compar key (arr ! i) = 0 \<longrightarrow> base \<le> i \<and> i < base + nmemb) \<Longrightarrow>
    (case bsearch_loop compar key arr base nmemb of
       Some i \<Rightarrow> base \<le> i \<and> i < base + nmemb \<and> compar key (arr ! i) = 0
     | None \<Rightarrow> \<forall>i<length arr. compar key (arr ! i) \<noteq> 0)"
proof (induction nmemb arbitrary: base rule: less_induct)
  case (less nmemb)
  show ?case
  proof (cases "nmemb = 0")
    case True
    with less.prems show ?thesis by (auto simp: bsearch_loop.simps [of _ _ _ _ 0])
  next
    case False
    define h r where h: "h = nmemb div 2" and r: "r = nmemb div 2 - (1 - nmemb mod 2)"
    let ?p = "base + h"
    have split: "h + 1 + r = nmemb"
      using False right_half [of nmemb] by (simp add: h r)
    then have p: "?p < length arr" and less: "h < nmemb" "r < nmemb"
      using less.prems by auto
    have unfold: "bsearch_loop compar key arr base nmemb =
      (if compar key (arr ! ?p) > 0 then bsearch_loop compar key arr (?p + 1) r
       else if compar key (arr ! ?p) = 0 then Some ?p else bsearch_loop compar key arr base h)"
      using False by (subst bsearch_loop.simps) (simp add: Let_def h r)
    consider (gt) "compar key (arr ! ?p) > 0" | (eq) "compar key (arr ! ?p) = 0"
      | (lt) "compar key (arr ! ?p) < 0" by linarith
    then show ?thesis
    proof cases
      case gt
      have left: "\<not> i \<le> ?p" if "compar key (arr ! i) = 0" for i
        using ordered_forD(2) [OF assms _ p gt, of i] that by auto
      have "?p + 1 \<le> i \<and> i < ?p + 1 + r" if "i < length arr" "compar key (arr ! i) = 0" for i
        using less.prems(2) left [OF that(2)] that split by fastforce
      with less.IH [OF less(2), of "?p + 1"] less.prems(1) split gt show ?thesis
        unfolding unfold by (auto split: option.splits)
    next
      case eq
      with split show ?thesis unfolding unfold by simp
    next
      case lt
      have right: "\<not> ?p \<le> i" if "i < length arr" "compar key (arr ! i) = 0" for i
        using ordered_forD(1) [OF assms _ that(1) lt] that by auto
      have "base \<le> i \<and> i < base + h" if "i < length arr" "compar key (arr ! i) = 0" for i
        using less.prems(2) right [OF that] that by auto
      with less.IH [OF less(1), of base] less.prems(1) split lt show ?thesis
        unfolding unfold by (auto split: option.splits)
    qed
  qed
qed

text \<open>
  C34: \<^verbatim>\<open>bsearch\<close> on an array ordered for the key terminates and returns an element equal to the
  key, or NULL exactly when there is none.
\<close>

theorem bsearch_correct:
  assumes "ordered_for compar key arr"
  shows "case bsearch compar key arr of
      Some i \<Rightarrow> i < length arr \<and> compar key (arr ! i) = 0
    | None \<Rightarrow> \<forall>x\<in>set arr. compar key x \<noteq> 0"
  using bsearch_loop_correct [OF assms, of 0 "length arr"]
  by (auto simp: bsearch_def in_set_conv_nth split: option.splits)

theorem bsearch_correct_witness:
  "ordered_for (\<lambda>k x. k - x) (5 :: int) [1, 3, 5, 9] \<and>
   (\<exists>i. bsearch (\<lambda>k x. k - x) (5 :: int) [1, 3, 5, 9] = Some i \<and> [1, 3, 5, 9] ! i = (5 :: int))"
proof -
  have o: "ordered_for (\<lambda>k x. k - x) (5 :: int) [1, 3, 5, 9]"
    by (simp add: ordered_for_def)
  with bsearch_correct [OF o] show ?thesis
    by (auto split: option.splits)
qed

end
