(* ===== verification/Klib_Qsort.thy ===== *)
theory Klib_Qsort
  imports Relix_Prelude "HOL-Library.Multiset"
begin

text \<open>
  \<^verbatim>\<open>qsort\<close> of \<^verbatim>\<open>lib/qsort.c\<close>, the quicksort of Bentley and McIlroy: insertion sort for short arrays, a
  median as pivot, a partition that collects the elements equal to the pivot at both ends, and a
  recursion on the smaller part. The array is a list of elements, a pointer into it an index, the
  comparison function an argument. The pointers \<^verbatim>\<open>pc\<close> and \<^verbatim>\<open>pd\<close>, which may move below the part they
  delimit, are kept as the index one past them.
\<close>

section \<open>The algorithm\<close>

definition swap :: "nat \<Rightarrow> nat \<Rightarrow> 'a list \<Rightarrow> 'a list" where
  "swap i j xs = xs[i := xs ! j, j := xs ! i]"

fun vecswap :: "nat \<Rightarrow> nat \<Rightarrow> nat \<Rightarrow> 'a list \<Rightarrow> 'a list" where
  "vecswap i j 0 xs = xs"
| "vecswap i j (Suc d) xs = vecswap (i + 1) (j + 1) d (swap i j xs)"

function sift_down :: "('a \<Rightarrow> 'a \<Rightarrow> int) \<Rightarrow> nat \<Rightarrow> nat \<Rightarrow> 'a list \<Rightarrow> 'a list" where
  "sift_down cmp a pl xs =
     (if pl > a \<and> cmp (xs ! (pl - 1)) (xs ! pl) > 0 then sift_down cmp a (pl - 1) (swap pl (pl - 1) xs) else xs)"
  by pat_completeness auto
termination
  by (relation "measure (\<lambda>(_, _, pl, _). pl)") auto

declare sift_down.simps [simp del]

text \<open>\<open>insertion_loop\<close>: \<open>k\<close> elements are left, the next one at \<open>pm\<close>.\<close>

fun insertion_loop :: "('a \<Rightarrow> 'a \<Rightarrow> int) \<Rightarrow> nat \<Rightarrow> nat \<Rightarrow> nat \<Rightarrow> 'a list \<Rightarrow> 'a list" where
  "insertion_loop cmp a pm 0 xs = xs"
| "insertion_loop cmp a pm (Suc k) xs = insertion_loop cmp a (pm + 1) k (sift_down cmp a pm xs)"

definition insertion :: "('a \<Rightarrow> 'a \<Rightarrow> int) \<Rightarrow> nat \<Rightarrow> nat \<Rightarrow> 'a list \<Rightarrow> 'a list" where
  "insertion cmp a n xs = insertion_loop cmp a (a + 1) (n - 1) xs"

definition med3 :: "('a \<Rightarrow> 'a \<Rightarrow> int) \<Rightarrow> 'a list \<Rightarrow> nat \<Rightarrow> nat \<Rightarrow> nat \<Rightarrow> nat" where
  "med3 cmp xs a b c =
     (if cmp (xs ! a) (xs ! b) < 0
      then (if cmp (xs ! b) (xs ! c) < 0 then b else if cmp (xs ! a) (xs ! c) < 0 then c else a)
      else (if cmp (xs ! b) (xs ! c) > 0 then b else if cmp (xs ! a) (xs ! c) < 0 then a else c))"

definition pivot :: "('a \<Rightarrow> 'a \<Rightarrow> int) \<Rightarrow> nat \<Rightarrow> nat \<Rightarrow> 'a list \<Rightarrow> nat" where
  "pivot cmp a n xs =
     (let pm = a + n div 2 in
      if n > 7
      then (let pl = a; pn = a + (n - 1); d = n div 8;
                (pl, pm, pn) = (if n > 40
                  then (med3 cmp xs pl (pl + d) (pl + 2 * d), med3 cmp xs (pm - d) pm (pm + d),
                        med3 cmp xs (pn - 2 * d) (pn - d) pn)
                  else (pl, pm, pn))
            in med3 cmp xs pl pm pn)
      else pm)"

function scan_left ::
  "('a \<Rightarrow> 'a \<Rightarrow> int) \<Rightarrow> nat \<Rightarrow> nat \<Rightarrow> nat \<Rightarrow> nat \<Rightarrow> bool \<Rightarrow> 'a list \<Rightarrow> nat \<times> nat \<times> bool \<times> 'a list" where
  "scan_left cmp a pa pb qc sw xs =
     (if pb < qc \<and> cmp (xs ! pb) (xs ! a) \<le> 0
      then (if cmp (xs ! pb) (xs ! a) = 0 then scan_left cmp a (pa + 1) (pb + 1) qc True (swap pa pb xs)
            else scan_left cmp a pa (pb + 1) qc sw xs)
      else (pa, pb, sw, xs))"
  by pat_completeness auto
termination
  by (relation "measure (\<lambda>(_, _, _, pb, qc, _, _). qc - pb)") auto

function scan_right ::
  "('a \<Rightarrow> 'a \<Rightarrow> int) \<Rightarrow> nat \<Rightarrow> nat \<Rightarrow> nat \<Rightarrow> nat \<Rightarrow> bool \<Rightarrow> 'a list \<Rightarrow> nat \<times> nat \<times> bool \<times> 'a list" where
  "scan_right cmp a pb qc qd sw xs =
     (if pb < qc \<and> cmp (xs ! (qc - 1)) (xs ! a) \<ge> 0
      then (if cmp (xs ! (qc - 1)) (xs ! a) = 0
            then scan_right cmp a pb (qc - 1) (qd - 1) True (swap (qc - 1) (qd - 1) xs)
            else scan_right cmp a pb (qc - 1) qd sw xs)
      else (qc, qd, sw, xs))"
  by pat_completeness auto
termination
  by (relation "measure (\<lambda>(_, _, pb, qc, _, _, _). qc - pb)") auto

declare scan_left.simps [simp del] scan_right.simps [simp del]

lemma scan_left_le: "pb \<le> fst (snd (scan_left cmp a pa pb qc sw xs))"
proof (induction cmp a pa pb qc sw xs rule: scan_left.induct)
  case (1 cmp a pa pb qc sw xs)
  then show ?case
    by (subst scan_left.simps) (simp, linarith)
qed

lemma scan_right_le: "fst (scan_right cmp a pb qc qd sw xs) \<le> qc"
proof (induction cmp a pb qc qd sw xs rule: scan_right.induct)
  case (1 cmp a pb qc qd sw xs)
  then show ?case
    by (subst scan_right.simps) (simp, linarith)
qed

lemma scan_leftD: "(pa', pb', r) = scan_left cmp a pa pb qc sw xs \<Longrightarrow> pb \<le> pb'"
  using scan_left_le [of pb cmp a pa qc sw xs] by (metis fst_conv snd_conv)

lemma scan_rightD: "(qc', r) = scan_right cmp a pb qc qd sw xs \<Longrightarrow> qc' \<le> qc"
  using scan_right_le [of cmp a pb qc qd sw xs] by (metis fst_conv)

function partition_loop ::
  "('a \<Rightarrow> 'a \<Rightarrow> int) \<Rightarrow> nat \<Rightarrow> nat \<Rightarrow> nat \<Rightarrow> nat \<Rightarrow> nat \<Rightarrow> bool \<Rightarrow> 'a list \<Rightarrow>
   nat \<times> nat \<times> nat \<times> nat \<times> bool \<times> 'a list" where
  "partition_loop cmp a pa pb qc qd sw xs =
     (case scan_left cmp a pa pb qc sw xs of (pa, pb, sw, xs) \<Rightarrow>
      case scan_right cmp a pb qc qd sw xs of (qc, qd, sw, xs) \<Rightarrow>
      if pb \<ge> qc then (pa, pb, qc, qd, sw, xs)
      else partition_loop cmp a pa (pb + 1) (qc - 1) qd True (swap pb (qc - 1) xs))"
  by pat_completeness auto
termination
  by (relation "measure (\<lambda>(_, _, _, pb, qc, _, _, _). qc - pb)") (auto dest!: scan_leftD scan_rightD)

declare partition_loop.simps [simp del]

text \<open>Whatever the comparator answers, the four indices of the partition stay inside the array.\<close>

definition sides :: "nat \<Rightarrow> nat \<Rightarrow> nat \<Rightarrow> nat \<Rightarrow> nat \<Rightarrow> nat \<Rightarrow> bool" where
  "sides a h pa pb qc qd \<longleftrightarrow> a < pa \<and> pa \<le> pb \<and> pb \<le> h \<and> a < qc \<and> qc \<le> qd \<and> qd \<le> h"

lemma sides_left: "sides a h pa pb qc qd \<Longrightarrow> pb < qc \<Longrightarrow> sides a h pa (pb + 1) qc qd"
  "sides a h pa pb qc qd \<Longrightarrow> pb < qc \<Longrightarrow> sides a h (pa + 1) (pb + 1) qc qd"
  by (auto simp: sides_def)

lemma sides_right: "sides a h pa pb qc qd \<Longrightarrow> pb < qc \<Longrightarrow> sides a h pa pb (qc - 1) qd"
  "sides a h pa pb qc qd \<Longrightarrow> pb < qc \<Longrightarrow> sides a h pa pb (qc - 1) (qd - 1)"
  by (auto simp: sides_def)

lemma scan_left_sides:
  "(pa', pb', r) = scan_left cmp a pa pb qc sw xs \<Longrightarrow> sides a h pa pb qc qd \<Longrightarrow> sides a h pa' pb' qc qd"
proof (induction cmp a pa pb qc sw xs rule: scan_left.induct)
  case (1 cmp a pa pb qc sw xs)
  from 1(3) show ?case
    by (subst (asm) scan_left.simps)
      (use 1(1,2) sides_left [OF 1(4)] 1(4) in \<open>auto split: if_splits\<close>)
qed

lemma scan_right_sides:
  "(qc', qd', r) = scan_right cmp a pb qc qd sw xs \<Longrightarrow> sides a h pa pb qc qd \<Longrightarrow> sides a h pa pb qc' qd'"
proof (induction cmp a pb qc qd sw xs rule: scan_right.induct)
  case (1 cmp a pb qc qd sw xs)
  from 1(3) show ?case
    by (subst (asm) scan_right.simps)
      (use 1(1,2) sides_right [OF 1(4)] 1(4) in \<open>auto split: if_splits\<close>)
qed

lemma partition_run:
  assumes "(pa1, pb1, sw1, xs1) = scan_left cmp a pa pb qc sw xs"
    and "(qc1, qd1, sw2, xs2) = scan_right cmp a pb1 qc qd sw1 xs1"
  shows "partition_loop cmp a pa pb qc qd sw xs = (if pb1 \<ge> qc1 then (pa1, pb1, qc1, qd1, sw2, xs2)
      else partition_loop cmp a pa1 (pb1 + 1) (qc1 - 1) qd1 True (swap pb1 (qc1 - 1) xs2))"
  by (subst partition_loop.simps) (simp flip: assms)

lemma partition_sides:
  "(pa', pb', qc', qd', r) = partition_loop cmp a pa pb qc qd sw xs \<Longrightarrow> sides a h pa pb qc qd \<Longrightarrow>
   sides a h pa' pb' qc' qd'"
proof (induction cmp a pa pb qc qd sw xs rule: partition_loop.induct)
  case (1 cmp a pa pb qc qd sw xs)
  obtain pa1 pb1 sw1 xs1 where l: "(pa1, pb1, sw1, xs1) = scan_left cmp a pa pb qc sw xs"
    by (metis prod_cases4)
  obtain qc1 qd1 sw2 xs2 where r: "(qc1, qd1, sw2, xs2) = scan_right cmp a pb1 qc qd sw1 xs1"
    by (metis prod_cases4)
  have s: "sides a h pa1 pb1 qc1 qd1" using scan_right_sides [OF r scan_left_sides [OF l 1(3)]] .
  show ?case
  proof (cases "pb1 \<ge> qc1")
    case False
    then have "sides a h pa1 (pb1 + 1) (qc1 - 1) qd1" using s by (auto simp: sides_def)
    then show ?thesis
      using 1(1) [OF l refl refl r refl refl False] 1(2) partition_run [OF l r] False by simp
  qed (use s partition_run [OF l r] 1(2) in auto)
qed

lemma partition_left:
  assumes "\<not> n < 7" and "(pa, y) = partition_loop cmp a (a + 1) (a + 1) (a + n) (a + n) sw xs"
    and "(pb, ya) = y" and "(qc, yb) = ya" and "(qd, yc) = yb" and "d1 = pb - pa"
  shows "d1 < n"
proof -
  have "sides a (a + n) (a + 1) (a + 1) (a + n) (a + n)" using assms(1) by (simp add: sides_def)
  then have "sides a (a + n) pa pb qc qd" using partition_sides assms(2-5) by blast
  then show ?thesis using assms(1,6) by (auto simp: sides_def)
qed

lemma partition_right:
  assumes "\<not> n < 7" and "(pa, y) = partition_loop cmp a (a + 1) (a + 1) (a + n) (a + n) sw xs"
    and "(pb, ya) = y" and "(qc, yb) = ya" and "(qd, yc) = yb" and "d2 = qd - qc"
  shows "d2 < n"
proof -
  have "sides a (a + n) (a + 1) (a + 1) (a + n) (a + n)" using assms(1) by (simp add: sides_def)
  then have "sides a (a + n) pa pb qc qd" using partition_sides assms(2-5) by blast
  then show ?thesis using assms(1,6) by (auto simp: sides_def)
qed

text \<open>
  \<open>qsort_loop\<close> is the body of \<^verbatim>\<open>local_qsort\<close> from its label \<^verbatim>\<open>loop\<close>, the jump back a tail call.
\<close>

function qsort_loop :: "('a \<Rightarrow> 'a \<Rightarrow> int) \<Rightarrow> nat \<Rightarrow> nat \<Rightarrow> 'a list \<Rightarrow> 'a list" where
  "qsort_loop cmp a n xs =
     (if n < 7 then insertion cmp a n xs
      else
        (case partition_loop cmp a (a + 1) (a + 1) (a + n) (a + n) False (swap a (pivot cmp a n xs) xs) of
          (pa, pb, qc, qd, swapped, ys) \<Rightarrow>
           if \<not> swapped then insertion cmp a n ys
           else
             (let pn = a + n;
                  d = min (pa - a) (pb - pa);
                  ys = vecswap a (pb - d) d ys;
                  d = min (qd - qc) (pn - qd);
                  ys = vecswap pb (pn - d) d ys;
                  d1 = pb - pa;
                  d2 = qd - qc
              in if d1 \<le> d2
                 then (let ys = (if d1 > 1 then qsort_loop cmp a d1 ys else ys)
                       in if d2 > 1 then qsort_loop cmp (pn - d2) d2 ys else ys)
                 else (let ys = (if d2 > 1 then qsort_loop cmp (pn - d2) d2 ys else ys)
                       in if d1 > 1 then qsort_loop cmp a d1 ys else ys))))"
  by pat_completeness auto
termination
  by (relation "measure (\<lambda>(_, _, n, _). n)", simp only: wf_measure)
    (unfold in_measure prod.case, (erule (5) partition_left | erule (5) partition_right)+)

declare qsort_loop.simps [simp del]

definition local_qsort :: "('a \<Rightarrow> 'a \<Rightarrow> int) \<Rightarrow> nat \<Rightarrow> nat \<Rightarrow> 'a list \<Rightarrow> 'a list" where
  "local_qsort cmp a n xs = (if n < 2 then xs else qsort_loop cmp a n xs)"

definition qsort :: "('a \<Rightarrow> 'a \<Rightarrow> int) \<Rightarrow> 'a list \<Rightarrow> 'a list" where
  "qsort cmp xs = local_qsort cmp 0 (length xs) xs"

section \<open>Rearrangements of a part of the array\<close>

text \<open>\<open>rearr l h xs ys\<close>: \<open>ys\<close> is \<open>xs\<close> with the elements from \<open>l\<close> up to \<open>h\<close> permuted.\<close>

definition rearr :: "nat \<Rightarrow> nat \<Rightarrow> 'a list \<Rightarrow> 'a list \<Rightarrow> bool" where
  "rearr l h xs ys \<longleftrightarrow> length ys = length xs \<and> mset ys = mset xs \<and>
     (\<forall>i < length xs. i < l \<or> h \<le> i \<longrightarrow> ys ! i = xs ! i)"

lemma rearr_refl [simp, intro]: "rearr l h xs xs"
  by (simp add: rearr_def)

lemma rearr_trans [trans]: "rearr l h xs ys \<Longrightarrow> rearr l h ys zs \<Longrightarrow> rearr l h xs zs"
  by (simp add: rearr_def)

lemma rearr_mono: "rearr l h xs ys \<Longrightarrow> l' \<le> l \<Longrightarrow> h \<le> h' \<Longrightarrow> rearr l' h' xs ys"
  unfolding rearr_def by (meson le_trans less_le_trans)

lemma rearr_length: "rearr l h xs ys \<Longrightarrow> length ys = length xs"
  by (simp add: rearr_def)

lemma rearr_nth: "rearr l h xs ys \<Longrightarrow> i < length xs \<Longrightarrow> i < l \<or> h \<le> i \<Longrightarrow> ys ! i = xs ! i"
  unfolding rearr_def by blast

lemma swap_length [simp]: "length (swap i j xs) = length xs"
  by (simp add: swap_def)

lemma swap_nth: "i < length xs \<Longrightarrow> j < length xs \<Longrightarrow> k < length xs \<Longrightarrow>
    swap i j xs ! k = (if k = i then xs ! j else if k = j then xs ! i else xs ! k)"
  by (auto simp: swap_def nth_list_update)

lemma rearr_swap: "l \<le> i \<Longrightarrow> i < h \<Longrightarrow> l \<le> j \<Longrightarrow> j < h \<Longrightarrow> h \<le> length xs \<Longrightarrow> rearr l h xs (swap i j xs)"
  by (auto simp: rearr_def swap_nth) (simp add: swap_def mset_swap)

text \<open>A property of all elements of the part survives its rearrangement.\<close>

lemma rearr_mset_part:
  assumes "rearr l h xs ys" "l \<le> h" "h \<le> length xs"
  shows "mset (take (h - l) (drop l ys)) = mset (take (h - l) (drop l xs))"
proof -
  have len: "length ys = length xs" using assms(1) by (rule rearr_length)
  have split: "zs = take l zs @ take (h - l) (drop l zs) @ drop h zs" for zs :: "'a list"
    using assms(2) by (metis append_take_drop_id drop_drop le_add_diff_inverse2)
  have "take l ys = take l xs" "drop h ys = drop h xs"
    using assms len by (auto intro!: nth_equalityI simp: rearr_nth [OF assms(1)])
  moreover have "mset ys = mset xs" using assms(1) by (simp add: rearr_def)
  ultimately show ?thesis
    using split [of xs] split [of ys] by (metis add_left_cancel add_right_cancel mset_append)
qed

lemma part_nth_set: "l \<le> h \<Longrightarrow> h \<le> length xs \<Longrightarrow> set (take (h - l) (drop l xs)) = {xs ! i | i. l \<le> i \<and> i < h}"
proof (intro set_eqI iffI)
  fix x assume b: "l \<le> h" "h \<le> length xs" and "x \<in> {xs ! i | i. l \<le> i \<and> i < h}"
  then obtain i where i: "x = xs ! i" "l \<le> i" "i < h" by blast
  then have "take (h - l) (drop l xs) ! (i - l) = x" "i - l < length (take (h - l) (drop l xs))" using b by auto
  then show "x \<in> set (take (h - l) (drop l xs))" by (metis nth_mem)
qed (force simp: in_set_conv_nth)

lemma rearr_all:
  assumes "rearr l h xs ys" "h \<le> length xs" "\<forall>i. l \<le> i \<and> i < h \<longrightarrow> P (xs ! i)" "l \<le> i" "i < h"
  shows "P (ys ! i)"
proof -
  have lh: "l \<le> h" using assms(4,5) by simp
  have "set (take (h - l) (drop l ys)) = set (take (h - l) (drop l xs))"
    using rearr_mset_part [OF assms(1) lh assms(2)] by (metis set_mset_mset)
  then have "ys ! i \<in> {xs ! i | i. l \<le> i \<and> i < h}"
    using part_nth_set [OF lh, of xs] part_nth_set [OF lh, of ys] assms(2,4,5) rearr_length [OF assms(1)] by auto
  then show ?thesis using assms(3) by auto
qed

section \<open>Sorted parts\<close>

text \<open>
  \<open>cmp_ok\<close> is what the C standard asks of a comparison function: it orders the elements, so exchanging
  its arguments exchanges the sign and the order is transitive.
\<close>

definition cmp_ok :: "('a \<Rightarrow> 'a \<Rightarrow> int) \<Rightarrow> bool" where
  "cmp_ok cmp \<longleftrightarrow> (\<forall>x y. cmp x y < 0 \<longleftrightarrow> cmp y x > 0) \<and>
     (\<forall>x y z. cmp x y \<le> 0 \<longrightarrow> cmp y z \<le> 0 \<longrightarrow> cmp x z \<le> 0)"

lemma cmp_refl: "cmp_ok cmp \<Longrightarrow> cmp x x = 0"
  unfolding cmp_ok_def by (metis less_asym linorder_neqE)

lemma cmp_flip: "cmp_ok cmp \<Longrightarrow> cmp x y > 0 \<longleftrightarrow> cmp y x < 0"
  "cmp_ok cmp \<Longrightarrow> cmp x y = 0 \<longleftrightarrow> cmp y x = 0"
  "cmp_ok cmp \<Longrightarrow> cmp x y \<ge> 0 \<longleftrightarrow> cmp y x \<le> 0"
  unfolding cmp_ok_def by (metis, metis less_irrefl linorder_neqE, metis not_less)

lemma cmp_trans: "cmp_ok cmp \<Longrightarrow> cmp x y \<le> 0 \<Longrightarrow> cmp y z \<le> 0 \<Longrightarrow> cmp x z \<le> 0"
  unfolding cmp_ok_def by blast

definition sorted_part :: "('a \<Rightarrow> 'a \<Rightarrow> int) \<Rightarrow> nat \<Rightarrow> nat \<Rightarrow> 'a list \<Rightarrow> bool" where
  "sorted_part cmp l h xs \<longleftrightarrow> (\<forall>i j. l \<le> i \<and> i < j \<and> j < h \<longrightarrow> cmp (xs ! i) (xs ! j) \<le> 0)"

text \<open>\<open>sorted_but\<close>: the part is sorted except that the element at \<open>p\<close> may belong further down.\<close>

definition sorted_but :: "('a \<Rightarrow> 'a \<Rightarrow> int) \<Rightarrow> nat \<Rightarrow> nat \<Rightarrow> nat \<Rightarrow> 'a list \<Rightarrow> bool" where
  "sorted_but cmp l h p xs \<longleftrightarrow> (\<forall>i j. l \<le> i \<and> i < j \<and> j < h \<and> j \<noteq> p \<longrightarrow> cmp (xs ! i) (xs ! j) \<le> 0)"

lemma sorted_but_step:
  assumes ok: "cmp_ok cmp" and s: "sorted_but cmp l h p xs" and p: "l < p" "p < h" "h \<le> length xs"
    and gt: "cmp (xs ! (p - 1)) (xs ! p) > 0"
  shows "sorted_but cmp l h (p - 1) (swap p (p - 1) xs)"
  unfolding sorted_but_def
proof (intro allI impI)
  fix i j assume ij: "l \<le> i \<and> i < j \<and> j < h \<and> j \<noteq> p - 1"
  have old: "cmp (xs ! i') (xs ! j') \<le> 0" if "l \<le> i'" "i' < j'" "j' < h" "j' \<noteq> p" for i' j'
    using s that by (auto simp: sorted_but_def)
  have lt: "cmp (xs ! p) (xs ! (p - 1)) \<le> 0" using gt cmp_flip(1) [OF ok] by (metis less_imp_le)
  consider "j = p" "i = p - 1" | "j = p" "i < p - 1" | "j \<noteq> p" using ij by linarith
  then show "cmp (swap p (p - 1) xs ! i) (swap p (p - 1) xs ! j) \<le> 0"
  proof cases
    case 1 then show ?thesis using lt p by (auto simp: swap_nth)
  next
    case 2 then show ?thesis using old [of i "p - 1"] ij p by (simp add: swap_nth)
  next
    case 3
    then have "j < p - 1 \<or> p < j" using ij by linarith
    then show ?thesis using old [of i j] old [of p j] old [of "p - 1" j] 3 ij p by (auto simp: swap_nth)
  qed
qed

lemma sorted_but_done:
  assumes ok: "cmp_ok cmp" and s: "sorted_but cmp l h p xs" and stop: "p \<le> l \<or> cmp (xs ! (p - 1)) (xs ! p) \<le> 0"
  shows "sorted_part cmp l h xs"
  unfolding sorted_part_def
proof (intro allI impI)
  fix i j assume ij: "l \<le> i \<and> i < j \<and> j < h"
  have old: "cmp (xs ! i') (xs ! j') \<le> 0" if "l \<le> i'" "i' < j'" "j' < h" "j' \<noteq> p" for i' j'
    using s that by (auto simp: sorted_but_def)
  show "cmp (xs ! i) (xs ! j) \<le> 0"
  proof (cases "j = p")
    case True
    then have stop': "cmp (xs ! (p - 1)) (xs ! p) \<le> 0" using stop ij by auto
    show ?thesis
    proof (cases "i = p - 1")
      case False
      then have "i < p - 1" "p - 1 < h" "p - 1 \<noteq> p" using ij True by auto
      then show ?thesis using old [of i "p - 1"] stop' ij True cmp_trans [OF ok] by blast
    qed (use stop' True in simp)
  qed (use old ij in blast)
qed

lemma sift_down_spec:
  assumes "cmp_ok cmp"
  shows "sorted_but cmp a h pl xs \<Longrightarrow> a \<le> pl \<Longrightarrow> pl < h \<Longrightarrow> h \<le> length xs \<Longrightarrow>
    sorted_part cmp a h (sift_down cmp a pl xs) \<and> rearr a h xs (sift_down cmp a pl xs)"
  using assms
proof (induction cmp a pl xs rule: sift_down.induct)
  case (1 cmp a pl xs)
  show ?case
  proof (cases "pl > a \<and> cmp (xs ! (pl - 1)) (xs ! pl) > 0")
    case True
    note step = sorted_but_step [OF 1(6) 1(2) _ 1(4,5)]
    have "rearr a h xs (swap pl (pl - 1) xs)" by (rule rearr_swap) (use True 1 in auto)
    then show ?thesis
      using 1(1) [OF True step] True 1(3-6) by (subst (1 2) sift_down.simps) (auto intro: rearr_trans)
  next
    case False
    then have "sift_down cmp a pl xs = xs" by (subst sift_down.simps) auto
    then show ?thesis using sorted_but_done [OF 1(6) 1(2)] False by auto
  qed
qed

lemma sorted_but_next: "sorted_part cmp a h xs \<Longrightarrow> sorted_but cmp a (Suc h) h xs"
  by (auto simp: sorted_part_def sorted_but_def less_Suc_eq)

lemma insertion_loop_spec:
  "cmp_ok cmp \<Longrightarrow> sorted_part cmp a pm xs \<Longrightarrow> a < pm \<Longrightarrow> pm + k \<le> length xs \<Longrightarrow>
    sorted_part cmp a (pm + k) (insertion_loop cmp a pm k xs) \<and> rearr a (pm + k) xs (insertion_loop cmp a pm k xs)"
proof (induction cmp a pm k xs rule: insertion_loop.induct)
  case (2 cmp a pm k xs)
  let ?ys = "sift_down cmp a pm xs"
  have s: "sorted_part cmp a (Suc pm) ?ys \<and> rearr a (Suc pm) xs ?ys"
    using sift_down_spec [OF 2(2) sorted_but_next [OF 2(3)]] 2(4,5) by simp
  have "rearr a (pm + Suc k) xs ?ys" using s by (auto intro: rearr_mono)
  moreover have "length ?ys = length xs" using s rearr_length by blast
  ultimately show ?case using 2 s by (auto intro: rearr_trans)
qed simp

lemma insertion_spec:
  assumes "cmp_ok cmp" "a + n \<le> length xs"
  shows "sorted_part cmp a (a + n) (insertion cmp a n xs) \<and> rearr a (a + n) xs (insertion cmp a n xs)"
proof (cases n)
  case (Suc k)
  have "sorted_part cmp a (a + 1) xs" by (simp add: sorted_part_def)
  then show ?thesis using insertion_loop_spec [OF assms(1), of a "a + 1" xs k] assms(2) Suc by (simp add: insertion_def)
qed (simp add: insertion_def sorted_part_def)

section \<open>The partition\<close>

text \<open>
  \<open>parted\<close>: the elements equal to the pivot at \<open>a\<close> stand at both ends, those below it from \<open>pa\<close> to \<open>pb\<close>,
  those above it from \<open>qc\<close> to \<open>qd\<close>; what is between \<open>pb\<close> and \<open>qc\<close> has not been looked at.
\<close>

definition parted :: "('a \<Rightarrow> 'a \<Rightarrow> int) \<Rightarrow> nat \<Rightarrow> nat \<Rightarrow> nat \<Rightarrow> nat \<Rightarrow> nat \<Rightarrow> nat \<Rightarrow> 'a list \<Rightarrow> bool" where
  "parted cmp a h pa pb qc qd xs \<longleftrightarrow> sides a h pa pb qc qd \<and> pb \<le> qc \<and> h \<le> length xs \<and>
     (\<forall>i. a \<le> i \<and> i < pa \<longrightarrow> cmp (xs ! i) (xs ! a) = 0) \<and>
     (\<forall>i. pa \<le> i \<and> i < pb \<longrightarrow> cmp (xs ! i) (xs ! a) < 0) \<and>
     (\<forall>i. qc \<le> i \<and> i < qd \<longrightarrow> cmp (xs ! i) (xs ! a) > 0) \<and>
     (\<forall>i. qd \<le> i \<and> i < h \<longrightarrow> cmp (xs ! i) (xs ! a) = 0)"

lemma parted_lt:
  "parted cmp a h pa pb qc qd xs \<Longrightarrow> pb < qc \<Longrightarrow> cmp (xs ! pb) (xs ! a) < 0 \<Longrightarrow> parted cmp a h pa (pb + 1) qc qd xs"
  unfolding parted_def by (auto simp: sides_def less_Suc_eq)

lemma parted_gt:
  assumes "parted cmp a h pa pb qc qd xs" "pb < qc" "cmp (xs ! (qc - 1)) (xs ! a) > 0"
  shows "parted cmp a h pa pb (qc - 1) qd xs"
proof -
  have "cmp (xs ! i) (xs ! a) > 0" if "qc - 1 \<le> i" "i < qd" for i
    using assms that by (cases "i = qc - 1") (auto simp: parted_def)
  then show ?thesis using assms sides_right unfolding parted_def by auto
qed

lemma parted_eq_left:
  assumes p: "parted cmp a h pa pb qc qd xs" and b: "pb < qc" and e: "cmp (xs ! pb) (xs ! a) = 0"
  shows "parted cmp a h (pa + 1) (pb + 1) qc qd (swap pa pb xs)"
proof -
  have o: "a < pa" "pa \<le> pb" "qc \<le> qd" "qd \<le> h" "h \<le> length xs" using p by (auto simp: parted_def sides_def)
  have n: "swap pa pb xs ! i = (if i = pa then xs ! pb else if i = pb then xs ! pa else xs ! i)" if "i < h" for i
    using o b that by (simp add: swap_nth)
  have "cmp (xs ! pa) (xs ! a) < 0" if "pa < pb" using p that by (auto simp: parted_def)
  then show ?thesis using p b e o n sides_left(2) unfolding parted_def by (auto simp: less_Suc_eq)
qed

lemma parted_eq_right:
  assumes p: "parted cmp a h pa pb qc qd xs" and b: "pb < qc" and e: "cmp (xs ! (qc - 1)) (xs ! a) = 0"
  shows "parted cmp a h pa pb (qc - 1) (qd - 1) (swap (qc - 1) (qd - 1) xs)"
proof -
  let ?c = "qc - 1" and ?d = "qd - 1"
  have o: "a < pa" "pa \<le> pb" "qc \<le> qd" "qd \<le> h" "h \<le> length xs" using p by (auto simp: parted_def sides_def)
  have n: "swap ?c ?d xs ! i = (if i = ?c then xs ! ?d else if i = ?d then xs ! ?c else xs ! i)" if "i < h" for i
    using o b that by (simp add: swap_nth)
  have gt: "cmp (xs ! i) (xs ! a) > 0" if "qc \<le> i" "i < qd" for i using p that by (auto simp: parted_def)
  have eq: "cmp (xs ! i) (xs ! a) = 0" if "qd \<le> i" "i < h" for i using p that by (auto simp: parted_def)
  have "cmp (swap ?c ?d xs ! i) (xs ! a) > 0" if "?c \<le> i" "i < ?d" for i
    using n [of i] gt [of i] gt [of ?d] that o b by (cases "i = ?c") auto
  moreover have "cmp (swap ?c ?d xs ! i) (xs ! a) = 0" if "?d \<le> i" "i < h" for i
    using n [of i] eq [of i] e that o b by (cases "i = ?d") auto
  moreover have "swap ?c ?d xs ! i = xs ! i" if "i < ?c" for i using n [of i] that o by auto
  ultimately show ?thesis using p b o sides_right(2) unfolding parted_def by auto
qed

lemma parted_swap:
  assumes ok: "cmp_ok cmp" and p: "parted cmp a h pa pb qc qd xs" and b: "pb < qc"
    and g: "cmp (xs ! pb) (xs ! a) > 0" and l: "cmp (xs ! (qc - 1)) (xs ! a) < 0"
  shows "parted cmp a h pa (pb + 1) (qc - 1) qd (swap pb (qc - 1) xs)"
proof -
  let ?c = "qc - 1"
  have o: "a < pa" "pa \<le> pb" "qc \<le> qd" "qd \<le> h" "h \<le> length xs" using p by (auto simp: parted_def sides_def)
  have c: "pb < ?c" using g l b by (cases "pb = ?c") auto
  have n: "swap pb ?c xs ! i = (if i = pb then xs ! ?c else if i = ?c then xs ! pb else xs ! i)" if "i < h" for i
    using o b that by (simp add: swap_nth)
  have "cmp (swap pb ?c xs ! i) (xs ! a) < 0" if "pa \<le> i" "i < pb + 1" for i
    using n [of i] p l that o c by (cases "i = pb") (auto simp: parted_def)
  moreover have "cmp (swap pb ?c xs ! i) (xs ! a) > 0" if "?c \<le> i" "i < qd" for i
    using n [of i] p g that o c by (cases "i = ?c") (auto simp: parted_def)
  moreover have "swap pb ?c xs ! i = xs ! i" if "i < pa \<or> qd \<le> i" "i < h" for i using n [of i] that o c by auto
  moreover have "sides a h pa (pb + 1) ?c qd" using o c by (auto simp: sides_def)
  ultimately show ?thesis using p c o unfolding parted_def by auto
qed

lemma scan_left_parted:
  "(pa', pb', sw', ys) = scan_left cmp a pa pb qc sw xs \<Longrightarrow> parted cmp a h pa pb qc qd xs \<Longrightarrow>
   parted cmp a h pa' pb' qc qd ys \<and> rearr a h xs ys \<and> (pb' < qc \<longrightarrow> cmp (ys ! pb') (ys ! a) > 0)"
proof (induction cmp a pa pb qc sw xs rule: scan_left.induct)
  case (1 cmp a pa pb qc sw xs)
  have o: "a < pa" "pa \<le> pb" "qc \<le> h" "h \<le> length xs" using 1(4) by (auto simp: parted_def sides_def)
  consider (eq) "pb < qc" "cmp (xs ! pb) (xs ! a) = 0" | (lt) "pb < qc" "cmp (xs ! pb) (xs ! a) < 0"
    | (stop) "\<not> (pb < qc \<and> cmp (xs ! pb) (xs ! a) \<le> 0)" by linarith
  then show ?case
  proof cases
    case eq
    have "rearr a h xs (swap pa pb xs)" by (rule rearr_swap) (use o eq in auto)
    moreover have "(pa', pb', sw', ys) = scan_left cmp a (pa + 1) (pb + 1) qc True (swap pa pb xs)"
      using 1(3) eq by (subst (asm) scan_left.simps) simp
    ultimately show ?thesis using 1(1) [OF _ eq(2)] eq parted_eq_left [OF 1(4) eq] by (auto intro: rearr_trans)
  next
    case lt
    have "(pa', pb', sw', ys) = scan_left cmp a pa (pb + 1) qc sw xs"
      using 1(3) lt by (subst (asm) scan_left.simps) simp
    then show ?thesis using 1(2) lt parted_lt [OF 1(4) lt] by auto
  next
    case stop
    then have "(pa', pb', sw', ys) = (pa, pb, sw, xs)" using 1(3) by (subst (asm) scan_left.simps) auto
    then show ?thesis using 1(4) stop by auto
  qed
qed

lemma scan_right_parted:
  "(qc', qd', sw', ys) = scan_right cmp a pb qc qd sw xs \<Longrightarrow> parted cmp a h pa pb qc qd xs \<Longrightarrow>
   parted cmp a h pa pb qc' qd' ys \<and> rearr pb h xs ys \<and> (pb < qc' \<longrightarrow> cmp (ys ! (qc' - 1)) (ys ! a) < 0 \<and> ys ! pb = xs ! pb)"
proof (induction cmp a pb qc qd sw xs rule: scan_right.induct)
  case (1 cmp a pb qc qd sw xs)
  have o: "a < pa" "pa \<le> pb" "qc \<le> qd" "qd \<le> h" "h \<le> length xs" using 1(4) by (auto simp: parted_def sides_def)
  consider (eq) "pb < qc" "cmp (xs ! (qc - 1)) (xs ! a) = 0" | (gt) "pb < qc" "cmp (xs ! (qc - 1)) (xs ! a) > 0"
    | (stop) "\<not> (pb < qc \<and> cmp (xs ! (qc - 1)) (xs ! a) \<ge> 0)" by linarith
  then show ?case
  proof cases
    case eq
    let ?xs = "swap (qc - 1) (qd - 1) xs"
    have "rearr pb h xs ?xs" by (rule rearr_swap) (use o eq in auto)
    moreover have r: "(qc', qd', sw', ys) = scan_right cmp a pb (qc - 1) (qd - 1) True ?xs"
      using 1(3) eq by (subst (asm) scan_right.simps) simp
    moreover have "pb < qc' \<Longrightarrow> ?xs ! pb = xs ! pb" using scan_rightD [OF r] o eq by (auto simp: swap_nth)
    ultimately show ?thesis using 1(1) [OF _ eq(2)] eq parted_eq_right [OF 1(4) eq] by (auto intro: rearr_trans)
  next
    case gt
    have "(qc', qd', sw', ys) = scan_right cmp a pb (qc - 1) qd sw xs"
      using 1(3) gt by (subst (asm) scan_right.simps) simp
    then show ?thesis using 1(2) gt parted_gt [OF 1(4) gt] by auto
  next
    case stop
    then have "(qc', qd', sw', ys) = (qc, qd, sw, xs)" using 1(3) by (subst (asm) scan_right.simps) auto
    then show ?thesis using 1(4) stop by auto
  qed
qed

lemma partition_parted:
  "(pa', pb', qc', qd', sw', ys) = partition_loop cmp a pa pb qc qd sw xs \<Longrightarrow> cmp_ok cmp \<Longrightarrow>
   parted cmp a h pa pb qc qd xs \<Longrightarrow> parted cmp a h pa' pb' qc' qd' ys \<and> pb' = qc' \<and> rearr a h xs ys"
proof (induction cmp a pa pb qc qd sw xs rule: partition_loop.induct)
  case (1 cmp a pa pb qc qd sw xs)
  obtain pa1 pb1 sw1 xs1 where l: "(pa1, pb1, sw1, xs1) = scan_left cmp a pa pb qc sw xs"
    by (metis prod_cases4)
  obtain qc1 qd1 sw2 xs2 where r: "(qc1, qd1, sw2, xs2) = scan_right cmp a pb1 qc qd sw1 xs1"
    by (metis prod_cases4)
  note pl = scan_left_parted [OF l 1(4)]
  note pr = scan_right_parted [OF r conjunct1 [OF pl]]
  have o: "a < pa1" "pa1 \<le> pb1" "pb1 \<le> qc1" "qc1 \<le> qd1" "qd1 \<le> h" "h \<le> length xs2" using pr by (auto simp: parted_def sides_def)
  have "rearr a h xs xs2" using pl pr o rearr_mono [of pb1 h xs1 xs2 a h] rearr_trans by (metis le_refl less_imp_le less_le_trans)
  show ?case
  proof (cases "pb1 \<ge> qc1")
    case False
    let ?xs3 = "swap pb1 (qc1 - 1) xs2"
    have "rearr a h xs2 ?xs3" by (rule rearr_swap) (use o False in auto)
    moreover have "xs2 ! a = xs1 ! a"
      by (rule rearr_nth [of pb1 h]) (use pr o rearr_length [of pb1 h xs1 xs2] in auto)
    moreover have "qc1 \<le> qc" using scan_rightD [OF r] .
    ultimately have "parted cmp a h pa1 (pb1 + 1) (qc1 - 1) qd1 ?xs3"
      using parted_swap [OF 1(3)] pl pr False by auto
    then show ?thesis
      using 1(1) [OF l refl refl r refl refl False _ 1(3)] 1(2) partition_run [OF l r] False
        \<open>rearr a h xs xs2\<close> \<open>rearr a h xs2 ?xs3\<close> by (auto intro: rearr_trans)
  qed (use pr o partition_run [OF l r] 1(2) \<open>rearr a h xs xs2\<close> in auto)
qed

lemma vecswap_length [simp]: "length (vecswap i j d xs) = length xs"
  by (induction i j d xs rule: vecswap.induct) simp_all

lemma vecswap_nth:
  "i + d \<le> j \<Longrightarrow> j + d \<le> length xs \<Longrightarrow> k < length xs \<Longrightarrow> vecswap i j d xs ! k =
    (if i \<le> k \<and> k < i + d then xs ! (k + (j - i)) else if j \<le> k \<and> k < j + d then xs ! (k - (j - i)) else xs ! k)"
proof (induction i j d xs rule: vecswap.induct)
  case (2 i j d xs)
  consider "k = i" | "k = j" | "k \<noteq> i" "k \<noteq> j" by blast
  then show ?case using 2 by cases (auto simp: swap_nth)
qed simp

lemma rearr_vecswap: "l \<le> i \<Longrightarrow> i + d \<le> j \<Longrightarrow> j + d \<le> h \<Longrightarrow> h \<le> length xs \<Longrightarrow> rearr l h xs (vecswap i j d xs)"
proof (induction i j d xs rule: vecswap.induct)
  case (2 i j d xs)
  have "rearr l h xs (swap i j xs)" by (rule rearr_swap) (use 2 in auto)
  then show ?case using 2 by (auto intro: rearr_trans)
qed simp

text \<open>\<open>threeway\<close>: below the pivot \<open>p\<close> up to \<open>m1\<close>, equal to it up to \<open>m2\<close>, above it up to \<open>h\<close>.\<close>

definition threeway :: "('a \<Rightarrow> 'a \<Rightarrow> int) \<Rightarrow> 'a \<Rightarrow> nat \<Rightarrow> nat \<Rightarrow> nat \<Rightarrow> nat \<Rightarrow> 'a list \<Rightarrow> bool" where
  "threeway cmp p a m1 m2 h xs \<longleftrightarrow> a \<le> m1 \<and> m1 \<le> m2 \<and> m2 \<le> h \<and> h \<le> length xs \<and>
     (\<forall>i. a \<le> i \<and> i < m1 \<longrightarrow> cmp (xs ! i) p < 0) \<and>
     (\<forall>i. m1 \<le> i \<and> i < m2 \<longrightarrow> cmp (xs ! i) p = 0) \<and>
     (\<forall>i. m2 \<le> i \<and> i < h \<longrightarrow> cmp (xs ! i) p > 0)"

text \<open>The two block exchanges bring the elements equal to the pivot to the middle.\<close>

lemma gather_left:
  assumes p: "parted cmp a h pa pb pb qd xs" and d: "d = min (pa - a) (pb - pa)"
  defines "ys \<equiv> vecswap a (pb - d) d xs"
  shows "a \<le> i \<Longrightarrow> i < a + (pb - pa) \<Longrightarrow> cmp (ys ! i) (xs ! a) < 0"
    and "a + (pb - pa) \<le> i \<Longrightarrow> i < pb \<Longrightarrow> cmp (ys ! i) (xs ! a) = 0"
    and "pb \<le> i \<Longrightarrow> i < h \<Longrightarrow> ys ! i = xs ! i"
proof -
  have o: "a < pa" "pa \<le> pb" "pb \<le> h" "h \<le> length xs" "d \<le> pa - a" "d \<le> pb - pa"
    using p d by (auto simp: parted_def sides_def)
  have n: "ys ! i = (if a \<le> i \<and> i < a + d then xs ! (i + (pb - d - a)) else
      if pb - d \<le> i \<and> i < pb then xs ! (i - (pb - d - a)) else xs ! i)" if "i < h" for i
    unfolding ys_def using vecswap_nth [of a d "pb - d" xs i] that o by auto
  have lt: "cmp (xs ! j) (xs ! a) < 0" if "pa \<le> j" "j < pb" for j using p that by (auto simp: parted_def)
  have eq: "cmp (xs ! j) (xs ! a) = 0" if "a \<le> j" "j < pa" for j using p that by (auto simp: parted_def)
  have dd: "d = pa - a \<or> d = pb - pa" using d by linarith
  show "cmp (ys ! i) (xs ! a) < 0" if "a \<le> i" "i < a + (pb - pa)"
    using n [of i] lt [of i] lt [of "i + (pb - d - a)"] dd o that by (auto split: if_splits)
  show "cmp (ys ! i) (xs ! a) = 0" if "a + (pb - pa) \<le> i" "i < pb"
    using n [of i] eq [of i] eq [of "i - (pb - d - a)"] dd o that by (auto split: if_splits)
  show "ys ! i = xs ! i" if "pb \<le> i" "i < h" using n [of i] o that by auto
qed

lemma gather_right:
  assumes o: "pb \<le> qd" "qd \<le> h" "h \<le> length ys" and d: "d = min (qd - pb) (h - qd)"
    and gt: "\<And>j. pb \<le> j \<Longrightarrow> j < qd \<Longrightarrow> cmp (ys ! j) p > 0" and eq: "\<And>j. qd \<le> j \<Longrightarrow> j < h \<Longrightarrow> cmp (ys ! j) p = 0"
  defines "zs \<equiv> vecswap pb (h - d) d ys"
  shows "h - (qd - pb) \<le> i \<Longrightarrow> i < h \<Longrightarrow> cmp (zs ! i) p > 0"
    and "pb \<le> i \<Longrightarrow> i < h - (qd - pb) \<Longrightarrow> cmp (zs ! i) p = 0"
    and "i < pb \<Longrightarrow> zs ! i = ys ! i"
proof -
  have le: "pb + d \<le> h - d" "h - d + d = h" "d \<le> h" using d o by linarith+
  have n: "zs ! i = (if pb \<le> i \<and> i < pb + d then ys ! (i + (h - d - pb)) else
      if h - d \<le> i \<and> i < h then ys ! (i - (h - d - pb)) else ys ! i)" if "i < h" for i
    unfolding zs_def using vecswap_nth [of pb d "h - d" ys i] le o that by simp
  have dd: "d = qd - pb \<and> d \<le> h - qd \<or> d = h - qd \<and> d \<le> qd - pb" using d by linarith
  show "cmp (zs ! i) p > 0" if "h - (qd - pb) \<le> i" "i < h"
    using n [of i] gt [of i] gt [of "i - (h - d - pb)"] dd o that by (auto split: if_splits)
  show "cmp (zs ! i) p = 0" if "pb \<le> i" "i < h - (qd - pb)"
    using n [of i] eq [of i] eq [of "i + (h - d - pb)"] dd o that by (auto split: if_splits)
  show "zs ! i = ys ! i" if "i < pb" using n [of i] o that dd by auto
qed

lemma gather_threeway:
  assumes p: "parted cmp a h pa pb pb qd xs"
    and ys: "ys = vecswap a (pb - d) d xs" "d = min (pa - a) (pb - pa)"
    and zs: "zs = vecswap pb (h - e) e ys" "e = min (qd - pb) (h - qd)"
  shows "threeway cmp (xs ! a) a (a + (pb - pa)) (h - (qd - pb)) h zs \<and> rearr a h xs zs"
proof -
  have o: "a < pa" "pa \<le> pb" "pb \<le> qd" "qd \<le> h" "h \<le> length xs" using p by (auto simp: parted_def sides_def)
  have len: "length ys = length xs" "length zs = length xs" using ys(1) zs(1) by simp_all
  have de: "a + d \<le> pb - d" "pb + e \<le> h - e" "d \<le> pb" "e \<le> h" using ys(2) zs(2) o by linarith+
  note l = gather_left [OF p ys(2), folded ys(1)]
  have gt: "cmp (ys ! j) (xs ! a) > 0" if "pb \<le> j" "j < qd" for j using l(3) [of j] p o that by (auto simp: parted_def)
  have eq: "cmp (ys ! j) (xs ! a) = 0" if "qd \<le> j" "j < h" for j using l(3) [of j] p o that by (auto simp: parted_def)
  note r = gather_right [OF o(3,4) _ zs(2), of ys cmp "xs ! a", folded zs(1), unfolded len, OF o(5) gt eq]
  have "cmp (zs ! i) (xs ! a) < 0" if "a \<le> i" "i < a + (pb - pa)" for i using l(1) [of i] r(3) [of i] that o by auto
  moreover have "cmp (zs ! i) (xs ! a) = 0" if "a + (pb - pa) \<le> i" "i < h - (qd - pb)" for i
    using l(2) [of i] r(3) [of i] r(2) [of i] that o by (cases "i < pb") auto
  moreover have "cmp (zs ! i) (xs ! a) > 0" if "h - (qd - pb) \<le> i" "i < h" for i using r(1) [of i] that by auto
  moreover have "rearr a h xs ys" unfolding ys(1) by (rule rearr_vecswap) (use o de in auto)
  moreover have "rearr a h ys zs" unfolding zs(1) by (rule rearr_vecswap) (use o de len in auto)
  ultimately show ?thesis using o len unfolding threeway_def by (auto intro: rearr_trans)
qed

text \<open>Sorting the outer parts of a three-way partition sorts the whole.\<close>

lemma threeway_rearr_left:
  assumes "threeway cmp p a m1 m2 h xs" "rearr a m1 xs ys"
  shows "threeway cmp p a m1 m2 h ys"
proof -
  have "cmp (ys ! i) p < 0" if "a \<le> i" "i < m1" for i
    by (rule rearr_all [OF assms(2), of "\<lambda>x. cmp x p < 0"]) (use assms(1) that in \<open>auto simp: threeway_def\<close>)
  moreover have "ys ! i = xs ! i" if "m1 \<le> i" "i < h" for i
    by (rule rearr_nth [OF assms(2)]) (use assms(1) that in \<open>auto simp: threeway_def\<close>)
  ultimately show ?thesis using assms(1) rearr_length [OF assms(2)] by (auto simp: threeway_def)
qed

lemma threeway_rearr_right:
  assumes "threeway cmp p a m1 m2 h xs" "rearr m2 h xs ys"
  shows "threeway cmp p a m1 m2 h ys"
proof -
  have "cmp (ys ! i) p > 0" if "m2 \<le> i" "i < h" for i
    by (rule rearr_all [OF assms(2), of "\<lambda>x. cmp x p > 0"]) (use assms(1) that in \<open>auto simp: threeway_def\<close>)
  moreover have "ys ! i = xs ! i" if "i < m2" for i
    by (rule rearr_nth [OF assms(2)]) (use assms(1) that in \<open>auto simp: threeway_def\<close>)
  ultimately show ?thesis using assms(1) rearr_length [OF assms(2)] by (auto simp: threeway_def)
qed

lemma threeway_sorted:
  assumes ok: "cmp_ok cmp" and t: "threeway cmp p a m1 m2 h xs"
    and s: "sorted_part cmp a m1 xs" "sorted_part cmp m2 h xs"
  shows "sorted_part cmp a h xs"
  unfolding sorted_part_def
proof (intro allI impI)
  fix i j assume ij: "a \<le> i \<and> i < j \<and> j < h"
  consider "j < m1" | "m2 \<le> i" | "i < m2" "m1 \<le> j" by linarith
  then show "cmp (xs ! i) (xs ! j) \<le> 0"
  proof cases
    case 3
    have "cmp (xs ! i) p \<le> 0" using t ij 3 by (cases "i < m1") (auto simp: threeway_def less_imp_le)
    moreover have "cmp p (xs ! j) \<le> 0"
      using t ij 3 cmp_flip(3) [OF ok, of "xs ! j" p] by (cases "j < m2") (auto simp: threeway_def less_imp_le)
    ultimately show ?thesis using cmp_trans [OF ok] by blast
  qed (use s ij in \<open>auto simp: sorted_part_def\<close>)
qed

lemma sorted_part_rearr:
  assumes "sorted_part cmp l h xs" "rearr l' h' xs ys" "h \<le> length xs" "h \<le> l' \<or> h' \<le> l"
  shows "sorted_part cmp l h ys"
proof -
  have "ys ! i = xs ! i" if "l \<le> i" "i < h" for i
    by (rule rearr_nth [OF assms(2)]) (use assms(3,4) that in auto)
  then show ?thesis using assms(1) by (auto simp: sorted_part_def)
qed

lemma med3_in: "i \<in> A \<Longrightarrow> j \<in> A \<Longrightarrow> k \<in> A \<Longrightarrow> med3 cmp xs i j k \<in> A"
  by (simp add: med3_def)

lemma pivot_in_part:
  assumes n: "7 \<le> n"
  shows "pivot cmp a n xs \<in> {a..<a + n}"
proof -
  let ?d = "n div 8" and ?m = "a + n div 2" and ?n = "a + (n - 1)"
  have "8 * ?d \<le> n" "2 * (n div 2) \<le> n" by simp_all
  moreover have "n \<le> 2 * (n div 2) + 1" by linarith
  ultimately have b: "a + 2 * ?d < a + n" "a \<le> ?m - ?d" "?m + ?d < a + n" "a \<le> ?n - 2 * ?d" "?n < a + n"
    using n by linarith+
  have "a \<le> ?n" using n by simp
  have "a \<le> ?n - ?d" "a + ?d < a + n" "?m < a + n" "?m - ?d < a + n" "?n - ?d < a + n" "?n - 2 * ?d < a + n"
    using b n by linarith+
  then have "{a, a + ?d, a + 2 * ?d, ?m - ?d, ?m, ?m + ?d, ?n - 2 * ?d, ?n - ?d, ?n} \<subseteq> {a..<a + n}"
    using b \<open>a \<le> ?n\<close> by simp
  then show ?thesis
    unfolding pivot_def Let_def by (simp only: insert_subset prod.case med3_in simp_thms split: if_split)
qed

section \<open>Correctness\<close>

definition sorts :: "('a \<Rightarrow> 'a \<Rightarrow> int) \<Rightarrow> nat \<Rightarrow> nat \<Rightarrow> 'a list \<Rightarrow> 'a list \<Rightarrow> bool" where
  "sorts cmp a h xs ys \<longleftrightarrow> sorted_part cmp a h ys \<and> rearr a h xs ys"

lemma sorts_short: "h \<le> a + 1 \<Longrightarrow> sorts cmp a h xs xs"
  by (auto simp: sorts_def sorted_part_def)

lemma sorts_both:
  assumes ok: "cmp_ok cmp" and t: "threeway cmp p a m1 m2 h xs"
    and one: "sorts cmp a m1 xs ys" and two: "sorts cmp m2 h ys zs"
  shows "sorts cmp a h xs zs"
proof -
  have t1: "threeway cmp p a m1 m2 h ys" using threeway_rearr_left [OF t] one by (simp add: sorts_def)
  have t2: "threeway cmp p a m1 m2 h zs" using threeway_rearr_right [OF t1] two by (simp add: sorts_def)
  have "sorted_part cmp a m1 zs"
    by (rule sorted_part_rearr [of _ _ _ ys m2 h]) (use one two t1 in \<open>auto simp: sorts_def threeway_def\<close>)
  then have "sorted_part cmp a h zs" using threeway_sorted [OF ok t2] two by (simp add: sorts_def)
  moreover have "rearr a h xs ys" "rearr a h ys zs"
    using one two t by (auto simp: sorts_def threeway_def intro: rearr_mono)
  ultimately show ?thesis by (auto simp: sorts_def intro: rearr_trans)
qed

lemma sorts_both_right:
  assumes ok: "cmp_ok cmp" and t: "threeway cmp p a m1 m2 h xs"
    and one: "sorts cmp m2 h xs ys" and two: "sorts cmp a m1 ys zs"
  shows "sorts cmp a h xs zs"
proof -
  have t1: "threeway cmp p a m1 m2 h ys" using threeway_rearr_right [OF t] one by (simp add: sorts_def)
  have t2: "threeway cmp p a m1 m2 h zs" using threeway_rearr_left [OF t1] two by (simp add: sorts_def)
  have "sorted_part cmp m2 h zs"
    by (rule sorted_part_rearr [of _ _ _ ys a m1]) (use one two t1 in \<open>auto simp: sorts_def threeway_def\<close>)
  then have "sorted_part cmp a h zs" using threeway_sorted [OF ok t2] two by (simp add: sorts_def)
  moreover have "rearr a h xs ys" "rearr a h ys zs"
    using one two t by (auto simp: sorts_def threeway_def intro: rearr_mono)
  ultimately show ?thesis by (auto simp: sorts_def intro: rearr_trans)
qed

lemma sorts_parts:
  assumes "cmp_ok cmp" "threeway cmp p a m1 m2 h xs"
    and f: "\<And>us. length us = length xs \<Longrightarrow> sorts cmp a m1 us (f us)"
    and g: "\<And>us. length us = length xs \<Longrightarrow> sorts cmp m2 h us (g us)"
  shows "sorts cmp a h xs (if c then g (f xs) else f (g xs))"
proof -
  have "length (f xs) = length xs" "length (g xs) = length xs"
    using f [of xs] g [of xs] by (simp_all add: sorts_def rearr_def)
  then show ?thesis using sorts_both [OF assms(1,2) f g] sorts_both_right [OF assms(1,2) g f] by simp
qed

lemma parted_start:
  assumes "cmp_ok cmp" "7 \<le> n" "a + n \<le> length xs"
  shows "parted cmp a (a + n) (a + 1) (a + 1) (a + n) (a + n) xs"
  using assms by (auto simp: parted_def sides_def cmp_refl less_Suc_eq le_less_Suc_eq)

lemma qsort_partition:
  assumes "cmp_ok cmp" "7 \<le> n" "a + n \<le> length xs"
    and run: "(pa, pb, qc, qd, sw, ys) =
      partition_loop cmp a (a + 1) (a + 1) (a + n) (a + n) False (swap a (pivot cmp a n xs) xs)"
  shows "parted cmp a (a + n) pa pb pb qd ys \<and> qc = pb \<and> rearr a (a + n) xs ys"
proof -
  have "rearr a (a + n) xs (swap a (pivot cmp a n xs) xs)"
    by (rule rearr_swap) (use pivot_in_part [OF assms(2), of cmp a xs] assms(2,3) in auto)
  then show ?thesis
    using partition_parted [OF run assms(1) parted_start [OF assms(1,2)]] assms(3) by (auto intro: rearr_trans)
qed

lemma qsort_loop_spec: "cmp_ok cmp \<Longrightarrow> a + n \<le> length xs \<Longrightarrow> sorts cmp a (a + n) xs (qsort_loop cmp a n xs)"
proof (induction n arbitrary: a xs rule: less_induct)
  case (less n)
  show ?case
  proof (cases "n < 7")
    case True
    then show ?thesis using insertion_spec [OF less(2,3)] by (subst qsort_loop.simps) (simp add: sorts_def)
  next
    case False
    let ?xs = "swap a (pivot cmp a n xs) xs"
    have n7: "7 \<le> n" using False by simp
    obtain pa pb qc qd sw ys
      where run: "(pa, pb, qc, qd, sw, ys) = partition_loop cmp a (a + 1) (a + 1) (a + n) (a + n) False ?xs"
      by (metis prod_cases6)
    have p: "parted cmp a (a + n) pa pb pb qd ys" and [simp]: "qc = pb" and r2: "rearr a (a + n) xs ys"
      using qsort_partition [OF less(2) n7 less(3) run] by auto
    have ly: "length ys = length xs" using rearr_length [OF r2] .
    have o: "a < pa" "pa \<le> pb" "pb \<le> qd" "qd \<le> a + n" using p by (auto simp: parted_def sides_def)
    show ?thesis
    proof (cases sw)
      case False
      then have "qsort_loop cmp a n xs = insertion cmp a n ys"
        using n7 by (subst qsort_loop.simps) (simp add: run [symmetric, simplified])
      then show ?thesis using insertion_spec [OF less(2), of a n ys] less(3) ly r2 by (auto simp: sorts_def intro: rearr_trans)
    next
      case True
      define d where "d = min (pa - a) (pb - pa)"
      define ws where "ws = vecswap a (pb - d) d ys"
      define e where "e = min (qd - pb) (a + n - qd)"
      define zs where "zs = vecswap pb (a + n - e) e ws"
      note g = gather_threeway [OF p ws_def d_def zs_def e_def]
      then have t: "threeway cmp (ys ! a) a (a + (pb - pa)) (a + n - (qd - pb)) (a + n) zs" and rz: "rearr a (a + n) ys zs"
        by simp_all
      define part where "part m l us = (if m > 1 then qsort_loop cmp l m us else us)" for m l us
      have part: "sorts cmp l (l + m) us (part m l us)" if "m < n" "l + m \<le> length us" for m l us
        using less(1) [OF that(1) less(2) that(2)] sorts_short [of "l + m" l] by (auto simp: part_def)
      have res: "qsort_loop cmp a n xs = (if pb - pa \<le> qd - pb
          then part (qd - pb) (a + n - (qd - pb)) (part (pb - pa) a zs)
          else part (pb - pa) a (part (qd - pb) (a + n - (qd - pb)) zs))"
        unfolding part_def zs_def ws_def d_def e_def
        using n7 True by (subst qsort_loop.simps) (simp add: run [symmetric, simplified] Let_def)
      have lz: "length zs = length xs" using rearr_length [OF rz] ly by simp
      have b: "pb - pa < n" "qd - pb < n" "a + (pb - pa) \<le> length xs" "a + n - (qd - pb) + (qd - pb) = a + n"
        using o less(3) by linarith+
      have "sorts cmp a (a + n) zs (qsort_loop cmp a n xs)"
        unfolding res by (rule sorts_parts [OF less(2) t])
          (use part [OF b(1), of a] part [OF b(2), of "a + n - (qd - pb)"] b(3,4) less(3) lz in simp_all)
      then show ?thesis using r2 rz by (auto simp: sorts_def intro: rearr_trans)
    qed
  qed
qed

text \<open>
  C29: \<^verbatim>\<open>qsort\<close> sorts: for every comparison function that orders the elements, every element of the array
  it leaves is at most each later one, and the array holds the same elements as often as before.
\<close>

theorem qsort_sorts:
  assumes "cmp_ok cmp"
  shows "sorted_wrt (\<lambda>x y. cmp x y \<le> 0) (qsort cmp xs) \<and> mset (qsort cmp xs) = mset xs"
proof -
  have "sorts cmp 0 (length xs) xs (qsort cmp xs)"
    using qsort_loop_spec [OF assms, of 0 "length xs" xs] sorts_short [of "length xs" 0]
    by (auto simp: qsort_def local_qsort_def)
  then show ?thesis
    by (auto simp: sorts_def sorted_part_def rearr_def sorted_wrt_iff_nth_less)
qed

theorem qsort_sorts_witness:
  "cmp_ok (\<lambda>x y :: int. x - y) \<and> qsort (\<lambda>x y :: int. x - y) [5, 3, 9, 1, 7, 2, 8, 2] = [1, 2, 2, 3, 5, 7, 8, 9] \<and>
   sorted_wrt (\<lambda>x y. x - y \<le> 0) (qsort (\<lambda>x y :: int. x - y) [5, 3, 9, 1, 7, 2, 8, 2])"
proof -
  have ok: "cmp_ok (\<lambda>x y :: int. x - y)" by (auto simp: cmp_ok_def)
  moreover have "qsort (\<lambda>x y :: int. x - y) [5, 3, 9, 1, 7, 2, 8, 2] = [1, 2, 2, 3, 5, 7, 8, 9]" by code_simp
  ultimately show ?thesis using qsort_sorts [OF ok, of "[5, 3, 9, 1, 7, 2, 8, 2]"] by simp
qed

end
