(* ===== verification/Klib_Print.thy ===== *)
theory Klib_Print
  imports Klib_String
begin

text \<open>
  The formatted output of \<^verbatim>\<open>kernel/kernel_print.c\<close>: numbers in a base with their padding, strings, and the
  interpreter of format strings. The characters given to the output function are collected in a list;
  the variable arguments are a list of register values and strings. The result \<^verbatim>\<open>None\<close> is an access outside
  an array or a missing argument. The lock taken around a whole message does not appear here.
\<close>

section \<open>Numbers\<close>

definition FLAG_PADZERO :: u32 where "FLAG_PADZERO = 1"
definition FLAG_ALTFORM :: u32 where "FLAG_ALTFORM = 2"
definition FLAG_LJUST :: u32 where "FLAG_LJUST = 4"
definition FLAG_BLANK :: u32 where "FLAG_BLANK = 8"
definition FLAG_SIGN :: u32 where "FLAG_SIGN = 16"
definition FLAG_LONG :: u32 where "FLAG_LONG = 32"
definition FLAG_PRECISION :: u32 where "FLAG_PRECISION = 64"

lemmas flag_defs = FLAG_PADZERO_def FLAG_ALTFORM_def FLAG_LJUST_def FLAG_BLANK_def FLAG_SIGN_def FLAG_LONG_def
  FLAG_PRECISION_def

definition IS_SET :: "u32 \<Rightarrow> u32 \<Rightarrow> bool" where
  "IS_SET x flag \<longleftrightarrow> x AND flag = flag"

definition digit :: "nat \<Rightarrow> byte" where
  "digit d = of_nat (if d < 10 then 48 + d else 87 + d)"

text \<open>The loops divide until nothing is left; with base 1, which no caller passes, they would not end.\<close>

lemma div_shrinks: "0 < x div base \<Longrightarrow> base \<noteq> Suc 0 \<Longrightarrow> x div base < (x :: nat)"
  by (cases "base = 0") (auto intro: div_less_dividend simp: div_greater_zero_iff)

function numlen :: "nat \<Rightarrow> nat \<Rightarrow> nat" where
  "numlen base x = (if x div base \<noteq> 0 \<and> base \<noteq> 1 then 1 + numlen base (x div base) else 1)"
  by pat_completeness auto
termination
  by (relation "measure (\<lambda>(_, x). x)") (auto simp: div_shrinks)

function put_digits :: "nat \<Rightarrow> nat \<Rightarrow> byte list \<Rightarrow> byte list" where
  "put_digits base x buf =
     (if x div base \<noteq> 0 \<and> base \<noteq> 1 then put_digits base (x div base) (buf @ [digit (x mod base)])
      else buf @ [digit (x mod base)])"
  by pat_completeness auto
termination
  by (relation "measure (\<lambda>(_, x, _). x)") (auto simp: div_shrinks)

declare numlen.simps [simp del] put_digits.simps [simp del]

text \<open>\<open>pad_to c n buf\<close>: append \<open>c\<close> while the buffer is shorter than \<open>n\<close>.\<close>

definition pad_to :: "byte \<Rightarrow> int \<Rightarrow> byte list \<Rightarrow> byte list" where
  "pad_to c n buf = buf @ replicate (nat n - length buf) c"

definition alt_padding :: "u32 \<Rightarrow> nat \<Rightarrow> nat \<Rightarrow> int \<Rightarrow> int" where
  "alt_padding flags base x padding =
     (if IS_SET flags FLAG_ALTFORM
      then (if base = 16 \<or> base = 2 then padding - 2
            else if base = 8 \<and> x \<noteq> 0 \<and> padding < int (numlen base x) then padding + 1 else padding)
      else padding)"

definition printint :: "u64 \<Rightarrow> nat \<Rightarrow> bool \<Rightarrow> u32 \<Rightarrow> int \<Rightarrow> byte list option" where
  "printint xx base sg flags padding =
     (let neg = (sg \<and> sint xx < 0);
          x = unat (if neg then - xx else xx);
          padding = alt_padding flags base x padding;
          buf = (if IS_SET flags FLAG_LJUST \<and> \<not> IS_SET flags FLAG_PRECISION
                 then pad_to 32 (padding - int (numlen base x)) [] else []);
          buf = put_digits base x buf;
          buf = (if IS_SET flags FLAG_PADZERO then pad_to 48 padding buf else buf);
          buf = (if IS_SET flags FLAG_ALTFORM \<and> (x \<noteq> 0 \<or> IS_SET flags FLAG_PRECISION \<or> IS_SET flags FLAG_PADZERO)
                 then (if base = 16 then buf @ [120] else if base = 2 then buf @ [98] else buf) @ [48] else buf);
          buf = (if neg then buf @ [45] else if IS_SET flags FLAG_SIGN then buf @ [43] else buf);
          buf = (if IS_SET flags FLAG_BLANK then pad_to 32 padding buf
                 else if IS_SET flags FLAG_PRECISION then pad_to 48 padding buf else buf);
          buf = (if \<not> IS_SET flags FLAG_LJUST \<and> \<not> IS_SET flags FLAG_PADZERO \<and> padding \<noteq> 0
                 then pad_to 32 padding buf else buf)
      in if length buf \<le> 4096 then Some (rev buf) else None)"

section \<open>Format strings\<close>

datatype va = VaWord u64 | VaStr "byte list option"

text \<open>\<open>print_string\<close>: the length is a \<^verbatim>\<open>size_t\<close>, so the width is converted to 64 bits before they are compared.\<close>

definition print_string :: "byte list option \<Rightarrow> u32 \<Rightarrow> int \<Rightarrow> byte list option" where
  "print_string s flags str_pad =
     (let s = (case s of None \<Rightarrow> [40, 110, 117, 108, 108, 41, 0] | Some s \<Rightarrow> s);
          w = (word_of_int str_pad :: u64)
      in case strlen s of
           None \<Rightarrow> None
         | Some len \<Rightarrow>
             Some (takeWhile (\<lambda>c. c \<noteq> 0) s @
               (if IS_SET flags FLAG_LJUST \<and> of_nat len < w then replicate (unat (w - of_nat len)) 32 else [])))"

fun va_word :: "va list \<Rightarrow> (u64 \<times> va list) option" where
  "va_word (VaWord w # args) = Some (w, args)"
| "va_word _ = None"

fun va_str :: "va list \<Rightarrow> (byte list option \<times> va list) option" where
  "va_str (VaStr s # args) = Some (s, args)"
| "va_str _ = None"

text \<open>The characters between \<^verbatim>\<open>%\<close> and the conversion: new flags and width, whether the next character is used up, the arguments left.\<close>

definition is_flag :: "byte \<Rightarrow> bool" where
  "is_flag c \<longleftrightarrow> c = 46 \<or> (48 \<le> c \<and> c \<le> 57) \<or> c = 42 \<or> c = 35 \<or> c = 45 \<or> c = 32 \<or> c = 43 \<or> c = 122 \<or> c = 108"

definition format_flag :: "byte \<Rightarrow> byte \<Rightarrow> u32 \<Rightarrow> int \<Rightarrow> va list \<Rightarrow> (u32 \<times> int \<times> bool \<times> va list) option" where
  "format_flag c nextc flags str_pad args =
     (if c = 46 \<and> str_pad = 0 then Some (flags OR FLAG_PRECISION, str_pad, False, args)
      else if c = 48 \<and> str_pad = 0 then Some (flags OR FLAG_PADZERO, str_pad, False, args)
      else if c = 46 \<or> (48 \<le> c \<and> c \<le> 57) then Some (flags, str_pad * 10 + (uint c - 48), False, args)
      else if c = 42 then (case va_word args of None \<Rightarrow> None
        | Some (w, args) \<Rightarrow> Some (flags, sint (ucast w :: u32), False, args))
      else if c = 35 then Some (flags OR FLAG_ALTFORM, str_pad, False, args)
      else if c = 45
      then (let flags = flags OR FLAG_LJUST;
                flags = (if IS_SET flags FLAG_PADZERO then flags XOR FLAG_PADZERO else flags)
            in if nextc \<noteq> 0 \<and> sint nextc - 48 \<ge> 0 then Some (flags, sint nextc - 48, True, args)
               else Some (flags, str_pad, False, args))
      else if c = 32 then Some (flags OR FLAG_BLANK, str_pad, False, args)
      else if c = 43 then Some (flags OR FLAG_SIGN, str_pad, False, args)
      else Some (flags OR FLAG_LONG, str_pad, False, args))"

text \<open>The conversions. An \<^verbatim>\<open>int\<close> argument is the low half of its register, extended with or without its sign.\<close>

definition narrow :: "bool \<Rightarrow> u32 \<Rightarrow> u64 \<Rightarrow> u64" where
  "narrow sg flags w =
     (if IS_SET flags FLAG_LONG then w else if sg then scast (ucast w :: u32) else ucast (ucast w :: u32))"

definition format_number :: "nat \<Rightarrow> bool \<Rightarrow> u32 \<Rightarrow> int \<Rightarrow> (u64 \<Rightarrow> u64) \<Rightarrow> va list \<Rightarrow> (byte list \<times> va list) option" where
  "format_number base sg flags str_pad f args =
     (case va_word args of None \<Rightarrow> None
      | Some (w, args) \<Rightarrow> (case printint (f w) base sg flags str_pad of None \<Rightarrow> None | Some out \<Rightarrow> Some (out, args)))"

definition format_conv :: "byte \<Rightarrow> u32 \<Rightarrow> int \<Rightarrow> va list \<Rightarrow> (byte list \<times> va list) option" where
  "format_conv c flags str_pad args =
     (if c = 105 \<or> c = 100 then format_number 10 True flags str_pad (narrow True flags) args
      else if c = 98 then format_number 2 False flags str_pad (narrow False flags) args
      else if c = 117 then format_number 10 False flags str_pad (narrow False flags) args
      else if c = 120 then format_number 16 False flags str_pad (narrow False flags) args
      else if c = 112 then format_number 16 False (flags OR FLAG_ALTFORM) str_pad (\<lambda>w. w) args
      else if c = 111 then format_number 8 False flags str_pad (\<lambda>w. scast (ucast w :: u32)) args
      else if c = 115 then (case va_str args of None \<Rightarrow> None
        | Some (s, args) \<Rightarrow> (case print_string s flags str_pad of None \<Rightarrow> None | Some out \<Rightarrow> Some (out, args)))
      else if c = 99 then (case va_word args of None \<Rightarrow> None | Some (w, args) \<Rightarrow> Some ([ucast w], args))
      else if c = 37 then Some ([c], args)
      else Some ([37, c], args))"

text \<open>
  The loop over the format string \<open>fmt\<close>, which ends in 0: \<open>lim\<close> is \<^verbatim>\<open>print_n_chars\<close>, \<open>state\<close> whether a \<^verbatim>\<open>%\<close> has been
  read, \<open>ansi\<close> the function that consumes an escape sequence, if there is one.
\<close>

function vprintf_loop ::
  "(byte list \<Rightarrow> nat) option \<Rightarrow> byte list \<Rightarrow> nat \<Rightarrow> nat \<Rightarrow> bool \<Rightarrow> u32 \<Rightarrow> int \<Rightarrow> va list \<Rightarrow> byte list \<Rightarrow>
   (nat \<times> byte list) option" where
  "vprintf_loop ansi fmt lim i state flags str_pad args out =
     (if i \<ge> length fmt then None
      else if fmt ! i = 0 \<or> i \<ge> lim then Some (i, out)
      else if \<not> state
      then (if fmt ! i = 37 then vprintf_loop ansi fmt lim (i + 1) True flags str_pad args out
            else if fmt ! i = 27 \<and> ansi \<noteq> None
            then vprintf_loop ansi fmt lim (i + the ansi (drop i fmt) + 1) False flags str_pad args out
            else vprintf_loop ansi fmt lim (i + 1) False flags str_pad args (out @ [fmt ! i]))
      else if is_flag (fmt ! i)
      then (if i + 1 \<ge> length fmt then None
            else case format_flag (fmt ! i) (fmt ! (i + 1)) flags str_pad args of
              None \<Rightarrow> None
            | Some (flags, str_pad, used, args) \<Rightarrow>
                vprintf_loop ansi fmt lim (i + (if used then 2 else 1)) True flags str_pad args out)
      else case format_conv (fmt ! i) flags str_pad args of
             None \<Rightarrow> None
           | Some (s, args) \<Rightarrow> vprintf_loop ansi fmt lim (i + 1) False 0 0 args (out @ s))"
  by pat_completeness auto
termination
  by (relation "measure (\<lambda>(_, fmt, _, i, _). length fmt - i)") auto

declare vprintf_loop.simps [simp del]

definition kernel_vprintf_template ::
  "(byte list \<Rightarrow> nat) option \<Rightarrow> byte list \<Rightarrow> va list \<Rightarrow> nat \<Rightarrow> (nat \<times> byte list) option" where
  "kernel_vprintf_template ansi fmt args print_n_chars = vprintf_loop ansi fmt print_n_chars 0 False 0 0 args []"

end
