(* ===== verification/Libc_Stdlib.thy ===== *)
theory Libc_Stdlib
  imports Klib_Print Klib_Ctype
begin

text \<open>
  The number conversions, the generator of pseudo-random numbers and the exit handlers of
  \<^verbatim>\<open>userspace/libc/stdlib.c\<close>. Strings are byte lists that end in 0; a conversion that runs past the end of its
  list gives \<^verbatim>\<open>None\<close>. The result of a conversion is the machine word that holds it.
\<close>

section \<open>Conversion of strings to numbers\<close>

definition is_dec :: "byte \<Rightarrow> bool" where
  "is_dec c \<longleftrightarrow> 48 \<le> c \<and> c \<le> 57"

fun atoi_loop :: "u32 \<Rightarrow> byte list \<Rightarrow> u32 option" where
  "atoi_loop n [] = None"
| "atoi_loop n (c # s) = (if is_dec c then atoi_loop (n * 10 + ucast c - 48) s else Some n)"

definition atoi :: "byte list \<Rightarrow> u32 option" where
  "atoi s = atoi_loop 0 s"

text \<open>The parts of \<^verbatim>\<open>strtoll\<close>: each takes the index reached in the string.\<close>

function skip_space :: "byte list \<Rightarrow> nat \<Rightarrow> nat option" where
  "skip_space s i =
     (if i \<ge> length s then None else if isspace (sint (s ! i)) then skip_space s (i + 1) else Some i)"
  by pat_completeness auto
termination
  by (relation "measure (\<lambda>(s, i). length s - i)") auto

declare skip_space.simps [simp del]

definition strtoll_sign :: "byte list \<Rightarrow> nat \<Rightarrow> nat \<times> bool" where
  "strtoll_sign s i = (if s ! i = 43 then (i + 1, True) else if s ! i = 45 then (i + 1, False) else (i, True))"

definition strtoll_base :: "byte list \<Rightarrow> nat \<Rightarrow> int \<Rightarrow> (nat \<times> int) option" where
  "strtoll_base s i base =
     (if base = 0 \<or> base = 16
      then (case (strncmp (drop i s) [48, 120, 0] 2, strncmp (drop i s) [48, 88, 0] 2, strncmp (drop i s) [48, 0] 1) of
              (Some lower, Some upper, Some zero) \<Rightarrow>
                if lower = 0 \<or> upper = 0 then Some (i + 2, 16) else if zero = 0 then Some (i + 1, 8) else Some (i, 10)
            | _ \<Rightarrow> None)
      else Some (i, base))"

function dec_loop :: "byte list \<Rightarrow> nat \<Rightarrow> int \<Rightarrow> u64 \<Rightarrow> (u64 \<times> nat) option" where
  "dec_loop s i base num =
     (if i \<ge> length s then None
      else if is_dec (s ! i) then dec_loop s (i + 1) base (num * word_of_int base + ucast (s ! i) - 48) else Some (num, i))"
  by pat_completeness auto
termination
  by (relation "measure (\<lambda>(s, i, _). length s - i)") auto

definition is_low :: "byte \<Rightarrow> bool" where "is_low c \<longleftrightarrow> 97 \<le> c \<and> c \<le> 122"
definition is_up :: "byte \<Rightarrow> bool" where "is_up c \<longleftrightarrow> 65 \<le> c \<and> c \<le> 90"

text \<open>One turn of the loop for bases above 10 takes a digit and, at the index then reached, a letter.\<close>

definition alnum_digit :: "byte list \<Rightarrow> nat \<Rightarrow> int \<Rightarrow> u64 \<Rightarrow> u64 \<times> nat" where
  "alnum_digit s i base num =
     (if is_dec (s ! i) then (num * word_of_int base + ucast (s ! i) - 48, i + 1) else (num, i))"

definition alnum_letter :: "byte list \<Rightarrow> nat \<Rightarrow> int \<Rightarrow> u64 \<Rightarrow> u64 \<times> nat" where
  "alnum_letter s i base num =
     (if is_low (s ! i) then (num * word_of_int base + ucast (s ! i) - 97, i + 1)
      else if is_up (s ! i) then (num * word_of_int base + ucast (s ! i) - 65, i + 1) else (num, i))"

function alnum_loop :: "byte list \<Rightarrow> nat \<Rightarrow> int \<Rightarrow> u64 \<Rightarrow> (u64 \<times> nat) option" where
  "alnum_loop s i base num =
     (if i \<ge> length s then None
      else if s ! i \<noteq> 0 \<and> (is_dec (s ! i) \<or> is_low (s ! i) \<or> is_up (s ! i))
      then (case alnum_digit s i base num of (num1, j) \<Rightarrow>
              if j \<ge> length s then None
              else case alnum_letter s j base num1 of (num2, k) \<Rightarrow> alnum_loop s k base num2)
      else Some (num, i))"
  by pat_completeness auto
termination
  by (relation "measure (\<lambda>(s, i, _). length s - i)")
    (auto simp: alnum_digit_def alnum_letter_def split: if_splits)

declare dec_loop.simps [simp del] alnum_loop.simps [simp del]

text \<open>\<open>strtoll\<close> returns the number, the index that \<^verbatim>\<open>endptr\<close> gets if it is stored, and whether it sets \<^verbatim>\<open>errno\<close> to \<^verbatim>\<open>EINVAL\<close>.\<close>

definition strtoll :: "byte list \<Rightarrow> int \<Rightarrow> (u64 \<times> nat option \<times> bool) option" where
  "strtoll s base =
     (if base \<noteq> 0 \<and> base < 2 \<or> base > 36 then Some (0, None, True)
      else case skip_space s 0 of
        None \<Rightarrow> None
      | Some i \<Rightarrow>
          (case strtoll_sign s i of (i, positive) \<Rightarrow>
           case strtoll_base s i base of
             None \<Rightarrow> None
           | Some (i, base) \<Rightarrow>
               if base \<le> 10
               then (case dec_loop s i base 0 of None \<Rightarrow> None | Some (num, i) \<Rightarrow> Some (num, Some (i + 1), False))
               else (case alnum_loop s i base 0 of
                       None \<Rightarrow> None
                     | Some (num, i) \<Rightarrow> Some (if \<not> positive then - num else num, Some (i + 1), False))))"

definition strtol :: "byte list \<Rightarrow> int \<Rightarrow> (u64 \<times> nat option \<times> bool) option" where
  "strtol s base = strtoll s base"

definition strtoull :: "byte list \<Rightarrow> int \<Rightarrow> (u64 \<times> nat option \<times> bool) option" where
  "strtoull s base = strtoll s base"

definition strtoul :: "byte list \<Rightarrow> int \<Rightarrow> (u64 \<times> nat option \<times> bool) option" where
  "strtoul s base = strtoull s base"

definition atol :: "byte list \<Rightarrow> u64 option" where
  "atol s = map_option fst (strtol s 0)"

definition atoll :: "byte list \<Rightarrow> u64 option" where
  "atoll s = map_option fst (strtoll s 0)"

section \<open>Pseudo-random numbers, absolute values and exit handlers\<close>

definition RAND_MAX :: nat where "RAND_MAX = 32767"
definition ATEXIT_MAX :: nat where "ATEXIT_MAX = 32"

text \<open>\<open>rand\<close> and \<open>srand\<close> on the seed \<^verbatim>\<open>s_next_rand\<close>.\<close>

definition rand :: "u64 \<Rightarrow> u32 \<times> u64" where
  "rand s_next_rand =
     (let n = s_next_rand * 1103515245 + 12345
      in (ucast (n div of_nat ((RAND_MAX + 1) * 2)) mod of_nat (RAND_MAX + 1), n))"

definition srand :: "u32 \<Rightarrow> u64" where
  "srand seed = ucast seed"

definition abs_int :: "u32 \<Rightarrow> u32" where
  "abs_int i = (if sint i \<ge> 0 then i else - i)"

definition labs :: "u64 \<Rightarrow> u64" where
  "labs i = (if sint i \<ge> 0 then i else - i)"

definition llabs :: "u64 \<Rightarrow> u64" where
  "llabs i = (if sint i \<ge> 0 then i else - i)"

text \<open>
  The table of exit handlers has \<open>ATEXIT_MAX\<close> slots. \<open>exit_loop\<close> gives the handlers that \<^verbatim>\<open>exit\<close> calls, in order;
  \<open>run\<close> is what a handler does to the table, since it may call \<^verbatim>\<open>atexit\<close> itself.
\<close>

fun atexit_loop :: "'h \<Rightarrow> nat \<Rightarrow> nat \<Rightarrow> 'h option list \<Rightarrow> int \<times> 'h option list" where
  "atexit_loop f i 0 hs = (- 1, hs)"
| "atexit_loop f i (Suc k) hs = (if hs ! i = None then (0, hs[i := Some f]) else atexit_loop f (i + 1) k hs)"

definition atexit :: "'h \<Rightarrow> 'h option list \<Rightarrow> int \<times> 'h option list" where
  "atexit f hs = atexit_loop f 0 ATEXIT_MAX hs"

fun exit_loop :: "('h \<Rightarrow> 'h option list \<Rightarrow> 'h option list) \<Rightarrow> nat \<Rightarrow> 'h option list \<Rightarrow> 'h list" where
  "exit_loop run 0 hs = []"
| "exit_loop run (Suc i) hs =
     (case hs ! i of None \<Rightarrow> exit_loop run i hs | Some h \<Rightarrow> h # exit_loop run i (run h hs))"

definition exit_handlers :: "('h \<Rightarrow> 'h option list \<Rightarrow> 'h option list) \<Rightarrow> 'h option list \<Rightarrow> 'h list" where
  "exit_handlers run hs = exit_loop run ATEXIT_MAX hs"

section \<open>Printed numbers\<close>

text \<open>The value that the digits of a printed number stand for.\<close>

definition digit_val :: "byte \<Rightarrow> nat" where
  "digit_val c = (if c \<le> 57 then unat c - 48 else unat c - 87)"

definition digits_val :: "nat \<Rightarrow> byte list \<Rightarrow> nat" where
  "digits_val base ds = foldl (\<lambda>n c. n * base + digit_val c) 0 ds"

lemma unat_digit: "d < 16 \<Longrightarrow> unat (digit d) = (if d < 10 then 48 + d else 87 + d)"
  unfolding digit_def by (simp only: unat_of_nat) simp

lemma digit_val_digit: "d < 16 \<Longrightarrow> digit_val (digit d) = d"
  by (auto simp: digit_val_def word_le_nat_alt unat_digit)

lemma digit_dec: "d < 10 \<Longrightarrow> is_dec (digit d)"
  by (auto simp: is_dec_def word_le_nat_alt unat_digit)

lemma put_digits_rec: "2 \<le> base \<Longrightarrow> put_digits base x buf =
    (if x < base then buf @ [digit x] else put_digits base (x div base) (buf @ [digit (x mod base)]))"
  by (subst put_digits.simps) (auto simp: div_eq_0_iff)

lemma put_digits_acc: "2 \<le> base \<Longrightarrow> put_digits base x buf = buf @ put_digits base x []"
proof (induction x arbitrary: buf rule: less_induct)
  case (less x)
  show ?case
  proof (cases "x < base")
    case False
    then have "x div base < x" using less(2) by simp
    then show ?thesis using less(1) [of "x div base" "buf @ [digit (x mod base)]"] less(1) [of "x div base" "[digit (x mod base)]"]
        False less(2) by (subst (1 2) put_digits_rec) simp_all
  qed (use less(2) in \<open>subst (1 2) put_digits_rec; simp\<close>)
qed

text \<open>The digits in the order in which they are printed.\<close>

definition printed :: "nat \<Rightarrow> nat \<Rightarrow> byte list" where
  "printed base x = rev (put_digits base x [])"

lemma printed_rec: "2 \<le> base \<Longrightarrow>
    printed base x = (if x < base then [digit x] else printed base (x div base) @ [digit (x mod base)])"
  unfolding printed_def
  by (subst put_digits_rec) (simp_all add: put_digits_acc [of base "x div base" "[digit (x mod base)]"])

lemma printed_induct [consumes 1, case_names small step]:
  assumes "2 \<le> base" "\<And>x. x < base \<Longrightarrow> P x" "\<And>x. base \<le> x \<Longrightarrow> P (x div base) \<Longrightarrow> P x"
  shows "P (x :: nat)"
proof (induction x rule: less_induct)
  case (less x)
  then show ?case using assms by (cases "x < base") (auto simp: not_less)
qed

lemma printed_val:
  assumes "2 \<le> base" "base \<le> 16"
  shows "digits_val base (printed base x) = x"
  using assms(1)
proof (induction x rule: printed_induct)
  case (small x)
  then show ?case using assms by (subst printed_rec) (simp_all add: digits_val_def digit_val_digit)
next
  case (step x)
  then have "x mod base < 16" using assms by (meson less_le_trans mod_less_divisor zero_less_numeral order_less_le_trans)
  then show ?case using assms step by (subst printed_rec) (simp_all add: digits_val_def digit_val_digit)
qed

lemma printed_head:
  assumes "2 \<le> base" "base \<le> 16" "0 < x"
  shows "hd (printed base x) \<noteq> 48 \<and> printed base x \<noteq> []"
  using assms(1,3)
proof (induction x rule: printed_induct)
  case (small x)
  then have "unat (digit x) \<noteq> 48" using assms by (simp add: unat_digit)
  then show ?case using assms small by (subst (1 2) printed_rec) auto
next
  case (step x)
  then have "0 < x div base" using assms(1) by (simp add: div_greater_zero_iff)
  then show ?case using assms step by (subst (1 2) printed_rec) auto
qed

lemma printed_length:
  assumes "2 \<le> base" "x < base ^ Suc k"
  shows "length (printed base x) \<le> Suc k"
  using assms(2)
proof (induction k arbitrary: x)
  case (Suc k)
  then have "x div base < base ^ Suc k" using assms(1) by (simp add: div_less_iff_less_mult mult.commute)
  then show ?case using Suc(1) [of "x div base"] assms(1) by (subst printed_rec) simp_all
qed (use assms(1) in \<open>subst printed_rec; simp\<close>)

lemma no_flags [simp]: "\<not> IS_SET 0 FLAG_PADZERO" "\<not> IS_SET 0 FLAG_ALTFORM" "\<not> IS_SET 0 FLAG_LJUST"
  "\<not> IS_SET 0 FLAG_BLANK" "\<not> IS_SET 0 FLAG_SIGN" "\<not> IS_SET 0 FLAG_LONG" "\<not> IS_SET 0 FLAG_PRECISION"
  by (simp_all add: IS_SET_def flag_defs)

lemma printed_length_u64: "2 \<le> base \<Longrightarrow> length (printed base (unat (x :: u64))) \<le> 64"
proof -
  assume b: "2 \<le> base"
  have "unat x < 2 ^ 64" using unsigned_less [of x] by simp
  also have "(2 :: nat) ^ 64 \<le> base ^ 64" using b by (rule power_mono) simp
  finally have "unat x < base ^ Suc 63" by simp
  from printed_length [OF b this] show ?thesis by simp
qed

lemma printint_plain:
  assumes "2 \<le> base"
  shows "printint xx base sg 0 0 = Some (if sg \<and> sint xx < 0 then 45 # printed base (unat (- xx)) else printed base (unat xx))"
  using printed_length_u64 [OF assms, of xx] printed_length_u64 [OF assms, of "- xx"]
  by (auto simp: printint_def alt_padding_def printed_def Let_def)

text \<open>
  Without flags, \<^verbatim>\<open>printint\<close> prints an unsigned number of any base from 2 to 16 so that the digits stand for
  the number, in at most 64 characters and without leading zeros.
\<close>

theorem printint_value:
  assumes "2 \<le> base" and "base \<le> 16"
  shows "\<exists>out. printint xx base False 0 0 = Some out \<and> digits_val base out = unat xx \<and> length out \<le> 64 \<and>
    (if xx = 0 then out = [48] else out \<noteq> [] \<and> hd out \<noteq> 48)"
proof -
  have zero: "printed base 0 = [48]" using assms by (subst printed_rec) (simp_all add: digit_def)
  note run = printint_plain [OF assms(1), of xx False] and val = printed_val [OF assms, of "unat xx"]
  note len = printed_length_u64 [OF assms(1), of xx]
  show ?thesis
  proof (cases "xx = 0")
    case True
    then show ?thesis using run val len zero by simp
  next
    case False
    then have "0 < unat xx" by (metis gr0I unsigned_eq_0_iff)
    from printed_head [OF assms this] show ?thesis using run val len False by simp
  qed
qed

theorem printint_value_witness:
  "printint 0xbeef 16 False 0 0 = Some [98, 101, 101, 102] \<and>
   (\<exists>out. printint 0xbeef 16 False 0 0 = Some out \<and> digits_val 16 out = 0xbeef)"
proof -
  have "printint 0xbeef 16 False 0 0 = Some [98, 101, 101, 102]"
    by (simp add: printint_plain printed_rec digit_def)
  moreover have "unat (0xbeef :: u64) = 0xbeef" by simp
  ultimately show ?thesis using printint_value [of 16 "0xbeef"] by auto
qed

section \<open>Reading printed numbers back\<close>

lemma ucast_digit: "d < 10 \<Longrightarrow> ucast (digit d) = (48 + of_nat d :: u32)"
proof -
  have "\<forall>d\<in>set [0..<10]. ucast (digit d) = (48 + of_nat d :: u32)" by code_simp
  then show "d < 10 \<Longrightarrow> ucast (digit d) = (48 + of_nat d :: u32)" by simp
qed

lemma ucast_digit64: "d < 10 \<Longrightarrow> ucast (digit d) = (48 + of_nat d :: u64)"
proof -
  have "\<forall>d\<in>set [0..<10]. ucast (digit d) = (48 + of_nat d :: u64)" by code_simp
  then show "d < 10 \<Longrightarrow> ucast (digit d) = (48 + of_nat d :: u64)" by simp
qed

lemma atoi_loop_printed:
  "atoi_loop n (printed 10 x @ s) = atoi_loop (n * 10 ^ length (printed 10 x) + of_nat x) s"
proof -
  have "2 \<le> (10 :: nat)" by simp
  then show ?thesis
  proof (induction x arbitrary: s rule: printed_induct)
    case (small x)
    then show ?case by (subst (1 2) printed_rec) (simp_all add: digit_dec ucast_digit)
  next
    case (step x)
    have "of_nat x = (of_nat (10 * (x div 10) + x mod 10) :: u32)" by simp
    then have x: "of_nat x = 10 * of_nat (x div 10) + (of_nat (x mod 10) :: u32)" by (simp only: of_nat_add of_nat_mult of_nat_numeral)
    show ?case using step by (subst (1 2) printed_rec) (simp_all add: digit_dec ucast_digit x algebra_simps)
  qed
qed

definition fmt_d :: "byte list" where
  "fmt_d = [37, 100, 0]"

text \<open>
  C30: \<^verbatim>\<open>atoi\<close> reads back what the kernel prints with \<^verbatim>\<open>%d\<close>: for an \<^verbatim>\<open>int\<close> argument that is not negative the output,
  taken as a string, is read as the argument; a negative one is printed with a sign, which \<^verbatim>\<open>atoi\<close> does not
  accept, and is read as 0.
\<close>

theorem printf_atoi_roundtrip:
  fixes w :: u64
  assumes "2 \<le> n"
  shows "\<exists>out. kernel_vprintf_template ansi fmt_d [VaWord w] n = Some (2, out) \<and>
    (if sint (ucast w :: u32) \<ge> 0 then atoi (out @ [0]) = Some (ucast w) else hd out = 45 \<and> atoi (out @ [0]) = Some 0)"
proof -
  let ?d = "ucast w :: u32" and ?x = "scast (ucast w :: u32) :: u64"
  let ?out = "if sint ?x < 0 then 45 # printed 10 (unat (- ?x)) else printed 10 (unat ?x)"
  have "- (2 ^ 63) \<le> sint ?d" "sint ?d < 2 ^ 63" using sint_greater_eq [of ?d] sint_less [of ?d] by simp_all
  then have s: "sint ?x = sint ?d" by (simp add: signed_scast_eq signed_take_bit_int_eq_self)
  have low: "(ucast ?x :: u32) = ?d" by (rule bit_word_eqI) (simp add: bit_ucast_iff bit_signed_iff)
  have "kernel_vprintf_template ansi fmt_d [VaWord w] n = Some (2, ?out)"
    using assms by (simp add: kernel_vprintf_template_def fmt_d_def vprintf_loop.simps is_flag_def format_conv_def
        format_number_def narrow_def printint_plain)
  moreover have "atoi (?out @ [0]) = Some (if sint ?d \<ge> 0 then ?d else 0)"
    using low s by (simp add: atoi_def atoi_loop_printed is_dec_def)
  ultimately show ?thesis using s by auto
qed

theorem printf_atoi_roundtrip_witness:
  "kernel_vprintf_template None fmt_d [VaWord 42] 100 = Some (2, [52, 50]) \<and> atoi [52, 50, 0] = Some 42"
proof -
  have "kernel_vprintf_template None fmt_d [VaWord 42] 100 = Some (2, [52, 50])"
    by (simp add: kernel_vprintf_template_def fmt_d_def vprintf_loop.simps is_flag_def format_conv_def
        format_number_def narrow_def printint_plain printed_rec digit_def)
  then show ?thesis using printf_atoi_roundtrip [of 100 None 42] by simp
qed

section \<open>The sign that strtoll loses\<close>

lemma dec_loop_printed:
  "dec_loop (p @ printed 10 x @ s) (length p) 10 n =
   dec_loop (p @ printed 10 x @ s) (length p + length (printed 10 x)) 10 (n * 10 ^ length (printed 10 x) + of_nat x)"
proof -
  have "2 \<le> (10 :: nat)" by simp
  then show ?thesis
  proof (induction x arbitrary: s rule: printed_induct)
    case (small x)
    then show ?case by (subst (1 2 3 4) printed_rec) (simp_all add: digit_dec dec_loop.simps ucast_digit64)
  next
    case (step x)
    have "of_nat x = (of_nat (10 * (x div 10) + x mod 10) :: u64)" by simp
    then have x: "of_nat x = 10 * of_nat (x div 10) + (of_nat (x mod 10) :: u64)" by (simp only: of_nat_add of_nat_mult of_nat_numeral)
    let ?l = "p @ printed 10 (x div 10) @ digit (x mod 10) # s"
    have "dec_loop ?l (length p) 10 n = dec_loop ?l (length p + length (printed 10 (x div 10)) + 1) 10
       ((n * 10 ^ length (printed 10 (x div 10)) + of_nat (x div 10)) * 10 + of_nat (x mod 10))"
      by (subst step(2), subst dec_loop.simps) (simp add: digit_dec ucast_digit64 nth_append add.assoc)
    moreover have "(n * 10 ^ k + of_nat (x div 10)) * 10 + of_nat (x mod 10) = n * 10 ^ Suc k + (of_nat x :: u64)" for k
      by (simp add: x distrib_right mult.assoc mult.commute)
    ultimately show ?case using step by (subst (1 2 3 4) printed_rec) (simp_all add: add.assoc mult.assoc mult.commute mult.left_commute)
  qed
qed

text \<open>
  \<^verbatim>\<open>strtoll\<close> loses the sign of a decimal number: for base 10 the string of a minus sign and the digits of a
  number is converted to the number itself, and the end pointer it stores is one past the terminator.
\<close>

theorem strtoll_loses_sign:
  "strtoll (45 # printed 10 x @ [0]) 10 = Some (of_nat x, Some (length (printed 10 x) + 2), False)"
proof -
  let ?s = "[45] @ printed 10 x @ [0]"
  have "dec_loop ?s 1 10 0 = Some (of_nat x, 1 + length (printed 10 x))"
    using dec_loop_printed [of "[45]" x "[0]" 0] by (simp add: dec_loop.simps is_dec_def nth_append)
  then show ?thesis
    by (simp add: strtoll_def skip_space.simps isspace_def strtoll_sign_def strtoll_base_def)
qed

section \<open>Exit handlers\<close>

text \<open>The exit handlers run in the reverse order of their registration, as long as they register none themselves.\<close>

lemma atexit_loop_appends:
  "i \<le> length gs \<Longrightarrow> i + k = length gs + Suc j \<Longrightarrow>
    atexit_loop f i k (map Some gs @ replicate (Suc j) None) = (0, map Some (gs @ [f]) @ replicate j None)"
proof (induction k arbitrary: i)
  case (Suc k)
  then show ?case by (cases "i = length gs") (auto simp: nth_append list_update_append)
qed simp

lemma atexit_appends:
  "length gs + Suc j = ATEXIT_MAX \<Longrightarrow>
    atexit f (map Some gs @ replicate (Suc j) None) = (0, map Some (gs @ [f]) @ replicate j None)"
  unfolding atexit_def by (rule atexit_loop_appends) simp_all

lemma exit_loop_reverses:
  "i \<le> length gs + j \<Longrightarrow> exit_loop (\<lambda>_ hs. hs) i (map Some gs @ replicate j None) = rev (take i gs)"
  by (induction i) (auto simp: nth_append take_Suc_conv_app_nth)

definition register_all :: "'h list \<Rightarrow> 'h option list" where
  "register_all fs = fold (\<lambda>f hs. snd (atexit f hs)) fs (replicate ATEXIT_MAX None)"

lemma register_all_table:
  "length fs \<le> ATEXIT_MAX \<Longrightarrow> register_all fs = map Some fs @ replicate (ATEXIT_MAX - length fs) None"
proof (induction fs rule: rev_induct)
  case (snoc f fs)
  then have "ATEXIT_MAX - length fs = Suc (ATEXIT_MAX - Suc (length fs))" by simp
  then show ?case using snoc atexit_appends [of fs "ATEXIT_MAX - Suc (length fs)" f] by (simp add: register_all_def)
qed (simp add: register_all_def)

lemma exit_reverses: "length fs \<le> ATEXIT_MAX \<Longrightarrow> exit_handlers (\<lambda>_ hs. hs) (register_all fs) = rev fs"
  by (simp add: exit_handlers_def register_all_table exit_loop_reverses)

end
