(* ===== verification/Klib_Bytes.thy ===== *)
theory Klib_Bytes
  imports Relix_Prelude
begin

text \<open>
  The little-endian representation of the integer fields of structures in memory and on disk, and
  reading and writing of a field at an offset of a byte array.
\<close>

fun le_bytes :: "nat \<Rightarrow> nat \<Rightarrow> byte list" where
  "le_bytes 0 v = []"
| "le_bytes (Suc n) v = of_nat (v mod 256) # le_bytes n (v div 256)"

fun le_val :: "byte list \<Rightarrow> nat" where
  "le_val [] = 0"
| "le_val (b # bs) = unat b + 256 * le_val bs"

definition get_le :: "nat \<Rightarrow> nat \<Rightarrow> byte list \<Rightarrow> nat" where
  "get_le off n bs = le_val (take n (drop off bs))"

definition put_le :: "nat \<Rightarrow> nat \<Rightarrow> nat \<Rightarrow> byte list \<Rightarrow> byte list" where
  "put_le off n v bs = blit off (le_bytes n v) bs"

lemma length_le_bytes [simp]: "length (le_bytes n v) = n"
  by (induction n arbitrary: v) auto

lemma unat_byte_mod: "unat (of_nat (v mod 256) :: byte) = v mod 256"
  by (simp add: unat_of_nat)

lemma le_val_le_bytes: "le_val (le_bytes n v) = v mod 256 ^ n"
proof (induction n arbitrary: v)
  case (Suc n)
  have "v mod 256 ^ Suc n = v mod 256 + 256 * (v div 256 mod 256 ^ n)"
    by (simp add: mod_mult2_eq)
  with Suc show ?case by (simp add: unat_byte_mod)
qed simp

lemma le_val_bound: "le_val bs < 256 ^ length bs"
proof (induction bs)
  case (Cons b bs)
  have "unat b + 256 * le_val bs < 256 + 256 * le_val bs" by simp
  also have "\<dots> = 256 * Suc (le_val bs)" by simp
  also have "\<dots> \<le> 256 * 256 ^ length bs" using Cons by (simp only: mult_le_mono2 Suc_leI)
  finally show ?case by simp
qed simp

lemma le_bytes_le_val: "le_bytes (length bs) (le_val bs) = bs"
  by (induction bs) (auto simp: word_of_nat_eq_iff)

lemma length_put_le [simp]: "off + n \<le> length bs \<Longrightarrow> length (put_le off n v bs) = length bs"
  by (simp add: put_le_def)

lemma get_put_le_same:
  "off + n \<le> length bs \<Longrightarrow> v < 256 ^ n \<Longrightarrow> get_le off n (put_le off n v bs) = v"
  by (simp add: get_le_def put_le_def le_val_le_bytes)

lemma get_put_le_other:
  "off + n \<le> length bs \<Longrightarrow> p + m \<le> off \<or> off + n \<le> p \<Longrightarrow>
   get_le p m (put_le off n v bs) = get_le p m bs"
  by (simp add: get_le_def put_le_def take_drop_blit_other)

lemma get_le_bound: "get_le off n bs < 256 ^ n"
proof -
  have "256 ^ length (take n (drop off bs)) \<le> (256 :: nat) ^ n"
    by (rule power_increasing) simp_all
  with le_val_bound [of "take n (drop off bs)"] show ?thesis
    unfolding get_le_def by linarith
qed

lemma get_le_blit_other:
  "off + length new \<le> length bs \<Longrightarrow> p + m \<le> off \<or> off + length new \<le> p \<Longrightarrow>
   get_le p m (blit off new bs) = get_le p m bs"
  by (simp add: get_le_def take_drop_blit_other)

text \<open>An array of 64-bit entries at the start of a block.\<close>

definition get_entry :: "nat \<Rightarrow> byte list \<Rightarrow> nat" where
  "get_entry i bs = get_le (8 * i) 8 bs"

definition put_entry :: "nat \<Rightarrow> nat \<Rightarrow> byte list \<Rightarrow> byte list" where
  "put_entry i v bs = put_le (8 * i) 8 v bs"

lemma length_put_entry [simp]: "8 * i + 8 \<le> length bs \<Longrightarrow> length (put_entry i v bs) = length bs"
  by (simp add: put_entry_def)

lemma get_put_entry:
  "8 * i + 8 \<le> length bs \<Longrightarrow> v < 2 ^ 64 \<Longrightarrow>
   get_entry j (put_entry i v bs) = (if j = i then v else get_entry j bs)"
proof (cases "j = i")
  case False
  then have "8 * j + 8 \<le> 8 * i \<or> 8 * i + 8 \<le> 8 * j" by arith
  then show "8 * i + 8 \<le> length bs \<Longrightarrow> ?thesis"
    using False by (simp add: get_entry_def put_entry_def get_put_le_other)
qed (simp add: get_entry_def put_entry_def get_put_le_same)

text \<open>A run of consecutive entries.\<close>

fun put_entries :: "nat \<Rightarrow> nat list \<Rightarrow> byte list \<Rightarrow> byte list" where
  "put_entries i [] bs = bs"
| "put_entries i (v # vs) bs = put_entries (i + 1) vs (put_entry i v bs)"

lemma length_put_entries [simp]:
  "8 * (i + length vs) \<le> length bs \<Longrightarrow> length (put_entries i vs bs) = length bs"
  by (induction vs arbitrary: i bs) auto

lemma get_put_entries:
  "8 * (i + length vs) \<le> length bs \<Longrightarrow> \<forall>v\<in>set vs. v < 2 ^ 64 \<Longrightarrow>
   get_entry j (put_entries i vs bs) =
     (if i \<le> j \<and> j < i + length vs then vs ! (j - i) else get_entry j bs)"
proof (induction vs arbitrary: i bs)
  case (Cons v vs)
  then show ?case
    by (auto simp: get_put_entry nth_Cons')
qed simp

end
