(* ===== verification/Kern_Base.thy ===== *)
theory Kern_Base
  imports Klib_Bytes
begin

text \<open>
  Kernel code as functions on an explicit machine state: the combinators that sequence it, and a
  small partial-correctness logic whose rules are the collection \<open>hoare_rules\<close>.

  A kernel function maps a state to a value and a new state, or stops: \<open>Panic\<close> where the code calls
  \<^verbatim>\<open>panic\<close> or fails an assertion, \<open>Sleep\<close> where it calls \<^verbatim>\<open>sleep\<close> and so waits for another process
  to act. Code between an \<^verbatim>\<open>acquire\<close> and the matching \<^verbatim>\<open>release\<close> of a spin lock is one step.
\<close>

section \<open>Sequencing\<close>

type_synonym ('s, 'a) kern = "'s \<Rightarrow> stop + ('a \<times> 's)"

definition returnk :: "'a \<Rightarrow> ('s, 'a) kern" where
  "returnk x = (\<lambda>s. Inr (x, s))"

definition bindk :: "('s, 'a) kern \<Rightarrow> ('a \<Rightarrow> ('s, 'b) kern) \<Rightarrow> ('s, 'b) kern" where
  "bindk m f = (\<lambda>s. case m s of Inl e \<Rightarrow> Inl e | Inr (x, s') \<Rightarrow> f x s')"

definition thenk :: "('s, 'a) kern \<Rightarrow> ('s, 'b) kern \<Rightarrow> ('s, 'b) kern" where
  "thenk m n = bindk m (\<lambda>_. n)"

definition getk :: "('s \<Rightarrow> 'a) \<Rightarrow> ('s, 'a) kern" where
  "getk f = (\<lambda>s. Inr (f s, s))"

definition modk :: "('s \<Rightarrow> 's) \<Rightarrow> ('s, unit) kern" where
  "modk f = (\<lambda>s. Inr ((), f s))"

definition panick :: "string \<Rightarrow> ('s, 'a) kern" where
  "panick msg = (\<lambda>s. Inl (Panic msg))"

definition sleepk :: "chan \<Rightarrow> ('s, 'a) kern" where
  "sleepk c = (\<lambda>s. Inl (Sleep c))"

definition assertk :: "bool \<Rightarrow> string \<Rightarrow> ('s, unit) kern" where
  "assertk b msg = (\<lambda>s. if b then Inr ((), s) else Inl (Panic msg))"

text \<open>A value that the code dereferences without a test: \<open>None\<close> is a null pointer.\<close>

definition derefk :: "'a option \<Rightarrow> ('s, 'a) kern" where
  "derefk v = (\<lambda>s. case v of None \<Rightarrow> Inl (Panic ''null pointer'') | Some x \<Rightarrow> Inr (x, s))"

text \<open>A \<^verbatim>\<open>for\<close> loop over a list of values whose body may stop.\<close>

fun foreachk :: "'a list \<Rightarrow> ('a \<Rightarrow> ('s, unit) kern) \<Rightarrow> ('s, unit) kern" where
  "foreachk [] f = returnk ()"
| "foreachk (x # xs) f = thenk (f x) (foreachk xs f)"

named_theorems kern_simps \<open>running kernel code on a given state\<close>

lemma returnk_run [kern_simps]: "returnk x s = Inr (x, s)"
  by (simp add: returnk_def)

lemma getk_run [kern_simps]: "getk f s = Inr (f s, s)"
  by (simp add: getk_def)

lemma modk_run [kern_simps]: "modk f s = Inr ((), f s)"
  by (simp add: modk_def)

lemma panick_run [kern_simps]: "panick msg s = Inl (Panic msg)"
  by (simp add: panick_def)

lemma sleepk_run [kern_simps]: "sleepk c s = Inl (Sleep c)"
  by (simp add: sleepk_def)

lemma assertk_run [kern_simps]:
  "assertk b msg s = (if b then Inr ((), s) else Inl (Panic msg))"
  by (simp add: assertk_def)

lemma derefk_run [kern_simps]:
  "derefk (Some x) s = Inr (x, s)" "derefk None s = Inl (Panic ''null pointer'')"
  by (simp_all add: derefk_def)

lemma bindk_run [kern_simps]:
  "bindk m f s = (case m s of Inl e \<Rightarrow> Inl e | Inr (x, s') \<Rightarrow> f x s')"
  by (simp add: bindk_def)

lemma thenk_run [kern_simps]:
  "thenk m n s = (case m s of Inl e \<Rightarrow> Inl e | Inr (x, s') \<Rightarrow> n s')"
  by (simp add: thenk_def bindk_def)

lemma bindk_eq_Inr: "bindk m f s = Inr r \<longleftrightarrow> (\<exists>x s'. m s = Inr (x, s') \<and> f x s' = Inr r)"
  by (auto simp: bindk_def split: sum.splits)

lemma thenk_eq_Inr: "thenk m n s = Inr r \<longleftrightarrow> (\<exists>x s'. m s = Inr (x, s') \<and> n s' = Inr r)"
  by (simp add: thenk_def bindk_eq_Inr)

lemma bindk_stepI: "m s = Inr (x, s') \<Longrightarrow> f x s' = r \<Longrightarrow> bindk m f s = r"
  by (simp add: bindk_def)

lemma thenk_stepI: "m s = Inr (x, s') \<Longrightarrow> n s' = r \<Longrightarrow> thenk m n s = r"
  by (simp add: thenk_def bindk_def)

lemma returnk_eq_Inr [simp]: "returnk x s = Inr (y, t) \<longleftrightarrow> y = x \<and> t = s"
  by (auto simp: returnk_def)

lemma getk_eq_Inr [simp]: "getk f s = Inr (y, t) \<longleftrightarrow> y = f s \<and> t = s"
  by (auto simp: getk_def)

lemma modk_eq_Inr [simp]: "modk f s = Inr (y, t) \<longleftrightarrow> t = f s"
  by (auto simp: modk_def)

lemma panick_eq_Inr [simp]: "panick msg s \<noteq> Inr r"
  by (simp add: panick_def)

lemma sleepk_eq_Inr [simp]: "sleepk c s \<noteq> Inr r"
  by (simp add: sleepk_def)

lemma assertk_eq_Inr [simp]: "assertk b msg s = Inr (u, t) \<longleftrightarrow> b \<and> t = s"
  by (auto simp: assertk_def)

lemma derefk_eq_Inr [simp]: "derefk v s = Inr (x, t) \<longleftrightarrow> v = Some x \<and> t = s"
  by (auto simp: derefk_def split: option.splits)

section \<open>Partial correctness\<close>

text \<open>
  \<open>hoare P m Q\<close>: when \<open>m\<close> is run in a state satisfying \<open>P\<close> and returns, its value and the final
  state satisfy \<open>Q\<close>.
\<close>

definition hoare :: "('s \<Rightarrow> bool) \<Rightarrow> ('s, 'a) kern \<Rightarrow> ('a \<Rightarrow> 's \<Rightarrow> bool) \<Rightarrow> bool" where
  "hoare P m Q \<longleftrightarrow> (\<forall>s x s'. P s \<longrightarrow> m s = Inr (x, s') \<longrightarrow> Q x s')"

named_theorems hoare_rules

lemma hoareI: "(\<And>s x s'. P s \<Longrightarrow> m s = Inr (x, s') \<Longrightarrow> Q x s') \<Longrightarrow> hoare P m Q"
  by (auto simp: hoare_def)

lemma hoareD: "hoare P m Q \<Longrightarrow> P s \<Longrightarrow> m s = Inr (x, s') \<Longrightarrow> Q x s'"
  by (auto simp: hoare_def)

lemma hoare_bind [hoare_rules]:
  "hoare P m R \<Longrightarrow> (\<And>x. hoare (R x) (f x) Q) \<Longrightarrow> hoare P (bindk m f) Q"
  unfolding hoare_def bindk_eq_Inr by blast

lemma hoare_then [hoare_rules]:
  "hoare P m (\<lambda>_. R) \<Longrightarrow> hoare R n Q \<Longrightarrow> hoare P (thenk m n) Q"
  unfolding hoare_def thenk_eq_Inr by blast

lemma hoare_return: "hoare (Q x) (returnk x) Q"
  by (simp add: hoare_def)

lemma hoare_conseq:
  "hoare P' m Q' \<Longrightarrow> (\<And>s. P s \<Longrightarrow> P' s) \<Longrightarrow> (\<And>x s. Q' x s \<Longrightarrow> Q x s) \<Longrightarrow> hoare P m Q"
  unfolding hoare_def by blast

lemma hoare_pre: "hoare P' m Q \<Longrightarrow> (\<And>s. P s \<Longrightarrow> P' s) \<Longrightarrow> hoare P m Q"
  by (auto simp: hoare_def)

text \<open>
  Invariants: \<open>keeps I m\<close> when every returning run of \<open>m\<close> preserves \<open>I\<close>. Its rules decompose code
  along its structure.
\<close>

definition keeps :: "('s \<Rightarrow> bool) \<Rightarrow> ('s, 'a) kern \<Rightarrow> bool" where
  "keeps I m \<longleftrightarrow> (\<forall>s x s'. I s \<longrightarrow> m s = Inr (x, s') \<longrightarrow> I s')"

named_theorems keeps_rules

lemma keepsD: "keeps I m \<Longrightarrow> m s = Inr (x, s') \<Longrightarrow> I s \<Longrightarrow> I s'"
  by (auto simp: keeps_def)

lemma keepsI: "(\<And>s x s'. I s \<Longrightarrow> m s = Inr (x, s') \<Longrightarrow> I s') \<Longrightarrow> keeps I m"
  by (auto simp: keeps_def)

lemma keeps_bind [keeps_rules]: "keeps I m \<Longrightarrow> (\<And>x. keeps I (f x)) \<Longrightarrow> keeps I (bindk m f)"
  unfolding keeps_def bindk_eq_Inr by blast

lemma keeps_then [keeps_rules]: "keeps I m \<Longrightarrow> keeps I n \<Longrightarrow> keeps I (thenk m n)"
  unfolding keeps_def thenk_eq_Inr by blast

lemma keeps_return [keeps_rules]: "keeps I (returnk x)"
  by (simp add: keeps_def)

lemma keeps_get [keeps_rules]: "keeps I (getk f)"
  by (simp add: keeps_def)

lemma keeps_panic [keeps_rules]: "keeps I (panick m)"
  by (simp add: keeps_def)

lemma keeps_sleep [keeps_rules]: "keeps I (sleepk c)"
  by (simp add: keeps_def)

lemma keeps_assert [keeps_rules]: "keeps I (assertk b m)"
  by (simp add: keeps_def)

lemma keeps_deref [keeps_rules]: "keeps I (derefk v)"
  by (auto simp: keeps_def)

lemma keeps_if [keeps_rules]:
  "(b \<Longrightarrow> keeps I m) \<Longrightarrow> (\<not> b \<Longrightarrow> keeps I n) \<Longrightarrow> keeps I (if b then m else n)"
  by simp

lemma keeps_case_option [keeps_rules]:
  "(v = None \<Longrightarrow> keeps I m) \<Longrightarrow> (\<And>x. v = Some x \<Longrightarrow> keeps I (f x)) \<Longrightarrow>
   keeps I (case v of None \<Rightarrow> m | Some x \<Rightarrow> f x)"
  by (simp split: option.splits)

lemma keeps_case_prod [keeps_rules]:
  "(\<And>a b. v = (a, b) \<Longrightarrow> keeps I (f a b)) \<Longrightarrow> keeps I (case v of (a, b) \<Rightarrow> f a b)"
  by (simp split: prod.splits)

lemma keeps_mod: "(\<And>s. I s \<Longrightarrow> I (f s)) \<Longrightarrow> keeps I (modk f)"
  by (simp add: keeps_def)

lemma keeps_foreach [keeps_rules]: "(\<And>x. keeps I (f x)) \<Longrightarrow> keeps I (foreachk xs f)"
  by (induction xs) (auto intro: keeps_rules)

end
