(* ===== verification/Kern_Mem.thy ===== *)
theory Kern_Mem
  imports Kern_Base
begin

text \<open>
  Physical memory: the page allocator of \<^verbatim>\<open>kernel/kalloc.c\<close> and the address layout of
  \<^verbatim>\<open>kernel/include/memlayout.h\<close>. The state is the first layer of the kernel's state; every later
  component extends it.

  A page is named by its kernel virtual address. Its contents are seen in one of two ways, as a
  table of 512 entries or as bytes, according to its use between allocation and release. The
  free list, which the code threads through the free pages themselves, is a list of pages.
\<close>

section \<open>State and layout\<close>

record mem_state =
  freelist :: "u64 list"
  kernel_end :: u64 \<comment> \<open>the linker symbol \<open>__kernel_end\<close>\<close>
  available_memory :: u64
  kpdpt :: u64 \<comment> \<open>the kernel's page directory pointer table\<close>
  ptab :: "u64 \<Rightarrow> nat \<Rightarrow> u64"
  pdata :: "u64 \<Rightarrow> byte list"

definition PGSIZE :: u64 where "PGSIZE = 4096"
definition KERNBASE :: u64 where "KERNBASE = 0xFFFFFFFF80000000"
definition DEVBASE :: u64 where "DEVBASE = 0xFFFFFFFF40000000"
definition DEVSPACE :: u64 where "DEVSPACE = 0xFD000000"

definition v2p :: "u64 \<Rightarrow> u64" where "v2p a = a - KERNBASE"
definition p2v :: "u64 \<Rightarrow> u64" where "p2v a = a + KERNBASE"
definition v2io :: "u64 \<Rightarrow> u64" where "v2io a = a - (DEVBASE - DEVSPACE)"

definition PGROUNDUP :: "u64 \<Rightarrow> u64" where
  "PGROUNDUP sz = (sz + PGSIZE - 1) AND NOT (PGSIZE - 1)"

definition PGROUNDDOWN :: "u64 \<Rightarrow> u64" where
  "PGROUNDDOWN a = a AND NOT (PGSIZE - 1)"

lemmas layout_defs = PGSIZE_def KERNBASE_def DEVBASE_def DEVSPACE_def

lemma p2v_v2p [simp]: "p2v (v2p a) = a" "v2p (p2v a) = a"
  by (simp_all add: p2v_def v2p_def)

section \<open>The page allocator\<close>

definition kpage_free :: "u64 \<Rightarrow> ('z mem_state_scheme, unit) kern" where
  "kpage_free v =
     bindk (getk kernel_end) (\<lambda>kend.
     bindk (getk available_memory) (\<lambda>avail.
       if v2io v \<ge> DEVBASE then returnk ()
       else if v mod PGSIZE \<noteq> 0 then panick ''kpage_free''
       else if v < kend then panick ''kpage_free within kernel memory''
       else if v2p v \<ge> avail \<and> avail > 0 then panick ''kpage_free mem things''
       else modk (\<lambda>s. s\<lparr>freelist := v # freelist s\<rparr>)))"

definition kpage_alloc :: "('z mem_state_scheme, u64 option) kern" where
  "kpage_alloc =
     bindk (getk freelist) (\<lambda>fl.
       case fl of [] \<Rightarrow> returnk None
       | r # fl' \<Rightarrow> thenk (modk (\<lambda>s. s\<lparr>freelist := fl'\<rparr>)) (returnk (Some r)))"

text \<open>
  \<open>freerange\<close>: from \<^verbatim>\<open>PGROUNDUP(vstart)\<close>, one page at a time while a whole page is left before
  \<^verbatim>\<open>vend\<close>; \<open>freerange_loop\<close> counts these pages.
\<close>

fun freerange_loop :: "u64 \<Rightarrow> nat \<Rightarrow> ('z mem_state_scheme, unit) kern" where
  "freerange_loop p 0 = returnk ()"
| "freerange_loop p (Suc n) = thenk (kpage_free p) (freerange_loop (p + PGSIZE) n)"

definition freerange :: "u64 \<Rightarrow> u64 \<Rightarrow> ('z mem_state_scheme, unit) kern" where
  "freerange vstart vend =
     (let p = PGROUNDUP vstart in freerange_loop p ((unat vend - unat p) div 4096))"

definition kinit1 :: "u64 \<Rightarrow> u64 \<Rightarrow> ('z mem_state_scheme, unit) kern" where
  "kinit1 vstart vend = freerange vstart vend"

definition kinit2 :: "u64 \<Rightarrow> u64 \<Rightarrow> ('z mem_state_scheme, unit) kern" where
  "kinit2 vstart vend = freerange vstart vend"

section \<open>The free list\<close>

text \<open>
  A page the allocator may hold: page-aligned, above the kernel image, inside physical memory and
  not a device address.
\<close>

definition page_ok :: "'z mem_state_scheme \<Rightarrow> u64 \<Rightarrow> bool" where
  "page_ok s v \<longleftrightarrow> v mod PGSIZE = 0 \<and> kernel_end s \<le> v \<and> v2io v < DEVBASE \<and>
     (v2p v < available_memory s \<or> available_memory s = 0)"

definition mem_inv :: "'z mem_state_scheme \<Rightarrow> bool" where
  "mem_inv s \<longleftrightarrow> distinct (freelist s) \<and> (\<forall>v\<in>set (freelist s). page_ok s v)"

lemma page_ok_update [simp]:
  "page_ok (s\<lparr>freelist := fl\<rparr>) v = page_ok s v" "page_ok (s\<lparr>ptab := t\<rparr>) v = page_ok s v"
  "page_ok (s\<lparr>pdata := d\<rparr>) v = page_ok s v"
  by (simp_all add: page_ok_def)

lemma kpage_alloc_run:
  "kpage_alloc s = Inr (case freelist s of [] \<Rightarrow> (None, s) | r # fl \<Rightarrow> (Some r, s\<lparr>freelist := fl\<rparr>))"
  by (simp add: kpage_alloc_def kern_simps split: list.splits)

lemma kpage_free_run:
  "page_ok s v \<Longrightarrow> kpage_free v s = Inr ((), s\<lparr>freelist := v # freelist s\<rparr>)"
  by (auto simp: kpage_free_def kern_simps page_ok_def not_le)

lemma kpage_free_returns:
  "kpage_free v s = Inr (u, s') \<Longrightarrow>
   (v2io v \<ge> DEVBASE \<and> s' = s) \<or> (page_ok s v \<and> s' = s\<lparr>freelist := v # freelist s\<rparr>)"
  by (auto simp: kpage_free_def kern_simps page_ok_def not_le not_less split: if_splits)

lemma kpage_alloc_inv:
  assumes "mem_inv s" and "kpage_alloc s = Inr (r, s')"
  shows "mem_inv s'" and "r = Some v \<Longrightarrow> page_ok s v \<and> v \<notin> set (freelist s') \<and> v \<in> set (freelist s)"
  using assms by (auto simp: kpage_alloc_run mem_inv_def split: list.splits)

lemma kpage_free_inv:
  "mem_inv s \<Longrightarrow> v \<notin> set (freelist s) \<Longrightarrow> kpage_free v s = Inr (u, s') \<Longrightarrow> mem_inv s'"
  by (auto simp: mem_inv_def dest!: kpage_free_returns)

text \<open>
  The allocator touches its own layer of the state only. The collection \<open>mem_frame\<close> holds this
  fact for every operation on memory.
\<close>

named_theorems mem_frame

lemma kpage_free_frame [mem_frame]: "keeps (\<lambda>s. mem_state.more s = m) (kpage_free v)"
  unfolding kpage_free_def by (intro keeps_rules keeps_mod) simp

lemma kpage_alloc_frame [mem_frame]: "keeps (\<lambda>s. mem_state.more s = m) kpage_alloc"
  by (auto simp: keeps_def kpage_alloc_run split: list.splits)

section \<open>Properties\<close>

text \<open>
  C27: The page allocator hands out a page at most once: allocation from a well-formed free list
  gives a page that is aligned, above the kernel and inside memory, and no longer on the list;
  the list stays well-formed; freeing that page succeeds and restores the state.
\<close>

theorem kpage_alloc_free_roundtrip:
  fixes s :: mem_state
  assumes "mem_inv s" and "kpage_alloc s = Inr (Some v, s')"
  shows "page_ok s v \<and> v \<notin> set (freelist s') \<and> mem_inv s' \<and> kpage_free v s' = Inr ((), s)"
proof -
  obtain fl where fl: "freelist s = v # fl" "s' = s\<lparr>freelist := fl\<rparr>"
    using assms(2) by (auto simp: kpage_alloc_run split: list.splits)
  with assms(1) have "page_ok s v" by (simp add: mem_inv_def)
  then have "kpage_free v s' = Inr ((), s)"
    using fl by (simp add: kpage_free_run)
  with assms kpage_alloc_inv [OF assms] show ?thesis by blast
qed

definition mem_example :: mem_state where
  "mem_example = \<lparr>freelist = [0xFFFFFFFF80401000, 0xFFFFFFFF80400000],
     kernel_end = 0xFFFFFFFF80400000, available_memory = 0x10000000, kpdpt = 0xFFFFFFFF80300000,
     ptab = (\<lambda>_ _. 0), pdata = (\<lambda>_. [])\<rparr>"

lemma mem_example_inv: "mem_inv mem_example"
  by (simp add: mem_inv_def mem_example_def page_ok_def v2io_def v2p_def layout_defs)

theorem kpage_alloc_free_roundtrip_witness:
  "\<exists>v s'. mem_inv mem_example \<and> kpage_alloc mem_example = Inr (Some v, s') \<and>
     v \<notin> set (freelist s') \<and> kpage_free v s' = Inr ((), mem_example)"
proof -
  have a: "kpage_alloc mem_example = Inr (Some 0xFFFFFFFF80401000,
      mem_example\<lparr>freelist := [0xFFFFFFFF80400000]\<rparr>)"
    by (simp add: kpage_alloc_run) (simp add: mem_example_def)
  show ?thesis
    using kpage_alloc_free_roundtrip [OF mem_example_inv a] a mem_example_inv by blast
qed

end
