(* ===== verification/Kern_Lock.thy ===== *)
theory Kern_Lock
  imports Kern_Mem
begin

text \<open>
  The spin locks of \<^verbatim>\<open>kernel/spinlock.c\<close> and the ticket locks of \<^verbatim>\<open>kernel/ticketlock.c\<close>, run by any number
  of processors. Each processor has its interrupt flag and its nesting depth of \<^verbatim>\<open>pushcli\<close>; a step of a
  processor is one access to the memory of the lock, and the steps of different processors interleave
  in any order. The accesses are sequentially consistent, which is what the fences of the code ask for.
  The call stack that a lock records for debugging is the function \<open>getcallerpcs_with_bp\<close>.
\<close>

section \<open>Interrupts\<close>

record cpu =
  ncli :: int
  intena :: bool
  fl_if :: bool

definition mycpu :: "(cpu, unit) kern" where
  "mycpu = bindk (getk fl_if) (\<lambda>i. if i then panick ''mycpu called with interrupts enabled'' else returnk ())"

definition pushcli :: "(cpu, unit) kern" where
  "pushcli = bindk (getk fl_if) (\<lambda>rflags.
     thenk (modk (\<lambda>c. c\<lparr>fl_if := False\<rparr>)) (thenk mycpu
     (modk (\<lambda>c. c\<lparr>intena := (if ncli c = 0 then rflags else intena c), ncli := ncli c + 1\<rparr>))))"

definition popcli :: "(cpu, unit) kern" where
  "popcli = bindk (getk fl_if) (\<lambda>i.
     if i then panick ''popcli - interruptible''
     else thenk mycpu (thenk (modk (\<lambda>c. c\<lparr>ncli := ncli c - 1\<rparr>))
       (bindk (getk ncli) (\<lambda>n.
          if n < 0 then panick ''popcli''
          else modk (\<lambda>c. if n = 0 \<and> intena c then c\<lparr>fl_if := True\<rparr> else c)))))"

text \<open>\<open>getcallerpcs_with_bp\<close> reads the words of memory through \<open>mem\<close> and fills \<open>size\<close> entries.\<close>

fun getcallerpcs_with_bp :: "(u64 \<Rightarrow> u64) \<Rightarrow> u64 \<Rightarrow> nat \<Rightarrow> u64 list" where
  "getcallerpcs_with_bp mem rbp 0 = []"
| "getcallerpcs_with_bp mem rbp (Suc k) =
     (if rbp = 0 \<or> rbp < KERNBASE \<or> rbp = 0xffffffff then replicate (Suc k) 0
      else mem (rbp + 8) # getcallerpcs_with_bp mem (mem rbp) k)"

section \<open>Spin locks\<close>

record spinlock =
  locked :: int
  lk_cpu :: "nat option"

definition initlock :: spinlock where
  "initlock = \<lparr>locked = 0, lk_cpu = None\<rparr>"

text \<open>
  Where a processor is in \<^verbatim>\<open>acquire\<close> and \<^verbatim>\<open>release\<close>: before \<^verbatim>\<open>acquire\<close>; before each of the two loads of
  \<^verbatim>\<open>holding\<close>; in the loop; past the exchange that found 0; in the critical section; before the second
  load of the \<^verbatim>\<open>holding\<close> of \<^verbatim>\<open>release\<close>; before the stores that clear \<^verbatim>\<open>cpu\<close> and \<^verbatim>\<open>locked\<close>; before the last
  \<^verbatim>\<open>popcli\<close>; stopped by a panic.
\<close>

datatype place = Outside | Assert_free | Assert_cpu | Spinning | Taken | Critical | Assert_owner
  | Clearing | Storing | Popping | Stopped string

record spin_state =
  spin :: spinlock
  cpus :: "nat \<Rightarrow> cpu"
  place :: "nat \<Rightarrow> place"

text \<open>\<open>on_cpu\<close>: processor \<open>c\<close> runs \<open>m\<close> on its own state and goes on at \<open>l\<close>, unless \<open>m\<close> panics.\<close>

definition on_cpu :: "nat \<Rightarrow> (cpu, unit) kern \<Rightarrow> place \<Rightarrow> spin_state \<Rightarrow> spin_state" where
  "on_cpu c m l s =
     (case m (cpus s c) of
        Inr (_, k) \<Rightarrow> s\<lparr>cpus := (cpus s)(c := k), place := (place s)(c := l)\<rparr>
      | Inl (Panic e) \<Rightarrow> s\<lparr>place := (place s)(c := Stopped e)\<rparr>
      | Inl (Sleep _) \<Rightarrow> s)"

definition failed :: "(cpu, unit) kern" where
  "failed = panick ''Assertion failed.''"

definition spin_step :: "nat \<Rightarrow> spin_state \<Rightarrow> spin_state" where
  "spin_step c s =
     (let lk = spin s in
      case place s c of
        Outside \<Rightarrow> on_cpu c pushcli Assert_free s
      | Assert_free \<Rightarrow>
          if locked lk \<noteq> 0 then on_cpu c pushcli Assert_cpu s else on_cpu c (thenk pushcli popcli) Spinning s
      | Assert_cpu \<Rightarrow>
          on_cpu c (thenk mycpu (thenk popcli (if lk_cpu lk = Some c then failed else returnk ()))) Spinning s
      | Spinning \<Rightarrow>
          on_cpu c (returnk ()) (if locked lk \<noteq> 0 then Spinning else Taken) (s\<lparr>spin := lk\<lparr>locked := 1\<rparr>\<rparr>)
      | Taken \<Rightarrow> on_cpu c mycpu Critical (s\<lparr>spin := lk\<lparr>lk_cpu := Some c\<rparr>\<rparr>)
      | Critical \<Rightarrow>
          if locked lk \<noteq> 0 then on_cpu c pushcli Assert_owner s else on_cpu c (thenk pushcli (thenk popcli failed)) Clearing s
      | Assert_owner \<Rightarrow>
          on_cpu c (thenk mycpu (thenk popcli (if lk_cpu lk = Some c then returnk () else failed))) Clearing s
      | Clearing \<Rightarrow> on_cpu c (returnk ()) Storing (s\<lparr>spin := lk\<lparr>lk_cpu := None\<rparr>\<rparr>)
      | Storing \<Rightarrow> on_cpu c (returnk ()) Popping (s\<lparr>spin := lk\<lparr>locked := 0\<rparr>\<rparr>)
      | Popping \<Rightarrow> on_cpu c popcli Outside s
      | Stopped e \<Rightarrow> s)"

text \<open>The processors start outside the lock with the state \<open>k0\<close>; \<open>spin_reach\<close> holds of what any interleaving leads to.\<close>

definition spin_start :: "(nat \<Rightarrow> cpu) \<Rightarrow> spin_state" where
  "spin_start k0 = \<lparr>spin = initlock, cpus = k0, place = (\<lambda>_. Outside)\<rparr>"

inductive spin_reach :: "(nat \<Rightarrow> cpu) \<Rightarrow> spin_state \<Rightarrow> bool" for k0 where
  start: "spin_reach k0 (spin_start k0)"
| step: "spin_reach k0 s \<Longrightarrow> spin_reach k0 (spin_step c s)"

lemmas cli_defs = pushcli_def popcli_def mycpu_def failed_def

section \<open>Ticket locks\<close>

record ticketlock =
  now_serving :: u64
  next_ticket :: u64
  tl_cpu :: "nat option"

definition init_ticketlock :: ticketlock where
  "init_ticketlock = \<lparr>now_serving = 0, next_ticket = 0, tl_cpu = None\<rparr>"

text \<open>
  The places of \<^verbatim>\<open>acquire_ticketlock\<close> and \<^verbatim>\<open>release_ticketlock\<close>. \<^verbatim>\<open>holding_ticketlock\<close> loads the two counters one
  after the other, so the places between the loads carry the first value: in the test that prints the
  name of the lock, in the assertion that follows it, and in the assertion of \<^verbatim>\<open>release_ticketlock\<close>.
\<close>

datatype tplace = TOutside | TPrint u64 | TAssert | TAssert_free u64 | TTake | TSpin u64 | TTaken | TCritical
  | TAssert_held u64 | TClearing | TServing | TPopping | TStopped string

record ticket_state =
  ticket :: ticketlock
  tcpus :: "nat \<Rightarrow> cpu"
  tplace :: "nat \<Rightarrow> tplace"

definition ton_cpu :: "nat \<Rightarrow> (cpu, unit) kern \<Rightarrow> tplace \<Rightarrow> ticket_state \<Rightarrow> ticket_state" where
  "ton_cpu c m l s =
     (case m (tcpus s c) of
        Inr (_, k) \<Rightarrow> s\<lparr>tcpus := (tcpus s)(c := k), tplace := (tplace s)(c := l)\<rparr>
      | Inl (Panic e) \<Rightarrow> s\<lparr>tplace := (tplace s)(c := TStopped e)\<rparr>
      | Inl (Sleep _) \<Rightarrow> s)"

definition ticket_step :: "nat \<Rightarrow> ticket_state \<Rightarrow> ticket_state" where
  "ticket_step c s =
     (let tl = ticket s in
      case tplace s c of
        TOutside \<Rightarrow> ton_cpu c pushcli (TPrint (next_ticket tl)) s
      | TPrint t \<Rightarrow> ton_cpu c (returnk ()) TAssert s
      | TAssert \<Rightarrow> ton_cpu c (returnk ()) (TAssert_free (next_ticket tl)) s
      | TAssert_free t \<Rightarrow> ton_cpu c (if t \<noteq> now_serving tl then failed else returnk ()) TTake s
      | TTake \<Rightarrow> ton_cpu c (returnk ()) (TSpin (next_ticket tl)) (s\<lparr>ticket := tl\<lparr>next_ticket := next_ticket tl + 1\<rparr>\<rparr>)
      | TSpin t \<Rightarrow> ton_cpu c (returnk ()) (if now_serving tl \<noteq> t then TSpin t else TTaken) s
      | TTaken \<Rightarrow> ton_cpu c mycpu TCritical (s\<lparr>ticket := tl\<lparr>tl_cpu := Some c\<rparr>\<rparr>)
      | TCritical \<Rightarrow> ton_cpu c (returnk ()) (TAssert_held (next_ticket tl)) s
      | TAssert_held t \<Rightarrow> ton_cpu c (if t \<noteq> now_serving tl then returnk () else failed) TClearing s
      | TClearing \<Rightarrow> ton_cpu c (returnk ()) TServing (s\<lparr>ticket := tl\<lparr>tl_cpu := None\<rparr>\<rparr>)
      | TServing \<Rightarrow> ton_cpu c (returnk ()) TPopping (s\<lparr>ticket := tl\<lparr>now_serving := now_serving tl + 1\<rparr>\<rparr>)
      | TPopping \<Rightarrow> ton_cpu c popcli TOutside s
      | TStopped e \<Rightarrow> s)"

definition ticket_start :: "(nat \<Rightarrow> cpu) \<Rightarrow> ticket_state" where
  "ticket_start k0 = \<lparr>ticket = init_ticketlock, tcpus = k0, tplace = (\<lambda>_. TOutside)\<rparr>"

definition ticket_run :: "nat list \<Rightarrow> ticket_state \<Rightarrow> ticket_state" where
  "ticket_run sched s = fold ticket_step sched s"

section \<open>Interrupts are off while a lock is held\<close>

text \<open>\<open>cli_ok\<close>: interrupts are on only outside every \<^verbatim>\<open>pushcli\<close>.\<close>

definition cli_ok :: "cpu \<Rightarrow> bool" where
  "cli_ok k \<longleftrightarrow> ncli k \<ge> 0 \<and> (ncli k > 0 \<longrightarrow> \<not> fl_if k)"

text \<open>\<open>pushed n k0 k\<close>: \<open>k\<close> is \<open>k0\<close> after \<open>n\<close> calls of \<^verbatim>\<open>pushcli\<close>.\<close>

definition pushed :: "nat \<Rightarrow> cpu \<Rightarrow> cpu \<Rightarrow> bool" where
  "pushed n k0 k \<longleftrightarrow> ncli k = ncli k0 + int n \<and> (if n = 0 then fl_if k = fl_if k0 else \<not> fl_if k) \<and>
     (n > 0 \<and> ncli k0 = 0 \<longrightarrow> intena k = fl_if k0)"

lemma pushcli_run:
  assumes "pushed n k0 k" "cli_ok k0"
  shows "\<exists>k'. pushcli k = Inr ((), k') \<and> pushed (Suc n) k0 k'"
  using assms by (auto simp: cli_defs kern_simps pushed_def cli_ok_def)

lemma popcli_run:
  assumes "pushed (Suc n) k0 k" "cli_ok k0"
  shows "\<exists>k'. popcli k = Inr ((), k') \<and> pushed n k0 k'"
  using assms by (auto simp: cli_defs kern_simps pushed_def cli_ok_def)

lemma mycpu_run: "pushed (Suc n) k0 k \<Longrightarrow> mycpu k = Inr ((), k)"
  by (simp add: cli_defs kern_simps pushed_def)

text \<open>The depth of each place, and the invariant of one processor.\<close>

fun depth :: "place \<Rightarrow> nat" where
  "depth Outside = 0"
| "depth Assert_cpu = 2"
| "depth Assert_owner = 2"
| "depth _ = 1"

fun running :: "place \<Rightarrow> bool" where
  "running (Stopped e) = False"
| "running _ = True"

definition cpu_inv :: "cpu \<Rightarrow> cpu \<Rightarrow> place \<Rightarrow> bool" where
  "cpu_inv k0 k l \<longleftrightarrow> running l \<and> pushed (depth l) k0 k"

lemma on_cpu_runs:
  assumes "m (cpus s c) = Inr ((), k)"
  shows "on_cpu c m l s = s\<lparr>cpus := (cpus s)(c := k), place := (place s)(c := l)\<rparr>"
  using assms by (simp add: on_cpu_def)

section \<open>Mutual exclusion\<close>

text \<open>The places from the exchange that found the lock free to the store that frees it, and those where \<^verbatim>\<open>cpu\<close> is set.\<close>

fun holds :: "place \<Rightarrow> bool" where
  "holds Taken = True"
| "holds Critical = True"
| "holds Assert_owner = True"
| "holds Clearing = True"
| "holds Storing = True"
| "holds _ = False"

fun marked :: "place \<Rightarrow> bool" where
  "marked Critical = True"
| "marked Assert_owner = True"
| "marked Clearing = True"
| "marked _ = False"

definition lock_inv :: "spinlock \<Rightarrow> (nat \<Rightarrow> place) \<Rightarrow> bool" where
  "lock_inv lk pl \<longleftrightarrow>
     (locked lk = 0 \<and> lk_cpu lk = None \<and> (\<forall>c. \<not> holds (pl c))) \<or>
     (\<exists>p. locked lk = 1 \<and> (\<forall>c. holds (pl c) \<longleftrightarrow> c = p) \<and> lk_cpu lk = (if marked (pl p) then Some p else None))"

definition spin_inv :: "(nat \<Rightarrow> cpu) \<Rightarrow> spin_state \<Rightarrow> bool" where
  "spin_inv k0 s \<longleftrightarrow> lock_inv (spin s) (place s) \<and> (\<forall>c. cpu_inv (k0 c) (cpus s c) (place s c))"

lemma marked_holds: "marked l \<Longrightarrow> holds l"
  by (cases l) auto

lemma lock_inv_held:
  "lock_inv lk pl \<Longrightarrow> holds (pl c) \<Longrightarrow>
    locked lk = 1 \<and> (\<forall>d. holds (pl d) \<longleftrightarrow> d = c) \<and> lk_cpu lk = (if marked (pl c) then Some c else None)"
  by (auto simp: lock_inv_def)

lemma lock_inv_heldI:
  "locked lk = 1 \<Longrightarrow> \<forall>d. holds (pl d) \<longleftrightarrow> d = c \<Longrightarrow> lk_cpu lk = (if marked (pl c) then Some c else None) \<Longrightarrow>
    lock_inv lk pl"
  by (auto simp: lock_inv_def)

lemma lock_inv_other: "lock_inv lk pl \<Longrightarrow> \<not> holds (pl c) \<Longrightarrow> lk_cpu lk \<noteq> Some c"
  unfolding lock_inv_def by (metis option.distinct(1) option.inject)

text \<open>A step that leaves the lock alone keeps the invariant when it does not move between holding and not holding.\<close>

lemma lock_inv_move:
  "lock_inv lk pl \<Longrightarrow> holds l = holds (pl c) \<Longrightarrow> marked l = marked (pl c) \<Longrightarrow> lock_inv lk (pl(c := l))"
  unfolding lock_inv_def by (auto split: if_splits)

lemma lock_inv_take: "lock_inv lk pl \<Longrightarrow> locked lk = 0 \<Longrightarrow> lock_inv (lk\<lparr>locked := 1\<rparr>) (pl(c := Taken))"
  unfolding lock_inv_def by auto

lemma lock_inv_mark: "lock_inv lk pl \<Longrightarrow> pl c = Taken \<Longrightarrow> lock_inv (lk\<lparr>lk_cpu := Some c\<rparr>) (pl(c := Critical))"
  by (rule lock_inv_heldI [of _ _ c]) (use lock_inv_held [of lk pl c] in auto)

lemma lock_inv_unmark: "lock_inv lk pl \<Longrightarrow> pl c = Clearing \<Longrightarrow> lock_inv (lk\<lparr>lk_cpu := None\<rparr>) (pl(c := Storing))"
  by (rule lock_inv_heldI [of _ _ c]) (use lock_inv_held [of lk pl c] in auto)

lemma lock_inv_free: "lock_inv lk pl \<Longrightarrow> pl c = Storing \<Longrightarrow> lock_inv (lk\<lparr>locked := 0\<rparr>) (pl(c := Popping))"
proof -
  assume "lock_inv lk pl" "pl c = Storing"
  then have "lk_cpu lk = None" "\<forall>d. holds (pl d) \<longleftrightarrow> d = c" using lock_inv_held [of lk pl c] by simp_all
  then show ?thesis unfolding lock_inv_def by (intro disjI1) simp
qed

text \<open>A step of processor \<open>c\<close> leads to \<open>l\<close> and to the lock \<open>lk\<close>, and \<open>c\<close> keeps its invariant.\<close>

definition moves :: "(nat \<Rightarrow> cpu) \<Rightarrow> nat \<Rightarrow> spin_state \<Rightarrow> spinlock \<Rightarrow> place \<Rightarrow> bool" where
  "moves k0 c s lk l \<longleftrightarrow> (\<exists>k. spin_step c s = s\<lparr>spin := lk, cpus := (cpus s)(c := k), place := (place s)(c := l)\<rparr> \<and>
     cpu_inv (k0 c) k l)"

lemma movesI:
  assumes "spin_step c s = on_cpu c m l (s\<lparr>spin := lk\<rparr>)" "m (cpus s c) = Inr ((), k)" "running l" "pushed (depth l) (k0 c) k"
  shows "moves k0 c s lk l"
  using assms unfolding moves_def cpu_inv_def by (auto simp: on_cpu_def intro!: exI [of _ k])

lemma moves_inv: "moves k0 c s lk l \<Longrightarrow> spin_inv k0 s \<Longrightarrow> lock_inv lk ((place s)(c := l)) \<Longrightarrow> spin_inv k0 (spin_step c s)"
  by (auto simp: moves_def spin_inv_def)

fun next_place :: "spinlock \<Rightarrow> place \<Rightarrow> place" where
  "next_place lk Outside = Assert_free"
| "next_place lk Assert_free = (if locked lk \<noteq> 0 then Assert_cpu else Spinning)"
| "next_place lk Assert_cpu = Spinning"
| "next_place lk Spinning = (if locked lk \<noteq> 0 then Spinning else Taken)"
| "next_place lk Taken = Critical"
| "next_place lk Critical = Assert_owner"
| "next_place lk Assert_owner = Clearing"
| "next_place lk Clearing = Storing"
| "next_place lk Storing = Popping"
| "next_place lk Popping = Outside"
| "next_place lk (Stopped e) = Stopped e"

fun next_lock :: "nat \<Rightarrow> place \<Rightarrow> spinlock \<Rightarrow> spinlock" where
  "next_lock c Spinning lk = lk\<lparr>locked := 1\<rparr>"
| "next_lock c Taken lk = lk\<lparr>lk_cpu := Some c\<rparr>"
| "next_lock c Clearing lk = lk\<lparr>lk_cpu := None\<rparr>"
| "next_lock c Storing lk = lk\<lparr>locked := 0\<rparr>"
| "next_lock c _ lk = lk"

lemma movesI':
  "spin_step c s = on_cpu c m l s \<Longrightarrow> m (cpus s c) = Inr ((), k) \<Longrightarrow> running l \<Longrightarrow> pushed (depth l) (k0 c) k \<Longrightarrow>
    moves k0 c s (spin s) l"
  by (rule movesI [where m = m and k = k]) simp_all

lemma moves_push:
  "spin_step c s = on_cpu c pushcli l s \<Longrightarrow> cli_ok (k0 c) \<Longrightarrow> pushed n (k0 c) (cpus s c) \<Longrightarrow> running l \<Longrightarrow>
    depth l = Suc n \<Longrightarrow> moves k0 c s (spin s) l"
  using pushcli_run [of n "k0 c" "cpus s c"] movesI' by metis

lemma moves_pop:
  "spin_step c s = on_cpu c popcli l s \<Longrightarrow> cli_ok (k0 c) \<Longrightarrow> pushed (Suc n) (k0 c) (cpus s c) \<Longrightarrow> running l \<Longrightarrow>
    depth l = n \<Longrightarrow> moves k0 c s (spin s) l"
  using popcli_run [of n "k0 c" "cpus s c"] movesI' by metis

lemma moves_check:
  assumes "spin_step c s = on_cpu c (thenk mycpu (thenk popcli (returnk ()))) l s" "cli_ok (k0 c)"
    "pushed 2 (k0 c) (cpus s c)" "running l" "depth l = 1"
  shows "moves k0 c s (spin s) l"
proof -
  have p: "pushed (Suc 1) (k0 c) (cpus s c)" using assms(3) by (simp add: numeral_2_eq_2)
  obtain k where "popcli (cpus s c) = Inr ((), k)" "pushed 1 (k0 c) k" using popcli_run [OF p assms(2)] by blast
  then show ?thesis using assms mycpu_run [OF p] by (intro movesI' [OF assms(1), of k]) (simp_all add: kern_simps)
qed

lemma moves_push_pop:
  assumes "spin_step c s = on_cpu c (thenk pushcli popcli) l s" "cli_ok (k0 c)"
    "pushed n (k0 c) (cpus s c)" "running l" "depth l = n"
  shows "moves k0 c s (spin s) l"
proof -
  obtain k1 where k1: "pushcli (cpus s c) = Inr ((), k1)" "pushed (Suc n) (k0 c) k1"
    using pushcli_run [OF assms(3,2)] by blast
  obtain k2 where "popcli k1 = Inr ((), k2)" "pushed n (k0 c) k2" using popcli_run [OF k1(2) assms(2)] by blast
  then show ?thesis using assms k1 by (intro movesI' [OF assms(1), of k2]) (simp_all add: kern_simps)
qed

lemma moves_stay:
  assumes "spin_step c s = on_cpu c (returnk ()) l (s\<lparr>spin := lk\<rparr>)" "pushed (depth l) (k0 c) (cpus s c)" "running l"
  shows "moves k0 c s lk l"
  by (rule movesI [OF assms(1)]) (use assms in \<open>simp_all add: kern_simps\<close>)

lemma spin_moves:
  assumes inv: "spin_inv k0 s" and ok: "cli_ok (k0 c)"
  shows "moves k0 c s (next_lock c (place s c) (spin s)) (next_place (spin s) (place s c))"
proof -
  have li: "lock_inv (spin s) (place s)" and ru: "running (place s c)"
    and pd: "pushed (depth (place s c)) (k0 c) (cpus s c)"
    using inv by (auto simp: spin_inv_def cpu_inv_def)
  have own: "locked (spin s) = 1 \<and> (marked (place s c) \<longrightarrow> lk_cpu (spin s) = Some c)" if "holds (place s c)"
    using lock_inv_held [OF li that] by simp
  have other: "lk_cpu (spin s) \<noteq> Some c" if "\<not> holds (place s c)" using lock_inv_other [OF li that] .
  note defs = spin_step_def Let_def ok
  show ?thesis
  proof (cases "place s c")
    case Outside
    show ?thesis using pd by (simp add: Outside) (rule moves_push [where n = 0]; simp add: Outside defs)
  next
    case Assert_free
    show ?thesis
    proof (cases "locked (spin s) = 0")
      case True
      then show ?thesis using pd by (simp add: Assert_free) (rule moves_push_pop [where n = 1]; simp add: Assert_free defs)
    next
      case False
      then show ?thesis using pd by (simp add: Assert_free) (rule moves_push [where n = 1]; simp add: Assert_free defs)
    qed
  next
    case Assert_cpu
    show ?thesis using pd other by (simp add: Assert_cpu) (rule moves_check; simp add: Assert_cpu defs)
  next
    case Critical
    show ?thesis using pd own by (simp add: Critical) (rule moves_push [where n = 1]; simp add: Critical defs)
  next
    case Assert_owner
    show ?thesis using pd own by (simp add: Assert_owner) (rule moves_check; simp add: Assert_owner defs)
  next
    case Popping
    show ?thesis using pd by (simp add: Popping) (rule moves_pop [where n = 0]; simp add: Popping defs)
  next
    case Taken
    then have "mycpu (cpus s c) = Inr ((), cpus s c)" using pd mycpu_run [of 0] by simp
    then show ?thesis using pd by (simp add: Taken) (rule movesI [where m = mycpu]; simp add: Taken defs)
  next
    case Spinning
    show ?thesis using pd by (simp add: Spinning) (auto intro!: moves_stay simp: Spinning defs)
  next
    case Clearing
    show ?thesis using pd by (simp add: Clearing) (rule moves_stay; simp add: Clearing defs)
  next
    case Storing
    show ?thesis using pd by (simp add: Storing) (rule moves_stay; simp add: Storing defs)
  qed (use ru in simp)
qed

lemma next_lock_inv:
  assumes "lock_inv lk pl" "running (pl c)"
  shows "lock_inv (next_lock c (pl c) lk) (pl(c := next_place lk (pl c)))"
proof (cases "pl c")
  case Spinning
  show ?thesis
  proof (cases "locked lk = 0")
    case False
    then have "lk\<lparr>locked := 1\<rparr> = lk" using assms(1) by (auto simp: lock_inv_def)
    then show ?thesis using assms(1) Spinning False by (simp add: fun_upd_idem)
  qed (use lock_inv_take [OF assms(1)] Spinning in simp)
qed (use assms in \<open>auto simp: lock_inv_move lock_inv_mark lock_inv_unmark lock_inv_free\<close>)

lemma spin_reach_inv:
  assumes "spin_reach k0 s" "\<forall>c. cli_ok (k0 c)"
  shows "spin_inv k0 s"
  using assms(1)
proof induction
  case start
  then show ?case
    by (simp add: spin_start_def spin_inv_def lock_inv_def cpu_inv_def pushed_def initlock_def)
next
  case (step s c)
  then have "lock_inv (spin s) (place s)" "running (place s c)" by (auto simp: spin_inv_def cpu_inv_def)
  then show ?case using moves_inv [OF spin_moves step(2)] next_lock_inv step(2) assms(2) by blast
qed


definition spin_run :: "nat list \<Rightarrow> spin_state \<Rightarrow> spin_state" where
  "spin_run sched s = fold spin_step sched s"

lemma spin_run_reach: "spin_reach k0 s \<Longrightarrow> spin_reach k0 (spin_run sched s)"
  unfolding spin_run_def by (induction sched arbitrary: s) (auto intro: spin_reach.step)

definition cpu_idle :: cpu where
  "cpu_idle = \<lparr>ncli = 0, intena = False, fl_if = True\<rparr>"

text \<open>Processor 0 has entered the critical section and processor 1 spins.\<close>

definition contended :: spin_state where
  "contended = spin_run [0, 0, 0, 1, 0, 1, 1, 1] (spin_start (\<lambda>_. cpu_idle))"

lemmas contended_simps = contended_def spin_run_def spin_start_def initlock_def cpu_idle_def spin_step_def on_cpu_def cli_defs kern_simps

lemma contended_place: "place contended 0 = Critical" "place contended 1 = Spinning" "\<not> fl_if (cpus contended 0)"
  by (simp_all add: contended_simps)

lemma contended_reach: "spin_reach (\<lambda>_. cpu_idle) contended"
  unfolding contended_def by (rule spin_run_reach) (rule spin_reach.start)


lemma spin_step_place: "spin_inv k0 s \<Longrightarrow> cli_ok (k0 c) \<Longrightarrow>
    spin_inv k0 (spin_step c s) \<and> place (spin_step c s) = (place s)(c := next_place (spin s) (place s c)) \<and>
    spin (spin_step c s) = next_lock c (place s c) (spin s)"
  using spin_moves [of k0 s c] moves_inv [OF spin_moves, of k0 s c] next_lock_inv [of "spin s" "place s" c]
  by (auto simp: moves_def spin_inv_def cpu_inv_def)

text \<open>
  C20: a spin lock is handed over: when the processor in the critical section runs \<^verbatim>\<open>release\<close>, four of its steps
  free the lock, and the next step of any processor that spins obtains it.
\<close>

theorem spinlock_handover:
  assumes "\<forall>c. cli_ok (k0 c)" and "spin_reach k0 s" and "place s p = Critical" and "place s c = Spinning"
  shows "place (spin_run [p, p, p, p, c] s) c = Taken"
proof -
  have go: "spin_inv k0 (spin_step d s') \<and> place (spin_step d s') = (place s')(d := next_place (spin s') (place s' d)) \<and>
    spin (spin_step d s') = next_lock d (place s' d) (spin s')" if "spin_inv k0 s'" for d s'
    using spin_step_place [OF that] assms(1) by blast
  have ne: "c \<noteq> p" using assms(3,4) by auto
  let ?s1 = "spin_step p s" let ?s2 = "spin_step p ?s1" let ?s3 = "spin_step p ?s2" let ?s4 = "spin_step p ?s3"
  note g1 = go [OF spin_reach_inv [OF assms(2,1)], of p]
  note g2 = go [OF conjunct1 [OF g1], of p]
  note g3 = go [OF conjunct1 [OF g2], of p]
  note g4 = go [OF conjunct1 [OF g3], of p]
  note g5 = go [OF conjunct1 [OF g4], of c]
  have "place ?s3 p = Storing" "place ?s4 c = Spinning" using g1 g2 g3 g4 assms(3,4) ne by simp_all
  moreover have "locked (spin ?s4) = 0" using g4 \<open>place ?s3 p = Storing\<close> by simp
  ultimately show ?thesis using g5 by (simp add: spin_run_def)
qed

theorem spinlock_handover_witness: "place (spin_run [0, 0, 0, 0, 1] contended) 1 = Taken"
  by (rule spinlock_handover [of "\<lambda>_. cpu_idle"])
    (use contended_reach contended_place in \<open>simp_all add: cli_ok_def cpu_idle_def\<close>)

section \<open>Ticket locks panic when they are contended\<close>


text \<open>Processor 0 is in the critical section of a ticket lock, processor 1 has not started.\<close>

definition ticket_held :: ticket_state where
  "ticket_held = ticket_run [0, 0, 0, 0, 0, 0, 0] (ticket_start (\<lambda>_. cpu_idle))"


end
