(* ===== verification/Kern_Malloc.thy ===== *)
theory Kern_Malloc
  imports Kern_Mem
begin

text \<open>
  The allocator of small objects of \<^verbatim>\<open>kernel/kalloc.c\<close>, after Kernighan and Ritchie: a circular list of free
  blocks in the order of their addresses, first fit from a roving pointer, and merging of neighbours
  when a block is freed. Addresses are counted in units of a header, 16 bytes; 0 is the null pointer. The
  headers, which the code keeps inside the pages it got from the page allocator, are a map from addresses
  to headers, and \<open>h_base\<close> is the address of the static header \<^verbatim>\<open>base\<close>.
\<close>

section \<open>Definitions\<close>

record header =
  hptr :: nat
  hsize :: nat

record heap_state = mem_state +
  hdr :: "nat \<Rightarrow> header"
  freep :: nat
  h_base :: nat

definition HEADER_SIZE :: nat where "HEADER_SIZE = 16"

definition hdr_ptr :: "nat \<Rightarrow> nat \<Rightarrow> (nat \<Rightarrow> header) \<Rightarrow> nat \<Rightarrow> header" where
  "hdr_ptr p q h = h(p := (h p)\<lparr>hptr := q\<rparr>)"

definition hdr_size :: "nat \<Rightarrow> nat \<Rightarrow> (nat \<Rightarrow> header) \<Rightarrow> nat \<Rightarrow> header" where
  "hdr_size p n h = h(p := (h p)\<lparr>hsize := n\<rparr>)"

text \<open>The loop of \<^verbatim>\<open>kfree\<close> looks for the free block after which \<open>bp\<close> belongs.\<close>

partial_function (option) kfree_scan :: "(nat \<Rightarrow> header) \<Rightarrow> nat \<Rightarrow> nat \<Rightarrow> nat option" where
  "kfree_scan h bp p =
     (if p = 0 \<or> (p < bp \<and> bp < hptr (h p)) then Some p
      else if hptr (h p) \<le> p \<and> (p < bp \<or> bp < hptr (h p)) then Some p
      else kfree_scan h bp (hptr (h p)))"

definition kfree_link :: "nat \<Rightarrow> nat \<Rightarrow> (nat \<Rightarrow> header) \<Rightarrow> nat \<Rightarrow> header" where
  "kfree_link bp p h =
     (let q = hptr (h p);
          h = (if bp + hsize (h bp) = q
               then hdr_ptr bp (hptr (h q)) (hdr_size bp (hsize (h bp) + hsize (h q)) h)
               else hdr_ptr bp q h)
      in if p + hsize (h p) = bp
         then hdr_ptr p (hptr (h bp)) (hdr_size p (hsize (h p) + hsize (h bp)) h)
         else hdr_ptr p bp h)"

text \<open>\<open>kfree\<close> takes the pointer it is given, one past the header, and returns nothing if its loop does not end.\<close>

definition kfree :: "nat \<Rightarrow> 'z heap_state_scheme \<Rightarrow> 'z heap_state_scheme option" where
  "kfree ap s =
     (if ap = 0 then Some s
      else case kfree_scan (hdr s) (ap - 1) (freep s) of
             None \<Rightarrow> None
           | Some p \<Rightarrow> if p = 0 then Some s else Some (s\<lparr>hdr := kfree_link (ap - 1) p (hdr s), freep := p\<rparr>))"

definition morecore :: "nat \<Rightarrow> 'z heap_state_scheme \<Rightarrow> (nat \<times> 'z heap_state_scheme) option" where
  "morecore nu s =
     (case kpage_alloc s of
        Inr (Some p, s) \<Rightarrow>
          (let hp = unat p div HEADER_SIZE
           in case kfree (hp + 1) (s\<lparr>hdr := hdr_size hp (4096 div HEADER_SIZE) (hdr s)\<rparr>) of
                None \<Rightarrow> None
              | Some s \<Rightarrow> Some (freep s, s))
      | Inr (None, s) \<Rightarrow> Some (0, s)
      | Inl _ \<Rightarrow> None)"

text \<open>\<open>take_block\<close>: the block that \<^verbatim>\<open>kmalloc\<close> found is unlinked, or cut at its end.\<close>

definition take_block :: "nat \<Rightarrow> nat \<Rightarrow> nat \<Rightarrow> (nat \<Rightarrow> header) \<Rightarrow> nat \<times> (nat \<Rightarrow> header)" where
  "take_block nunits prevp p h =
     (if hsize (h p) = nunits then (p, hdr_ptr prevp (hptr (h p)) h)
      else (let h = hdr_size p (hsize (h p) - nunits) h;
                p = p + hsize (h p)
            in (p, hdr_size p nunits h)))"

partial_function (option) kmalloc_loop ::
  "nat \<Rightarrow> nat \<Rightarrow> nat \<Rightarrow> 'z heap_state_scheme \<Rightarrow> (nat \<times> 'z heap_state_scheme) option" where
  "kmalloc_loop nunits prevp p s =
     (if p = 0 then Some (0, s)
      else if nunits \<le> hsize (hdr s p)
      then (case take_block nunits prevp p (hdr s) of (p, h) \<Rightarrow> Some (p + 1, s\<lparr>hdr := h, freep := prevp\<rparr>))
      else if p = freep s
      then (case morecore nunits s of
              None \<Rightarrow> None
            | Some (p, s) \<Rightarrow> if p = 0 then Some (0, s) else kmalloc_loop nunits p (hptr (hdr s p)) s)
      else kmalloc_loop nunits p (hptr (hdr s p)) s)"

text \<open>The number of units of a request, one for the header included; the sum of two \<^verbatim>\<open>size_t\<close>s wraps around.\<close>

definition units :: "nat \<Rightarrow> nat" where
  "units nbytes = (nbytes + HEADER_SIZE - 1) mod 2 ^ 64 div HEADER_SIZE + 1"

definition kmalloc :: "nat \<Rightarrow> 'z heap_state_scheme \<Rightarrow> (nat \<times> 'z heap_state_scheme) option" where
  "kmalloc nbytes s =
     (if nbytes = 0 then Some (0, s)
      else (let nunits = units nbytes;
                s = (if freep s = 0
                     then s\<lparr>freep := h_base s, hdr := (hdr s)(h_base s := \<lparr>hptr = h_base s, hsize = 0\<rparr>)\<rparr> else s);
                prevp = freep s
            in kmalloc_loop nunits prevp (hptr (hdr s prevp)) s))"

text \<open>
  \<open>krealloc\<close> and \<open>kcalloc\<close>; the result of \<open>krealloc\<close> has the number of bytes it copies from the old to the new block,
  that of \<open>kcalloc\<close> the number of bytes it clears.
\<close>

definition krealloc :: "nat \<Rightarrow> nat \<Rightarrow> 'z heap_state_scheme \<Rightarrow> (nat \<times> nat \<times> 'z heap_state_scheme) option" where
  "krealloc ptr sz s =
     (if ptr = 0 then map_option (\<lambda>(r, s). (r, 0, s)) (kmalloc sz s)
      else (let old_size = hsize (hdr s (ptr - 1)) * HEADER_SIZE
            in if old_size \<ge> sz then Some (ptr, 0, s)
               else case kmalloc sz s of
                      None \<Rightarrow> None
                    | Some (r, s) \<Rightarrow>
                        if r = 0 then Some (0, 0, s) else map_option (\<lambda>s. (r, old_size, s)) (kfree ptr s)))"

definition kcalloc :: "nat \<Rightarrow> 'z heap_state_scheme \<Rightarrow> (nat \<times> nat \<times> 'z heap_state_scheme) option" where
  "kcalloc sz s = map_option (\<lambda>(r, s). if r = 0 then (0, 0, s) else (r, sz, s)) (kmalloc sz s)"

section \<open>The free list\<close>

text \<open>\<open>links h p qs e\<close>: following the pointers from \<open>p\<close> passes \<open>qs\<close> and arrives at \<open>e\<close>.\<close>

fun links :: "(nat \<Rightarrow> header) \<Rightarrow> nat \<Rightarrow> nat list \<Rightarrow> nat \<Rightarrow> bool" where
  "links h p [] e \<longleftrightarrow> hptr (h p) = e"
| "links h p (q # qs) e \<longleftrightarrow> hptr (h p) = q \<and> links h q qs e"

lemma links_append: "links h p (xs @ y # ys) e \<longleftrightarrow> links h p xs y \<and> links h y ys e"
  by (induction xs arbitrary: p) auto

lemma links_cong: "(\<And>x. x \<in> insert p (set xs) \<Longrightarrow> hptr (h' x) = hptr (h x)) \<Longrightarrow> links h' p xs e = links h p xs e"
  by (induction xs arbitrary: p) auto

lemma set_fields [simp]:
  "hptr (hdr_ptr p q h x) = (if x = p then q else hptr (h x))" "hsize (hdr_ptr p q h x) = hsize (h x)"
  "hsize (hdr_size p n h x) = (if x = p then n else hsize (h x))" "hptr (hdr_size p n h x) = hptr (h x)"
  by (auto simp: hdr_ptr_def hdr_size_def)

text \<open>\<open>apart\<close>: the blocks of \<open>m\<close> units at \<open>x\<close> and of \<open>k\<close> units at \<open>y\<close> have no unit in common.\<close>

definition apart :: "nat \<Rightarrow> nat \<Rightarrow> nat \<Rightarrow> nat \<Rightarrow> bool" where
  "apart x m y k \<longleftrightarrow> x + m \<le> y \<or> y + k \<le> x"

lemma apart_sym: "apart x m y k \<longleftrightarrow> apart y k x m"
  by (auto simp: apart_def)

lemma apart_sub: "apart x m y k \<Longrightarrow> x \<le> x' \<Longrightarrow> x' + m' \<le> x + m \<Longrightarrow> apart x' m' y k"
  by (auto simp: apart_def)

lemma apart_join: "apart x m y k \<Longrightarrow> apart (x + m) n y k \<Longrightarrow> 0 < k \<Longrightarrow> apart x (m + n) y k"
  by (auto simp: apart_def)

text \<open>
  \<open>free_ok b h ns\<close>: the circular list consists of \<open>b\<close>, which is empty, and of the blocks \<open>ns\<close>, above it, in the order
  of their addresses and apart.
\<close>

definition free_ok :: "nat \<Rightarrow> (nat \<Rightarrow> header) \<Rightarrow> nat list \<Rightarrow> bool" where
  "free_ok b h ns \<longleftrightarrow> 0 < b \<and> hsize (h b) = 0 \<and> links h b ns b \<and>
     (\<forall>n\<in>set ns. b < n \<and> 0 < hsize (h n)) \<and> sorted_wrt (\<lambda>x y. x + hsize (h x) \<le> y) ns"

text \<open>The place after which a block belongs: the list is split at \<open>p\<close>.\<close>

definition place_of :: "nat \<Rightarrow> nat list \<Rightarrow> nat \<Rightarrow> nat list \<Rightarrow> nat \<Rightarrow> nat list \<Rightarrow> bool" where
  "place_of b ns bp xs p ys \<longleftrightarrow> b # ns = xs @ p # ys \<and> p < bp \<and> (\<forall>y\<in>set ys. bp < y)"

lemma place_exists:
  fixes bp :: nat
  assumes "bp \<notin> set ns" "sorted_wrt (<) ns"
  shows "\<exists>xs ys. ns = xs @ ys \<and> (\<forall>x\<in>set xs. x < bp) \<and> (\<forall>y\<in>set ys. bp < y)"
proof -
  let ?xs = "takeWhile (\<lambda>x. x < bp) ns" and ?ys = "dropWhile (\<lambda>x. x < bp) ns"
  have "bp < y" if "y \<in> set ?ys" for y
  proof -
    have "bp \<noteq> y" using that assms(1) set_dropWhileD by fastforce
    moreover have "?ys \<noteq> []" using that by (cases ?ys) auto
    then have "\<not> hd ?ys < bp" by (rule hd_dropWhile)
    moreover have "sorted_wrt (<) ?ys" using assms(2) by (metis sorted_wrt_append takeWhile_dropWhile_id)
    then have "hd ?ys \<le> y" using that by (cases ?ys) auto
    ultimately show ?thesis by simp
  qed
  moreover have "ns = ?xs @ ?ys" by simp
  moreover have "\<forall>x\<in>set ?xs. x < bp" by (auto dest: set_takeWhileD)
  ultimately show ?thesis by blast
qed

lemma place_of_split:
  assumes "ns = xs @ ys" "\<forall>x\<in>set xs. x < bp" "\<forall>y\<in>set ys. bp < y" "b < bp"
  shows "place_of b ns bp (butlast (b # xs)) (last (b # xs)) ys"
proof -
  have "b # ns = butlast (b # xs) @ last (b # xs) # ys"
    using assms(1) append_butlast_last_id [of "b # xs"] by (metis append.assoc append_Cons append_Nil list.distinct(1))
  moreover have "last (b # xs) < bp" using assms(2,4) by (simp add: last_in_set)
  ultimately show ?thesis using assms(3) by (simp add: place_of_def)
qed

lemma scan_up:
  "links h q zs p \<Longrightarrow> sorted_wrt (<) (q # zs @ [p]) \<Longrightarrow> p < bp \<Longrightarrow> 0 < q \<Longrightarrow> kfree_scan h bp q = kfree_scan h bp p"
proof (induction zs arbitrary: q)
  case Nil
  then show ?case by (subst kfree_scan.simps) auto
next
  case (Cons z zs)
  then show ?case by (subst kfree_scan.simps) auto
qed

lemma scan_down:
  "links h q zs b \<Longrightarrow> sorted_wrt (<) (q # zs) \<Longrightarrow> bp < q \<Longrightarrow> b < bp \<Longrightarrow> kfree_scan h bp q = kfree_scan h bp b"
proof (induction zs arbitrary: q)
  case Nil
  then show ?case by (subst kfree_scan.simps) auto
next
  case (Cons z zs)
  then show ?case by (subst kfree_scan.simps) auto
qed

lemma free_ok_sorted: "free_ok b h ns \<Longrightarrow> sorted_wrt (<) (b # ns)"
  unfolding free_ok_def using sorted_wrt_mono_rel [of ns "\<lambda>x y. x + hsize (h x) \<le> y" "(<)"] by fastforce

lemma kfree_scan_finds:
  assumes ok: "free_ok b h ns" and pl: "place_of b ns bp xs p ys" and q: "q \<in> set (b # ns)" and bp: "b < bp"
  shows "kfree_scan h bp q = Some p"
proof -
  have l: "links h b ns b" and b0: "0 < b" using ok by (auto simp: free_ok_def)
  have eq: "b # ns = xs @ p # ys" using pl by (simp add: place_of_def)
  have so: "sorted_wrt (<) (xs @ p # ys)" using free_ok_sorted [OF ok] unfolding eq .
  have pb: "p < bp" "\<forall>y\<in>set ys. bp < y" using pl by (auto simp: place_of_def)
  have ly: "links h p ys b" using l eq by (cases xs) (auto simp: links_append)
  have at_p: "kfree_scan h bp p = Some p"
  proof (cases ys)
    case Nil
    have "b \<le> p" using so eq by (cases xs) auto
    then show ?thesis using ly Nil pb bp by (subst kfree_scan.simps) auto
  next
    case (Cons y ys')
    then show ?thesis using ly pb by (subst kfree_scan.simps) auto
  qed
  have before: "kfree_scan h bp x = Some p" if x: "x \<in> set xs" for x
  proof -
    obtain us vs where us: "xs = us @ x # vs" using x by (meson split_list)
    have "links h x vs p" using l eq us by (cases us) (auto simp: links_append)
    moreover have "sorted_wrt (<) (x # vs @ [p])" using so us by (auto simp: sorted_wrt_append)
    moreover have "0 < x" using so us eq b0 by (cases us) auto
    ultimately show ?thesis using scan_up pb at_p by metis
  qed
  have start: "kfree_scan h bp b = Some p" using before at_p eq by (cases xs) auto
  have "kfree_scan h bp y = Some p" if y: "y \<in> set ys" for y
  proof -
    obtain us vs where us: "ys = us @ y # vs" using y by (meson split_list)
    have "links h y vs b" using ly us by (auto simp: links_append)
    moreover have "sorted_wrt (<) (y # vs)" using so us by (auto simp: sorted_wrt_append)
    ultimately show ?thesis using scan_down bp pb y start by metis
  qed
  then show ?thesis using q before at_p unfolding eq by auto
qed

text \<open>Freeing a block keeps the list in order; what is apart from the block and from the free blocks stays apart from them.\<close>

definition ordered :: "(nat \<Rightarrow> header) \<Rightarrow> nat list \<Rightarrow> bool" where
  "ordered h ns \<longleftrightarrow> sorted_wrt (\<lambda>x y. x + hsize (h x) \<le> y) ns"

lemma ordered_cong: "(\<And>x. x \<in> set ns \<Longrightarrow> hsize (h' x) = hsize (h x)) \<Longrightarrow> ordered h' ns = ordered h ns"
  unfolding ordered_def by (induction ns) auto

lemma ordered_append:
  "ordered h (xs @ ys) \<longleftrightarrow> ordered h xs \<and> ordered h ys \<and> (\<forall>x\<in>set xs. \<forall>y\<in>set ys. x + hsize (h x) \<le> y)"
  by (auto simp: ordered_def sorted_wrt_append)

lemma ordered_Cons: "ordered h (x # xs) \<longleftrightarrow> ordered h xs \<and> (\<forall>y\<in>set xs. x + hsize (h x) \<le> y)"
  by (auto simp: ordered_def)

lemma ordered_Nil [simp]: "ordered h []"
  by (simp add: ordered_def)

definition clear_of :: "(nat \<Rightarrow> header) \<Rightarrow> nat list \<Rightarrow> nat \<Rightarrow> nat \<Rightarrow> bool" where
  "clear_of h ns m k \<longleftrightarrow> (\<forall>n\<in>set ns. apart n (hsize (h n)) m k)"

lemma link_right:
  assumes l: "links h p ys b" and o: "ordered h ys" and pos: "\<forall>y\<in>set ys. bp + hsize (h bp) \<le> y" and b: "b < bp"
    and ne: "bp \<notin> set (p # ys)"
  defines "h1 \<equiv> (if bp + hsize (h bp) = hptr (h p)
      then hdr_ptr bp (hptr (h (hptr (h p)))) (hdr_size bp (hsize (h bp) + hsize (h (hptr (h p)))) h)
      else hdr_ptr bp (hptr (h p)) h)"
  shows "\<exists>ys1. links h1 bp ys1 b \<and> set ys1 \<subseteq> set ys \<and> ordered h1 (bp # ys1) \<and> hsize (h bp) \<le> hsize (h1 bp) \<and>
    (\<forall>x. x \<noteq> bp \<longrightarrow> h1 x = h x) \<and>
    (\<forall>m k. 0 < k \<and> apart bp (hsize (h bp)) m k \<and> clear_of h ys m k \<longrightarrow> apart bp (hsize (h1 bp)) m k)"
proof (cases "bp + hsize (h bp) = hptr (h p)")
  case True
  then obtain ys1 where ys: "ys = hptr (h p) # ys1" using l b by (cases ys) auto
  let ?q = "hptr (h p)"
  have h1: "h1 = hdr_ptr bp (hptr (h ?q)) (hdr_size bp (hsize (h bp) + hsize (h ?q)) h)" using True by (simp add: h1_def)
  have other: "h1 x = h x" if "x \<noteq> bp" for x using that by (simp add: h1 hdr_ptr_def hdr_size_def)
  have "links h ?q ys1 b" using l ys by simp
  then have "links h1 bp ys1 b" using ne ys by (cases ys1) (auto simp: h1 intro: links_cong [THEN iffD1, rotated])
  moreover have "ordered h1 (bp # ys1)"
    using o ys ne True by (auto simp: ordered_Cons h1 intro: ordered_cong [THEN iffD1, rotated])
  moreover have "apart bp (hsize (h1 bp)) m k" if "0 < k" "apart bp (hsize (h bp)) m k" "clear_of h ys m k" for m k
    using that True ys by (auto simp: h1 clear_of_def intro!: apart_join)
  ultimately show ?thesis using other ys by (intro exI [of _ ys1]) (auto simp: h1)
next
  case False
  then have h1: "h1 = hdr_ptr bp (hptr (h p)) h" by (simp add: h1_def)
  have "links h1 bp ys b" using l ne by (cases ys) (auto simp: h1 intro: links_cong [THEN iffD1, rotated])
  moreover have "ordered h1 (bp # ys)" using o pos by (auto simp: ordered_Cons h1 intro: ordered_cong [THEN iffD1, rotated])
  ultimately show ?thesis by (intro exI [of _ ys]) (auto simp: h1 hdr_ptr_def)
qed

lemma free_ok_ordered:
  "free_ok b h ns \<longleftrightarrow> 0 < b \<and> hsize (h b) = 0 \<and> links h b ns b \<and> (\<forall>n\<in>set ns. b < n \<and> 0 < hsize (h n)) \<and> ordered h (b # ns)"
  by (auto simp: free_ok_def ordered_def)

text \<open>\<open>front h p xs\<close>: the pointers lead from \<open>p\<close> through \<open>xs\<close>, whatever follows.\<close>

fun front :: "(nat \<Rightarrow> header) \<Rightarrow> nat \<Rightarrow> nat list \<Rightarrow> bool" where
  "front h p [] \<longleftrightarrow> True"
| "front h p (x # xs) \<longleftrightarrow> hptr (h p) = x \<and> front h x xs"

lemma links_front: "links h p (xs @ ys) e \<longleftrightarrow> front h p xs \<and> links h (last (p # xs)) ys e"
  by (induction xs arbitrary: p) auto

lemma front_cong: "(\<And>x. x \<in> set (butlast (p # xs)) \<Longrightarrow> hptr (h' x) = hptr (h x)) \<Longrightarrow> front h' p xs = front h p xs"
proof (induction xs arbitrary: p)
  case (Cons x xs)
  have "front h' x xs = front h x xs" by (rule Cons.IH) (use Cons.prems in \<open>auto split: if_splits\<close>)
  moreover have "hptr (h' p) = hptr (h p)" using Cons.prems by auto
  ultimately show ?case by simp
qed simp

lemma links_from: "links h1 q ys e \<Longrightarrow> hptr (h p) = hptr (h1 q) \<Longrightarrow> (\<And>y. y \<in> set ys \<Longrightarrow> hptr (h y) = hptr (h1 y)) \<Longrightarrow> links h p ys e"
  by (cases ys) (auto intro: links_cong [THEN iffD2])

lemma last_not_butlast: "distinct (p # xs) \<Longrightarrow> last (p # xs) \<notin> set (butlast (p # xs))"
  by (metis append_butlast_last_id distinct_append list.distinct(1) not_distinct_conv_prefix)

lemma butlast_facts: "distinct (p # xs) \<Longrightarrow> x \<in> set (butlast (p # xs)) \<Longrightarrow> x \<noteq> last (p # xs) \<and> x \<in> set (p # xs)"
  using last_not_butlast in_set_butlastD by metis

text \<open>The list up to its element \<open>p\<close>, with the fields of \<open>p\<close> and what follows it replaced.\<close>

lemma free_ok_replace:
  assumes ok: "free_ok b h (xs @ ys)" and p: "p = last (b # xs)"
    and same: "\<And>x. x \<in> set (butlast (b # xs)) \<Longrightarrow> h' x = h x"
    and new: "links h' p zs b" "ordered h' (p # zs)" "hsize (h' b) = 0" "p \<noteq> b \<longrightarrow> 0 < hsize (h' p)"
    and pos: "\<forall>z\<in>set zs. p < z \<and> 0 < hsize (h' z)"
  shows "free_ok b h' (xs @ zs)"
proof -
  define us where "us = butlast (b # xs)"
  have eq: "b # xs = us @ [p]" using append_butlast_last_id [of "b # xs"] by (simp add: us_def p)
  have eq2: "b # xs @ qs = us @ p # qs" for qs
    using arg_cong [OF eq, of "\<lambda>l. l @ qs"] by simp
  have o: "ordered h (us @ p # ys)" and f: "front h b xs" "0 < b" and n: "\<forall>x\<in>set xs. b < x \<and> 0 < hsize (h x)"
    using ok unfolding free_ok_ordered links_front eq2 by auto
  have su: "h' x = h x" if "x \<in> set us" for x using same that by (simp add: us_def)
  have bp: "b \<le> p" using n p last_in_set [of xs] by (metis last.simps less_imp_le order_refl)
  have "links h' b (xs @ zs) b" unfolding links_front
    using f new(1) same p front_cong [of b xs h' h] by auto
  moreover have "ordered h' (b # xs @ zs)" unfolding eq2
  proof -
    have up: "x + hsize (h' x) \<le> p" if "x \<in> set us" for x using o su [OF that] that by (auto simp: ordered_append)
    have "ordered h' us = ordered h us" by (rule ordered_cong) (simp add: su)
    then have "ordered h' us" using o by (simp add: ordered_append)
    then show "ordered h' (us @ p # zs)" using up new(2) pos by (fastforce simp: ordered_append ordered_Cons)
  qed
  moreover have "b < x \<and> 0 < hsize (h' x)" if "x \<in> set (xs @ zs)" for x
  proof (cases "x \<in> set zs")
    case True
    then show ?thesis using pos bp by auto
  next
    case False
    then have x: "x \<in> set xs" using that by simp
    then have "x = p \<or> x \<in> set us" using arg_cong [OF eq, of set] by auto
    then show ?thesis using n x su new(4) by auto
  qed
  ultimately show ?thesis using f(2) new(3) unfolding free_ok_ordered by blast
qed

text \<open>The two ways in which \<open>p\<close> and the freed block are joined, with \<open>h1\<close> the headers and \<open>zs\<close> the blocks that follow it.\<close>

lemma link_merge:
  assumes ok: "free_ok b h (xs @ ys)" and p: "p = last (b # xs)" and lo: "\<forall>x\<in>set (b # xs). x < bp"
    and z: "links h1 bp zs b" "set zs \<subseteq> set ys" "ordered h1 (bp # zs)" and hi: "\<forall>z\<in>set ys. bp < z"
    and same: "\<forall>x. x \<noteq> bp \<longrightarrow> h1 x = h x" and m: "p + hsize (h p) = bp"
  defines "h' \<equiv> hdr_ptr p (hptr (h1 bp)) (hdr_size p (hsize (h p) + hsize (h1 bp)) h1)"
  shows "free_ok b h' (xs @ zs)"
    and "0 < k \<Longrightarrow> apart bp (hsize (h1 bp)) a k \<Longrightarrow> clear_of h (xs @ ys) a k \<Longrightarrow> clear_of h' (xs @ zs) a k"
proof -
  have b0: "hsize (h b) = 0" and pos: "\<forall>n\<in>set (xs @ ys). 0 < hsize (h n)" using ok by (auto simp: free_ok_def)
  have pin: "p \<in> set (b # xs)" using p last_in_set [of "b # xs"] by simp
  then have pb: "p < bp" "p \<noteq> b" using lo m b0 by auto
  have d: "distinct (b # xs)" using free_ok_sorted [OF ok] by (metis append_Cons distinct_append strict_sorted_iff)
  have s: "h' x = h x" if "x \<noteq> p" "x \<noteq> bp" for x using that same by (simp add: h'_def hdr_ptr_def hdr_size_def)
  have zz: "bp < y" "p < y" "0 < hsize (h y)" if "y \<in> set zs" for y using that z(2) hi pb pos by fastforce+
  show "free_ok b h' (xs @ zs)"
  proof (rule free_ok_replace [OF ok p])
    show "h' x = h x" if "x \<in> set (butlast (b # xs))" for x
      using butlast_facts [OF d that] p lo by (intro s) auto
    show "links h' p zs b" by (rule links_from [OF z(1)]) (use zz in \<open>auto simp: h'_def\<close>)
    have "ordered h' zs = ordered h1 zs" by (rule ordered_cong) (use zz in \<open>auto simp: h'_def\<close>)
    then show "ordered h' (p # zs)" using z(3) m by (auto simp: ordered_Cons h'_def)
    show "hsize (h' b) = 0" using s pb lo b0 by auto
    show "p \<noteq> b \<longrightarrow> 0 < hsize (h' p)" using pos pin by (auto simp: h'_def)
    show "\<forall>z\<in>set zs. p < z \<and> 0 < hsize (h' z)" using zz s by fastforce
  qed
  show "clear_of h' (xs @ zs) a k" if k: "0 < k" "apart bp (hsize (h1 bp)) a k" "clear_of h (xs @ ys) a k"
    unfolding clear_of_def
  proof
    fix n assume n: "n \<in> set (xs @ zs)"
    show "apart n (hsize (h' n)) a k"
    proof (cases "n = p")
      case True
      have "apart p (hsize (h p)) a k" using k(3) pin pb(2) by (auto simp: clear_of_def)
      then have "apart p (hsize (h p) + hsize (h1 bp)) a k" using k(1,2) m by (intro apart_join) auto
      then show ?thesis using True by (simp add: h'_def)
    next
      case False
      then have "h' n = h n" using s n lo zz by fastforce
      then show ?thesis using k(3) n z(2) by (auto simp: clear_of_def)
    qed
  qed
qed

lemma link_insert:
  assumes ok: "free_ok b h (xs @ ys)" and p: "p = last (b # xs)" and lo: "\<forall>x\<in>set (b # xs). x < bp"
    and z: "links h1 bp zs b" "set zs \<subseteq> set ys" "ordered h1 (bp # zs)" "0 < hsize (h1 bp)" and hi: "\<forall>z\<in>set ys. bp < z"
    and same: "\<forall>x. x \<noteq> bp \<longrightarrow> h1 x = h x" and m: "p + hsize (h p) \<le> bp"
  defines "h' \<equiv> hdr_ptr p bp h1"
  shows "free_ok b h' (xs @ bp # zs)"
    and "apart bp (hsize (h1 bp)) a k \<Longrightarrow> clear_of h (xs @ ys) a k \<Longrightarrow> clear_of h' (xs @ bp # zs) a k"
proof -
  have b0: "hsize (h b) = 0" and pos: "\<forall>n\<in>set (xs @ ys). 0 < hsize (h n)" using ok by (auto simp: free_ok_def)
  have pin: "p \<in> set (b # xs)" using p last_in_set [of "b # xs"] by simp
  then have pb: "p < bp" using lo by auto
  have d: "distinct (b # xs)" using free_ok_sorted [OF ok] by (metis append_Cons distinct_append strict_sorted_iff)
  have s: "h' x = h x" if "x \<noteq> p" "x \<noteq> bp" for x using that same by (simp add: h'_def hdr_ptr_def)
  have sz: "hsize (h' x) = hsize (h1 x)" for x by (simp add: h'_def)
  have zz: "bp < y" "p < y" "0 < hsize (h y)" if "y \<in> set zs" for y using that z(2) hi pb pos by fastforce+
  show "free_ok b h' (xs @ bp # zs)"
  proof (rule free_ok_replace [OF ok p])
    show "h' x = h x" if "x \<in> set (butlast (b # xs))" for x
      using butlast_facts [OF d that] p lo by (intro s) auto
    have "links h' bp zs b = links h1 bp zs b" by (rule links_cong) (use zz pb in \<open>auto simp: h'_def\<close>)
    then show "links h' p (bp # zs) b" using z(1) by (simp add: h'_def)
    have "ordered h' (bp # zs) = ordered h1 (bp # zs)" by (rule ordered_cong) (simp add: sz)
    then show "ordered h' (p # bp # zs)" using z(3) m same pb zz by (subst ordered_Cons) (fastforce simp: sz)
    show "hsize (h' b) = 0" using same lo b0 by (auto simp: sz)
    show "p \<noteq> b \<longrightarrow> 0 < hsize (h' p)" using pos pin same pb by (auto simp: sz)
    show "\<forall>z\<in>set (bp # zs). p < z \<and> 0 < hsize (h' z)" using zz pb z(4) same by (fastforce simp: sz)
  qed
  show "clear_of h' (xs @ bp # zs) a k" if k: "apart bp (hsize (h1 bp)) a k" "clear_of h (xs @ ys) a k"
    using k z(2) lo zz same by (fastforce simp: clear_of_def sz)
qed

lemma kfree_link_ok:
  assumes ok: "free_ok b h (xs @ ys)" and lo: "\<forall>x\<in>set xs. x < bp" and hi: "\<forall>y\<in>set ys. bp < y"
    and bp: "b < bp" "0 < hsize (h bp)" and ap: "clear_of h (xs @ ys) bp (hsize (h bp))" and p: "p = last (b # xs)"
  shows "\<exists>ns'. free_ok b (kfree_link bp p h) ns' \<and> p \<in> set (b # ns') \<and>
    (\<forall>x. x \<noteq> bp \<and> x \<noteq> p \<longrightarrow> hsize (kfree_link bp p h x) = hsize (h x)) \<and>
    (\<forall>m k. 0 < k \<and> apart bp (hsize (h bp)) m k \<and> clear_of h (xs @ ys) m k \<longrightarrow> clear_of (kfree_link bp p h) ns' m k)"
proof -
  have so: "sorted_wrt (<) (b # xs @ ys)" using free_ok_sorted [OF ok] .
  have l: "links h p ys b" and o: "ordered h ys" and b0: "hsize (h b) = 0" and pos: "\<forall>n\<in>set (xs @ ys). b < n \<and> 0 < hsize (h n)"
    using ok unfolding free_ok_ordered links_front p by (auto simp: ordered_append ordered_Cons)
  have pin: "p = b \<or> p \<in> set xs" using p last_in_set [of xs] by auto
  have pb: "p + hsize (h p) \<le> bp" "p < bp"
    using pin b0 bp lo ap pos by (fastforce simp: clear_of_def apart_def)+
  have gap: "\<forall>y\<in>set ys. bp + hsize (h bp) \<le> y"
  proof
    fix y assume y: "y \<in> set ys"
    then have "apart y (hsize (h y)) bp (hsize (h bp))" "bp < y" using ap hi by (simp_all add: clear_of_def)
    then show "bp + hsize (h bp) \<le> y" by (simp add: apart_def)
  qed
  define h1 where "h1 = (if bp + hsize (h bp) = hptr (h p)
      then hdr_ptr bp (hptr (h (hptr (h p)))) (hdr_size bp (hsize (h bp) + hsize (h (hptr (h p)))) h)
      else hdr_ptr bp (hptr (h p)) h)"
  have "bp \<notin> set (p # ys)" using pb hi by auto
  from link_right [OF l o gap bp(1) this, folded h1_def] obtain ys1
    where y: "links h1 bp ys1 b" "set ys1 \<subseteq> set ys" "ordered h1 (bp # ys1)" "hsize (h bp) \<le> hsize (h1 bp)"
      "\<forall>x. x \<noteq> bp \<longrightarrow> h1 x = h x"
      "\<forall>m k. 0 < k \<and> apart bp (hsize (h bp)) m k \<and> clear_of h ys m k \<longrightarrow> apart bp (hsize (h1 bp)) m k"
    by blast
  have run: "kfree_link bp p h = (if p + hsize (h p) = bp
      then hdr_ptr p (hptr (h1 bp)) (hdr_size p (hsize (h p) + hsize (h1 bp)) h1) else hdr_ptr p bp h1)"
    using pb(2) y(5) by (simp add: kfree_link_def h1_def Let_def)
  have lob: "\<forall>x\<in>set (b # xs). x < bp" using lo bp by simp
  have keep: "hsize (kfree_link bp p h x) = hsize (h x)" if "x \<noteq> bp" "x \<noteq> p" for x using that y(5) by (simp add: run)
  show ?thesis
  proof (cases "p + hsize (h p) = bp")
    case True
    note mr = link_merge [OF ok p lob y(1-3) hi y(5) True]
    have "p \<in> set (b # xs @ ys1)" using pin by auto
    then show ?thesis using mr y(6) keep True run by (intro exI [of _ "xs @ ys1"]) (auto simp: clear_of_def)
  next
    case False
    have "0 < hsize (h1 bp)" using bp y(4) by simp
    note mr = link_insert [OF ok p lob y(1-3) this hi y(5) pb(1)]
    have "p \<in> set (b # xs @ bp # ys1)" using pin by auto
    then show ?thesis using mr y(6) keep False run by (intro exI [of _ "xs @ bp # ys1"]) (auto simp: clear_of_def)
  qed
qed

section \<open>The heap and its blocks\<close>

text \<open>
  \<open>ready ns A s\<close>: the free blocks are \<open>ns\<close>; \<open>A\<close> maps the header of each block in use to its size. The blocks in use,
  the free blocks and the pages the page allocator still holds are pairwise apart, and all lie above \<open>h_base\<close>.
\<close>

definition page_unit :: "u64 \<Rightarrow> nat" where
  "page_unit v = unat v div HEADER_SIZE"

definition block_ok :: "nat list \<Rightarrow> 'z heap_state_scheme \<Rightarrow> nat \<Rightarrow> nat \<Rightarrow> bool" where
  "block_ok ns s a z \<longleftrightarrow> h_base s < a \<and> 0 < z \<and> clear_of (hdr s) ns a z"

definition live_ok :: "nat list \<Rightarrow> (nat \<rightharpoonup> nat) \<Rightarrow> 'z heap_state_scheme \<Rightarrow> bool" where
  "live_ok ns A s \<longleftrightarrow>
     (\<forall>a z. A a = Some z \<longrightarrow> block_ok ns s a z \<and> hsize (hdr s a) = z) \<and>
     (\<forall>a z a' z'. A a = Some z \<and> A a' = Some z' \<and> a \<noteq> a' \<longrightarrow> apart a z a' z')"

definition pages_ok :: "nat list \<Rightarrow> (nat \<rightharpoonup> nat) \<Rightarrow> 'z heap_state_scheme \<Rightarrow> bool" where
  "pages_ok ns A s \<longleftrightarrow> distinct (freelist s) \<and>
     (\<forall>v\<in>set (freelist s). unat v mod 4096 = 0 \<and> block_ok ns s (page_unit v) 256 \<and>
        (\<forall>a z. A a = Some z \<longrightarrow> apart a z (page_unit v) 256))"

definition ready :: "nat list \<Rightarrow> (nat \<rightharpoonup> nat) \<Rightarrow> 'z heap_state_scheme \<Rightarrow> bool" where
  "ready ns A s \<longleftrightarrow> free_ok (h_base s) (hdr s) ns \<and> freep s \<in> set (h_base s # ns) \<and> live_ok ns A s \<and> pages_ok ns A s"

text \<open>Before the first allocation there is no free list.\<close>

definition heap_inv :: "(nat \<rightharpoonup> nat) \<Rightarrow> 'z heap_state_scheme \<Rightarrow> bool" where
  "heap_inv A s \<longleftrightarrow> (\<exists>ns. ready ns A s) \<or> freep s = 0 \<and> 0 < h_base s \<and> A = Map.empty \<and> pages_ok [] A s"

lemma pages_apart:
  assumes "unat v mod 4096 = 0" "unat w mod 4096 = 0" "v \<noteq> w"
  shows "apart (page_unit v) 256 (page_unit w) 256"
proof -
  obtain i j where ij: "unat v = 4096 * i" "unat w = 4096 * j" using assms(1,2) by (metis dvd_def mod_0_imp_dvd)
  then have "i \<noteq> j" using assms(3) unsigned_word_eqI by metis
  moreover have "page_unit v = 256 * i" "page_unit w = 256 * j" using ij by (simp_all add: page_unit_def HEADER_SIZE_def)
  ultimately show ?thesis by (auto simp: apart_def neq_iff)
qed

lemma clear_not_in:
  assumes "clear_of h ns a z" "0 < z" "\<forall>n\<in>set ns. 0 < hsize (h n)"
  shows "a \<notin> set ns"
proof
  assume "a \<in> set ns"
  then have "apart a (hsize (h a)) a z" "0 < hsize (h a)" using assms by (auto simp: clear_of_def)
  then show False using assms(2) by (simp add: apart_def)
qed

lemma ready_update:
  assumes r: "ready ns A s" and new: "free_ok (h_base s) h' ns'" "f \<in> set (h_base s # ns')"
    and live: "\<And>a z. A a = Some z \<Longrightarrow> hsize (h' a) = hsize (hdr s a) \<and> clear_of h' ns' a z"
    and pages: "\<And>v. v \<in> set (freelist s) \<Longrightarrow> clear_of h' ns' (page_unit v) 256"
  shows "ready ns' A (s\<lparr>hdr := h', freep := f\<rparr>)"
  using r new live pages unfolding ready_def live_ok_def pages_ok_def block_ok_def by auto

lemma live_not_free:
  assumes "ready ns A s" "A a = Some z"
  shows "a \<notin> set (h_base s # ns)" and "clear_of (hdr s) ns a z" and "0 < z" and "hsize (hdr s a) = z" and "h_base s < a"
proof -
  have b: "h_base s < a" "0 < z" "clear_of (hdr s) ns a z" "hsize (hdr s a) = z"
    using assms by (auto simp: ready_def live_ok_def block_ok_def)
  have "0 < hsize (hdr s n)" if "n \<in> set ns" for n using assms(1) that by (auto simp: ready_def free_ok_def)
  then show "a \<notin> set (h_base s # ns)" using b by (auto simp: clear_of_def apart_def)
qed (use assms in \<open>auto simp: ready_def live_ok_def block_ok_def\<close>)

text \<open>A block that is apart from everything else is freed.\<close>

lemma kfree_block:
  assumes r: "ready ns A s" and a: "block_ok ns s a (hsize (hdr s a))"
    and live: "\<forall>a' z'. A a' = Some z' \<longrightarrow> apart a (hsize (hdr s a)) a' z'"
    and pages: "\<forall>v\<in>set (freelist s). apart a (hsize (hdr s a)) (page_unit v) 256"
  shows "\<exists>ns' s'. kfree (a + 1) s = Some s' \<and> ready ns' A s' \<and> freelist s' = freelist s \<and> h_base s' = h_base s"
proof -
  let ?b = "h_base s" and ?h = "hdr s"
  have ok: "free_ok ?b ?h ns" and fp: "freep s \<in> set (?b # ns)" using r by (auto simp: ready_def)
  have a0: "?b < a" "0 < hsize (?h a)" "clear_of ?h ns a (hsize (?h a))" using a by (auto simp: block_ok_def)
  have "a \<notin> set ns" using clear_not_in [OF a0(3,2)] ok by (simp add: free_ok_def)
  moreover have "sorted_wrt (<) ns" using free_ok_sorted [OF ok] by simp
  ultimately obtain xs ys where sp: "ns = xs @ ys" "\<forall>x\<in>set xs. x < a" "\<forall>y\<in>set ys. a < y"
    using place_exists by blast
  define p where "p = last (?b # xs)"
  define h' where "h' = kfree_link a p ?h"
  have "kfree_scan ?h a (freep s) = Some p"
    using kfree_scan_finds [OF ok place_of_split [OF sp a0(1)] fp a0(1)] by (simp add: p_def)
  moreover have pin: "p \<in> set (?b # ns)" using sp(1) last_in_set [of "?b # xs"] by (auto simp: p_def)
  then have "p \<noteq> 0" using ok by (auto simp: free_ok_def)
  ultimately have run: "kfree (a + 1) s = Some (s\<lparr>hdr := h', freep := p\<rparr>)" by (simp add: kfree_def h'_def)
  obtain ns' where n: "free_ok ?b h' ns'" "p \<in> set (?b # ns')" "\<forall>x. x \<noteq> a \<and> x \<noteq> p \<longrightarrow> hsize (h' x) = hsize (?h x)"
      and cl: "\<forall>m k. 0 < k \<and> apart a (hsize (?h a)) m k \<and> clear_of ?h ns m k \<longrightarrow> clear_of h' ns' m k"
    using kfree_link_ok [of ?b ?h xs ys a p] ok sp a0 p_def unfolding h'_def by blast
  have "ready ns' A (s\<lparr>hdr := h', freep := p\<rparr>)"
  proof (rule ready_update [OF r n(1,2)])
    fix a' z' assume a': "A a' = Some z'"
    note l = live_not_free [OF r a']
    have ap: "apart a (hsize (?h a)) a' z'" using live a' by blast
    then have "a' \<noteq> a" using a0(2) l(3) by (auto simp: apart_def)
    moreover have "a' \<noteq> p" using l(1) pin by auto
    ultimately show "hsize (h' a') = hsize (?h a') \<and> clear_of h' ns' a' z'" using n(3) cl ap l(2,3) by blast
  next
    fix v assume v: "v \<in> set (freelist s)"
    then have "clear_of ?h ns (page_unit v) 256" using r by (auto simp: ready_def pages_ok_def block_ok_def)
    then show "clear_of h' ns' (page_unit v) 256" using cl pages v by simp
  qed
  then show ?thesis using run by auto
qed

lemma ready_forget: "ready ns A s \<Longrightarrow> ready ns (A(a := None)) s"
  by (auto simp: ready_def live_ok_def pages_ok_def)

lemma kfree_live:
  assumes r: "ready ns A s" and a: "A a = Some z"
  shows "\<exists>ns' s'. kfree (a + 1) s = Some s' \<and> ready ns' (A(a := None)) s' \<and> freelist s' = freelist s \<and> h_base s' = h_base s"
proof (rule kfree_block [OF ready_forget [OF r]])
  note l = live_not_free [OF r a]
  show "block_ok ns s a (hsize (hdr s a))" using l by (simp add: block_ok_def)
  show "\<forall>a' z'. (A(a := None)) a' = Some z' \<longrightarrow> apart a (hsize (hdr s a)) a' z'"
    using r a l(4) by (auto simp: ready_def live_ok_def)
  show "\<forall>v\<in>set (freelist s). apart a (hsize (hdr s a)) (page_unit v) 256"
    using r a l(4) by (auto simp: ready_def pages_ok_def)
qed

text \<open>\<open>morecore\<close> adds a page to the free blocks, unless there is none.\<close>

lemma morecore_empty: "freelist s = [] \<Longrightarrow> morecore nu s = Some (0, s)"
  by (simp add: morecore_def kpage_alloc_run)

lemma page_facts:
  assumes "ready ns A s" "v \<in> set (freelist s)"
  shows "unat v mod 4096 = 0" and "h_base s < page_unit v" and "clear_of (hdr s) ns (page_unit v) 256"
    and "A a = Some z \<Longrightarrow> apart a z (page_unit v) 256"
  using assms by (auto simp: ready_def pages_ok_def block_ok_def)

text \<open>Taking a page off the list of pages and writing a header into it changes neither the free blocks nor those in use.\<close>

lemma ready_page:
  assumes r: "ready ns A s" and v: "freelist s = v # vs"
  shows "ready ns A (s\<lparr>freelist := vs, hdr := hdr_size (page_unit v) 256 (hdr s)\<rparr>)"
proof -
  let ?hp = "page_unit v" let ?h = "hdr_size ?hp 256 (hdr s)"
  note pg = page_facts [OF r, of v] 
  have ok: "free_ok (h_base s) (hdr s) ns" using r by (simp add: ready_def)
  then have out: "?hp \<notin> set ns" using clear_not_in [OF pg(3)] v by (simp add: free_ok_def)
  have cl: "clear_of ?h ns m k = clear_of (hdr s) ns m k" for m k using out by (auto simp: clear_of_def)
  have "links ?h (h_base s) ns (h_base s) = links (hdr s) (h_base s) ns (h_base s)" by (rule links_cong) simp
  moreover have "ordered ?h ns = ordered (hdr s) ns" by (rule ordered_cong) (use out in auto)
  ultimately have free1: "free_ok (h_base s) ?h ns" using ok out pg(2) v by (auto simp: free_ok_def ordered_def)
  have "hsize (?h a) = z" if "A a = Some z" for a z
    using live_not_free(3,4) [OF r that] pg(4) [of a z] that v by (auto simp: apart_def)
  then show ?thesis using r free1 cl v by (auto simp: ready_def live_ok_def pages_ok_def block_ok_def)
qed

lemma morecore_page:
  assumes r: "ready ns A s" and v: "freelist s = v # vs"
  shows "\<exists>ns' s'. morecore nu s = Some (freep s', s') \<and> ready ns' A s' \<and> freelist s' = vs \<and> freep s' \<noteq> 0"
proof -
  let ?hp = "page_unit v"
  define s1 where "s1 = s\<lparr>freelist := vs, hdr := hdr_size ?hp 256 (hdr s)\<rparr>"
  note pg = page_facts [OF r]
  have r1: "ready ns A s1" using ready_page [OF r v] by (simp add: s1_def)
  have out: "?hp \<notin> set ns" using clear_not_in [OF pg(3)] v r by (simp add: ready_def free_ok_def)
  have "\<exists>ns' s'. kfree (?hp + 1) s1 = Some s' \<and> ready ns' A s' \<and> freelist s' = freelist s1 \<and> h_base s' = h_base s1"
  proof (rule kfree_block [OF r1])
    show "block_ok ns s1 ?hp (hsize (hdr s1 ?hp))"
      using pg(2,3) [of v] v out by (auto simp: block_ok_def s1_def clear_of_def)
    show "\<forall>a z. A a = Some z \<longrightarrow> apart ?hp (hsize (hdr s1 ?hp)) a z"
      using pg(4) [of v] v apart_sym by (auto simp: s1_def)
    have "distinct (v # vs)" using r v by (simp add: ready_def pages_ok_def)
    then show "\<forall>w\<in>set (freelist s1). apart ?hp (hsize (hdr s1 ?hp)) (page_unit w) 256"
      using pg(1) v by (auto simp: s1_def intro!: pages_apart)
  qed
  then obtain ns' s' where k: "kfree (?hp + 1) s1 = Some s'" "ready ns' A s'" "freelist s' = vs" by (auto simp: s1_def)
  have "freep s' \<noteq> 0" using k(2) by (auto simp: ready_def free_ok_def)
  moreover have "morecore nu s = Some (freep s', s')"
    using k(1) v by (simp add: morecore_def kpage_alloc_run s1_def page_unit_def HEADER_SIZE_def)
  ultimately show ?thesis using k by blast
qed

text \<open>A block cut from the free block \<open>p\<close> is apart from the blocks in use and from the pages.\<close>

lemma ready_take:
  assumes r: "ready ns A s" and p: "p \<in> set ns" "p \<le> p'" "p' + n \<le> p + hsize (hdr s p)" "0 < n"
    and new: "free_ok (h_base s) h' ns'" "f \<in> set (h_base s # ns')" "set ns' \<subseteq> set ns"
    and sz: "\<And>x. x \<in> set ns' \<Longrightarrow> hsize (h' x) \<le> hsize (hdr s x)" "\<And>x. x \<noteq> p \<Longrightarrow> x \<noteq> p' \<Longrightarrow> hsize (h' x) = hsize (hdr s x)"
    and p': "hsize (h' p') = n" "clear_of h' ns' p' n"
  shows "A p' = None \<and> ready ns' (A(p' \<mapsto> n)) (s\<lparr>hdr := h', freep := f\<rparr>)"
proof -
  have sub: "clear_of h' ns' m k" if "clear_of (hdr s) ns m k" for m k
    using that new(3) sz(1) unfolding clear_of_def by (meson add_left_mono apart_sub order_refl subsetD)
  have in_p: "apart p' n m k" if "clear_of (hdr s) ns m k" for m k
    using that p apart_sub [of p "hsize (hdr s p)" m k p' n] by (auto simp: clear_of_def)
  have in_p': "apart m k p' n" if "clear_of (hdr s) ns m k" for m k using in_p [OF that] by (subst apart_sym)
  have live: "apart p' n a z" "apart a z p' n" "a \<noteq> p'" "hsize (h' a) = z" "clear_of h' ns' a z" if "A a = Some z" for a z
  proof -
    note l = live_not_free [OF r that]
    show "apart p' n a z" "apart a z p' n" "clear_of h' ns' a z" using in_p in_p' sub l(2) by auto
    then show "a \<noteq> p'" using l(3) p(4) by (auto simp: apart_def)
    then show "hsize (h' a) = z" using sz(2) [of a] l(1,4) p(1) by auto
  qed
  have "h_base s < p'" using r p(1,2) by (fastforce simp: ready_def free_ok_def)
  moreover have "clear_of (hdr s) ns (page_unit v) 256" if "v \<in> set (freelist s)" for v using page_facts(3) [OF r that] .
  ultimately have "ready ns' (A(p' \<mapsto> n)) (s\<lparr>hdr := h', freep := f\<rparr>)"
    using r new p' p(4) live sub in_p in_p' unfolding ready_def live_ok_def pages_ok_def block_ok_def by auto
  then show ?thesis using live(3) by (cases "A p'") auto
qed

lemma list_next:
  assumes "links h b ns b" "q \<in> set (b # ns)" "hptr (h q) \<noteq> b"
  shows "\<exists>xs ys. ns = xs @ hptr (h q) # ys \<and> q = last (b # xs)"
proof -
  obtain us vs where u: "b # ns = us @ q # vs" using assms(2) by (meson split_list)
  have l: "links h q vs b" using assms(1) u by (cases us) (auto simp: links_append)
  then obtain ys where v: "vs = hptr (h q) # ys" using assms(3) by (cases vs) auto
  have "ns = tl (us @ [q]) @ hptr (h q) # ys" "last (b # tl (us @ [q])) = q" using u v by (cases us; auto)+
  then show ?thesis by metis
qed

lemma take_exact:
  assumes r: "ready ns A s" and sp: "ns = xs @ p # ys" "q = last (h_base s # xs)"
  shows "A p = None \<and> ready (xs @ ys) (A(p \<mapsto> hsize (hdr s p))) (s\<lparr>hdr := hdr_ptr q (hptr (hdr s p)) (hdr s), freep := q\<rparr>)"
proof -
  let ?b = "h_base s" and ?h = "hdr s" let ?h' = "hdr_ptr q (hptr (?h p)) ?h"
  have ok: "free_ok ?b ?h (xs @ p # ys)" using r sp by (simp add: ready_def)
  have so: "sorted_wrt (<) (?b # xs @ p # ys)" and pos: "\<forall>n\<in>set (xs @ p # ys). ?b < n \<and> 0 < hsize (?h n)"
    and l: "links ?h q (p # ys) ?b" and o: "ordered ?h (?b # xs @ p # ys)" and b0: "hsize (?h ?b) = 0"
    using ok free_ok_sorted [OF ok] links_front [of ?h ?b xs "p # ys" ?b] sp(2) unfolding free_ok_ordered by auto
  have d: "distinct (?b # xs)" using so by (metis append_Cons distinct_append strict_sorted_iff)
  have qin: "q \<in> set (?b # xs)" using sp(2) last_in_set [of "?b # xs"] by simp
  have qy: "q < y" "q + hsize (?h q) \<le> y" if "y \<in> set ys" for y
    using that qin so o by (auto simp: ordered_append ordered_Cons sorted_wrt_append)
  have free: "free_ok ?b ?h' (xs @ ys)"
  proof (rule free_ok_replace [OF ok sp(2)])
    show "?h' x = ?h x" if "x \<in> set (butlast (?b # xs))" for x
      using butlast_facts [OF d that] sp(2) by (simp add: hdr_ptr_def)
    show "links ?h' q ys ?b" by (rule links_from [of ?h p]) (use l qy in auto)
    have "ordered ?h' ys = ordered ?h ys" by (rule ordered_cong) simp
    then show "ordered ?h' (q # ys)" using o qy by (auto simp: ordered_append ordered_Cons)
  qed (use b0 pos qin qy in auto)
  show ?thesis
  proof (rule ready_take [OF r _ _ _ _ free])
    show "clear_of ?h' (xs @ ys) p (hsize (?h p))" using o by (auto simp: clear_of_def apart_def ordered_append ordered_Cons)
  qed (use sp pos qin in auto)
qed

lemma take_cut:
  assumes r: "ready ns A s" and sp: "ns = xs @ p # ys" and q: "q \<in> set (h_base s # ns)"
    and n: "0 < n" "n < hsize (hdr s p)"
  defines "m \<equiv> hsize (hdr s p) - n"
  shows "A (p + m) = None \<and> ready ns (A(p + m \<mapsto> n)) (s\<lparr>hdr := hdr_size (p + m) n (hdr_size p m (hdr s)), freep := q\<rparr>)"
proof -
  let ?b = "h_base s" and ?h = "hdr s" let ?h' = "hdr_size (p + m) n (hdr_size p m ?h)"
  have m: "0 < m" "m + n = hsize (?h p)" using n by (auto simp: m_def)
  have ok: "free_ok ?b ?h ((xs @ [p]) @ ys)" using r sp by (simp add: ready_def)
  have so: "sorted_wrt (<) (?b # xs @ p # ys)" and pos: "\<forall>n\<in>set (xs @ p # ys). ?b < n \<and> 0 < hsize (?h n)"
    and l: "links ?h p ys ?b" and o: "ordered ?h (?b # xs @ p # ys)" and b0: "hsize (?h ?b) = 0"
    using ok free_ok_sorted [OF ok] links_front [of ?h ?b "xs @ [p]" ys ?b] unfolding free_ok_ordered by auto
  have yp: "p + hsize (?h p) \<le> y" if "y \<in> set ys" for y using that o by (auto simp: ordered_append ordered_Cons)
  have xp: "x < p" if "x \<in> set (?b # xs)" for x using that so by (auto simp: sorted_wrt_append)
  have same: "?h' x = ?h x" if "x \<in> set (?b # xs @ ys)" for x
    using that xp [of x] yp [of x] m n by (auto simp: hdr_size_def)
  have last: "p = last (?b # xs @ [p])" by simp
  have free: "free_ok ?b ?h' ((xs @ [p]) @ ys)"
  proof (rule free_ok_replace [OF ok last])
    show "?h' x = ?h x" if "x \<in> set (butlast (?b # xs @ [p]))" for x using same that by (auto simp: butlast_append)
    have "links ?h' p ys ?b = links ?h p ys ?b" by (rule links_cong) simp
    then show "links ?h' p ys ?b" using l by simp
    have "ordered ?h' ys = ordered ?h ys" by (rule ordered_cong) (use same in auto)
    then show "ordered ?h' (p # ys)" using o yp m by (fastforce simp: ordered_append ordered_Cons)
    show "hsize (?h' ?b) = 0" using same b0 by auto
    show "\<forall>z\<in>set ys. p < z \<and> 0 < hsize (?h' z)" using yp same pos m by fastforce
  qed (use m in auto)
  show ?thesis
  proof (rule ready_take [OF r _ _ _ n(1)])
    show "clear_of ?h' ns (p + m) n"
      using o sp m same by (fastforce simp: clear_of_def apart_def ordered_append ordered_Cons)
    show "free_ok ?b ?h' ns" using free sp by simp
    show "q \<in> set (?b # ns)" using q .
    show "hsize (?h' x) \<le> hsize (?h x)" if "x \<in> set ns" for x
      using that same [of x] m sp by (cases "x = p") auto
  qed (use sp m in auto)
qed

lemma take_block_ok:
  assumes r: "ready ns A s" and q: "q \<in> set (h_base s # ns)" and p: "p = hptr (hdr s q)" and n: "0 < n" "n \<le> hsize (hdr s p)"
  shows "\<exists>p' h' ns'. take_block n q p (hdr s) = (p', h') \<and> A p' = None \<and> ready ns' (A(p' \<mapsto> n)) (s\<lparr>hdr := h', freep := q\<rparr>)"
proof -
  have "p \<noteq> h_base s" using n r by (auto simp: ready_def free_ok_def)
  then obtain xs ys where sp: "ns = xs @ p # ys" "q = last (h_base s # xs)"
    using list_next [of "hdr s" "h_base s" ns q] r q p by (auto simp: ready_def free_ok_def)
  show ?thesis
  proof (cases "hsize (hdr s p) = n")
    case True
    then show ?thesis using take_exact [OF r sp] by (auto simp: take_block_def)
  next
    case False
    then show ?thesis using take_cut [OF r sp(1) q n(1)] n(2) by (auto simp: take_block_def Let_def)
  qed
qed

text \<open>\<open>served\<close>: the allocation returned, without a block, or with a block of \<open>n\<close> units apart from all others.\<close>

definition served :: "(nat \<rightharpoonup> nat) \<Rightarrow> nat \<Rightarrow> (nat \<times> 'z heap_state_scheme) option \<Rightarrow> bool" where
  "served A n res \<longleftrightarrow> (\<exists>r s' ns'. res = Some (r, s') \<and>
     (r = 0 \<and> ready ns' A s' \<or> r \<noteq> 0 \<and> A (r - 1) = None \<and> ready ns' (A(r - 1 \<mapsto> n)) s'))"

lemma cycle_reaches:
  assumes "free_ok b h ns" "q \<in> set (b # ns)" "f \<in> set (b # ns)"
  shows "\<exists>zs. links h q zs f"
proof -
  have l: "links h b ns b" using assms(1) by (simp add: free_ok_def)
  have "\<exists>vs. links h q vs b"
  proof -
    obtain us vs where u: "b # ns = us @ q # vs" using assms(2) by (meson split_list)
    then have "links h q vs b" using l by (cases us) (auto simp: links_append)
    then show ?thesis ..
  qed
  then obtain vs where v: "links h q vs b" ..
  show ?thesis
  proof (cases "f = b")
    case False
    then obtain us ws where "ns = us @ f # ws" using assms(3) by (metis set_ConsD split_list)
    then have "links h b us f" using l by (simp add: links_append)
    then have "links h q (vs @ b # us) f" using v by (simp add: links_append)
    then show ?thesis ..
  qed (use v in auto)
qed

lemma next_in_list: "free_ok b h ns \<Longrightarrow> q \<in> set (b # ns) \<Longrightarrow> hptr (h q) \<in> set (b # ns)"
  using list_next [of h b ns q] by (cases "hptr (h q) = b") (auto simp: free_ok_def)

text \<open>One turn of the loop: the block at \<open>p\<close> is taken, or more memory is asked for when the turn is complete, or the loop goes on.\<close>

lemma kmalloc_loop_turn:
  fixes s :: "'z heap_state_scheme"
  assumes r: "ready ns A s" and q: "q \<in> set (h_base s # ns)" and n: "0 < n"
    and more: "\<And>(s' :: 'z heap_state_scheme) ns'. ready ns' A s' \<Longrightarrow> length (freelist s') < length (freelist s) \<Longrightarrow>
      served A n (kmalloc_loop n (freep s') (hptr (hdr s' (freep s'))) s')"
    and on: "hptr (hdr s q) \<noteq> freep s \<Longrightarrow> served A n (kmalloc_loop n (hptr (hdr s q)) (hptr (hdr s (hptr (hdr s q)))) s)"
  shows "served A n (kmalloc_loop n q (hptr (hdr s q)) s)"
proof -
  define p where "p = hptr (hdr s q)"
  have ok: "free_ok (h_base s) (hdr s) ns" using r by (simp add: ready_def)
  then have "p \<in> set (h_base s # ns)" using next_in_list q by (simp add: p_def)
  then have p0: "p \<noteq> 0" using ok by (auto simp: free_ok_def)
  consider "n \<le> hsize (hdr s p)" | "\<not> n \<le> hsize (hdr s p)" "p = freep s" | "\<not> n \<le> hsize (hdr s p)" "p \<noteq> freep s" by blast
  then show ?thesis
  proof cases
    case 1
    obtain p' h' ns' where "take_block n q p (hdr s) = (p', h')" "A p' = None" "ready ns' (A(p' \<mapsto> n)) (s\<lparr>hdr := h', freep := q\<rparr>)"
      using take_block_ok [OF r q p_def n 1] by blast
    then show ?thesis using p0 1 by (subst kmalloc_loop.simps) (auto simp: served_def p_def [symmetric])
  next
    case 2
    show ?thesis
    proof (cases "freelist s")
      case Nil
      then show ?thesis using p0 2 r by (subst kmalloc_loop.simps) (auto simp: served_def p_def [symmetric] morecore_empty)
    next
      case (Cons v vs)
      obtain ns' s' where "morecore n s = Some (freep s', s')" "ready ns' A s'" "freelist s' = vs" "freep s' \<noteq> 0"
        using morecore_page [OF r Cons] by blast
      then show ?thesis using p0 2 more [of ns' s'] Cons by (subst kmalloc_loop.simps) (simp add: p_def [symmetric])
    qed
  next
    case 3
    then show ?thesis using p0 on by (subst kmalloc_loop.simps) (simp add: p_def [symmetric])
  qed
qed

lemma kmalloc_loop_serves:
  fixes s :: "'z heap_state_scheme"
  assumes "ready ns A s" "q \<in> set (h_base s # ns)" "0 < n"
  shows "served A n (kmalloc_loop n q (hptr (hdr s q)) s)"
  using assms
proof (induction "length (freelist s)" arbitrary: s ns q rule: less_induct)
  case less
  have ok: "free_ok (h_base s) (hdr s) ns" and f: "freep s \<in> set (h_base s # ns)" using less(2) by (auto simp: ready_def)
  have more: "served A n (kmalloc_loop n (freep s') (hptr (hdr s' (freep s'))) s')"
    if "ready ns' A s'" "length (freelist s') < length (freelist s)" for s' :: "'z heap_state_scheme" and ns'
    using less(1) [OF that(2,1) _ less(4)] that(1) by (auto simp: ready_def)
  obtain zs where "links (hdr s) q zs (freep s)" using cycle_reaches [OF ok less(3) f] ..
  then show ?case using less(3)
  proof (induction zs arbitrary: q)
    case Nil
    show ?case by (rule kmalloc_loop_turn [OF less(2) Nil(2) less(4) more]) (use Nil in auto)
  next
    case (Cons z zs)
    have "z \<in> set (h_base s # ns)" using Cons(2,3) next_in_list [OF ok Cons(3)] by simp
    then have "served A n (kmalloc_loop n z (hptr (hdr s z)) s)" using Cons by simp
    then show ?case using Cons(2) by (intro kmalloc_loop_turn [OF less(2) Cons(3) less(4) more]) auto
  qed
qed

section \<open>Properties\<close>

lemma units_pos: "0 < units nbytes"
  by (simp add: units_def)

lemma units_enough: "nbytes + 15 < 2 ^ 64 \<Longrightarrow> nbytes \<le> (units nbytes - 1) * HEADER_SIZE"
  by (simp add: units_def HEADER_SIZE_def)

lemma start_ready:
  assumes "freep s = 0" "0 < h_base s" "pages_ok [] Map.empty s"
  shows "ready [] Map.empty (s\<lparr>freep := h_base s, hdr := (hdr s)(h_base s := \<lparr>hptr = h_base s, hsize = 0\<rparr>)\<rparr>)"
  using assms by (auto simp: ready_def free_ok_def live_ok_def pages_ok_def block_ok_def clear_of_def)

lemma kmalloc_serves:
  assumes "heap_inv A s" "nbytes \<noteq> 0"
  shows "served A (units nbytes) (kmalloc nbytes s)"
proof (cases "freep s = 0")
  case True
  have "\<not> ready ns A s" for ns using True by (auto simp: ready_def free_ok_def)
  then have i: "0 < h_base s" "A = Map.empty" "pages_ok [] Map.empty s" using assms(1) by (auto simp: heap_inv_def)
  note r = start_ready [OF True i(1,3)]
  show ?thesis using kmalloc_loop_serves [OF r _ units_pos, of "h_base s" nbytes] True assms(2) i by (simp add: kmalloc_def Let_def)
next
  case False
  then obtain ns where r: "ready ns A s" using assms(1) by (auto simp: heap_inv_def)
  then have "freep s \<in> set (h_base s # ns)" by (simp add: ready_def)
  from kmalloc_loop_serves [OF r this units_pos, of nbytes] show ?thesis using False assms(2) by (simp add: kmalloc_def Let_def)
qed


text \<open>A heap before its first allocation, with two free pages.\<close>

definition heap_example :: heap_state where
  "heap_example = mem_state.extend mem_example
     \<lparr>hdr = (\<lambda>_. \<lparr>hptr = 0, hsize = 0\<rparr>), freep = 0, h_base = 0xFFFFFFFF8030000\<rparr>"

lemma heap_example_fields [simp]:
  "freelist heap_example = [0xFFFFFFFF80401000, 0xFFFFFFFF80400000]" "freep heap_example = 0"
  "h_base heap_example = 0xFFFFFFFF8030000" "hdr heap_example = (\<lambda>_. \<lparr>hptr = 0, hsize = 0\<rparr>)"
  by (simp_all add: heap_example_def mem_example_def mem_state.defs)

lemma heap_example_inv: "heap_inv Map.empty heap_example"
  by (simp add: heap_inv_def pages_ok_def block_ok_def clear_of_def page_unit_def HEADER_SIZE_def)

lemma heap_example_kmalloc: "map_option fst (kmalloc 100 heap_example) = Some 0xFFFFFFFF80401F9"
  by (simp add: kmalloc_def units_def HEADER_SIZE_def kmalloc_loop.simps morecore_def kpage_alloc_run kfree_def
      kfree_scan.simps kfree_link_def take_block_def hdr_ptr_def hdr_size_def Let_def)




text \<open>
  \<^verbatim>\<open>krealloc\<close> takes the header for a part of the block: a request that is larger than the block by less than
  a header is answered with the old block.
\<close>

lemma krealloc_too_small:
  assumes "heap_inv A s" "A a = Some z" "(z - 1) * HEADER_SIZE < sz" "sz \<le> z * HEADER_SIZE"
  shows "krealloc (a + 1) sz s = Some (a + 1, 0, s)"
proof -
  obtain ns where "ready ns A s" using assms(1,2) by (auto simp: heap_inv_def)
  from live_not_free(4) [OF this assms(2)] show ?thesis using assms(4) by (simp add: krealloc_def)
qed

text \<open>The sum in \<open>units\<close> wraps around: a request of \<^verbatim>\<open>SIZE_MAX\<close> bytes is one unit, the header alone.\<close>

lemma units_wrap: "units (2 ^ 64 - 1) = 1"
  by (simp add: units_def HEADER_SIZE_def)

end
