(* ===== verification/Kern_Pipe.thy ===== *)
theory Kern_Pipe
  imports Klib_Ring
begin

text \<open>
  Pipes, \<^verbatim>\<open>kernel/pipe.c\<close> and \<^verbatim>\<open>kernel/include/pipe.h\<close>.

  \<^verbatim>\<open>pipewrite\<close> and \<^verbatim>\<open>piperead\<close> hold the pipe's lock except while they sleep, so each is modelled as
  the code from its start, or from a wake-up, to its return or its next \<^verbatim>\<open>sleep\<close>. A sleeping call
  is resumed by running the same loop again, as the C loop does. \<^verbatim>\<open>pipealloc\<close> is in the theory of
  the file table. The loop counter of \<^verbatim>\<open>pipewrite\<close> is an \<^verbatim>\<open>int\<close>; lengths are below \<open>2 ^ 31\<close>.
\<close>

record pipe =
  readopen :: int
  writeopen :: int
  ring_buffer :: ring_buf

definition PIPESIZE :: u64 where "PIPESIZE = 512"

text \<open>
  What a call does besides changing the pipe: the wake-ups it makes, and the signal a writer
  sends itself. The result of a run: a return value, or a sleep with the bytes still to write.
\<close>

datatype pipe_event = WakeReaders | WakeWriters | KillSelf nat

datatype pipe_run = Returns int | SleepsOnWrite "byte list" | SleepsOnRead

section \<open>Operations\<close>

definition SIGPIPE_no :: nat where "SIGPIPE_no = 13"

text \<open>The result of \<^verbatim>\<open>pipeclose\<close> is \<open>None\<close> when both ends are closed and the pipe was freed.\<close>

definition pipeclose :: "pipe \<Rightarrow> bool \<Rightarrow> pipe option \<times> pipe_event list" where
  "pipeclose p writable =
     (let (p, ev) = (if writable then (p\<lparr>writeopen := writeopen p - 1\<rparr>, [WakeReaders])
                     else (p\<lparr>readopen := readopen p - 1\<rparr>, [WakeWriters]))
      in if readopen p = 0 \<and> writeopen p = 0 then (None, ev) else (Some p, ev))"

text \<open>
  The loop of \<^verbatim>\<open>pipewrite\<close> over the bytes still to be written; \<open>n\<close> is the length of the whole
  request, the value returned at the end.
\<close>

fun pipewrite_loop :: "bool \<Rightarrow> nat \<Rightarrow> byte list \<Rightarrow> pipe \<Rightarrow> pipe \<times> pipe_run \<times> pipe_event list" where
  "pipewrite_loop killed n [] p = (p, Returns (int n), [WakeReaders])"
| "pipewrite_loop killed n (b # bs) p =
     (if ring_full (ring_buffer p)
      then (if readopen p = 0 \<or> killed then (p, Returns (- EPIPE), [])
            else (p, SleepsOnWrite (b # bs), [WakeReaders]))
      else pipewrite_loop killed n bs (p\<lparr>ring_buffer := ring_put b (ring_buffer p)\<rparr>))"

definition pipewrite :: "bool \<Rightarrow> pipe \<Rightarrow> byte list \<Rightarrow> pipe \<times> pipe_run \<times> pipe_event list" where
  "pipewrite killed p addr =
     (if readopen p = 0 \<or> killed then (p, Returns (- EPIPE), [KillSelf SIGPIPE_no])
      else pipewrite_loop killed (length addr) addr p)"

text \<open>The result of \<^verbatim>\<open>piperead\<close> includes the bytes copied to \<^verbatim>\<open>addr\<close>.\<close>

definition piperead ::
  "bool \<Rightarrow> pipe \<Rightarrow> nat \<Rightarrow> pipe \<times> pipe_run \<times> byte list \<times> pipe_event list" where
  "piperead killed p n =
     (if nread (ring_buffer p) = nwrite (ring_buffer p) \<and> writeopen p \<noteq> 0
      then (if killed then (p, Returns (- 1), [], []) else (p, SleepsOnRead, [], []))
      else (let (bs, rb) = ring_pop_loop n (ring_buffer p)
            in (p\<lparr>ring_buffer := rb\<rparr>, Returns (int (length bs)), bs, [WakeWriters])))"

section \<open>Invariant and behaviour\<close>

definition pipe_inv :: "pipe \<Rightarrow> bool" where
  "pipe_inv p \<longleftrightarrow> ring_inv (ring_buffer p) \<and> rsize (ring_buffer p) = PIPESIZE"

definition pipe_contents :: "pipe \<Rightarrow> byte list" where
  "pipe_contents p = ring_contents (ring_buffer p)"

definition pipe_room :: "pipe \<Rightarrow> nat" where
  "pipe_room p = 512 - length (pipe_contents p)"

named_theorems pipe_defs

lemmas [pipe_defs] = pipe_inv_def pipe_contents_def pipe_room_def PIPESIZE_def

lemma pipe_inv_bound: "pipe_inv p \<Longrightarrow> length (pipe_contents p) \<le> 512"
  by (auto simp: pipe_defs ring_inv_def)

lemma pipe_full_iff: "pipe_inv p \<Longrightarrow> ring_full (ring_buffer p) \<longleftrightarrow> length (pipe_contents p) = 512"
  by (simp add: pipe_defs ring_full_iff)

lemma pipe_empty_iff:
  "nread (ring_buffer p) = nwrite (ring_buffer p) \<longleftrightarrow> pipe_contents p = []"
  by (simp add: pipe_defs ring_contents_Nil_iff)

lemma pipe_put:
  assumes "pipe_inv p" and "\<not> ring_full (ring_buffer p)"
  shows "pipe_inv (p\<lparr>ring_buffer := ring_put b (ring_buffer p)\<rparr>)"
    and "pipe_contents (p\<lparr>ring_buffer := ring_put b (ring_buffer p)\<rparr>) = pipe_contents p @ [b]"
  using assms ring_not_full [of "ring_buffer p"] ring_put_spec [of "ring_buffer p"]
  by (auto simp: pipe_defs)

text \<open>
  What a run of the writer's loop does: it appends the bytes that fit; the result says whether
  all did.
\<close>

lemma pipewrite_loop_spec:
  "pipe_inv p \<Longrightarrow> pipewrite_loop killed n bs p = (p', r, ev) \<Longrightarrow>
   pipe_inv p' \<and> readopen p' = readopen p \<and> writeopen p' = writeopen p \<and>
   pipe_contents p' = pipe_contents p @ take (pipe_room p) bs \<and>
   r = (if length bs \<le> pipe_room p then Returns (int n)
        else if readopen p = 0 \<or> killed then Returns (- EPIPE)
        else SleepsOnWrite (drop (pipe_room p) bs))"
proof (induction bs arbitrary: p)
  case (Cons b bs)
  show ?case
  proof (cases "ring_full (ring_buffer p)")
    case True
    with Cons.prems show ?thesis
      by (auto simp: pipe_full_iff pipe_room_def split: if_splits)
  next
    case False
    let ?p = "p\<lparr>ring_buffer := ring_put b (ring_buffer p)\<rparr>"
    have put: "pipe_inv ?p" "pipe_contents ?p = pipe_contents p @ [b]"
      using pipe_put [OF Cons.prems(1) False] by auto
    have "length (pipe_contents p) \<noteq> 512" "length (pipe_contents p) \<le> 512"
      using False Cons.prems(1) by (auto simp: pipe_full_iff pipe_inv_bound)
    then have "pipe_room p = Suc (pipe_room ?p)"
      unfolding pipe_room_def put(2) by simp
    with Cons.IH [OF put(1)] put Cons.prems(2) False show ?thesis
      by auto
  qed
qed auto

lemma pipewrite_loop_events:
  "pipewrite_loop killed n bs p = (p', r, ev) \<Longrightarrow>
   ev = (if r = Returns (- EPIPE) then [] else [WakeReaders])"
  by (induction bs arbitrary: p) (auto split: if_splits)

lemma piperead_spec:
  assumes "pipe_inv p" and "piperead killed p n = (p', r, bs, ev)"
  shows "pipe_inv p' \<and> readopen p' = readopen p \<and> writeopen p' = writeopen p \<and>
    bs @ pipe_contents p' = pipe_contents p \<and>
    (if pipe_contents p = [] \<and> writeopen p \<noteq> 0
     then p' = p \<and> r = (if killed then Returns (- 1) else SleepsOnRead)
     else bs = take n (pipe_contents p) \<and> r = Returns (int (length bs)) \<and> ev = [WakeWriters])"
proof (cases "nread (ring_buffer p) = nwrite (ring_buffer p) \<and> writeopen p \<noteq> 0")
  case True
  with assms show ?thesis
    by (auto simp: piperead_def pipe_empty_iff split: if_splits)
next
  case False
  obtain out rb where pop: "ring_pop_loop n (ring_buffer p) = (out, rb)" by fastforce
  have "rsize rb = rsize (ring_buffer p)"
    using pop by (rule rsize_ring_pop_loop)
  with False assms pop ring_pop_loop_spec [OF _ pop] show ?thesis
    by (auto simp: piperead_def pipe_defs ring_contents_Nil_iff)
qed

section \<open>Interleavings\<close>

text \<open>
  Any number of readers and writers use the pipe; the lock makes each run from a call or a
  wake-up to a return or a sleep atomic. \<open>sent\<close> are the bytes a run of a writer put into the
  pipe. \<open>pipe_steps p ins outs q\<close>: some sequence of runs leads from \<open>p\<close> to \<open>q\<close>, writing \<open>ins\<close> and
  reading \<open>outs\<close>.
\<close>

definition sent :: "pipe \<Rightarrow> byte list \<Rightarrow> pipe_run \<Rightarrow> byte list" where
  "sent p bs r = (case r of
     SleepsOnWrite rest \<Rightarrow> take (length bs - length rest) bs
   | Returns v \<Rightarrow> if v = - EPIPE then take (pipe_room p) bs else bs
   | SleepsOnRead \<Rightarrow> [])"

inductive pipe_steps :: "pipe \<Rightarrow> byte list \<Rightarrow> byte list \<Rightarrow> pipe \<Rightarrow> bool" for p where
  start: "pipe_steps p [] [] p"
| enter: "pipe_steps p ins outs q \<Longrightarrow> readopen q \<noteq> 0 \<Longrightarrow> pipewrite killed q bs = (q', r, ev) \<Longrightarrow>
    \<not> killed \<Longrightarrow> pipe_steps p (ins @ sent q bs r) outs q'"
| resume: "pipe_steps p ins outs q \<Longrightarrow> pipewrite_loop killed n bs q = (q', r, ev) \<Longrightarrow>
    pipe_steps p (ins @ sent q bs r) outs q'"
| refuse: "pipe_steps p ins outs q \<Longrightarrow> readopen q = 0 \<or> killed \<Longrightarrow>
    pipewrite killed q bs = (q', r, ev) \<Longrightarrow> pipe_steps p ins outs q'"
| read: "pipe_steps p ins outs q \<Longrightarrow> piperead killed q n = (q', r, bs, ev) \<Longrightarrow>
    pipe_steps p ins (outs @ bs) q'"
| close: "pipe_steps p ins outs q \<Longrightarrow> pipeclose q w = (Some q', ev) \<Longrightarrow> pipe_steps p ins outs q'"

lemma sent_eq:
  assumes "pipe_inv p" and "pipewrite_loop killed n bs p = (p', r, ev)"
  shows "sent p bs r = take (pipe_room p) bs"
  using pipewrite_loop_spec [OF assms] by (auto simp: sent_def split: if_splits)

lemma pipeclose_keeps:
  "pipeclose p w = (Some p', ev) \<Longrightarrow> ring_buffer p' = ring_buffer p"
  by (auto simp: pipeclose_def split: if_splits)

lemma pipe_steps_fifo:
  "pipe_steps p ins outs q \<Longrightarrow> pipe_inv p \<Longrightarrow>
   pipe_inv q \<and> pipe_contents p @ ins = outs @ pipe_contents q"
proof (induction rule: pipe_steps.induct)
  case (enter ins outs q killed bs q' r ev)
  then have loop: "pipewrite_loop killed (length bs) bs q = (q', r, ev)" and "pipe_inv q"
    by (auto simp: pipewrite_def)
  with enter show ?case
    using pipewrite_loop_spec [OF \<open>pipe_inv q\<close> loop] sent_eq [OF \<open>pipe_inv q\<close> loop]
    by (metis append_assoc)
next
  case (resume ins outs q killed n bs q' r ev)
  then show ?case
    using pipewrite_loop_spec [of q] sent_eq [of q] by (metis append_assoc)
next
  case (refuse ins outs q killed bs q' r ev)
  then show ?case by (auto simp: pipewrite_def)
next
  case (read ins outs q killed n q' r bs ev)
  then show ?case
    using piperead_spec [of q killed n q' r bs ev] by (metis append_assoc)
next
  case (close ins outs q w q' ev)
  then show ?case
    by (auto simp: pipe_defs dest: pipeclose_keeps)
qed simp

section \<open>Properties\<close>

text \<open>
  C9: A pipe delivers what was written, in order: after any interleaving of readers, writers (with
  any number of sleeps and wake-ups) and closes of one end, the old contents and the bytes written
  are the bytes read followed by what is still in the pipe; the pipe never holds more than
  \<^verbatim>\<open>PIPE_BUF\<close> bytes.
\<close>

theorem pipe_fifo:
  assumes "pipe_inv p" and "pipe_steps p ins outs q"
  shows "pipe_contents p @ ins = outs @ pipe_contents q \<and> length (pipe_contents q) \<le> 512"
  using pipe_steps_fifo [OF assms(2,1)] pipe_inv_bound by blast

definition pipe_example :: pipe where
  "pipe_example = \<lparr>readopen = 1, writeopen = 1,
     ring_buffer = \<lparr>nread = 7, nwrite = 7, rsize = 512, rdata = replicate 512 0\<rparr>\<rparr>"

lemma pipe_example_inv: "pipe_inv pipe_example" "pipe_contents pipe_example = []"
  by (simp_all add: pipe_defs pipe_example_def ring_inv_def ring_count_def ring_contents_def)

theorem pipe_fifo_witness:
  "\<exists>q r ev. pipewrite False pipe_example [1, 2] = (q, r, ev) \<and>
     pipe_steps pipe_example (sent pipe_example [1, 2] r) [] q \<and>
     pipe_contents q = sent pipe_example [1, 2] r"
proof -
  obtain q r ev where w: "pipewrite False pipe_example [1, 2] = (q, r, ev)"
    by (metis prod_cases3)
  have "readopen pipe_example \<noteq> 0" by (simp add: pipe_example_def)
  then have s: "pipe_steps pipe_example ([] @ sent pipe_example [1, 2] r) [] q"
    using pipe_steps.enter [OF pipe_steps.start _ w] by blast
  then show ?thesis
    using w pipe_fifo [OF pipe_example_inv(1) s] pipe_example_inv(2) by auto
qed

text \<open>
  C28: A writer blocked on a full pipe makes progress: it has woken the readers before it sleeps;
  the next read of \<open>m > 0\<close> bytes returns \<open>min m 512\<close> bytes and wakes the writers; and the resumed
  writer then writes as many bytes as were read, or all that it has left.
\<close>

theorem pipe_writer_progress:
  assumes "pipe_inv p" and "pipewrite_loop False n bs p = (p1, SleepsOnWrite rest, ev1)"
    and "piperead killed p1 m = (p2, r, out, ev2)" and "0 < m"
    and "pipewrite_loop False n rest p2 = (p3, r3, ev3)"
  shows "ev1 = [WakeReaders] \<and> ev2 = [WakeWriters] \<and> length out = min m 512 \<and>
    pipe_contents p3 = pipe_contents p2 @ take (length out) rest \<and>
    (length rest \<le> length out \<longrightarrow> r3 = Returns (int n))"
proof -
  have w: "pipe_inv p1" "length (pipe_contents p1) = 512"
    using pipewrite_loop_spec [OF assms(1,2)] pipe_inv_bound [OF assms(1)]
    by (auto simp: pipe_room_def split: if_splits)
  have ne: "pipe_contents p1 \<noteq> []"
    using w(2) by auto
  have rd: "pipe_inv p2" "out @ pipe_contents p2 = pipe_contents p1"
    "out = take m (pipe_contents p1)" "ev2 = [WakeWriters]"
    using piperead_spec [OF w(1) assms(3)] ne by metis+
  have "length (pipe_contents p2) = 512 - length out"
    using w(2) rd(2) by (metis add_diff_cancel_left' length_append)
  moreover have len: "length out = min m 512"
    using rd(3) w(2) by (metis length_take min.commute)
  ultimately have "pipe_room p2 = length out"
    by (simp add: pipe_room_def)
  with pipewrite_loop_spec [OF rd(1) assms(5)] pipewrite_loop_events [OF assms(2)] rd(4) len
  show ?thesis by simp
qed

theorem pipe_writer_progress_witness:
  "\<exists>p1 rest ev1 p2 r out ev2 p3 r3 ev3.
     pipewrite_loop False 600 (replicate 600 1) pipe_example = (p1, SleepsOnWrite rest, ev1) \<and>
     piperead False p1 100 = (p2, r, out, ev2) \<and>
     pipewrite_loop False 600 rest p2 = (p3, r3, ev3) \<and> length rest = 88 \<and> r3 = Returns 600"
proof -
  obtain p1 r1 ev1 where 1: "pipewrite_loop False 600 (replicate 600 1) pipe_example = (p1, r1, ev1)"
    by (metis prod_cases3)
  then have r1: "r1 = SleepsOnWrite (replicate 88 1)"
    using pipewrite_loop_spec [OF pipe_example_inv(1) 1] pipe_example_inv(2)
    by (simp add: pipe_room_def) (simp add: pipe_example_def)
  obtain p2 r out ev2 where 2: "piperead False p1 100 = (p2, r, out, ev2)"
    by (metis prod_cases4)
  obtain p3 r3 ev3 where 3: "pipewrite_loop False 600 (replicate 88 1) p2 = (p3, r3, ev3)"
    by (metis prod_cases3)
  have "r3 = Returns 600"
    using pipe_writer_progress [OF pipe_example_inv(1) 1 [unfolded r1] 2 _ 3] by auto
  with 1 2 3 r1 show ?thesis
    by (metis length_replicate)
qed

end
