(* ===== verification/Kern_Vm.thy ===== *)
theory Kern_Vm
  imports Kern_Mem
begin

text \<open>
  Virtual memory, \<^verbatim>\<open>kernel/vm.c\<close>: the two levels of page tables the kernel walks, mapping and
  unmapping of pages, growing, shrinking, copying and freeing an address space, and copying to
  user memory. Loading a program segment is with \<^verbatim>\<open>exec\<close>, the set-up of descriptor tables and of
  the kernel's own mapping is not modelled, and the effect of \<^verbatim>\<open>switchuvm\<close> on the control
  registers is not part of the state.

  A page-table entry is addressed by its table's page and its index. The loops of the code over
  page addresses are recursions on the number of pages left.
\<close>

section \<open>Page-table entries\<close>

definition PTE_P :: u64 where "PTE_P = 1"
definition PTE_W :: u64 where "PTE_W = 2"
definition PTE_U :: u64 where "PTE_U = 4"
definition PTE_COW :: u64 where "PTE_COW = 0x200"

definition PDX :: "u64 \<Rightarrow> nat" where "PDX va = unat (drop_bit 21 va AND 0x1FF)"
definition PTX :: "u64 \<Rightarrow> nat" where "PTX va = unat (drop_bit 12 va AND 0x1FF)"

definition PTE_ADDR :: "u64 \<Rightarrow> u64" where "PTE_ADDR pte = pte AND NOT 0xFFF"
definition PTE_FLAGS :: "u64 \<Rightarrow> u64" where "PTE_FLAGS pte = pte AND 0xFFF"

definition present :: "u64 \<Rightarrow> bool" where "present pte \<longleftrightarrow> pte AND PTE_P \<noteq> 0"

type_synonym pte_loc = "u64 \<times> nat"

definition read_pte :: "pte_loc \<Rightarrow> 'z mem_state_scheme \<Rightarrow> u64" where
  "read_pte l s = ptab s (fst l) (snd l)"

definition write_pte :: "pte_loc \<Rightarrow> u64 \<Rightarrow> 'z mem_state_scheme \<Rightarrow> 'z mem_state_scheme" where
  "write_pte l e s = s\<lparr>ptab := (ptab s)(fst l := (ptab s (fst l))(snd l := e))\<rparr>"

text \<open>\<^verbatim>\<open>memset(page, 0, PGSIZE)\<close>\<close>

definition zero_page :: "u64 \<Rightarrow> 'z mem_state_scheme \<Rightarrow> 'z mem_state_scheme" where
  "zero_page pg s = s\<lparr>ptab := (ptab s)(pg := (\<lambda>_. 0)), pdata := (pdata s)(pg := replicate 4096 0)\<rparr>"

section \<open>Operations\<close>

definition walkpgdir :: "u64 \<Rightarrow> u64 \<Rightarrow> bool \<Rightarrow> ('z mem_state_scheme, pte_loc option) kern" where
  "walkpgdir pgdir va alloc =
     bindk (getk (read_pte (pgdir, PDX va))) (\<lambda>pde.
       if present pde then returnk (Some (p2v (PTE_ADDR pde), PTX va))
       else if \<not> alloc then returnk None
       else bindk kpage_alloc (\<lambda>pg. case pg of
           None \<Rightarrow> returnk None
         | Some pgtab \<Rightarrow>
             thenk (modk (zero_page pgtab))
            (thenk (modk (write_pte (pgdir, PDX va) (v2p pgtab OR PTE_P OR PTE_W OR PTE_U)))
             (returnk (Some (pgtab, PTX va))))))"

fun mappages_loop :: "u64 \<Rightarrow> u64 \<Rightarrow> u64 \<Rightarrow> u64 \<Rightarrow> nat \<Rightarrow> ('z mem_state_scheme, int) kern" where
  "mappages_loop pgdir a pa perm 0 = returnk 0"
| "mappages_loop pgdir a pa perm (Suc n) =
     bindk (walkpgdir pgdir a True) (\<lambda>l. case l of
         None \<Rightarrow> returnk (- 1)
       | Some pte \<Rightarrow>
           bindk (getk (read_pte pte)) (\<lambda>e.
             if present e then panick ''remap''
             else thenk (modk (write_pte pte (pa OR perm)))
                        (mappages_loop pgdir (a + PGSIZE) (pa + PGSIZE) perm n)))"

definition mappages_perm ::
  "u64 \<Rightarrow> u64 \<Rightarrow> u64 \<Rightarrow> u64 \<Rightarrow> u64 \<Rightarrow> ('z mem_state_scheme, int) kern" where
  "mappages_perm pgdir va sz pa perm =
     (let a = PGROUNDDOWN va; last = PGROUNDDOWN (va + sz - 1) in
      mappages_loop pgdir a pa perm (unat (last - a) div 4096 + 1))"

definition mappages :: "u64 \<Rightarrow> u64 \<Rightarrow> u64 \<Rightarrow> u64 \<Rightarrow> u64 \<Rightarrow> ('z mem_state_scheme, int) kern" where
  "mappages pgdir va sz pa perm = mappages_perm pgdir va sz pa (perm OR PTE_P)"

definition mappages_cow :: "u64 \<Rightarrow> u64 \<Rightarrow> u64 \<Rightarrow> u64 \<Rightarrow> u64 \<Rightarrow> ('z mem_state_scheme, int) kern" where
  "mappages_cow pgdir va sz pa perm = mappages_perm pgdir va sz pa (perm OR PTE_COW)"

definition inituvm :: "u64 \<Rightarrow> byte list \<Rightarrow> ('z mem_state_scheme, unit) kern" where
  "inituvm pgdir init =
     (if length init \<ge> 4096 then panick ''inituvm: more than a page''
      else bindk kpage_alloc (\<lambda>m. bindk (derefk m) (\<lambda>mem.
           thenk (modk (zero_page mem))
          (thenk (mappages pgdir 0 PGSIZE (v2p mem) (PTE_W OR PTE_U))
           (modk (\<lambda>s. s\<lparr>pdata := (pdata s)(mem := blit 0 init (pdata s mem))\<rparr>))))))"

text \<open>
  \<open>deallocuvm_loop\<close>: \<open>n\<close> bounds the number of turns; one page per turn is enough, since each turn
  advances \<open>a\<close> by at least a page.
\<close>

fun deallocuvm_loop :: "u64 \<Rightarrow> u64 \<Rightarrow> u64 \<Rightarrow> nat \<Rightarrow> ('z mem_state_scheme, unit) kern" where
  "deallocuvm_loop pgdir oldsz a 0 = returnk ()"
| "deallocuvm_loop pgdir oldsz a (Suc n) =
     (if \<not> a < oldsz then returnk ()
      else bindk (walkpgdir pgdir a False) (\<lambda>l. case l of
          None \<Rightarrow> deallocuvm_loop pgdir oldsz (a + 511 * PGSIZE + PGSIZE) n
        | Some pte \<Rightarrow>
            bindk (getk (read_pte pte)) (\<lambda>e.
              if present e
              then (let pa = PTE_ADDR e in
                    if pa = 0 then panick ''kpage_free''
                    else thenk (if p2v pa > KERNBASE then kpage_free (p2v pa) else returnk ())
                        (thenk (modk (write_pte pte 0))
                         (deallocuvm_loop pgdir oldsz (a + PGSIZE) n)))
              else deallocuvm_loop pgdir oldsz (a + PGSIZE) n)))"

definition pages_between :: "u64 \<Rightarrow> u64 \<Rightarrow> nat" where
  "pages_between a b = (unat b - unat a + 4095) div 4096"

definition deallocuvm :: "u64 \<Rightarrow> u64 \<Rightarrow> u64 \<Rightarrow> ('z mem_state_scheme, u64) kern" where
  "deallocuvm pgdir oldsz newsz =
     (if newsz \<ge> oldsz then returnk oldsz
      else (let a = PGROUNDUP newsz in
            thenk (deallocuvm_loop pgdir oldsz a (pages_between a oldsz)) (returnk newsz)))"

fun allocuvm_loop :: "u64 \<Rightarrow> u64 \<Rightarrow> u64 \<Rightarrow> u64 \<Rightarrow> nat \<Rightarrow> ('z mem_state_scheme, u64) kern" where
  "allocuvm_loop pgdir oldsz newsz a 0 = returnk newsz"
| "allocuvm_loop pgdir oldsz newsz a (Suc n) =
     bindk kpage_alloc (\<lambda>m. case m of
         None \<Rightarrow> thenk (deallocuvm pgdir newsz oldsz) (returnk 0)
       | Some mem \<Rightarrow>
           thenk (modk (zero_page mem))
          (bindk (mappages pgdir a PGSIZE (v2p mem) (PTE_W OR PTE_U)) (\<lambda>r.
             if r < 0
             then thenk (deallocuvm pgdir newsz oldsz) (thenk (kpage_free mem) (returnk 0))
             else allocuvm_loop pgdir oldsz newsz (a + PGSIZE) n)))"

definition allocuvm :: "u64 \<Rightarrow> u64 \<Rightarrow> u64 \<Rightarrow> ('z mem_state_scheme, u64) kern" where
  "allocuvm pgdir oldsz newsz =
     (if newsz \<ge> KERNBASE then returnk 0
      else if newsz < oldsz then returnk oldsz
      else (let a = PGROUNDUP oldsz in
            allocuvm_loop pgdir oldsz newsz a (pages_between a newsz)))"

fun allocuvm_cow_loop :: "u64 \<Rightarrow> u64 \<Rightarrow> u64 \<Rightarrow> u64 \<Rightarrow> nat \<Rightarrow> ('z mem_state_scheme, u64) kern" where
  "allocuvm_cow_loop pgdir oldsz newsz a 0 = returnk newsz"
| "allocuvm_cow_loop pgdir oldsz newsz a (Suc n) =
     bindk (mappages_cow pgdir a PGSIZE 0 (PTE_W OR PTE_U)) (\<lambda>r.
       if r < 0 then thenk (deallocuvm pgdir newsz oldsz) (returnk 0)
       else allocuvm_cow_loop pgdir oldsz newsz (a + PGSIZE) n)"

definition allocuvm_cow :: "u64 \<Rightarrow> u64 \<Rightarrow> u64 \<Rightarrow> ('z mem_state_scheme, u64) kern" where
  "allocuvm_cow pgdir oldsz newsz =
     (if newsz \<ge> KERNBASE then returnk 0
      else if newsz < oldsz then returnk oldsz
      else (let a = PGROUNDUP oldsz in
            allocuvm_cow_loop pgdir oldsz newsz a (pages_between a newsz)))"

definition freevm :: "u64 option \<Rightarrow> ('z mem_state_scheme, unit) kern" where
  "freevm pg = (case pg of None \<Rightarrow> panick ''freevm: no pgdir''
     | Some pgdir \<Rightarrow>
         thenk (deallocuvm pgdir 0x1da00000 0)
        (thenk (foreachk [0..<510] (\<lambda>i.
            bindk (getk (read_pte (pgdir, i))) (\<lambda>e.
              if present e then kpage_free (p2v (PTE_ADDR e)) else returnk ())))
         (kpage_free pgdir)))"

definition clear_pte_mask :: "u64 \<Rightarrow> u64 \<Rightarrow> u64 \<Rightarrow> ('z mem_state_scheme, unit) kern" where
  "clear_pte_mask pgdir uva msk =
     bindk (walkpgdir pgdir uva False) (\<lambda>l. case l of
         None \<Rightarrow> panick ''set_pte_mask''
       | Some pte \<Rightarrow> modk (\<lambda>s. write_pte pte (read_pte pte s AND NOT msk) s))"

definition set_pte_mask :: "u64 \<Rightarrow> u64 \<Rightarrow> u64 \<Rightarrow> ('z mem_state_scheme, unit) kern" where
  "set_pte_mask pgdir uva msk =
     bindk (walkpgdir pgdir uva False) (\<lambda>l. case l of
         None \<Rightarrow> panick ''set_pte_mask''
       | Some pte \<Rightarrow> modk (\<lambda>s. write_pte pte (read_pte pte s OR msk) s))"

definition clearpteu :: "u64 \<Rightarrow> u64 \<Rightarrow> ('z mem_state_scheme, unit) kern" where
  "clearpteu pgdir uva = clear_pte_mask pgdir uva PTE_U"

definition setpteu :: "u64 \<Rightarrow> u64 \<Rightarrow> ('z mem_state_scheme, unit) kern" where
  "setpteu pgdir uva = set_pte_mask pgdir uva PTE_U"

definition unmap_user_page :: "u64 \<Rightarrow> u64 \<Rightarrow> ('z mem_state_scheme, unit) kern" where
  "unmap_user_page pgdir uva =
     bindk (walkpgdir pgdir uva False) (\<lambda>l. case l of
         None \<Rightarrow> panick ''unmap_user_page: no page found''
       | Some pte \<Rightarrow> modk (write_pte pte 0))"

text \<open>\<^verbatim>\<open>setupkvm\<close> does not test the three pages it allocates for NULL.\<close>

definition setupkvm :: "('z mem_state_scheme, u64) kern" where
  "setupkvm =
     bindk kpage_alloc (\<lambda>m4. bindk kpage_alloc (\<lambda>m3. bindk kpage_alloc (\<lambda>m2.
     bindk (derefk m4) (\<lambda>pml4. bindk (derefk m3) (\<lambda>pdpt. bindk (derefk m2) (\<lambda>pgdir.
       thenk (modk (zero_page pml4)) (thenk (modk (zero_page pdpt)) (thenk (modk (zero_page pgdir))
      (thenk (modk (write_pte (pml4, 0) (v2p pdpt OR PTE_P OR PTE_W OR PTE_U)))
      (thenk (modk (\<lambda>s. write_pte (pml4, 511) (v2p (kpdpt s) OR PTE_P OR PTE_W OR PTE_U) s))
      (thenk (modk (write_pte (pdpt, 0) (v2p pgdir OR PTE_P OR PTE_W OR PTE_U)))
      (thenk (modk (write_pte (pgdir, 511) (pml4 OR PTE_P)))
      (thenk (modk (write_pte (pgdir, 510) (pdpt OR PTE_P)))
       (returnk pgdir))))))))))))))"

fun copyuvm_loop :: "u64 \<Rightarrow> u64 \<Rightarrow> u64 \<Rightarrow> nat \<Rightarrow> ('z mem_state_scheme, u64 option) kern" where
  "copyuvm_loop pgdir d i 0 = returnk (Some d)"
| "copyuvm_loop pgdir d i (Suc n) =
     bindk (walkpgdir pgdir i False) (\<lambda>l. case l of
         None \<Rightarrow> panick ''copyuvm: pte should exist''
       | Some pte \<Rightarrow>
           bindk (getk (read_pte pte)) (\<lambda>e.
             if \<not> present e then panick ''copyuvm: page not present''
             else bindk kpage_alloc (\<lambda>m. case m of
                 None \<Rightarrow> thenk (freevm (Some d)) (returnk None)
               | Some mem \<Rightarrow>
                   thenk (modk (\<lambda>s. s\<lparr>pdata := (pdata s)(mem := pdata s (p2v (PTE_ADDR e)))\<rparr>))
                  (bindk (mappages d i PGSIZE (v2p mem) (PTE_FLAGS e)) (\<lambda>r.
                     if r < 0 then thenk (kpage_free mem) (thenk (freevm (Some d)) (returnk None))
                     else copyuvm_loop pgdir d (i + PGSIZE) n)))))"

definition copyuvm :: "u64 \<Rightarrow> u64 \<Rightarrow> ('z mem_state_scheme, u64 option) kern" where
  "copyuvm pgdir sz =
     bindk setupkvm (\<lambda>d. copyuvm_loop pgdir d 0 (pages_between 0 sz))"

definition uva2ka :: "u64 \<Rightarrow> u64 \<Rightarrow> ('z mem_state_scheme, u64 option) kern" where
  "uva2ka pgdir uva =
     bindk (walkpgdir pgdir uva False) (\<lambda>l. case l of
         None \<Rightarrow> returnk None
       | Some pte \<Rightarrow> bindk (getk (read_pte pte)) (\<lambda>e.
           if e AND PTE_P = 0 then returnk None
           else if e AND PTE_U = 0 then returnk None
           else returnk (Some (p2v (PTE_ADDR e)))))"

text \<open>
  \<^verbatim>\<open>copyout\<close> rounds the address down and truncates it to 32 bits. A write that leaves the page it
  looked up is the panic \<open>wild write\<close>: it changes memory that does not belong to the caller. Each
  turn writes at least one byte, so the length of the data bounds the number of turns.
\<close>

fun copyout_loop :: "u64 \<Rightarrow> u64 \<Rightarrow> byte list \<Rightarrow> nat \<Rightarrow> ('z mem_state_scheme, int) kern" where
  "copyout_loop pgdir va buf 0 = returnk 0"
| "copyout_loop pgdir va buf (Suc fuel) =
     (if buf = [] then returnk 0
      else (let va0 = ucast (ucast (PGROUNDDOWN va) :: u32) :: u64 in
        bindk (uva2ka pgdir va0) (\<lambda>pa. case pa of
            None \<Rightarrow> returnk (- EFAULT)
          | Some pa0 \<Rightarrow>
              (let n0 = PGSIZE - (va - va0);
                   n = (if n0 > of_nat (length buf) then length buf else unat n0);
                   off = unat (va - va0) in
               thenk (assertk (off + n \<le> 4096) ''wild write'')
              (thenk (modk (\<lambda>s. s\<lparr>pdata := (pdata s)(pa0 := blit off (take n buf) (pdata s pa0))\<rparr>))
               (copyout_loop pgdir (va0 + PGSIZE) (drop n buf) fuel))))))"

definition copyout :: "u64 \<Rightarrow> u64 \<Rightarrow> byte list \<Rightarrow> ('z mem_state_scheme, int) kern" where
  "copyout pgdir va buf = copyout_loop pgdir va buf (length buf)"

section \<open>Frames\<close>

lemma more_write_pte [simp]: "mem_state.more (write_pte l e s) = mem_state.more s"
  by (simp add: write_pte_def)

lemma more_zero_page [simp]: "mem_state.more (zero_page pg s) = mem_state.more s"
  by (simp add: zero_page_def)

lemma walkpgdir_frame [mem_frame]: "keeps (\<lambda>s. mem_state.more s = m) (walkpgdir pgdir va alloc)"
  unfolding walkpgdir_def by (intro keeps_rules keeps_mod mem_frame) simp_all

lemma mappages_loop_frame: "keeps (\<lambda>s. mem_state.more s = m) (mappages_loop pgdir a pa perm n)"
proof (induction n arbitrary: a pa)
  case (Suc n)
  show ?case
    unfolding mappages_loop.simps by (intro keeps_rules keeps_mod mem_frame Suc) simp_all
qed (simp add: keeps_return)

lemma mappages_perm_frame [mem_frame]:
  "keeps (\<lambda>s. mem_state.more s = m) (mappages_perm pgdir va sz pa perm)"
  unfolding mappages_perm_def Let_def by (rule mappages_loop_frame)

lemma mappages_frame [mem_frame]:
  "keeps (\<lambda>s. mem_state.more s = m) (mappages pgdir va sz pa perm)"
  "keeps (\<lambda>s. mem_state.more s = m) (mappages_cow pgdir va sz pa perm)"
  unfolding mappages_def mappages_cow_def by (rule mappages_perm_frame)+

lemma deallocuvm_loop_frame: "keeps (\<lambda>s. mem_state.more s = m) (deallocuvm_loop pgdir oldsz a n)"
proof (induction n arbitrary: a)
  case (Suc n)
  show ?case
    unfolding deallocuvm_loop.simps Let_def by (intro keeps_rules keeps_mod mem_frame Suc) simp_all
qed (simp add: keeps_return)

lemma deallocuvm_frame [mem_frame]: "keeps (\<lambda>s. mem_state.more s = m) (deallocuvm pgdir oldsz newsz)"
  unfolding deallocuvm_def Let_def by (intro keeps_rules keeps_mod mem_frame deallocuvm_loop_frame)

lemma allocuvm_loop_frame: "keeps (\<lambda>s. mem_state.more s = m) (allocuvm_loop pgdir oldsz newsz a n)"
proof (induction n arbitrary: a)
  case (Suc n)
  show ?case
    unfolding allocuvm_loop.simps by (intro keeps_rules keeps_mod mem_frame Suc) simp_all
qed (simp add: keeps_return)

lemma allocuvm_frame [mem_frame]: "keeps (\<lambda>s. mem_state.more s = m) (allocuvm pgdir oldsz newsz)"
  unfolding allocuvm_def Let_def by (intro keeps_rules keeps_mod mem_frame allocuvm_loop_frame)

lemma freevm_frame [mem_frame]: "keeps (\<lambda>s. mem_state.more s = m) (freevm pg)"
  unfolding freevm_def by (intro keeps_rules keeps_mod mem_frame)

lemma setupkvm_frame [mem_frame]: "keeps (\<lambda>s. mem_state.more s = m) setupkvm"
  unfolding setupkvm_def by (intro keeps_rules keeps_mod mem_frame) simp_all

lemma copyuvm_loop_frame: "keeps (\<lambda>s. mem_state.more s = m) (copyuvm_loop pgdir d i n)"
proof (induction n arbitrary: i)
  case (Suc n)
  show ?case
    unfolding copyuvm_loop.simps by (intro keeps_rules keeps_mod mem_frame Suc) simp_all
qed (simp add: keeps_return)

lemma copyuvm_frame [mem_frame]: "keeps (\<lambda>s. mem_state.more s = m) (copyuvm pgdir sz)"
  unfolding copyuvm_def by (intro keeps_rules keeps_mod mem_frame copyuvm_loop_frame)

lemma uva2ka_state: "uva2ka pgdir uva s = Inr (r, s') \<Longrightarrow> s' = s"
  by (auto simp: uva2ka_def walkpgdir_def bindk_eq_Inr split: option.splits if_splits)

lemma uva2ka_frame [mem_frame]: "keeps I (uva2ka pgdir uva)"
  by (auto simp: keeps_def dest: uva2ka_state)

lemma copyout_loop_frame: "keeps (\<lambda>s. mem_state.more s = m) (copyout_loop pgdir va buf fuel)"
proof (induction fuel arbitrary: va buf)
  case (Suc n)
  show ?case
    unfolding copyout_loop.simps Let_def by (intro keeps_rules keeps_mod mem_frame Suc) simp_all
qed (simp add: keeps_return)

lemma copyout_frame [mem_frame]: "keeps (\<lambda>s. mem_state.more s = m) (copyout pgdir va buf)"
  unfolding copyout_def by (rule copyout_loop_frame)

section \<open>Freeing an empty directory\<close>

lemma walkpgdir_absent:
  "\<not> present (ptab s pgdir (PDX va)) \<Longrightarrow> walkpgdir pgdir va False s = Inr (None, s)"
  by (simp add: walkpgdir_def kern_simps read_pte_def)

lemma deallocuvm_loop_empty:
  "(\<And>i. \<not> present (ptab s pgdir i)) \<Longrightarrow> deallocuvm_loop pgdir oldsz a n s = Inr ((), s)"
  by (induction n arbitrary: a) (simp_all add: kern_simps walkpgdir_absent)

lemma freevm_empty:
  assumes "\<And>i. \<not> present (ptab s pgdir i)" and "page_ok s pgdir"
  shows "freevm (Some pgdir) s = Inr ((), s\<lparr>freelist := pgdir # freelist s\<rparr>)"
proof -
  have "foreachk xs (\<lambda>i. bindk (getk (read_pte (pgdir, i))) (\<lambda>e.
      if present e then kpage_free (p2v (PTE_ADDR e)) else returnk ())) s = Inr ((), s)" for xs
    using assms(1) by (induction xs) (simp_all add: kern_simps read_pte_def)
  then show ?thesis
    using assms
    by (simp add: freevm_def deallocuvm_def Let_def kern_simps deallocuvm_loop_empty kpage_free_run)
qed

end
