(* ===== verification/Kern_Proc.thy ===== *)
theory Kern_Proc
  imports Kern_Vm
begin

text \<open>
  The process table of \<^verbatim>\<open>kernel/proc.c\<close>: allocation of processes, sleeping and waking, the
  scheduler's choice, signals, and \<^verbatim>\<open>waitpid\<close>. \<^verbatim>\<open>fork\<close>, \<^verbatim>\<open>exit\<close> and \<^verbatim>\<open>userinit\<close>, which use the file
  system, are in a later theory. A \<^verbatim>\<open>struct proc *\<close> is an index into the table; the state also holds
  the index of the process on whose behalf the kernel runs (\<^verbatim>\<open>myproc()\<close>). The saved kernel context
  and the floating-point state of a process are not modelled.
\<close>

section \<open>Data\<close>

record trapframe =
  rax :: u64
  rdi :: u64
  rsi :: u64
  rdx :: u64
  r10 :: u64
  r8 :: u64
  r9 :: u64
  rip :: u64
  rsp :: u64
  tf_cs :: u64
  tf_ds :: u64
  rflags :: u64

record cred =
  c_uid :: int
  c_gid :: int
  c_euid :: int
  c_egid :: int
  c_gids :: "int list"

record mmap_info =
  m_length :: u64
  m_addr :: u64
  m_virt_addr :: u64
  m_file :: "nat option"
  m_perm :: u64

datatype procstate = UNUSED | EMBRYO | SLEEPING | RUNNABLE | RUNNING | ZOMBIE | STOPPED

record proc =
  p_sz :: u64
  p_pgdir :: "u64 option"
  p_kstack :: "u64 option"
  p_state :: procstate
  p_pid :: int
  p_pgid :: int
  p_sid :: int
  p_ctty :: u64
  p_status :: int
  p_parent :: "nat option"
  p_tf :: trapframe
  p_chan :: "chan option"
  p_killed :: bool
  p_ofile :: "nat option list"
  p_cwd :: "nat option"
  p_cred :: cred
  p_name :: "byte list"
  p_ptrace_mask :: "bool list"
  p_mmap_info :: "mmap_info list"
  p_mmap_count :: nat
  p_heap :: u64
  p_heapsz :: u64
  p_sig_handlers :: "u64 list"
  p_last_signal :: int
  p_umask :: u32

record proc_state = mem_state +
  procs :: "proc list"
  nextpid :: int
  initproc :: "nat option"
  curproc :: nat
  ticks :: nat

definition NPROC :: nat where "NPROC = 64"
definition NSIG :: nat where "NSIG = 31"
definition NGROUPS_MAX :: nat where "NGROUPS_MAX = 8"
definition PROC_HAS_NO_CTTY :: u64 where "PROC_HAS_NO_CTTY = NOT 0"

definition SIG_ERR :: u64 where "SIG_ERR = - 1"
definition SIG_DFL :: u64 where "SIG_DFL = 0"
definition SIG_IGN :: u64 where "SIG_IGN = 1"

abbreviation (input) SIGHUP :: int where "SIGHUP \<equiv> 1"
abbreviation (input) SIGINT :: int where "SIGINT \<equiv> 2"
abbreviation (input) SIGQUIT :: int where "SIGQUIT \<equiv> 3"
abbreviation (input) SIGILL :: int where "SIGILL \<equiv> 4"
abbreviation (input) SIGTRAP :: int where "SIGTRAP \<equiv> 5"
abbreviation (input) SIGABRT :: int where "SIGABRT \<equiv> 6"
abbreviation (input) SIGBUS :: int where "SIGBUS \<equiv> 7"
abbreviation (input) SIGFPE :: int where "SIGFPE \<equiv> 8"
abbreviation (input) SIGKILL :: int where "SIGKILL \<equiv> 9"
abbreviation (input) SIGUSR1 :: int where "SIGUSR1 \<equiv> 10"
abbreviation (input) SIGSEGV :: int where "SIGSEGV \<equiv> 11"
abbreviation (input) SIGUSR2 :: int where "SIGUSR2 \<equiv> 12"
abbreviation (input) SIGPIPE :: int where "SIGPIPE \<equiv> 13"
abbreviation (input) SIGALRM :: int where "SIGALRM \<equiv> 14"
abbreviation (input) SIGTERM :: int where "SIGTERM \<equiv> 15"
abbreviation (input) SIGCONT :: int where "SIGCONT \<equiv> 18"
abbreviation (input) SIGSTOP :: int where "SIGSTOP \<equiv> 19"
abbreviation (input) SIGTSTP :: int where "SIGTSTP \<equiv> 20"
abbreviation (input) SIGTTIN :: int where "SIGTTIN \<equiv> 21"
abbreviation (input) SIGTTOU :: int where "SIGTTOU \<equiv> 22"
abbreviation (input) SIGXCPU :: int where "SIGXCPU \<equiv> 24"
abbreviation (input) SIGXFSZ :: int where "SIGXFSZ \<equiv> 25"
abbreviation (input) SIGVTALRM :: int where "SIGVTALRM \<equiv> 26"
abbreviation (input) SIGSYS :: int where "SIGSYS \<equiv> 31"

definition default_kills :: "int list" where
  "default_kills = [SIGABRT, SIGFPE, SIGBUS, SIGILL, SIGQUIT, SIGSEGV, SIGSYS, SIGTRAP, SIGXCPU,
     SIGXFSZ, SIGALRM, SIGHUP, SIGTERM, SIGUSR1, SIGUSR2, SIGVTALRM, SIGKILL, SIGPIPE, SIGINT]"

definition default_stops :: "int list" where
  "default_stops = [SIGTSTP, SIGTTIN, SIGTTOU, SIGSTOP]"

section \<open>Operations\<close>

definition upd_proc :: "nat \<Rightarrow> (proc \<Rightarrow> proc) \<Rightarrow> 'z proc_state_scheme \<Rightarrow> 'z proc_state_scheme" where
  "upd_proc i f s = s\<lparr>procs := (procs s)[i := f (procs s ! i)]\<rparr>"

definition cur :: "'z proc_state_scheme \<Rightarrow> proc" where
  "cur s = procs s ! curproc s"

definition upd_cur :: "(proc \<Rightarrow> proc) \<Rightarrow> 'z proc_state_scheme \<Rightarrow> 'z proc_state_scheme" where
  "upd_cur f s = upd_proc (curproc s) f s"

text \<open>The fields \<^verbatim>\<open>allocproc\<close> sets under the table's lock, and those it sets afterwards.\<close>

definition embryo :: "int \<Rightarrow> proc \<Rightarrow> proc" where
  "embryo pid p = p\<lparr>p_state := EMBRYO, p_pid := pid, p_pgid := pid, p_sid := pid,
     p_cred := \<lparr>c_uid = 0, c_gid = 0, c_euid = 0, c_egid = 0, c_gids = replicate NGROUPS_MAX (- 1)\<rparr>,
     p_ctty := PROC_HAS_NO_CTTY\<rparr>"

definition fresh :: "u64 \<Rightarrow> proc \<Rightarrow> proc" where
  "fresh kstack p = p\<lparr>p_kstack := Some kstack, p_mmap_count := 0, p_heap := 0x2c000000,
     p_heapsz := 0, p_umask := 0x12, p_ptrace_mask := replicate 62 False @ drop 62 (p_ptrace_mask p),
     p_sig_handlers := replicate NSIG SIG_DFL, p_last_signal := 0\<rparr>"

definition allocproc :: "('z proc_state_scheme, nat option) kern" where
  "allocproc =
     bindk (getk procs) (\<lambda>ps. case first_index (\<lambda>p. p_state p = UNUSED) ps of
         None \<Rightarrow> returnk None
       | Some i \<Rightarrow>
           thenk (modk (\<lambda>s. upd_proc i (embryo (nextpid s)) s\<lparr>nextpid := nextpid s + 1\<rparr>))
          (bindk kpage_alloc (\<lambda>pg. case pg of
               None \<Rightarrow> thenk (modk (upd_proc i (\<lambda>p. p\<lparr>p_kstack := None, p_state := UNUSED\<rparr>)))
                              (returnk None)
             | Some k \<Rightarrow> thenk (modk (upd_proc i (fresh k))) (returnk (Some i)))))"

definition growproc :: "int \<Rightarrow> ('z proc_state_scheme, int) kern" where
  "growproc n =
     bindk (getk cur) (\<lambda>p. bindk (derefk (p_pgdir p)) (\<lambda>pgdir.
       if n > 0
       then bindk (allocuvm pgdir (p_sz p) (p_sz p + of_int n)) (\<lambda>sz.
              if sz = 0 then returnk (- ENOMEM)
              else thenk (modk (upd_cur (\<lambda>p. p\<lparr>p_sz := sz\<rparr>))) (returnk 0))
       else if n < 0
       then bindk (deallocuvm pgdir (p_sz p) (p_sz p + of_int n)) (\<lambda>sz.
              if sz = 0 then returnk (- EFAULT)
              else thenk (modk (upd_cur (\<lambda>p. p\<lparr>p_sz := sz\<rparr>))) (returnk 0))
       else returnk 0))"

definition wake :: "chan \<Rightarrow> proc \<Rightarrow> proc" where
  "wake c p = (if p_state p = SLEEPING \<and> p_chan p = Some c then p\<lparr>p_state := RUNNABLE\<rparr> else p)"

definition wakeup1 :: "chan \<Rightarrow> 'z proc_state_scheme \<Rightarrow> 'z proc_state_scheme" where
  "wakeup1 c s = s\<lparr>procs := map (wake c) (procs s)\<rparr>"

definition wakeup :: "chan \<Rightarrow> ('z proc_state_scheme, unit) kern" where
  "wakeup c = modk (wakeup1 c)"

text \<open>
  The parts of \<^verbatim>\<open>sleep\<close> before and after the process gives up the processor, and of \<^verbatim>\<open>yield\<close>.
  \<^verbatim>\<open>sched\<close> refuses a process that is still \<^verbatim>\<open>RUNNING\<close>.
\<close>

definition sched_check :: "('z proc_state_scheme, unit) kern" where
  "sched_check = bindk (getk cur) (\<lambda>p. assertk (p_state p \<noteq> RUNNING) ''sched running'')"

definition sleep_enter :: "chan \<Rightarrow> ('z proc_state_scheme, unit) kern" where
  "sleep_enter c = thenk (modk (upd_cur (\<lambda>p. p\<lparr>p_chan := Some c, p_state := SLEEPING\<rparr>))) sched_check"

definition sleep_leave :: "('z proc_state_scheme, unit) kern" where
  "sleep_leave = modk (upd_cur (\<lambda>p. p\<lparr>p_chan := None\<rparr>))"

definition yield :: "('z proc_state_scheme, unit) kern" where
  "yield = thenk (modk (upd_cur (\<lambda>p. p\<lparr>p_state := RUNNABLE\<rparr>))) sched_check"

text \<open>
  The scheduler: one pass over the table; \<open>run i\<close> is what process \<open>i\<close> does from the context switch
  until control comes back.
\<close>

definition switch_to :: "nat \<Rightarrow> ('z proc_state_scheme, unit) kern" where
  "switch_to i =
     bindk (getk (\<lambda>s. procs s ! i)) (\<lambda>p.
       thenk (assertk (p_pgdir p \<noteq> None) ''switchuvm: no pgdir'')
             (modk (\<lambda>s. upd_proc i (\<lambda>p. p\<lparr>p_state := RUNNING\<rparr>) s\<lparr>curproc := i\<rparr>)))"

fun scheduler_pass ::
  "nat list \<Rightarrow> (nat \<Rightarrow> ('z proc_state_scheme, unit) kern) \<Rightarrow> ('z proc_state_scheme, nat list) kern"
where
  "scheduler_pass [] run = returnk []"
| "scheduler_pass (i # is) run =
     bindk (getk (\<lambda>s. procs s ! i)) (\<lambda>p.
       if p_state p \<noteq> RUNNABLE then scheduler_pass is run
       else thenk (switch_to i) (thenk (run i)
              (bindk (scheduler_pass is run) (\<lambda>order. returnk (i # order)))))"

definition scheduler ::
  "(nat \<Rightarrow> ('z proc_state_scheme, unit) kern) \<Rightarrow> ('z proc_state_scheme, nat list) kern" where
  "scheduler run = scheduler_pass [0..<NPROC] run"

section \<open>Signals\<close>

definition get_process_from_pid :: "int \<Rightarrow> ('z proc_state_scheme, nat option) kern" where
  "get_process_from_pid pid =
     (if pid < 0 then returnk None
      else getk (\<lambda>s. first_index (\<lambda>p. p_pid p = pid) (procs s)))"

definition copy_signal_to_stack :: "nat \<Rightarrow> int \<Rightarrow> ('z proc_state_scheme, unit) kern" where
  "copy_signal_to_stack i signal =
     bindk (getk (\<lambda>s. procs s ! i)) (\<lambda>p. bindk (derefk (p_pgdir p)) (\<lambda>pgdir.
       (let sp = rsp (p_tf p) - 8 in
        bindk (copyout pgdir sp (le_bytes 8 (unat (rip (p_tf p))))) (\<lambda>r.
          if r < 0 then panick ''failed to copyout''
          else modk (upd_proc i (\<lambda>p. p\<lparr>p_tf := (p_tf p)\<lparr>rdi := of_int signal,
                 rip := p_sig_handlers p ! nat signal, rsp := sp\<rparr>\<rparr>))))))"

text \<open>
  \<^verbatim>\<open>prockill\<close> reads \<^verbatim>\<open>sig_handlers[signal]\<close> without a test of the bounds; an access outside the array
  is the panic \<open>sig_handlers\<close>.
\<close>

definition prockill :: "nat \<Rightarrow> int \<Rightarrow> ('z proc_state_scheme, int) kern" where
  "prockill i signal =
     (if signal = 0 then returnk 0
      else
        thenk (modk (upd_proc i (\<lambda>p. p\<lparr>p_last_signal := signal\<rparr>)))
       (thenk (assertk (0 \<le> signal \<and> signal < int NSIG) ''sig_handlers'')
       (bindk (getk (\<lambda>s. p_sig_handlers (procs s ! i) ! nat signal)) (\<lambda>h.
        thenk
         (if h = SIG_DFL
          then (if signal \<in> set default_kills then modk (upd_proc i (\<lambda>p. p\<lparr>p_killed := True\<rparr>))
                else if signal \<in> set default_stops then modk (upd_proc i (\<lambda>p. p\<lparr>p_state := STOPPED\<rparr>))
                else if signal = SIGCONT then modk (upd_proc i (\<lambda>p. p\<lparr>p_state := RUNNABLE\<rparr>))
                else returnk ())
          else if h \<noteq> SIG_IGN then copy_signal_to_stack i signal
          else returnk ())
        (thenk (modk (upd_proc i (\<lambda>p. if p_state p = SLEEPING then p\<lparr>p_state := RUNNABLE\<rparr> else p)))
         (returnk 0))))))"

definition kill_all_children :: "nat \<Rightarrow> int \<Rightarrow> ('z proc_state_scheme, unit) kern" where
  "kill_all_children i signal =
     bindk (getk (\<lambda>s. p_pgid (procs s ! i))) (\<lambda>pgid.
       foreachk [0..<NPROC] (\<lambda>j.
         bindk (getk (\<lambda>s. procs s ! j)) (\<lambda>p.
           if p_pgid p = pgid \<and> p_parent p = Some i
           then thenk (prockill j signal) (returnk ()) else returnk ())))"

definition kill_all_procs :: "int \<Rightarrow> ('z proc_state_scheme, unit) kern" where
  "kill_all_procs signal = foreachk [0..<NPROC] (\<lambda>j. thenk (prockill j signal) (returnk ()))"

definition kill_single_proc :: "nat \<Rightarrow> int \<Rightarrow> ('z proc_state_scheme, int) kern" where
  "kill_single_proc i signal = prockill i signal"

definition kill :: "int \<Rightarrow> int \<Rightarrow> ('z proc_state_scheme, int) kern" where
  "kill pid signal =
     (let all_procs = (pid = - 1); looking_for_pgids = (pid \<noteq> - 1 \<and> pid < 0) in
      if \<not> looking_for_pgids \<and> \<not> all_procs
      then bindk (get_process_from_pid pid) (\<lambda>p. case p of
               None \<Rightarrow> returnk (- ESRCH)
             | Some i \<Rightarrow> kill_single_proc i signal)
      else if looking_for_pgids
      then bindk (get_process_from_pid (- pid)) (\<lambda>p. case p of
               None \<Rightarrow> returnk (- ESRCH)
             | Some i \<Rightarrow> thenk (kill_all_children i signal)
                         (thenk (kill_single_proc i signal) (returnk 0)))
      else thenk (kill_all_procs signal) (returnk 0))"

definition kernel_attach_signal :: "int \<Rightarrow> u64 \<Rightarrow> ('z proc_state_scheme, u64) kern" where
  "kernel_attach_signal signum handler =
     (if signum = SIGFPE \<or> signum = SIGSEGV \<or> signum = SIGBUS \<or> signum = SIGILL then returnk SIG_ERR
      else if signum \<ge> int NSIG \<or> signum < 0 then returnk SIG_ERR
      else bindk (getk (\<lambda>s. p_sig_handlers (cur s) ! nat signum)) (\<lambda>old.
             thenk (modk (upd_cur (\<lambda>p.
                 p\<lparr>p_sig_handlers := (p_sig_handlers p)[nat signum := handler]\<rparr>)))
               (returnk old)))"

definition is_in_group :: "int \<Rightarrow> cred \<Rightarrow> bool" where
  "is_in_group grp c \<longleftrightarrow> list_ex (\<lambda>g. grp = g) (take NGROUPS_MAX (c_gids c))"

text \<open>\<^verbatim>\<open>sleep_on_ms\<close> returns when at least \<open>ms\<close> ticks have passed since \<open>ticks0\<close>.\<close>

definition sleep_on_ms :: "nat \<Rightarrow> nat \<Rightarrow> ('z proc_state_scheme, unit) kern" where
  "sleep_on_ms ticks0 ms =
     bindk (getk ticks) (\<lambda>now. if now - ticks0 < ms then sleepk ChanTicks else returnk ())"

section \<open>Waiting for children\<close>

definition W_EXITCODE :: "int \<Rightarrow> int \<Rightarrow> int" where
  "W_EXITCODE ret signal = push_bit 8 ret OR signal"

definition reap :: "proc \<Rightarrow> proc" where
  "reap p = p\<lparr>p_kstack := None,
     p_mmap_info := map (\<lambda>_. \<lparr>m_length = 0, m_addr = 0, m_virt_addr = 0, m_file = None, m_perm = 0\<rparr>)
       (p_mmap_info p),
     p_mmap_count := 0, p_pid := 0, p_parent := None, p_name := (p_name p)[0 := 0],
     p_killed := False, p_last_signal := 0, p_sig_handlers := replicate NSIG SIG_DFL,
     p_state := UNUSED\<rparr>"

text \<open>
  One turn of the outer loop of \<^verbatim>\<open>waitpid\<close>. The result is the child's pid and its wait status, or a
  negative errno without one. A parent with no such zombie sleeps.
\<close>

definition wait_match :: "nat \<Rightarrow> int \<Rightarrow> proc \<Rightarrow> bool" where
  "wait_match me pid p \<longleftrightarrow> p_parent p = Some me \<and> (pid = - 1 \<or> p_pid p = pid) \<and> p_state p = ZOMBIE"

definition waitpid :: "int \<Rightarrow> ('z proc_state_scheme, int \<times> int option) kern" where
  "waitpid pid =
     bindk (getk (\<lambda>s. s)) (\<lambda>s. case first_index (wait_match (curproc s) pid) (procs s) of
         Some i \<Rightarrow>
           (let p = procs s ! i in
            thenk (kpage_free (case p_kstack p of None \<Rightarrow> 0 | Some k \<Rightarrow> k))
           (thenk (freevm (p_pgdir p))
           (thenk (modk (upd_proc i reap))
            (returnk (p_pid p, Some (W_EXITCODE (p_status p) (p_last_signal p)))))))
       | None \<Rightarrow>
           (if \<not> list_ex (\<lambda>p. p_parent p = Some (curproc s)) (procs s) \<or> p_killed (cur s)
            then returnk (- ECHILD, None)
            else sleepk (ChanProc (curproc s))))"

section \<open>Access to the table\<close>

named_theorems proc_simps

lemma procs_upd_proc [simp, proc_simps]: "procs (upd_proc i f s) = (procs s)[i := f (procs s ! i)]"
  by (simp add: upd_proc_def)

lemma upd_proc_fields [simp]:
  "curproc (upd_proc i f s) = curproc s" "nextpid (upd_proc i f s) = nextpid s"
  "freelist (upd_proc i f s) = freelist s" "initproc (upd_proc i f s) = initproc s"
  "ticks (upd_proc i f s) = ticks s"
  by (simp_all add: upd_proc_def)

lemma procs_more: "mem_state.more s' = mem_state.more s \<Longrightarrow> procs s' = procs s \<and> curproc s' = curproc s \<and>
    nextpid s' = nextpid s \<and> initproc s' = initproc s \<and> ticks s' = ticks s"
  by (cases s; cases s') auto

lemma mem_op_procs:
  assumes "\<And>m. keeps (\<lambda>s. mem_state.more s = m) f" and "f s = Inr (x, s')"
  shows "procs s' = procs s" and "curproc s' = curproc s" and "nextpid s' = nextpid s"
    and "initproc s' = initproc s"
proof -
  have "mem_state.more s' = mem_state.more s"
    using keepsD [OF assms(1) assms(2)] by blast
  then show "procs s' = procs s" and "curproc s' = curproc s" and "nextpid s' = nextpid s"
    and "initproc s' = initproc s"
    by (blast dest: procs_more)+
qed

section \<open>The invariant of the process table\<close>

definition in_use :: "proc \<Rightarrow> bool" where
  "in_use p \<longleftrightarrow> p_state p \<noteq> UNUSED"

definition proc_inv :: "'z proc_state_scheme \<Rightarrow> bool" where
  "proc_inv s \<longleftrightarrow> length (procs s) = NPROC \<and> 0 < nextpid s \<and>
     (\<forall>p\<in>set (procs s). in_use p \<longrightarrow> 0 < p_pid p \<and> p_pid p < nextpid s) \<and>
     (\<forall>i<NPROC. \<forall>j<NPROC. in_use (procs s ! i) \<longrightarrow> in_use (procs s ! j) \<longrightarrow>
        p_pid (procs s ! i) = p_pid (procs s ! j) \<longrightarrow> i = j)"

lemma proc_invD:
  assumes "proc_inv s" and "i < NPROC" and "in_use (procs s ! i)"
  shows "0 < p_pid (procs s ! i)" and "p_pid (procs s ! i) < nextpid s"
  using assms by (auto simp: proc_inv_def)

text \<open>Changes that keep every pid and do not bring an unused slot to life keep the invariant.\<close>

lemma proc_inv_map:
  assumes "proc_inv s" and "length ps = length (procs s)" and "nextpid s \<le> n"
    and "\<And>i. i < NPROC \<Longrightarrow> in_use (ps ! i) \<Longrightarrow>
      in_use (procs s ! i) \<and> p_pid (ps ! i) = p_pid (procs s ! i)"
  shows "proc_inv (s\<lparr>procs := ps, nextpid := n\<rparr>)"
  unfolding proc_inv_def
proof (intro conjI ballI impI allI)
  show "length (procs (s\<lparr>procs := ps, nextpid := n\<rparr>)) = NPROC"
    using assms(1,2) by (simp add: proc_inv_def)
  show "0 < nextpid (s\<lparr>procs := ps, nextpid := n\<rparr>)"
    using assms(1,3) by (simp add: proc_inv_def)
next
  fix p assume "p \<in> set (procs (s\<lparr>procs := ps, nextpid := n\<rparr>))" and use: "in_use p"
  then obtain i where i: "i < NPROC" "p = ps ! i"
    using assms(1,2) by (auto simp: in_set_conv_nth proc_inv_def)
  with assms(4) [of i] use proc_invD [OF assms(1), of i] assms(3)
  show "0 < p_pid p" and "p_pid p < nextpid (s\<lparr>procs := ps, nextpid := n\<rparr>)" by auto
next
  fix i j assume "i < NPROC" "j < NPROC" "in_use (procs (s\<lparr>procs := ps, nextpid := n\<rparr>) ! i)"
    "in_use (procs (s\<lparr>procs := ps, nextpid := n\<rparr>) ! j)"
    "p_pid (procs (s\<lparr>procs := ps, nextpid := n\<rparr>) ! i) = p_pid (procs (s\<lparr>procs := ps, nextpid := n\<rparr>) ! j)"
  with assms(4) [of i] assms(4) [of j] assms(1) show "i = j"
    by (auto simp: proc_inv_def)
qed

lemma proc_inv_more:
  "mem_state.more s' = mem_state.more s \<Longrightarrow> proc_inv s' = proc_inv s"
  by (auto simp: proc_inv_def dest: procs_more)

lemma proc_inv_upd_proc:
  assumes "proc_inv s"
    and "in_use (f (procs s ! i)) \<Longrightarrow> in_use (procs s ! i) \<and> p_pid (f (procs s ! i)) = p_pid (procs s ! i)"
  shows "proc_inv (upd_proc i f s)"
proof -
  have "proc_inv (s\<lparr>procs := (procs s)[i := f (procs s ! i)], nextpid := nextpid s\<rparr>)"
    using assms by (intro proc_inv_map) (auto simp: nth_list_update_if proc_inv_def)
  then show ?thesis by (simp add: upd_proc_def)
qed

lemma wake_in_use: "in_use (wake c p) \<Longrightarrow> in_use p \<and> p_pid (wake c p) = p_pid p"
  by (auto simp: wake_def in_use_def split: if_splits)

lemma wakeup_run: "wakeup c s = Inr ((), wakeup1 c s)"
  by (simp add: wakeup_def kern_simps)

lemma proc_inv_wakeup1: "proc_inv s \<Longrightarrow> proc_inv (wakeup1 c s)"
  using proc_inv_map [of s "map (wake c) (procs s)" "nextpid s"] wake_in_use
  by (auto simp: wakeup1_def proc_inv_def)

lemma allocproc_cases:
  assumes "allocproc s = Inr (r, s')"
  obtains (full) "r = None" and "s' = s" and "\<forall>p\<in>set (procs s). p_state p \<noteq> UNUSED"
  | (no_memory) i where "r = None" and "first_index (\<lambda>p. p_state p = UNUSED) (procs s) = Some i"
      and "procs s' = (procs s)[i := (embryo (nextpid s) (procs s ! i))\<lparr>p_kstack := None, p_state := UNUSED\<rparr>]"
      and "nextpid s' = nextpid s + 1" and "freelist s = []"
  | (ok) i k where "r = Some i" and "first_index (\<lambda>p. p_state p = UNUSED) (procs s) = Some i"
      and "procs s' = (procs s)[i := fresh k (embryo (nextpid s) (procs s ! i))]"
      and "nextpid s' = nextpid s + 1" and "freelist s = k # freelist s'"
proof (cases "first_index (\<lambda>p. p_state p = UNUSED) (procs s)")
  case None
  with assms full show ?thesis
    by (auto simp: allocproc_def kern_simps first_index_None_iff)
next
  case (Some i)
  then have i: "i < length (procs s)" by (auto dest: first_index_SomeD)
  show ?thesis
  proof (cases "freelist s")
    case Nil
    with assms Some i no_memory [of i] show ?thesis
      by (auto simp: allocproc_def kern_simps kpage_alloc_run)
  next
    case (Cons k fl)
    with assms Some i ok [of i k] show ?thesis
      by (auto simp: allocproc_def kern_simps kpage_alloc_run)
  qed
qed

lemma pid_fresh:
  assumes "proc_inv s" and "p_state (procs s ! i) = UNUSED" and "in_use q" and "p_pid q = nextpid s"
    and "procs t = (procs s)[i := q]" and "nextpid t = nextpid s + 1" and "i < NPROC"
  shows "proc_inv t"
  unfolding proc_inv_def
proof (intro conjI ballI impI allI)
  have len: "length (procs s) = NPROC" and pos: "0 < nextpid s"
    using assms(1) by (auto simp: proc_inv_def)
  show "length (procs t) = NPROC" "0 < nextpid t"
    using len pos assms(5,6) by auto
  have other: "0 < p_pid (procs s ! j) \<and> p_pid (procs s ! j) < nextpid s"
    if "j < NPROC" "in_use (procs s ! j)" for j
    using proc_invD [OF assms(1) that] by simp
  fix p assume "p \<in> set (procs t)" and "in_use p"
  then obtain j where "j < NPROC" "p = procs t ! j"
    using len assms(5) by (auto simp: in_set_conv_nth)
  with \<open>in_use p\<close> other [of j] assms len pos show "0 < p_pid p" and "p_pid p < nextpid t"
    by (cases "j = i"; fastforce)+
next
  fix j k assume jk: "j < NPROC" "k < NPROC" "in_use (procs t ! j)" "in_use (procs t ! k)"
    "p_pid (procs t ! j) = p_pid (procs t ! k)"
  have len: "length (procs s) = NPROC" using assms(1) by (simp add: proc_inv_def)
  have below: "p_pid (procs s ! l) \<noteq> nextpid s" if "l < NPROC" "in_use (procs s ! l)" for l
    using proc_invD [OF assms(1) that] by simp
  show "j = k"
    using jk assms len below [of j] below [of k]
    by (cases "j = i"; cases "k = i") (auto simp: proc_inv_def)
qed

lemma allocproc_inv:
  assumes "proc_inv s" and "allocproc s = Inr (r, s')"
  shows "proc_inv s'"
  using assms(2)
proof (cases rule: allocproc_cases)
  case full
  with assms show ?thesis by simp
next
  case (no_memory i)
  let ?q = "(embryo (nextpid s) (procs s ! i))\<lparr>p_kstack := None, p_state := UNUSED\<rparr>"
  have "proc_inv (s\<lparr>procs := (procs s)[i := ?q], nextpid := nextpid s + 1\<rparr>)"
    using assms(1) by (intro proc_inv_map) (auto simp: nth_list_update_if in_use_def proc_inv_def split: if_splits)
  with no_memory show ?thesis by (simp add: proc_inv_def)
next
  case (ok i k)
  have i: "i < NPROC" "p_state (procs s ! i) = UNUSED"
    using first_index_SomeD [OF ok(2)] assms(1) by (auto simp: proc_inv_def)
  show ?thesis
    using assms(1) i(2) _ _ ok(3,4) i(1)
    by (rule pid_fresh) (simp_all add: in_use_def fresh_def embryo_def)
qed

section \<open>Waiting\<close>

lemma reap_unused: "\<not> in_use (reap p)"
  by (simp add: reap_def in_use_def)

lemma waitpid_found:
  assumes "first_index (wait_match (curproc s) pid) (procs s) = Some i"
    and "waitpid pid s = Inr (r, s')"
  shows "procs s' = (procs s)[i := reap (procs s ! i)] \<and> nextpid s' = nextpid s \<and>
    r = (p_pid (procs s ! i), Some (W_EXITCODE (p_status (procs s ! i)) (p_last_signal (procs s ! i))))"
proof -
  let ?k = "case p_kstack (procs s ! i) of None \<Rightarrow> 0 | Some k \<Rightarrow> k"
  obtain s1 s2 where free: "kpage_free ?k s = Inr ((), s1)" "freevm (p_pgdir (procs s ! i)) s1 = Inr ((), s2)"
    and s': "s' = upd_proc i reap s2" "r = (p_pid (procs s ! i),
      Some (W_EXITCODE (p_status (procs s ! i)) (p_last_signal (procs s ! i))))"
    using assms by (auto simp: waitpid_def Let_def bindk_eq_Inr thenk_eq_Inr)
  have "procs s2 = procs s" "nextpid s2 = nextpid s"
    using mem_op_procs [OF kpage_free_frame free(1)] mem_op_procs [OF freevm_frame free(2)] by auto
  with s' show ?thesis by simp
qed

lemma waitpid_none:
  assumes "first_index (wait_match (curproc s) pid) (procs s) = None"
  shows "waitpid pid s =
    (if (\<forall>p\<in>set (procs s). p_parent p \<noteq> Some (curproc s)) \<or> p_killed (cur s)
     then Inr ((- ECHILD, None), s) else Inl (Sleep (ChanProc (curproc s))))"
  using assms by (auto simp: waitpid_def kern_simps list_ex_iff)

section \<open>Scheduling\<close>

lemma scheduler_pass_run:
  assumes "j \<in> set slots" and "distinct slots" and "p_state (procs s ! j) = RUNNABLE"
    and "\<And>i. i \<in> set slots \<Longrightarrow> i < length (procs s)"
    and stay: "\<And>i t u t'. i \<noteq> j \<Longrightarrow> p_state (procs t ! j) = RUNNABLE \<Longrightarrow> run i t = Inr (u, t') \<Longrightarrow>
      p_state (procs t' ! j) = RUNNABLE"
    and len: "\<And>i t u t'. run i t = Inr (u, t') \<Longrightarrow> length (procs t') = length (procs t)"
    and "scheduler_pass slots run s = Inr (order, s')"
  shows "j \<in> set order"
  using assms(1-4) assms(7)
proof (induction slots arbitrary: s order)
  case (Cons i slots)
  show ?case
  proof (cases "p_state (procs s ! i) = RUNNABLE")
    case False
    with Cons.prems have "j \<in> set slots" by auto
    with False Cons.prems Cons.IH [of s order] show ?thesis
      by (auto simp: bindk_eq_Inr)
  next
    case True
    with Cons.prems obtain s1 u s2 rest where
      run: "switch_to i s = Inr ((), s1)" "run i s1 = Inr (u, s2)"
        "scheduler_pass slots run s2 = Inr (rest, s')" "order = i # rest"
      by (auto simp: bindk_eq_Inr thenk_eq_Inr)
    show ?thesis
    proof (cases "i = j")
      case False
      have s1: "procs s1 = (procs s)[i := (procs s ! i)\<lparr>p_state := RUNNING\<rparr>]"
        using run(1) by (auto simp: switch_to_def bindk_eq_Inr thenk_eq_Inr)
      with False Cons.prems(3) have "p_state (procs s1 ! j) = RUNNABLE" by simp
      with stay [OF False _ run(2)] have "p_state (procs s2 ! j) = RUNNABLE" by blast
      moreover have "length (procs s2) = length (procs s)"
        using len [OF run(2)] s1 by simp
      ultimately show ?thesis
        using Cons.prems Cons.IH [of s2 rest] run False by auto
    qed (use run(4) in simp)
  qed
qed simp

section \<open>Signals to unused slots\<close>

lemma prockill_length:
  "prockill i sig s = Inr (r, s') \<Longrightarrow> length (procs s') = length (procs s)"
proof -
  have cs: "keeps (\<lambda>s. length (procs s) = n) (copy_signal_to_stack i sig)" for i sig and n
  proof (rule keepsI)
    fix s x s'
    assume "length (procs s) = n" and "copy_signal_to_stack i sig s = Inr (x, s')"
    then show "length (procs s') = n"
      by (auto simp: copy_signal_to_stack_def bindk_eq_Inr Let_def split: if_splits
               dest!: mem_op_procs(1) [OF copyout_frame])
  qed
  have "keeps (\<lambda>s. length (procs s) = n) (prockill i sig)" for n
    unfolding prockill_def by (intro keeps_rules keeps_mod cs) simp_all
  then show "prockill i sig s = Inr (r, s') \<Longrightarrow> length (procs s') = length (procs s)"
    by (auto dest: keepsD)
qed

lemma prockill_other:
  assumes "prockill i sig s = Inr (r, s')" and "i \<noteq> j"
  shows "procs s' ! j = procs s ! j"
proof -
  have cs: "keeps (\<lambda>s. procs s ! j = p) (copy_signal_to_stack i sig)" for p
  proof (rule keepsI)
    fix s x s'
    assume "procs s ! j = p" and "copy_signal_to_stack i sig s = Inr (x, s')"
    then show "procs s' ! j = p"
      using assms(2)
      by (auto simp: copy_signal_to_stack_def bindk_eq_Inr Let_def split: if_splits
               dest!: mem_op_procs(1) [OF copyout_frame])
  qed
  have "keeps (\<lambda>s. procs s ! j = p) (prockill i sig)" for p
    unfolding prockill_def using assms(2) by (intro keeps_rules keeps_mod cs) simp_all
  with assms(1) show ?thesis by (auto dest: keepsD)
qed

lemma prockill_SIGCONT:
  assumes "prockill i SIGCONT s = Inr (r, s')" and "i < length (procs s)"
    and "p_sig_handlers (procs s ! i) ! 18 = SIG_DFL"
  shows "p_state (procs s' ! i) = RUNNABLE"
  using assms
  by (auto simp: prockill_def thenk_eq_Inr bindk_eq_Inr default_kills_def default_stops_def
           split: if_splits)

lemma foreach_prockill:
  assumes "foreachk js (\<lambda>j. thenk (prockill j SIGCONT) (returnk ())) s = Inr (u, s')"
    and "i \<in> set js" and "distinct js" and "i < length (procs s)"
    and "p_sig_handlers (procs s ! i) ! 18 = SIG_DFL"
  shows "p_state (procs s' ! i) = RUNNABLE"
  using assms
proof (induction js arbitrary: s)
  case (Cons j js)
  then obtain r s1 where 1: "prockill j SIGCONT s = Inr (r, s1)"
    "foreachk js (\<lambda>j. thenk (prockill j SIGCONT) (returnk ())) s1 = Inr (u, s')"
    by (auto simp: thenk_eq_Inr)
  show ?case
  proof (cases "j = i")
    case True
    then have "p_state (procs s1 ! i) = RUNNABLE"
      using prockill_SIGCONT 1(1) Cons.prems by blast
    moreover have "keeps (\<lambda>t. procs t ! i = p)
        (foreachk js (\<lambda>j. thenk (prockill j SIGCONT) (returnk ())))" if "i \<notin> set js" for p and js
      using that
    proof (induction js)
      case (Cons k js)
      then have "keeps (\<lambda>t. procs t ! i = p) (prockill k SIGCONT)"
        using prockill_other [of k SIGCONT _ _ _ i] by (intro keepsI) auto
      with Cons show ?case by (auto intro!: keeps_then keeps_return)
    qed (simp add: keeps_return)
    ultimately show ?thesis
      using True Cons.prems(3) 1(2) keepsD by fastforce
  next
    case False
    then have "procs s1 ! i = procs s ! i" "length (procs s1) = length (procs s)"
      using prockill_other [OF 1(1)] prockill_length [OF 1(1)] by auto
    with Cons.IH [OF 1(2)] Cons.prems False show ?thesis by auto
  qed
qed simp

section \<open>Properties\<close>

definition blank_proc :: proc where
  "blank_proc = \<lparr>p_sz = 0, p_pgdir = None, p_kstack = None, p_state = UNUSED, p_pid = 0, p_pgid = 0,
     p_sid = 0, p_ctty = 0, p_status = 0, p_parent = None,
     p_tf = \<lparr>rax = 0, rdi = 0, rsi = 0, rdx = 0, r10 = 0, r8 = 0, r9 = 0, rip = 0, rsp = 0,
            tf_cs = 0, tf_ds = 0, rflags = 0\<rparr>,
     p_chan = None, p_killed = False, p_ofile = replicate 100 None, p_cwd = None,
     p_cred = \<lparr>c_uid = 0, c_gid = 0, c_euid = 0, c_egid = 0, c_gids = []\<rparr>, p_name = replicate 16 0,
     p_ptrace_mask = replicate 63 False, p_mmap_info = [], p_mmap_count = 0, p_heap = 0, p_heapsz = 0,
     p_sig_handlers = replicate 31 0, p_last_signal = 0, p_umask = 0\<rparr>"

text \<open>
  An example state for the witnesses: process 0 is running and has a zombie child in slot 1,
  whose page directory is empty.
\<close>

definition proc_example :: proc_state where
  "proc_example = \<lparr>freelist = [0xFFFFFFFF80500000], kernel_end = 0xFFFFFFFF80400000,
     available_memory = 0x10000000, kpdpt = 0xFFFFFFFF80300000, ptab = (\<lambda>_ _. 0), pdata = (\<lambda>_. []),
     procs = blank_proc\<lparr>p_state := RUNNING, p_pid := 1, p_pgdir := Some 0xFFFFFFFF80600000\<rparr> #
       blank_proc\<lparr>p_state := ZOMBIE, p_pid := 2, p_parent := Some 0, p_status := 3,
         p_kstack := Some 0xFFFFFFFF80601000, p_pgdir := Some 0xFFFFFFFF80602000\<rparr> #
       replicate 62 blank_proc,
     nextpid = 3, initproc = Some 0, curproc = 0, ticks = 0\<rparr>"

lemma proc_example_inv: "proc_inv proc_example"
proof -
  have unused: "i = 0 \<or> i = 1" if "i < NPROC" "in_use (procs proc_example ! i)" for i
    using that by (cases i; cases "i - 1")
      (auto simp: proc_example_def in_use_def blank_proc_def NPROC_def nth_Cons' split: if_splits)
  have pids: "p_pid (procs proc_example ! 0) = 1" "p_pid (procs proc_example ! 1) = 2"
    by (simp_all add: proc_example_def)
  have len: "length (procs proc_example) = NPROC" and np: "nextpid proc_example = 3"
    by (simp_all add: proc_example_def NPROC_def)
  show ?thesis
    unfolding proc_inv_def
  proof (intro conjI allI impI ballI)
    fix p assume "p \<in> set (procs proc_example)" "in_use p"
    then obtain i where "p = procs proc_example ! i" "i = 0 \<or> i = 1"
      using unused len by (metis in_set_conv_nth)
    with pids np show "0 < p_pid p" "p_pid p < nextpid proc_example" by auto
  next
    fix i j assume "i < NPROC" "j < NPROC" "in_use (procs proc_example ! i)"
      "in_use (procs proc_example ! j)" "p_pid (procs proc_example ! i) = p_pid (procs proc_example ! j)"
    with unused [of i] unused [of j] pids show "i = j" by auto
  qed (use len np in simp_all)
qed







text \<open>
  C26: One pass of the scheduler over the table runs every process that is runnable when the pass
  begins, provided what other processes do while they run does not stop or put it to sleep.
\<close>

theorem scheduler_runs_runnable:
  assumes "length (procs s) = NPROC" and "j < NPROC" and "p_state (procs s ! j) = RUNNABLE"
    and "\<And>i t u t'. i \<noteq> j \<Longrightarrow> p_state (procs t ! j) = RUNNABLE \<Longrightarrow> run i t = Inr (u, t') \<Longrightarrow>
      p_state (procs t' ! j) = RUNNABLE"
    and "\<And>i t u t'. run i t = Inr (u, t') \<Longrightarrow> length (procs t') = length (procs t)"
    and "scheduler run s = Inr (order, s')"
  shows "j \<in> set order"
proof (rule scheduler_pass_run [OF _ _ assms(3) _ assms(4) assms(5) assms(6) [unfolded scheduler_def]])
  show "j \<in> set [0..<NPROC]" "distinct [0..<NPROC]" "\<And>i. i \<in> set [0..<NPROC] \<Longrightarrow> i < length (procs s)"
    using assms(1,2) by simp_all
qed

lemma scheduler_pass_returns:
  fixes s :: "'z proc_state_scheme"
  assumes "\<And>i. i \<in> set slots \<Longrightarrow> p_state (procs s ! i) = RUNNABLE \<Longrightarrow> p_pgdir (procs s ! i) \<noteq> None"
    and "distinct slots"
    and run: "\<And>i t. run i t = Inr ((), upd_proc i (\<lambda>p. p\<lparr>p_state := STOPPED\<rparr>) t)"
  shows "\<exists>order s'. scheduler_pass slots run s = Inr (order, s')"
  using assms(1,2)
proof (induction slots arbitrary: s)
  case (Cons i slots)
  show ?case
  proof (cases "p_state (procs s ! i) = RUNNABLE")
    case False
    with Cons show ?thesis by (simp add: kern_simps)
  next
    case True
    let ?s1 = "upd_proc i (\<lambda>p. p\<lparr>p_state := RUNNING\<rparr>) s\<lparr>curproc := i\<rparr>"
    let ?t = "upd_proc i (\<lambda>p. p\<lparr>p_state := STOPPED\<rparr>) ?s1"
    have same: "procs ?t ! j = procs s ! j" if "j \<in> set slots" for j
    proof -
      have "i \<noteq> j" using that Cons.prems(2) by auto
      then show ?thesis by simp
    qed
    have "\<exists>order s'. scheduler_pass slots run ?t = Inr (order, s')"
    proof (rule Cons.IH)
      fix j assume "j \<in> set slots" "p_state (procs ?t ! j) = RUNNABLE"
      then show "p_pgdir (procs ?t ! j) \<noteq> None"
        unfolding same [OF \<open>j \<in> set slots\<close>] using Cons.prems(1) by simp
    qed (use Cons.prems(2) in simp)
    then obtain order s' where rest: "scheduler_pass slots run ?t = Inr (order, s')" by blast
    have "switch_to i s = Inr ((), ?s1)"
      using True Cons.prems(1) [of i] by (simp add: switch_to_def kern_simps)
    then show ?thesis
      using True rest run [of i ?s1] by (simp add: bindk_def thenk_def getk_def returnk_def)
  qed
qed (simp add: kern_simps)

theorem scheduler_runs_runnable_witness:
  "\<exists>order s'. scheduler (\<lambda>i. modk (upd_proc i (\<lambda>p. p\<lparr>p_state := STOPPED\<rparr>)))
       (upd_proc 0 (\<lambda>p. p\<lparr>p_state := RUNNABLE\<rparr>) proc_example) = Inr (order, s') \<and> 0 \<in> set order"
proof -
  let ?s = "upd_proc 0 (\<lambda>p. p\<lparr>p_state := RUNNABLE\<rparr>) proc_example"
  have "p_pgdir (procs ?s ! i) \<noteq> None" if "p_state (procs ?s ! i) = RUNNABLE" "i < NPROC" for i
  proof (cases "i = 0")
    case True
    then show ?thesis by (simp add: proc_example_def)
  next
    case False
    with that show ?thesis
      by (cases i; cases "i - 1") (auto simp: proc_example_def blank_proc_def NPROC_def nth_Cons' split: if_splits)
  qed
  then obtain order s' where
    sch: "scheduler (\<lambda>i. modk (upd_proc i (\<lambda>p. p\<lparr>p_state := STOPPED\<rparr>))) ?s = Inr (order, s')"
    using scheduler_pass_returns [of "[0..<NPROC]" ?s
      "\<lambda>i. modk (upd_proc i (\<lambda>p. p\<lparr>p_state := STOPPED\<rparr>))"]
    by (auto simp: scheduler_def)
  have "0 \<in> set order"
  proof (rule scheduler_runs_runnable [OF _ _ _ _ _ sch])
    show "length (procs ?s) = NPROC" "0 < NPROC" "p_state (procs ?s ! 0) = RUNNABLE"
      by (simp_all add: proc_example_def NPROC_def)
  qed (auto simp: nth_list_update)
  with sch show ?thesis by blast
qed

text \<open>
  C39: \<^verbatim>\<open>kill(-1, SIGCONT)\<close> does not skip unused slots of the process table: a slot that holds no
  process but has default handlers becomes runnable.
\<close>

theorem kill_all_revives_unused:
  assumes "length (procs s) = NPROC" and "i < NPROC" and "p_state (procs s ! i) = UNUSED"
    and "p_sig_handlers (procs s ! i) ! 18 = SIG_DFL" and "kill (- 1) SIGCONT s = Inr (r, s')"
  shows "p_state (procs s' ! i) = RUNNABLE"
proof -
  obtain u where "foreachk [0..<NPROC] (\<lambda>j. thenk (prockill j SIGCONT) (returnk ())) s = Inr (u, s')"
    using assms(5) by (auto simp: kill_def kill_all_procs_def thenk_eq_Inr)
  from foreach_prockill [OF this, of i] assms show ?thesis by simp
qed

theorem kill_all_revives_unused_witness:
  "\<exists>r s'. kill (- 1) SIGCONT proc_example = Inr (r, s') \<and> p_state (procs proc_example ! 5) = UNUSED \<and>
     p_state (procs s' ! 5) = RUNNABLE"
proof -
  let ?ok = "\<lambda>s :: proc_state. length (procs s) = NPROC \<and>
    (\<forall>i<NPROC. p_sig_handlers (procs s ! i) = replicate 31 0)"
  have step: "\<exists>r s'. prockill i SIGCONT s = Inr (r, s') \<and> ?ok s'" if "?ok s" "i < NPROC" for i s
    using that
    by (auto simp: prockill_def kern_simps NSIG_def SIG_DFL_def default_kills_def default_stops_def
             nth_list_update_if)
  have "\<exists>s'. foreachk js (\<lambda>j. thenk (prockill j SIGCONT) (returnk ())) s = Inr ((), s')"
    if "?ok s" "set js \<subseteq> {0..<NPROC}" for js s
    using that
  proof (induction js arbitrary: s)
    case (Cons j js)
    then obtain r s1 where "prockill j SIGCONT s = Inr (r, s1)" "?ok s1"
      using step [of s j] by auto
    with Cons show ?case by (auto simp: kern_simps)
  qed (simp add: kern_simps)
  moreover have ex: "?ok proc_example"
    by (auto simp: proc_example_def NPROC_def blank_proc_def nth_Cons')
  ultimately obtain s' where
    f: "foreachk [0..<NPROC] (\<lambda>j. thenk (prockill j SIGCONT) (returnk ())) proc_example = Inr ((), s')"
    by fastforce
  then have k: "kill (- 1) SIGCONT proc_example = Inr (0, s')"
    by (simp add: kill_def kill_all_procs_def kern_simps)
  have "p_state (procs proc_example ! 5) = UNUSED"
    by (simp add: proc_example_def blank_proc_def)
  moreover have "p_state (procs s' ! 5) = RUNNABLE"
    by (rule kill_all_revives_unused [OF _ _ _ _ k])
       (simp_all add: proc_example_def NPROC_def blank_proc_def SIG_DFL_def)
  ultimately show ?thesis using k by blast
qed

end
