(* ===== verification/Kern_Bio.thy ===== *)
theory Kern_Bio
  imports Kern_Proc
begin

text \<open>
  The block cache of \<^verbatim>\<open>kernel/bio.c\<close>, the disk driver of \<^verbatim>\<open>kernel/ide.c\<close> below it, and the sleep
  locks of \<^verbatim>\<open>kernel/sleeplock.c\<close> that protect the buffers.

  A buffer is an index into the array \<^verbatim>\<open>buf[NBUF]\<close>; the doubly linked list through the buffers is
  the list of their indices, most recently used first. The disk is a map from blocks to their
  bytes; programming the controller's registers for a block is the access to that block. A
  process that waits for the disk in \<^verbatim>\<open>iderw\<close> is resumed by interrupts: the model serves the queue of
  requests by running \<^verbatim>\<open>ideintr\<close> until the buffer is done. Whether the controller reports an error
  is a field of the state. The state also keeps the history of the writes that reached the disk;
  no code reads it, and the theorems on crashes are stated with its prefixes.
\<close>

section \<open>Data\<close>

record sleeplock =
  sl_locked :: bool
  sl_pid :: int

record block_buffer =
  b_valid :: bool
  b_dirty :: bool
  b_dev :: nat
  b_blockno :: nat
  b_lock :: sleeplock
  b_refcnt :: nat
  b_data :: "byte list"

record bio_state = proc_state +
  bufs :: "block_buffer list"
  lru :: "nat list"
  idequeue :: "nat list"
  disk :: "nat \<Rightarrow> nat \<Rightarrow> byte list"
  havedisk1 :: bool
  ide_ok :: bool
  disk_hist :: "(nat \<times> nat \<times> byte list) list"

definition BSIZE :: nat where "BSIZE = 2048"
definition NBUF :: nat where "NBUF = 30"
definition FSSIZE :: nat where "FSSIZE = 20480"

section \<open>Sleep locks\<close>

definition unlocked :: sleeplock where
  "unlocked = \<lparr>sl_locked = False, sl_pid = 0\<rparr>"

definition upd_buf :: "nat \<Rightarrow> (block_buffer \<Rightarrow> block_buffer) \<Rightarrow> 'z bio_state_scheme \<Rightarrow> 'z bio_state_scheme"
where "upd_buf i f s = s\<lparr>bufs := (bufs s)[i := f (bufs s ! i)]\<rparr>"

definition holdingsleep :: "sleeplock \<Rightarrow> 'z proc_state_scheme \<Rightarrow> bool" where
  "holdingsleep lk s \<longleftrightarrow> sl_locked lk \<and> sl_pid lk = p_pid (cur s)"

definition acquiresleep_buf :: "nat \<Rightarrow> ('z bio_state_scheme, unit) kern" where
  "acquiresleep_buf i =
     bindk (getk (\<lambda>s. b_lock (bufs s ! i))) (\<lambda>lk.
       if sl_locked lk then sleepk (ChanBufLock i)
       else modk (\<lambda>s. upd_buf i (\<lambda>b. b\<lparr>b_lock := \<lparr>sl_locked = True, sl_pid = p_pid (cur s)\<rparr>\<rparr>) s))"

definition releasesleep_buf :: "nat \<Rightarrow> ('z bio_state_scheme, unit) kern" where
  "releasesleep_buf i =
     thenk (modk (upd_buf i (\<lambda>b. b\<lparr>b_lock := unlocked\<rparr>))) (wakeup (ChanBufLock i))"

section \<open>The disk\<close>

definition disk_write :: "nat \<Rightarrow> nat \<Rightarrow> byte list \<Rightarrow> 'z bio_state_scheme \<Rightarrow> 'z bio_state_scheme" where
  "disk_write dev bn d s =
     s\<lparr>disk := (disk s)(dev mod 2 := (disk s (dev mod 2))(bn := d)),
       disk_hist := disk_hist s @ [(dev mod 2, bn, d)]\<rparr>"

definition idestart :: "nat \<Rightarrow> ('z bio_state_scheme, unit) kern" where
  "idestart i =
     bindk (getk (\<lambda>s. bufs s ! i)) (\<lambda>b.
       if b_blockno b \<ge> FSSIZE then panick ''incorrect blockno''
       else if b_dirty b then modk (disk_write (b_dev b) (b_blockno b) (b_data b))
       else returnk ())"

definition ideintr :: "('z bio_state_scheme, unit) kern" where
  "ideintr =
     bindk (getk idequeue) (\<lambda>q. case q of [] \<Rightarrow> returnk ()
       | i # rest \<Rightarrow>
           thenk (modk (\<lambda>s. s\<lparr>idequeue := rest\<rparr>))
          (thenk (modk (\<lambda>s. upd_buf i (\<lambda>b.
              if \<not> b_dirty b \<and> ide_ok s
              then b\<lparr>b_data := disk s (b_dev b mod 2) (b_blockno b)\<rparr> else b) s))
          (thenk (modk (upd_buf i (\<lambda>b. b\<lparr>b_valid := True, b_dirty := False\<rparr>)))
          (thenk (wakeup (ChanBuf i))
           (case rest of [] \<Rightarrow> returnk () | j # _ \<Rightarrow> idestart j)))))"

fun ide_serve :: "nat \<Rightarrow> nat \<Rightarrow> ('z bio_state_scheme, unit) kern" where
  "ide_serve i 0 = sleepk (ChanBuf i)"
| "ide_serve i (Suc n) =
     thenk ideintr
    (bindk (getk (\<lambda>s. bufs s ! i)) (\<lambda>b.
       if b_valid b \<and> \<not> b_dirty b then returnk () else ide_serve i n))"

definition iderw :: "nat \<Rightarrow> ('z bio_state_scheme, unit) kern" where
  "iderw i =
     bindk (getk (\<lambda>s. s)) (\<lambda>s. (let b = bufs s ! i in
       if \<not> holdingsleep (b_lock b) s then panick ''iderw: buf not locked''
       else if b_valid b \<and> \<not> b_dirty b then panick ''iderw: nothing to do''
       else if b_dev b \<noteq> 0 \<and> \<not> havedisk1 s then panick ''iderw: ide disk 1 not present''
       else thenk (modk (\<lambda>s. s\<lparr>idequeue := idequeue s @ [i]\<rparr>))
           (thenk (if idequeue s = [] then idestart i else returnk ())
            (ide_serve i (length (idequeue s) + 1)))))"

section \<open>The cache\<close>

text \<open>\<^verbatim>\<open>block_init\<close> puts each buffer in turn at the front of the list.\<close>

definition block_init :: "('z bio_state_scheme, unit) kern" where
  "block_init = modk (\<lambda>s. s\<lparr>bufs := map (\<lambda>b. b\<lparr>b_lock := unlocked\<rparr>) (bufs s), lru := rev [0..<NBUF]\<rparr>)"

definition block_get :: "nat \<Rightarrow> nat \<Rightarrow> ('z bio_state_scheme, nat) kern" where
  "block_get dev bn =
     bindk (getk (\<lambda>s. s)) (\<lambda>s.
       case find (\<lambda>i. b_dev (bufs s ! i) = dev \<and> b_blockno (bufs s ! i) = bn) (lru s) of
         Some i \<Rightarrow>
           thenk (modk (upd_buf i (\<lambda>b. b\<lparr>b_refcnt := b_refcnt b + 1\<rparr>)))
          (thenk (acquiresleep_buf i) (returnk i))
       | None \<Rightarrow>
           (case find (\<lambda>i. b_refcnt (bufs s ! i) = 0 \<and> \<not> b_dirty (bufs s ! i)) (rev (lru s)) of
              Some i \<Rightarrow>
                thenk (modk (upd_buf i (\<lambda>b. b\<lparr>b_dev := dev, b_blockno := bn, b_valid := False,
                         b_dirty := False, b_refcnt := 1\<rparr>)))
               (thenk (acquiresleep_buf i) (returnk i))
            | None \<Rightarrow> panick ''bget: no buffers''))"

definition block_read :: "nat \<Rightarrow> nat \<Rightarrow> ('z bio_state_scheme, nat) kern" where
  "block_read dev bn =
     bindk (block_get dev bn) (\<lambda>i.
     bindk (getk (\<lambda>s. b_valid (bufs s ! i))) (\<lambda>v.
       thenk (if \<not> v then iderw i else returnk ()) (returnk i)))"

definition block_write :: "nat \<Rightarrow> ('z bio_state_scheme, unit) kern" where
  "block_write i =
     bindk (getk (\<lambda>s. holdingsleep (b_lock (bufs s ! i)) s)) (\<lambda>h.
       thenk (assertk h ''holdingsleep'')
      (thenk (modk (upd_buf i (\<lambda>b. b\<lparr>b_dirty := True\<rparr>))) (iderw i)))"

definition block_release :: "nat \<Rightarrow> ('z bio_state_scheme, unit) kern" where
  "block_release i =
     bindk (getk (\<lambda>s. holdingsleep (b_lock (bufs s ! i)) s)) (\<lambda>h.
       thenk (assertk h ''holdingsleep'')
      (thenk (releasesleep_buf i)
      (thenk (modk (upd_buf i (\<lambda>b. b\<lparr>b_refcnt := b_refcnt b - 1\<rparr>)))
       (modk (\<lambda>s. if b_refcnt (bufs s ! i) = 0 then s\<lparr>lru := i # remove1 i (lru s)\<rparr> else s)))))"

section \<open>Access to the state\<close>

lemma wakeup1_bio [simp]:
  "bufs (wakeup1 c s) = bufs s" "lru (wakeup1 c s) = lru s" "idequeue (wakeup1 c s) = idequeue s"
  "disk (wakeup1 c s) = disk s" "havedisk1 (wakeup1 c s) = havedisk1 s"
  "ide_ok (wakeup1 c s) = ide_ok s" "disk_hist (wakeup1 c s) = disk_hist s" "bio_state.more (wakeup1 c s) = bio_state.more s"
  by (simp_all add: wakeup1_def)

lemma wakeup1_proc [simp]:
  "curproc (wakeup1 c s) = curproc s" "length (procs (wakeup1 c s)) = length (procs s)"
  by (simp_all add: wakeup1_def)

lemma upd_buf_fields [simp]:
  "bufs (upd_buf i f s) = (bufs s)[i := f (bufs s ! i)]" "lru (upd_buf i f s) = lru s"
  "idequeue (upd_buf i f s) = idequeue s" "disk (upd_buf i f s) = disk s"
  "havedisk1 (upd_buf i f s) = havedisk1 s" "ide_ok (upd_buf i f s) = ide_ok s"
  "procs (upd_buf i f s) = procs s" "curproc (upd_buf i f s) = curproc s"
  "bio_state.more (upd_buf i f s) = bio_state.more s" "disk_hist (upd_buf i f s) = disk_hist s"
  by (simp_all add: upd_buf_def)

lemma disk_write_fields [simp]:
  "bufs (disk_write dev bn d s) = bufs s" "lru (disk_write dev bn d s) = lru s"
  "idequeue (disk_write dev bn d s) = idequeue s" "procs (disk_write dev bn d s) = procs s"
  "havedisk1 (disk_write dev bn d s) = havedisk1 s" "ide_ok (disk_write dev bn d s) = ide_ok s"
  "curproc (disk_write dev bn d s) = curproc s"
  "bio_state.more (disk_write dev bn d s) = bio_state.more s"
  "disk_hist (disk_write dev bn d s) = disk_hist s @ [(dev mod 2, bn, d)]"
  "disk (disk_write dev bn d s) =
     (disk s)(dev mod 2 := (disk s (dev mod 2))(bn := d))"
  by (simp_all add: disk_write_def)

text \<open>The identity of the running process, which no operation of the cache changes.\<close>

definition me :: "'z proc_state_scheme \<Rightarrow> int" where
  "me s = p_pid (cur s)"

definition runs :: "'z proc_state_scheme \<Rightarrow> bool" where
  "runs s \<longleftrightarrow> curproc s < length (procs s)"

lemma me_wakeup1 [simp]: "runs s \<Longrightarrow> me (wakeup1 c s) = me s"
  by (simp add: me_def runs_def cur_def wakeup1_def wake_def)

lemma runs_wakeup1 [simp]: "runs (wakeup1 c s) = runs s"
  by (simp add: runs_def)

lemma me_upd_buf [simp]: "me (upd_buf i f s) = me s" "runs (upd_buf i f s) = runs s"
  by (simp_all add: me_def runs_def cur_def)

lemma me_disk_write [simp]: "me (disk_write dev bn d s) = me s" "runs (disk_write dev bn d s) = runs s"
  by (simp_all add: me_def runs_def cur_def)

lemma me_update [simp]:
  "me (s\<lparr>idequeue := q\<rparr>) = me s" "me (s\<lparr>lru := l\<rparr>) = me s"
  "runs (s\<lparr>idequeue := q\<rparr>) = runs s" "runs (s\<lparr>lru := l\<rparr>) = runs s"
  by (simp_all add: me_def runs_def cur_def)

section \<open>Running the driver\<close>

lemma idequeue_same: "idequeue s = [] \<Longrightarrow> s\<lparr>idequeue := []\<rparr> = s"
  by (cases s) simp

lemma iderw_read_run:
  assumes "i < length (bufs s)" and "b_lock (bufs s ! i) = \<lparr>sl_locked = True, sl_pid = me s\<rparr>"
    and "\<not> b_valid (bufs s ! i)" and "\<not> b_dirty (bufs s ! i)" and "idequeue s = []"
    and "b_blockno (bufs s ! i) < FSSIZE" and "havedisk1 s" and "ide_ok s"
  shows "iderw i s = Inr ((), wakeup1 (ChanBuf i) (upd_buf i (\<lambda>b. b\<lparr>b_data := disk s (b_dev b mod 2) (b_blockno b),
    b_valid := True, b_dirty := False\<rparr>) s))"
  using assms
  by (simp add: iderw_def Let_def kern_simps holdingsleep_def me_def idestart_def ideintr_def
      wakeup_run upd_buf_def idequeue_same)

lemma iderw_write_run:
  assumes "i < length (bufs s)" and "b_lock (bufs s ! i) = \<lparr>sl_locked = True, sl_pid = me s\<rparr>"
    and "b_dirty (bufs s ! i)" and "idequeue s = []"
    and "b_blockno (bufs s ! i) < FSSIZE" and "havedisk1 s"
  shows "iderw i s = Inr ((), wakeup1 (ChanBuf i) (upd_buf i (\<lambda>b. b\<lparr>b_valid := True, b_dirty := False\<rparr>)
    (disk_write (b_dev (bufs s ! i)) (b_blockno (bufs s ! i)) (b_data (bufs s ! i)) s)))"
  using assms
  by (simp add: iderw_def Let_def kern_simps holdingsleep_def me_def idestart_def ideintr_def
      wakeup_run upd_buf_def disk_write_def idequeue_same)

section \<open>The invariant of the cache\<close>

text \<open>
  Only the root device, number 1, is in use. A buffer that is not locked and not dirty holds what
  the disk holds; a dirty buffer is pinned; a block is cached at most once.
\<close>

definition buf_ok :: "'z bio_state_scheme \<Rightarrow> block_buffer \<Rightarrow> bool" where
  "buf_ok s b \<longleftrightarrow> (b_dirty b \<longrightarrow> b_valid b) \<and> (sl_locked (b_lock b) \<longrightarrow> 0 < b_refcnt b) \<and>
     (b_valid b \<longrightarrow> b_dev b = 1) \<and> (b_dev b = 1 \<and> \<not> sl_locked (b_lock b) \<longrightarrow> b_valid b) \<and>
     (b_valid b \<and> \<not> b_dirty b \<and> \<not> sl_locked (b_lock b) \<longrightarrow> b_data b = disk s 1 (b_blockno b))"

definition keys_unique :: "block_buffer list \<Rightarrow> bool" where
  "keys_unique bs \<longleftrightarrow> (\<forall>i<NBUF. \<forall>j<NBUF. b_dev (bs ! i) = 1 \<longrightarrow> b_dev (bs ! j) = 1 \<longrightarrow>
        b_blockno (bs ! i) = b_blockno (bs ! j) \<longrightarrow> i = j)"

definition bio_inv :: "'z bio_state_scheme \<Rightarrow> bool" where
  "bio_inv s \<longleftrightarrow> length (bufs s) = NBUF \<and> distinct (lru s) \<and> set (lru s) = {..<NBUF} \<and>
     idequeue s = [] \<and> havedisk1 s \<and> ide_ok s \<and> runs s \<and> (\<forall>b\<in>set (bufs s). buf_ok s b) \<and> keys_unique (bufs s)"

definition caches :: "nat \<Rightarrow> block_buffer \<Rightarrow> bool" where
  "caches bn b \<longleftrightarrow> b_dev b = 1 \<and> b_blockno b = bn"

text \<open>What a process sees of a block: the cached contents if there are any, else the disk's.\<close>

definition blk :: "'z bio_state_scheme \<Rightarrow> nat \<Rightarrow> byte list" where
  "blk s bn = (case find (\<lambda>b. b_valid b \<and> caches bn b) (bufs s) of
     Some b \<Rightarrow> b_data b | None \<Rightarrow> disk s 1 bn)"

definition held :: "'z bio_state_scheme \<Rightarrow> nat \<Rightarrow> nat \<Rightarrow> bool" where
  "held s i bn \<longleftrightarrow> i < NBUF \<and> caches bn (bufs s ! i) \<and> b_valid (bufs s ! i) \<and>
     b_lock (bufs s ! i) = \<lparr>sl_locked = True, sl_pid = me s\<rparr> \<and> 0 < b_refcnt (bufs s ! i)"

text \<open>A buffer that may be released: its changes are logged, or it has none.\<close>

definition settled :: "'z bio_state_scheme \<Rightarrow> nat \<Rightarrow> bool" where
  "settled s i \<longleftrightarrow> b_dirty (bufs s ! i) \<or> b_data (bufs s ! i) = disk s 1 (b_blockno (bufs s ! i))"

lemma bio_invD:
  assumes "bio_inv s"
  shows "length (bufs s) = NBUF" and "idequeue s = []" and "havedisk1 s" and "ide_ok s" and "runs s"
    and "set (lru s) = {..<NBUF}" and "distinct (lru s)"
  using assms by (auto simp: bio_inv_def)

lemma bio_inv_buf: "bio_inv s \<Longrightarrow> i < NBUF \<Longrightarrow> buf_ok s (bufs s ! i)"
  by (auto simp: bio_inv_def)

lemma bio_inv_unique:
  "bio_inv s \<Longrightarrow> i < NBUF \<Longrightarrow> j < NBUF \<Longrightarrow> caches bn (bufs s ! i) \<Longrightarrow> caches bn (bufs s ! j) \<Longrightarrow> i = j"
  by (auto simp: bio_inv_def keys_unique_def caches_def)

lemma blk_hit:
  assumes "bio_inv s" and "i < NBUF" and "b_valid (bufs s ! i)" and "caches bn (bufs s ! i)"
  shows "blk s bn = b_data (bufs s ! i)"
proof (cases "find (\<lambda>b. b_valid b \<and> caches bn b) (bufs s)")
  case None
  with assms bio_invD(1) [OF assms(1)] show ?thesis
    by (auto simp: find_None_iff in_set_conv_nth)
next
  case (Some b)
  then obtain j where "j < NBUF" "b = bufs s ! j" "caches bn b"
    using bio_invD(1) [OF assms(1)] by (auto simp: find_Some_iff)
  with Some bio_inv_unique [OF assms(1,2), of j bn] assms(4) show ?thesis
    by (auto simp: blk_def)
qed

lemma blk_miss: "(\<And>b. b \<in> set (bufs s) \<Longrightarrow> \<not> (b_valid b \<and> caches bn b)) \<Longrightarrow> blk s bn = disk s 1 bn"
  unfolding blk_def by (auto split: option.splits simp: find_Some_iff)

lemma blk_cases:
  assumes "length (bufs s) = NBUF"
  shows "(\<exists>i<NBUF. b_valid (bufs s ! i) \<and> caches bn (bufs s ! i)) \<or>
    (blk s bn = disk s 1 bn \<and> (\<forall>i<NBUF. \<not> (b_valid (bufs s ! i) \<and> caches bn (bufs s ! i))))"
  using assms blk_miss [of s bn] by (metis in_set_conv_nth)

text \<open>Changing one buffer.\<close>

lemma bio_inv_upd_buf:
  assumes "bio_inv s" and "i < NBUF" and "buf_ok s (f (bufs s ! i))"
    and "\<And>j bn. j < NBUF \<Longrightarrow> j \<noteq> i \<Longrightarrow> caches bn (f (bufs s ! i)) \<Longrightarrow> \<not> caches bn (bufs s ! j)"
  shows "bio_inv (upd_buf i f s)"
  unfolding bio_inv_def
proof (intro conjI ballI allI impI)
  fix b assume "b \<in> set (bufs (upd_buf i f s))"
  then consider "b = f (bufs s ! i)" | "b \<in> set (bufs s)"
    using set_update_subset_insert by fastforce
  then show "buf_ok (upd_buf i f s) b"
  proof cases
    case 1
    with assms(3) show ?thesis by (simp add: buf_ok_def)
  next
    case 2
    with assms(1) have "buf_ok s b" by (simp add: bio_inv_def)
    then show ?thesis by (simp add: buf_ok_def)
  qed
next
  show "keys_unique (bufs (upd_buf i f s))"
    unfolding keys_unique_def
  proof (intro allI impI)
    fix j k assume jk: "j < NBUF" "k < NBUF" "b_dev (bufs (upd_buf i f s) ! j) = 1"
      "b_dev (bufs (upd_buf i f s) ! k) = 1"
      "b_blockno (bufs (upd_buf i f s) ! j) = b_blockno (bufs (upd_buf i f s) ! k)"
    show "j = k"
      using jk assms(1) assms(4) [of j] assms(4) [of k]
      by (cases "j = i"; cases "k = i") (auto simp: bio_inv_def keys_unique_def caches_def)
  qed
qed (use assms(1) in \<open>auto simp: bio_inv_def\<close>)

lemma bio_inv_wakeup1 [simp]: "bio_inv (wakeup1 c s) = bio_inv s"
  by (simp add: bio_inv_def buf_ok_def)

lemma blk_wakeup1 [simp]: "blk (wakeup1 c s) = blk s"
  by (rule ext) (simp add: blk_def split: option.splits)

lemma held_wakeup1 [simp]: "runs s \<Longrightarrow> held (wakeup1 c s) i bn = held s i bn"
  by (simp add: held_def)

lemma blk_upd_buf:
  assumes "bio_inv s" and "bio_inv (upd_buf i f s)" and "i < NBUF"
    and "b_valid (f (bufs s ! i))" and "caches bn (f (bufs s ! i))"
    and "\<And>n. caches n (bufs s ! i) \<Longrightarrow> b_valid (bufs s ! i) \<Longrightarrow> n \<noteq> bn \<Longrightarrow> b_data (bufs s ! i) = disk s 1 n"
  shows "blk (upd_buf i f s) = (blk s)(bn := b_data (f (bufs s ! i)))"
proof (rule ext)
  fix n
  let ?t = "upd_buf i f s"
  have len: "length (bufs s) = NBUF" and len': "length (bufs ?t) = NBUF"
    using assms(1,2) by (auto dest: bio_invD)
  have new: "blk ?t bn = b_data (f (bufs s ! i))"
    using blk_hit [OF assms(2,3), of bn] assms(3-5) len by simp
  show "blk ?t n = ((blk s)(bn := b_data (f (bufs s ! i)))) n"
  proof (cases "n = bn")
    case False
    consider (hit) j where "j < NBUF" "b_valid (bufs s ! j)" "caches n (bufs s ! j)"
      | (miss) "blk s n = disk s 1 n" "\<forall>k<NBUF. \<not> (b_valid (bufs s ! k) \<and> caches n (bufs s ! k))"
      using blk_cases [OF len, of n] by blast
    then show ?thesis
    proof cases
      case (hit j)
      show ?thesis
      proof (cases "j = i")
        case True
        then have "blk s n = disk s 1 n"
          using assms(1,3,6) hit False blk_hit [OF assms(1) hit] by simp
        moreover have "blk ?t n = disk s 1 n"
        proof -
          have "\<not> caches n (bufs ?t ! k)" if "k < NBUF" for k
            using bio_inv_unique [OF assms(1), of k j n] that hit True False assms(5) len
            by (cases "k = i") (auto simp: caches_def)
          with blk_cases [OF len', of n] show ?thesis by auto
        qed
        ultimately show ?thesis using False by simp
      next
        case False
        then show ?thesis
          using blk_hit [OF assms(2) hit(1), of n] blk_hit [OF assms(1) hit] hit \<open>n \<noteq> bn\<close> by simp
      qed
    next
      case miss
      have "\<not> (b_valid (bufs ?t ! k) \<and> caches n (bufs ?t ! k))" if "k < NBUF" for k
        using assms(5) False miss(2) that len by (cases "k = i") (auto simp: caches_def)
      with blk_cases [OF len', of n] have "blk ?t n = disk ?t 1 n" by auto
      with miss False show ?thesis by simp
    qed
  qed (simp add: new)
qed

section \<open>The operations\<close>

text \<open>What stays the same in an operation of the cache on buffer \<open>i\<close>.\<close>

definition bio_frame :: "nat \<Rightarrow> 'z bio_state_scheme \<Rightarrow> 'z bio_state_scheme \<Rightarrow> bool" where
  "bio_frame i s s' \<longleftrightarrow> bio_state.more s' = bio_state.more s \<and> me s' = me s \<and>
     (\<forall>j. j \<noteq> i \<longrightarrow> bufs s' ! j = bufs s ! j)"

lemma bio_frame_upd_buf [simp]: "bio_frame i s (upd_buf i f s)"
  by (simp add: bio_frame_def)

lemma bio_frame_wakeup1 [simp]: "runs s' \<Longrightarrow> bio_frame i s (wakeup1 c s') = bio_frame i s s'"
  by (simp add: bio_frame_def)

lemma bio_frame_held: "bio_frame i s s' \<Longrightarrow> j \<noteq> i \<Longrightarrow> held s' j bn = held s j bn"
  by (simp add: bio_frame_def held_def)

lemma caches_same [simp]:
  "caches bn (b\<lparr>b_refcnt := r\<rparr>) = caches bn b" "caches bn (b\<lparr>b_lock := l\<rparr>) = caches bn b"
  "caches bn (b\<lparr>b_data := d\<rparr>) = caches bn b" "caches bn (b\<lparr>b_dirty := x\<rparr>) = caches bn b"
  "caches bn (b\<lparr>b_valid := v\<rparr>) = caches bn b"
  by (simp_all add: caches_def)

lemma find_lru:
  assumes "bio_inv s"
  shows "find P (lru s) = Some i \<Longrightarrow> i < NBUF \<and> P i"
    and "find P (lru s) = None \<Longrightarrow> j < NBUF \<Longrightarrow> \<not> P j"
    and "find P (rev (lru s)) = Some i \<Longrightarrow> i < NBUF \<and> P i"
    and "find P (rev (lru s)) = None \<Longrightarrow> j < NBUF \<Longrightarrow> \<not> P j"
proof -
  have set: "set (lru s) = {..<NBUF}" "set (rev (lru s)) = {..<NBUF}"
    using bio_invD(6) [OF assms] by auto
  show "find P (lru s) = Some i \<Longrightarrow> i < NBUF \<and> P i"
    and "find P (rev (lru s)) = Some i \<Longrightarrow> i < NBUF \<and> P i"
    unfolding find_Some_iff using set by (metis lessThan_iff nth_mem)+
  show "find P (lru s) = None \<Longrightarrow> j < NBUF \<Longrightarrow> \<not> P j"
    and "find P (rev (lru s)) = None \<Longrightarrow> j < NBUF \<Longrightarrow> \<not> P j"
    unfolding find_None_iff using set by auto
qed

lemma block_get_returns:
  assumes "bio_inv s" and "block_get 1 bn s = Inr (i, s')"
  shows "i < NBUF \<and> \<not> sl_locked (b_lock (bufs s ! i)) \<and>
    ((caches bn (bufs s ! i) \<and>
      s' = upd_buf i (\<lambda>b. b\<lparr>b_refcnt := b_refcnt b + 1, b_lock := \<lparr>sl_locked = True, sl_pid = me s\<rparr>\<rparr>) s) \<or>
     ((\<forall>j<NBUF. \<not> caches bn (bufs s ! j)) \<and> \<not> b_dirty (bufs s ! i) \<and> b_refcnt (bufs s ! i) = 0 \<and>
      s' = upd_buf i (\<lambda>b. b\<lparr>b_dev := 1, b_blockno := bn, b_valid := False, b_dirty := False,
        b_refcnt := 1, b_lock := \<lparr>sl_locked = True, sl_pid = me s\<rparr>\<rparr>) s))"
proof (cases "find (\<lambda>i. b_dev (bufs s ! i) = 1 \<and> b_blockno (bufs s ! i) = bn) (lru s)")
  case (Some k)
  with find_lru(1) [OF assms(1) Some] assms(2) bio_invD(1) [OF assms(1)] show ?thesis
    by (auto simp: block_get_def acquiresleep_buf_def bindk_eq_Inr thenk_eq_Inr caches_def
             upd_buf_def me_def cur_def split: if_splits)
next
  case None
  then have miss: "\<forall>j<NBUF. \<not> caches bn (bufs s ! j)"
    using find_lru(2) [OF assms(1) None] by (auto simp: caches_def)
  show ?thesis
  proof (cases "find (\<lambda>i. b_refcnt (bufs s ! i) = 0 \<and> \<not> b_dirty (bufs s ! i)) (rev (lru s))")
    case (Some k)
    note k = find_lru(3) [OF assms(1) Some]
    then have "\<not> sl_locked (b_lock (bufs s ! k))"
      using bio_inv_buf [OF assms(1), of k] by (auto simp: buf_ok_def)
    with k miss None Some assms(2) bio_invD(1) [OF assms(1)] show ?thesis
      by (auto simp: block_get_def acquiresleep_buf_def bindk_eq_Inr thenk_eq_Inr
               upd_buf_def me_def cur_def split: if_splits)
  qed (use None assms(2) in \<open>auto simp: block_get_def bindk_eq_Inr\<close>)
qed

lemma block_read_spec:
  assumes inv: "bio_inv s" and bn: "bn < FSSIZE" and read: "block_read 1 bn s = Inr (i, s')"
  shows "bio_inv s' \<and> held s' i bn \<and> settled s' i \<and> bio_frame i s s' \<and> lru s' = lru s \<and>
    \<not> sl_locked (b_lock (bufs s ! i)) \<and> b_data (bufs s' ! i) = blk s bn \<and>
    (b_dirty (bufs s' ! i) \<longleftrightarrow> caches bn (bufs s ! i) \<and> b_dirty (bufs s ! i)) \<and>
    (b_dirty (bufs s ! i) \<longrightarrow> caches bn (bufs s ! i)) \<and>
    b_refcnt (bufs s' ! i) = b_refcnt (bufs s ! i) + 1 \<and>
    blk s' = blk s \<and> disk s' = disk s \<and> disk_hist s' = disk_hist s"
proof -
  obtain s1 where get: "block_get 1 bn s = Inr (i, s1)"
    and rest: "(if b_valid (bufs s1 ! i) then returnk () else iderw i) s1 = Inr ((), s')"
    using read by (auto simp: block_read_def bindk_eq_Inr thenk_eq_Inr split: if_splits)
  note g = block_get_returns [OF inv get]
  have i: "i < NBUF" "\<not> sl_locked (b_lock (bufs s ! i))" using g by auto
  have len: "length (bufs s) = NBUF" using inv by (rule bio_invD)
  have ok: "buf_ok s (bufs s ! i)" using inv i(1) by (rule bio_inv_buf)
  show ?thesis
  proof (cases "caches bn (bufs s ! i)")
    case True
    let ?f = "\<lambda>b. b\<lparr>b_refcnt := b_refcnt b + 1, b_lock := \<lparr>sl_locked = True, sl_pid = me s\<rparr>\<rparr>"
    have s1: "s1 = upd_buf i ?f s" using g True i(1) by blast
    have valid: "b_valid (bufs s ! i)"
      using ok i(2) True by (auto simp: buf_ok_def caches_def)
    with rest s1 i len have s': "s' = upd_buf i ?f s" by simp
    have inv': "bio_inv s'"
      unfolding s' using inv i True ok
      by (intro bio_inv_upd_buf) (auto simp: buf_ok_def dest: bio_inv_unique [OF inv])
    have "blk s' = (blk s)(bn := b_data (?f (bufs s ! i)))"
      unfolding s' using inv inv' i valid True s'
      by (intro blk_upd_buf) (auto simp: caches_def)
    moreover have "blk s bn = b_data (bufs s ! i)"
      using blk_hit [OF inv i(1) valid True] .
    ultimately show ?thesis
      using inv' s' i valid True ok len
      by (auto simp: held_def settled_def buf_ok_def caches_def)
  next
    case False
    let ?g = "\<lambda>b. b\<lparr>b_dev := 1, b_blockno := bn, b_valid := False, b_dirty := False,
        b_refcnt := 1, b_lock := \<lparr>sl_locked = True, sl_pid = me s\<rparr>\<rparr>"
    have s1: "s1 = upd_buf i ?g s" and miss: "\<forall>j<NBUF. \<not> caches bn (bufs s ! j)"
      and clean: "\<not> b_dirty (bufs s ! i)" and ref: "b_refcnt (bufs s ! i) = 0" using g False by blast+
    let ?f = "\<lambda>b. (?g b)\<lparr>b_data := disk s 1 bn, b_valid := True, b_dirty := False\<rparr>"
    have "iderw i s1 = Inr ((), wakeup1 (ChanBuf i) (upd_buf i (\<lambda>b. b\<lparr>b_data := disk s1 (b_dev b mod 2)
        (b_blockno b), b_valid := True, b_dirty := False\<rparr>) s1))"
      using s1 i len bn inv by (intro iderw_read_run) (auto simp: bio_inv_def)
    then have s': "s' = wakeup1 (ChanBuf i) (upd_buf i ?f s)"
      using rest s1 i len by (simp add: upd_buf_def)
    have inv': "bio_inv (upd_buf i ?f s)"
      using inv i miss by (intro bio_inv_upd_buf) (auto simp: buf_ok_def caches_def)
    have "blk (upd_buf i ?f s) = (blk s)(bn := b_data (?f (bufs s ! i)))"
      using inv inv' i miss clean ok
      by (intro blk_upd_buf) (auto simp: caches_def buf_ok_def)
    moreover have "blk s bn = disk s 1 bn"
      using blk_cases [OF len, of bn] miss by auto
    ultimately show ?thesis
      using inv' s' i len clean ref bio_invD(5) [OF inv]
      by (auto simp: held_def settled_def caches_def)
  qed
qed

text \<open>
  A read succeeds when the block's buffer is not locked and, if the block is not cached, some
  buffer is neither in use nor dirty.
\<close>

definition can_read :: "'z bio_state_scheme \<Rightarrow> nat \<Rightarrow> bool" where
  "can_read s bn \<longleftrightarrow>
     (\<exists>i<NBUF. caches bn (bufs s ! i) \<and> \<not> sl_locked (b_lock (bufs s ! i))) \<or>
     ((\<forall>i<NBUF. \<not> caches bn (bufs s ! i)) \<and>
      (\<exists>i<NBUF. b_refcnt (bufs s ! i) = 0 \<and> \<not> b_dirty (bufs s ! i)))"

lemma block_get_total:
  assumes inv: "bio_inv s" and "can_read s bn"
  shows "\<exists>i s'. block_get 1 bn s = Inr (i, s')"
proof (cases "find (\<lambda>i. b_dev (bufs s ! i) = 1 \<and> b_blockno (bufs s ! i) = bn) (lru s)")
  case (Some k)
  note k = find_lru(1) [OF inv Some]
  then have ck: "caches bn (bufs s ! k)" by (simp add: caches_def)
  obtain j where j: "j < NBUF" "caches bn (bufs s ! j)" "\<not> sl_locked (b_lock (bufs s ! j))"
    using assms(2) k ck unfolding can_read_def by blast
  with bio_inv_unique [OF inv, of k j bn] k ck have "\<not> sl_locked (b_lock (bufs s ! k))" by simp
  with Some k bio_invD(1) [OF inv] show ?thesis
    by (simp add: block_get_def acquiresleep_buf_def kern_simps)
next
  case None
  then have "\<forall>j<NBUF. \<not> caches bn (bufs s ! j)"
    using find_lru(2) [OF inv None] by (auto simp: caches_def)
  then obtain j where j: "j < NBUF" "b_refcnt (bufs s ! j) = 0 \<and> \<not> b_dirty (bufs s ! j)"
    using assms(2) by (auto simp: can_read_def)
  show ?thesis
  proof (cases "find (\<lambda>i. b_refcnt (bufs s ! i) = 0 \<and> \<not> b_dirty (bufs s ! i)) (rev (lru s))")
    case (Some k)
    note k = find_lru(3) [OF inv Some]
    then have "\<not> sl_locked (b_lock (bufs s ! k))"
      using bio_inv_buf [OF inv, of k] by (auto simp: buf_ok_def)
    with k None Some bio_invD(1) [OF inv] show ?thesis
      by (simp add: block_get_def acquiresleep_buf_def kern_simps)
  qed (use find_lru(4) [OF inv, of "\<lambda>i. b_refcnt (bufs s ! i) = 0 \<and> \<not> b_dirty (bufs s ! i)"] j in blast)
qed

lemma block_read_total:
  assumes inv: "bio_inv s" and bn: "bn < FSSIZE" and "can_read s bn"
  shows "\<exists>i s'. block_read 1 bn s = Inr (i, s')"
proof -
  obtain i s1 where get: "block_get 1 bn s = Inr (i, s1)"
    using block_get_total [OF inv assms(3)] by blast
  note g = block_get_returns [OF inv get]
  have "\<exists>u s'. (if \<not> b_valid (bufs s1 ! i) then iderw i else returnk ()) s1 = Inr (u, s')"
  proof (cases "b_valid (bufs s1 ! i)")
    case False
    then have "\<not> b_valid (bufs s ! i) \<or> \<not> caches bn (bufs s ! i)"
      using g bio_invD(1) [OF inv] by auto
    then have miss: "\<not> caches bn (bufs s ! i)"
      using g bio_inv_buf [OF inv, of i] by (auto simp: buf_ok_def caches_def)
    have "iderw i s1 = Inr ((), wakeup1 (ChanBuf i) (upd_buf i (\<lambda>b. b\<lparr>b_data := disk s1 (b_dev b mod 2)
        (b_blockno b), b_valid := True, b_dirty := False\<rparr>) s1))"
      using g miss bn inv by (intro iderw_read_run) (auto simp: bio_inv_def)
    with False show ?thesis by simp
  qed (simp add: returnk_def)
  then obtain u s' where "(if \<not> b_valid (bufs s1 ! i) then iderw i else returnk ()) s1 = Inr (u, s')"
    by blast
  with get show ?thesis
    by (simp add: block_read_def bindk_def thenk_def getk_def returnk_def)
qed

text \<open>Changing the data of a buffer one holds, as \<^verbatim>\<open>memmove(bp->data, ...)\<close> does.\<close>

definition set_data :: "nat \<Rightarrow> byte list \<Rightarrow> ('z bio_state_scheme, unit) kern" where
  "set_data i d = modk (upd_buf i (\<lambda>b. b\<lparr>b_data := d\<rparr>))"

lemma held_data: "bio_inv s \<Longrightarrow> held s i bn \<Longrightarrow> b_data (bufs s ! i) = blk s bn"
  using blk_hit [of s i bn] by (auto simp: held_def)

lemma set_data_spec:
  assumes inv: "bio_inv s" and held: "held s i bn"
  shows "\<exists>s'. set_data i d s = Inr ((), s') \<and> bio_inv s' \<and> held s' i bn \<and> bio_frame i s s' \<and>
    lru s' = lru s \<and> b_data (bufs s' ! i) = d \<and> b_dirty (bufs s' ! i) = b_dirty (bufs s ! i) \<and>
    b_refcnt (bufs s' ! i) = b_refcnt (bufs s ! i) \<and>
    blk s' = (blk s)(bn := d) \<and> disk s' = disk s \<and> disk_hist s' = disk_hist s"
proof -
  let ?f = "\<lambda>b. b\<lparr>b_data := d\<rparr>"
  have i: "i < NBUF" "caches bn (bufs s ! i)" "b_valid (bufs s ! i)" "sl_locked (b_lock (bufs s ! i))"
    using held by (auto simp: held_def)
  have inv': "bio_inv (upd_buf i ?f s)"
    using inv i bio_inv_buf [OF inv i(1)] bio_inv_unique [OF inv i(1)]
    by (intro bio_inv_upd_buf) (auto simp: buf_ok_def)
  have "blk (upd_buf i ?f s) = (blk s)(bn := b_data (?f (bufs s ! i)))"
    using inv inv' i by (intro blk_upd_buf) (auto simp: caches_def)
  with inv' held i bio_invD(1) [OF inv] show ?thesis
    by (auto simp: set_data_def kern_simps held_def)
qed

lemma block_write_spec:
  assumes inv: "bio_inv s" and held: "held s i bn" and bn: "bn < FSSIZE"
  shows "\<exists>s'. block_write i s = Inr ((), s') \<and> bio_inv s' \<and> held s' i bn \<and> settled s' i \<and>
    bio_frame i s s' \<and> lru s' = lru s \<and> b_data (bufs s' ! i) = b_data (bufs s ! i) \<and>
    \<not> b_dirty (bufs s' ! i) \<and> b_refcnt (bufs s' ! i) = b_refcnt (bufs s ! i) \<and> blk s' = blk s \<and>
    disk s' = (disk s)(1 := (disk s 1)(bn := b_data (bufs s ! i))) \<and>
    disk_hist s' = disk_hist s @ [(1, bn, b_data (bufs s ! i))]"
proof -
  let ?d = "b_data (bufs s ! i)"
  have i: "i < NBUF" "b_dev (bufs s ! i) = 1" "b_blockno (bufs s ! i) = bn" "b_valid (bufs s ! i)"
    "b_lock (bufs s ! i) = \<lparr>sl_locked = True, sl_pid = me s\<rparr>" "0 < b_refcnt (bufs s ! i)"
    using held by (auto simp: held_def caches_def)
  have len: "length (bufs s) = NBUF" using inv by (rule bio_invD)
  let ?s1 = "upd_buf i (\<lambda>b. b\<lparr>b_dirty := True\<rparr>) s"
  let ?t = "upd_buf i (\<lambda>b. b\<lparr>b_valid := True, b_dirty := False\<rparr>) (disk_write 1 bn ?d ?s1)"
  have rw: "iderw i ?s1 = Inr ((), wakeup1 (ChanBuf i) ?t)"
    using iderw_write_run [of i ?s1] i len bn inv by (simp add: bio_inv_def)
  have run: "block_write i s = Inr ((), wakeup1 (ChanBuf i) ?t)"
    unfolding block_write_def
    by (rule bindk_stepI [OF getk_run], rule thenk_stepI [where x = "()" and s' = s],
        (use i in \<open>simp add: kern_simps holdingsleep_def me_def\<close>),
        rule thenk_stepI [OF modk_run], rule rw)
  have nth: "bufs ?t ! j = (if j = i then (bufs s ! i)\<lparr>b_valid := True, b_dirty := False\<rparr> else bufs s ! j)"
    for j using i(1) len by simp
  have ok: "buf_ok ?t b" if "b \<in> set (bufs ?t)" for b
  proof -
    from that obtain j where j: "j < NBUF" "b = bufs ?t ! j"
      using len by (auto simp: in_set_conv_nth)
    show ?thesis
      using bio_inv_buf [OF inv j(1)] bio_inv_unique [OF inv i(1) j(1), of bn] i j(2) nth
      by (cases "j = i") (auto simp: buf_ok_def caches_def)
  qed
  have keys: "b_dev (bufs ?t ! j) = b_dev (bufs s ! j)" "b_blockno (bufs ?t ! j) = b_blockno (bufs s ! j)"
    for j using nth by auto
  have inv': "bio_inv ?t"
    unfolding bio_inv_def using inv ok keys by (auto simp: bio_inv_def keys_unique_def)
  have "blk ?t n = blk s n" for n
  proof (cases "\<exists>j<NBUF. b_valid (bufs s ! j) \<and> caches n (bufs s ! j)")
    case True
    then obtain j where j: "j < NBUF" "b_valid (bufs s ! j)" "caches n (bufs s ! j)" by blast
    then have "blk ?t n = b_data (bufs ?t ! j)"
      using nth keys by (intro blk_hit [OF inv' j(1)]) (auto simp: caches_def)
    with blk_hit [OF inv j] nth show ?thesis by simp
  next
    case False
    then have "n \<noteq> bn" using i by (auto simp: caches_def)
    moreover have "\<not> (\<exists>j<NBUF. b_valid (bufs ?t ! j) \<and> caches n (bufs ?t ! j))"
      using False nth i by (auto simp: caches_def)
    ultimately show ?thesis
      using blk_cases [of ?t n] blk_cases [of s n] False len by auto
  qed
  then have "blk ?t = blk s" by (rule ext)
  with run inv' i len nth bio_invD(5) [OF inv] show ?thesis
    by (auto simp: held_def settled_def caches_def bio_frame_def)
qed

lemma bio_inv_lru:
  "bio_inv s \<Longrightarrow> set l = {..<NBUF} \<Longrightarrow> distinct l \<Longrightarrow> bio_inv (s\<lparr>lru := l\<rparr>)"
  by (simp add: bio_inv_def buf_ok_def)

lemma blk_lru [simp]: "blk (s\<lparr>lru := l\<rparr>) = blk s"
  by (rule ext) (simp add: blk_def split: option.splits)

lemma block_release_spec:
  assumes inv: "bio_inv s" and held: "held s i bn" and settled: "settled s i"
  shows "\<exists>s'. block_release i s = Inr ((), s') \<and> bio_inv s' \<and> bio_frame i s s' \<and>
    bufs s' ! i = (bufs s ! i)\<lparr>b_lock := unlocked, b_refcnt := b_refcnt (bufs s ! i) - 1\<rparr> \<and>
    lru s' = (if b_refcnt (bufs s ! i) = 1 then i # remove1 i (lru s) else lru s) \<and>
    blk s' = blk s \<and> disk s' = disk s \<and> disk_hist s' = disk_hist s"
proof -
  let ?f = "\<lambda>b. b\<lparr>b_lock := unlocked, b_refcnt := b_refcnt b - 1\<rparr>"
  let ?t = "upd_buf i ?f (wakeup1 (ChanBufLock i) s)"
  have i: "i < NBUF" "caches bn (bufs s ! i)" "b_valid (bufs s ! i)"
    "b_lock (bufs s ! i) = \<lparr>sl_locked = True, sl_pid = me s\<rparr>" "0 < b_refcnt (bufs s ! i)"
    using held by (auto simp: held_def)
  have len: "length (bufs s) = NBUF" and runs: "runs s" using inv by (auto dest: bio_invD)
  let ?u = "if b_refcnt (bufs ?t ! i) = 0 then ?t\<lparr>lru := i # remove1 i (lru ?t)\<rparr> else ?t"
  have run: "block_release i s = Inr ((), ?u)"
    using i len by (simp add: block_release_def releasesleep_buf_def kern_simps holdingsleep_def me_def
        wakeup_run upd_buf_def wakeup1_def)
  have uniq: "\<not> caches m (bufs s ! j)" if "j < NBUF" "j \<noteq> i" "caches m (bufs s ! i)" for j m
    using bio_inv_unique [OF inv i(1)] that by blast
  have inv_t: "bio_inv ?t"
  proof (rule bio_inv_upd_buf)
    show "buf_ok (wakeup1 (ChanBufLock i) s) (?f (bufs (wakeup1 (ChanBufLock i) s) ! i))"
      using bio_inv_buf [OF inv i(1)] i settled
      by (auto simp: buf_ok_def settled_def unlocked_def)
  qed (use inv i uniq in simp_all)
  have blk_t: "blk ?t = (blk (wakeup1 (ChanBufLock i) s))(bn := b_data (?f (bufs s ! i)))"
    using inv inv_t i by (subst blk_upd_buf [where bn = bn]) (auto simp: caches_def)
  have lru: "set (i # remove1 i (lru s)) = {..<NBUF}" "distinct (i # remove1 i (lru s))"
    using bio_invD(6,7) [OF inv] i(1) by (auto simp: set_remove1_eq)
  have "bio_inv ?u"
    using inv_t bio_inv_lru [OF inv_t, of "i # remove1 i (lru s)"] lru by simp
  moreover have "blk ?u = blk s"
    using blk_t blk_hit [OF inv i(1,3,2)] fun_upd_idem [of "blk s" bn] by simp
  ultimately show ?thesis
    using run i len runs by (auto simp: bio_frame_def)
qed

section \<open>Properties\<close>

definition empty_buf :: block_buffer where
  "empty_buf = \<lparr>b_valid = False, b_dirty = False, b_dev = 0, b_blockno = 0, b_lock = unlocked,
     b_refcnt = 0, b_data = replicate BSIZE 0\<rparr>"

text \<open>An example state: an empty cache over a given disk.\<close>

definition bio_example :: "(nat \<Rightarrow> byte list) \<Rightarrow> bio_state" where
  "bio_example d = \<lparr>freelist = [], kernel_end = 0, available_memory = 0, kpdpt = 0, ptab = (\<lambda>_ _. 0),
     pdata = (\<lambda>_. []), procs = [blank_proc\<lparr>p_state := RUNNING, p_pid := 1\<rparr>], nextpid = 2,
     initproc = Some 0, curproc = 0, ticks = 0, bufs = replicate NBUF empty_buf, lru = rev [0..<NBUF],
     idequeue = [], disk = (\<lambda>_. d), havedisk1 = True, ide_ok = True, disk_hist = []\<rparr>"

lemma bio_example_inv: "bio_inv (bio_example d)"
  by (auto simp: bio_inv_def bio_example_def buf_ok_def empty_buf_def unlocked_def keys_unique_def runs_def)

lemma bio_example_can_read: "can_read (bio_example d) bn"
proof -
  have "\<exists>i. i < NBUF \<and> i = 0" by (simp add: NBUF_def)
  then show ?thesis
    by (auto simp: can_read_def bio_example_def caches_def empty_buf_def)
qed

lemma bio_example_blk: "blk (bio_example d) bn = d bn"
  by (subst blk_miss) (auto simp: bio_example_def empty_buf_def)

text \<open>
  C17: \<^verbatim>\<open>block_read\<close> keeps the cache coherent. It returns a buffer, locked for the caller, with the
  current contents of the block; no block's contents and no disk block change; the buffer it
  recycles, if any, was neither locked nor dirty; and it does return when the block's buffer is not
  locked and, for an uncached block, some buffer is free and clean.
\<close>

theorem block_read_coherent:
  assumes "bio_inv s" and "bn < FSSIZE"
  shows "(can_read s bn \<longrightarrow> (\<exists>i s'. block_read 1 bn s = Inr (i, s'))) \<and>
    (block_read 1 bn s = Inr (i, s') \<longrightarrow>
       bio_inv s' \<and> held s' i bn \<and> b_data (bufs s' ! i) = blk s bn \<and> blk s' = blk s \<and>
       disk s' = disk s \<and> \<not> sl_locked (b_lock (bufs s ! i)) \<and>
       (\<not> caches bn (bufs s ! i) \<longrightarrow> \<not> b_dirty (bufs s ! i)) \<and>
       (\<forall>j. j \<noteq> i \<longrightarrow> bufs s' ! j = bufs s ! j))"
  using block_read_total [OF assms] block_read_spec [OF assms, of i s']
  by (auto simp: bio_frame_def)

theorem block_read_coherent_witness:
  "\<exists>i s'. block_read 1 7 (bio_example (\<lambda>n. replicate BSIZE (of_nat n))) = Inr (i, s') \<and>
     b_data (bufs s' ! i) = replicate BSIZE 7"
proof -
  let ?s = "bio_example (\<lambda>n. replicate BSIZE (of_nat n))"
  have 7: "(7 :: nat) < FSSIZE" by (simp add: FSSIZE_def)
  then obtain i s' where r: "block_read 1 7 ?s = Inr (i, s')"
    using block_read_coherent [OF bio_example_inv] bio_example_can_read by blast
  then have "b_data (bufs s' ! i) = blk ?s 7"
    using block_read_coherent [OF bio_example_inv 7] by blast
  with r show ?thesis by (simp add: bio_example_blk)
qed

text \<open>
  C18: A block that is read, changed, written with \<^verbatim>\<open>block_write\<close> and released is on disk: the calls
  return, the disk then holds the new contents for that block and is otherwise unchanged, and the
  next reader of the block sees the new contents.
\<close>

theorem block_write_durable:
  assumes "bio_inv s" and "bn < FSSIZE" and "block_read 1 bn s = Inr (i, s1)"
  shows "\<exists>s2. thenk (set_data i d) (thenk (block_write i) (block_release i)) s1 = Inr ((), s2) \<and>
    bio_inv s2 \<and> disk s2 = (disk s)(1 := (disk s 1)(bn := d)) \<and> blk s2 = (blk s)(bn := d)"
proof -
  have 1: "bio_inv s1" "held s1 i bn" "blk s1 = blk s" "disk s1 = disk s"
    using block_read_spec [OF assms] by auto
  obtain s2 where 2: "set_data i d s1 = Inr ((), s2)" "bio_inv s2" "held s2 i bn"
    "b_data (bufs s2 ! i) = d" "blk s2 = (blk s)(bn := d)" "disk s2 = disk s"
    using set_data_spec [OF 1(1,2), of d] 1 by auto
  obtain s3 where 3: "block_write i s2 = Inr ((), s3)" "bio_inv s3" "held s3 i bn" "settled s3 i"
    "blk s3 = (blk s)(bn := d)" "disk s3 = (disk s)(1 := (disk s 1)(bn := d))"
    using block_write_spec [OF 2(2,3) assms(2)] 2 by auto
  obtain s4 where 4: "block_release i s3 = Inr ((), s4)" "bio_inv s4" "blk s4 = blk s3" "disk s4 = disk s3"
    using block_release_spec [OF 3(2-4)] by blast
  show ?thesis
    using 2(1) 3 4 by (auto simp: thenk_def bindk_def)
qed

theorem block_write_durable_witness:
  "\<exists>i s1 s2. block_read 1 5 (bio_example (\<lambda>_. replicate BSIZE 0)) = Inr (i, s1) \<and>
     thenk (set_data i (replicate BSIZE 9)) (thenk (block_write i) (block_release i)) s1 = Inr ((), s2) \<and>
     blk s2 5 = replicate BSIZE 9"
proof -
  let ?s = "bio_example (\<lambda>_. replicate BSIZE 0)"
  have 5: "(5 :: nat) < FSSIZE" by (simp add: FSSIZE_def)
  obtain i s1 where r: "block_read 1 5 ?s = Inr (i, s1)"
    using block_read_total [OF bio_example_inv 5 bio_example_can_read] by blast
  from block_write_durable [OF bio_example_inv 5 r, of "replicate BSIZE 9"] r show ?thesis
    by fastforce
qed

end
