(* ===== verification/Kern_Cache.thy ===== *)
theory Kern_Cache
  imports Kern_Bio
begin

text \<open>
  The block cache as the file system uses it: one process runs, the buffers it holds are known, and
  every other buffer is unreferenced. In such states a read returns as soon as a buffer is spare,
  and the effect of each operation is described by the contents of the blocks and the set of dirty
  blocks alone.
\<close>

definition dirty :: "'z bio_state_scheme \<Rightarrow> nat set" where
  "dirty s = {bn. \<exists>i<NBUF. caches bn (bufs s ! i) \<and> b_dirty (bufs s ! i)}"

definition sized :: "'z bio_state_scheme \<Rightarrow> bool" where
  "sized s \<longleftrightarrow> (\<forall>bn. length (blk s bn) = BSIZE \<and> length (disk s 1 bn) = BSIZE)"

text \<open>\<open>rest H s\<close>: exactly the buffers \<open>H\<close> are referenced, each once.\<close>

definition rest :: "nat set \<Rightarrow> 'z bio_state_scheme \<Rightarrow> bool" where
  "rest H s \<longleftrightarrow> bio_inv s \<and> sized s \<and> (\<forall>i<NBUF. b_refcnt (bufs s ! i) = (if i \<in> H then 1 else 0))"

lemma restD:
  assumes "rest H s"
  shows "bio_inv s" and "sized s" and "length (bufs s) = NBUF"
    and "i < NBUF \<Longrightarrow> b_refcnt (bufs s ! i) = (if i \<in> H then 1 else 0)"
    and "i < NBUF \<Longrightarrow> i \<notin> H \<Longrightarrow> \<not> sl_locked (b_lock (bufs s ! i))"
proof -
  show inv: "bio_inv s" using assms by (simp add: rest_def)
  show "sized s" using assms by (simp add: rest_def)
  show "length (bufs s) = NBUF" using inv by (rule bio_invD)
  show ref: "i < NBUF \<Longrightarrow> b_refcnt (bufs s ! i) = (if i \<in> H then 1 else 0)" for i
    using assms by (simp add: rest_def)
  show "i < NBUF \<Longrightarrow> i \<notin> H \<Longrightarrow> \<not> sl_locked (b_lock (bufs s ! i))" for i
    using bio_inv_buf [OF inv, of i] ref [of i] by (auto simp: buf_ok_def)
qed

lemma sizedD: "sized s \<Longrightarrow> length (blk s bn) = BSIZE" "sized s \<Longrightarrow> length (disk s 1 bn) = BSIZE"
  by (simp_all add: sized_def)

text \<open>A clean block that is not held is the same in the cache and on disk.\<close>

lemma clean_disk:
  assumes "rest H s" and "bn \<notin> dirty s" and "\<forall>i\<in>H. \<not> caches bn (bufs s ! i)"
  shows "blk s bn = disk s 1 bn"
proof -
  consider i where "i < NBUF" "b_valid (bufs s ! i)" "caches bn (bufs s ! i)" | "blk s bn = disk s 1 bn"
    using blk_cases [OF restD(3) [OF assms(1)], of bn] by blast
  then show ?thesis
  proof cases
    case 1
    then have "\<not> b_dirty (bufs s ! i)" "i \<notin> H" using assms(2,3) by (auto simp: dirty_def)
    with 1 restD(5) [OF assms(1) 1(1)] bio_inv_buf [OF restD(1) [OF assms(1)] 1(1)]
      blk_hit [OF restD(1) [OF assms(1)] 1] show ?thesis
      by (auto simp: buf_ok_def caches_def)
  qed
qed

lemma dirty_inj:
  assumes "bio_inv s"
  shows "card {i. i < NBUF \<and> b_dirty (bufs s ! i)} \<le> card (dirty s)" and "finite (dirty s)"
proof -
  have dev: "b_dev (bufs s ! i) = 1" if "i < NBUF" "b_dirty (bufs s ! i)" for i
    using bio_inv_buf [OF assms that(1)] that by (auto simp: buf_ok_def)
  have img: "dirty s = (\<lambda>i. b_blockno (bufs s ! i)) ` {i. i < NBUF \<and> b_dirty (bufs s ! i)}"
    using dev by (auto simp: dirty_def caches_def image_def)
  have "inj_on (\<lambda>i. b_blockno (bufs s ! i)) {i. i < NBUF \<and> b_dirty (bufs s ! i)}"
    using bio_inv_unique [OF assms] dev by (auto simp: inj_on_def caches_def)
  then show "card {i. i < NBUF \<and> b_dirty (bufs s ! i)} \<le> card (dirty s)"
    unfolding img by (simp add: card_image)
  show "finite (dirty s)" unfolding img by simp
qed

text \<open>A spare buffer exists when fewer than all buffers are dirty or held.\<close>

lemma spare_buffer:
  assumes "rest H s" and "finite H" and "card (dirty s) + card H < NBUF"
  shows "\<exists>i<NBUF. b_refcnt (bufs s ! i) = 0 \<and> \<not> b_dirty (bufs s ! i)"
proof (rule ccontr)
  assume "\<not> ?thesis"
  then have "{..<NBUF} \<subseteq> {i. i < NBUF \<and> b_dirty (bufs s ! i)} \<union> H"
    using restD(4) [OF assms(1)] by fastforce
  then have "card {..<NBUF} \<le> card ({i. i < NBUF \<and> b_dirty (bufs s ! i)} \<union> H)"
    using assms(2) by (intro card_mono) auto
  also have "\<dots> \<le> card {i. i < NBUF \<and> b_dirty (bufs s ! i)} + card H"
    by (rule card_Un_le)
  finally show False
    using dirty_inj(1) [OF restD(1) [OF assms(1)]] assms(3) by simp
qed

lemma rest_can_read:
  assumes "rest H s" and "finite H" and "\<forall>i\<in>H. \<not> caches bn (bufs s ! i)"
    and "bn \<in> dirty s \<or> card (dirty s) + card H < NBUF"
  shows "can_read s bn"
proof (cases "\<exists>i<NBUF. caches bn (bufs s ! i)")
  case True
  then obtain i where i: "i < NBUF" "caches bn (bufs s ! i)" by blast
  with assms(3) restD(5) [OF assms(1), of i] show ?thesis by (auto simp: can_read_def)
next
  case False
  then have "bn \<notin> dirty s" by (auto simp: dirty_def)
  with assms(4) spare_buffer [OF assms(1,2)] False show ?thesis by (auto simp: can_read_def)
qed

text \<open>What an operation of the cache leaves alone, for the layers above.\<close>

definition calm :: "'z bio_state_scheme \<Rightarrow> 'z bio_state_scheme \<Rightarrow> bool" where
  "calm s s' \<longleftrightarrow> bio_state.more s' = bio_state.more s \<and> me s' = me s"

lemma calm_refl [simp]: "calm s s"
  by (simp add: calm_def)

lemma calm_trans [trans]: "calm s t \<Longrightarrow> calm t u \<Longrightarrow> calm s u"
  by (simp add: calm_def)

lemma bio_frame_calm: "bio_frame i s s' \<Longrightarrow> calm s s'"
  by (simp add: bio_frame_def calm_def)

lemma sized_cong: "blk s' = blk s \<Longrightarrow> disk s' = disk s \<Longrightarrow> sized s' = sized s"
  by (simp add: sized_def)

lemma dirty_frame:
  assumes "bio_frame i s s'" and "i < NBUF" and "caches bn (bufs s' ! i)"
    and "b_dirty (bufs s ! i) \<longrightarrow> caches bn (bufs s ! i)"
  shows "b_dirty (bufs s' ! i) \<Longrightarrow> dirty s' = insert bn (dirty s)"
    and "bio_inv s \<Longrightarrow> \<not> b_dirty (bufs s' ! i) \<Longrightarrow> caches bn (bufs s ! i) \<Longrightarrow> dirty s' = dirty s - {bn}"
    and "\<not> b_dirty (bufs s' ! i) \<Longrightarrow> \<not> b_dirty (bufs s ! i) \<Longrightarrow> dirty s' = dirty s"
proof -
  have other: "bufs s' ! j = bufs s ! j" if "j \<noteq> i" for j
    using assms(1) that by (simp add: bio_frame_def)
  have iff: "x \<in> dirty s' \<longleftrightarrow> (x = bn \<and> b_dirty (bufs s' ! i)) \<or>
      (\<exists>j<NBUF. j \<noteq> i \<and> caches x (bufs s ! j) \<and> b_dirty (bufs s ! j))" for x
    using other assms(2,3) unfolding dirty_def
    by (auto simp: caches_def) metis+
  have iff0: "x \<in> dirty s \<longleftrightarrow> (x = bn \<and> b_dirty (bufs s ! i)) \<or>
      (\<exists>j<NBUF. j \<noteq> i \<and> caches x (bufs s ! j) \<and> b_dirty (bufs s ! j))" for x
    using assms(2,4) unfolding dirty_def by (auto simp: caches_def)
  show "b_dirty (bufs s' ! i) \<Longrightarrow> dirty s' = insert bn (dirty s)"
    using iff iff0 by auto
  show "\<not> b_dirty (bufs s' ! i) \<Longrightarrow> \<not> b_dirty (bufs s ! i) \<Longrightarrow> dirty s' = dirty s"
    using iff iff0 by auto
  assume inv: "bio_inv s" and clean: "\<not> b_dirty (bufs s' ! i)" and ci: "caches bn (bufs s ! i)"
  have "\<not> caches bn (bufs s ! j)" if "j < NBUF" "j \<noteq> i" for j
    using bio_inv_unique [OF inv assms(2) that(1) ci] that(2) by blast
  then show "dirty s' = dirty s - {bn}"
    using iff iff0 clean by auto
qed


section \<open>The operations\<close>

lemma block_read_recycles:
  assumes "bio_inv s" and "block_read 1 bn s = Inr (i, s')" and "\<not> caches bn (bufs s ! i)"
  shows "b_refcnt (bufs s ! i) = 0"
proof -
  obtain s1 where "block_get 1 bn s = Inr (i, s1)"
    using assms(2) by (auto simp: block_read_def bindk_eq_Inr thenk_eq_Inr)
  with block_get_returns [OF assms(1)] assms(3) show ?thesis by blast
qed

lemma rest_read:
  assumes rest: "rest H s" and H: "finite H" and bn: "bn < FSSIZE"
    and free: "\<forall>i\<in>H. \<not> caches bn (bufs s ! i)"
    and room: "bn \<in> dirty s \<or> card (dirty s) + card H < NBUF"
  shows "\<exists>i s'. block_read 1 bn s = Inr (i, s') \<and> i \<notin> H \<and> rest (insert i H) s' \<and> held s' i bn \<and>
    settled s' i \<and> b_data (bufs s' ! i) = blk s bn \<and> blk s' = blk s \<and> disk s' = disk s \<and>
    disk_hist s' = disk_hist s \<and> dirty s' = dirty s \<and> calm s s' \<and>
    (\<forall>j. j \<noteq> i \<longrightarrow> bufs s' ! j = bufs s ! j)"
proof -
  have inv: "bio_inv s" using rest by (rule restD)
  obtain i s' where run: "block_read 1 bn s = Inr (i, s')"
    using block_read_total [OF inv bn rest_can_read [OF rest H free room]] by blast
  note spec = block_read_spec [OF inv bn run]
  have i: "i < NBUF" using spec by (simp add: held_def)
  have fr: "bio_frame i s s'" using spec by blast
  have refs: "b_refcnt (bufs s' ! i) = b_refcnt (bufs s ! i) + 1" using spec by blast
  have ci: "caches bn (bufs s' ! i)" using spec by (simp add: held_def)
  have iH: "i \<notin> H"
  proof
    assume "i \<in> H"
    then have "b_refcnt (bufs s ! i) = 1" "\<not> caches bn (bufs s ! i)"
      using restD(4) [OF rest i] free by auto
    with block_read_recycles [OF inv run] show False by simp
  qed
  have dirty: "dirty s' = dirty s"
  proof (cases "b_dirty (bufs s' ! i)")
    case True
    then have "bn \<in> dirty s" using spec i by (auto simp: dirty_def)
    with True spec dirty_frame(1) [OF fr i ci] show ?thesis by auto
  next
    case False
    with spec dirty_frame(3) [OF fr i ci] show ?thesis by blast
  qed
  have other: "\<forall>j. j \<noteq> i \<longrightarrow> bufs s' ! j = bufs s ! j" using fr by (simp add: bio_frame_def)
  have "rest (insert i H) s'"
    unfolding rest_def
  proof (intro conjI allI impI)
    show "bio_inv s'" using spec by blast
    show "sized s'" using spec restD(2) [OF rest] sized_cong by blast
    fix j assume "j < NBUF"
    then show "b_refcnt (bufs s' ! j) = (if j \<in> insert i H then 1 else 0)"
      using refs other restD(4) [OF rest] i iH by (cases "j = i") auto
  qed
  then show ?thesis
    using run iH spec dirty other bio_frame_calm [OF fr] by blast
qed

lemma rest_set_data:
  assumes rest: "rest H s" and held: "held s i bn" and d: "length d = BSIZE"
  shows "\<exists>s'. set_data i d s = Inr ((), s') \<and> rest H s' \<and> held s' i bn \<and> b_data (bufs s' ! i) = d \<and>
    blk s' = (blk s)(bn := d) \<and> disk s' = disk s \<and> disk_hist s' = disk_hist s \<and> dirty s' = dirty s \<and>
    calm s s' \<and> (\<forall>j. j \<noteq> i \<longrightarrow> bufs s' ! j = bufs s ! j)"
proof -
  have inv: "bio_inv s" using rest by (rule restD)
  obtain s' where run: "set_data i d s = Inr ((), s')" and spec: "bio_inv s'" "held s' i bn"
    "bio_frame i s s'" "b_data (bufs s' ! i) = d" "b_dirty (bufs s' ! i) = b_dirty (bufs s ! i)"
    "b_refcnt (bufs s' ! i) = b_refcnt (bufs s ! i)" "blk s' = (blk s)(bn := d)" "disk s' = disk s"
    "disk_hist s' = disk_hist s"
    using set_data_spec [OF inv held, of d] by blast
  have i: "i < NBUF" "caches bn (bufs s ! i)" "caches bn (bufs s' ! i)"
    using held spec by (auto simp: held_def)
  have other: "\<forall>j. j \<noteq> i \<longrightarrow> bufs s' ! j = bufs s ! j" using spec by (simp add: bio_frame_def)
  have "bn \<in> dirty s" if "b_dirty (bufs s ! i)" using that i by (auto simp: dirty_def)
  then have "dirty s' = dirty s"
    using dirty_frame [OF spec(3) i(1,3)] i spec by (cases "b_dirty (bufs s ! i)") auto
  moreover have "b_refcnt (bufs s' ! j) = b_refcnt (bufs s ! j)" for j
    using spec other by (cases "j = i") auto
  then have "rest H s'"
    using rest spec d by (auto simp: rest_def sized_def)
  ultimately show ?thesis using run spec other bio_frame_calm [OF spec(3)] by blast
qed

lemma rest_write:
  assumes rest: "rest H s" and held: "held s i bn" and bn: "bn < FSSIZE"
  shows "\<exists>s'. block_write i s = Inr ((), s') \<and> rest H s' \<and> held s' i bn \<and> settled s' i \<and>
    b_data (bufs s' ! i) = blk s bn \<and> blk s' = blk s \<and>
    disk s' = (disk s)(1 := (disk s 1)(bn := blk s bn)) \<and>
    disk_hist s' = disk_hist s @ [(1, bn, blk s bn)] \<and> dirty s' = dirty s - {bn} \<and>
    calm s s' \<and> (\<forall>j. j \<noteq> i \<longrightarrow> bufs s' ! j = bufs s ! j)"
proof -
  have inv: "bio_inv s" using rest by (rule restD)
  have data: "b_data (bufs s ! i) = blk s bn" using held_data [OF inv held] .
  obtain s' where run: "block_write i s = Inr ((), s')" and spec: "bio_inv s'" "held s' i bn" "settled s' i"
    "bio_frame i s s'" "b_data (bufs s' ! i) = blk s bn" "\<not> b_dirty (bufs s' ! i)"
    "b_refcnt (bufs s' ! i) = b_refcnt (bufs s ! i)" "blk s' = blk s"
    "disk s' = (disk s)(1 := (disk s 1)(bn := blk s bn))"
    "disk_hist s' = disk_hist s @ [(1, bn, blk s bn)]"
    using block_write_spec [OF inv held bn] unfolding data by blast
  have i: "i < NBUF" "caches bn (bufs s ! i)" "caches bn (bufs s' ! i)"
    using held spec by (auto simp: held_def)
  have other: "\<forall>j. j \<noteq> i \<longrightarrow> bufs s' ! j = bufs s ! j" using spec by (simp add: bio_frame_def)
  have "dirty s' = dirty s - {bn}"
    using dirty_frame(2) [OF spec(4) i(1,3)] i(2) spec(6) inv by blast
  moreover have "b_refcnt (bufs s' ! j) = b_refcnt (bufs s ! j)" for j
    using spec other by (cases "j = i") auto
  then have "rest H s'"
    using rest spec by (auto simp: rest_def sized_def)
  ultimately show ?thesis using run spec other bio_frame_calm [OF spec(4)] by blast
qed

lemma rest_release:
  assumes rest: "rest H s" and held: "held s i bn" and settled: "settled s i" and H: "i \<in> H"
  shows "\<exists>s'. block_release i s = Inr ((), s') \<and> rest (H - {i}) s' \<and> blk s' = blk s \<and> disk s' = disk s \<and>
    disk_hist s' = disk_hist s \<and> dirty s' = dirty s \<and> calm s s' \<and> (\<forall>j. j \<noteq> i \<longrightarrow> bufs s' ! j = bufs s ! j)"
proof -
  have inv: "bio_inv s" using rest by (rule restD)
  obtain s' where run: "block_release i s = Inr ((), s')" and spec: "bio_inv s'" "bio_frame i s s'"
    "bufs s' ! i = (bufs s ! i)\<lparr>b_lock := unlocked, b_refcnt := b_refcnt (bufs s ! i) - 1\<rparr>"
    "blk s' = blk s" "disk s' = disk s" "disk_hist s' = disk_hist s"
    using block_release_spec [OF inv held settled] by blast
  have i: "i < NBUF" "caches bn (bufs s ! i)" using held by (auto simp: held_def)
  have other: "\<forall>j. j \<noteq> i \<longrightarrow> bufs s' ! j = bufs s ! j" using spec by (simp add: bio_frame_def)
  have "bn \<in> dirty s" if "b_dirty (bufs s ! i)" using that i by (auto simp: dirty_def)
  then have "dirty s' = dirty s"
    using dirty_frame [OF spec(2) i(1), of bn] i spec(3) by (cases "b_dirty (bufs s ! i)") auto
  moreover have "rest (H - {i}) s'"
    unfolding rest_def
  proof (intro conjI allI impI)
    show "sized s'" using spec restD(2) [OF rest] sized_cong by blast
    fix j assume "j < NBUF"
    then show "b_refcnt (bufs s' ! j) = (if j \<in> H - {i} then 1 else 0)"
      using spec(3) other restD(4) [OF rest] H by (cases "j = i") auto
  qed (rule spec(1))
  ultimately show ?thesis using run spec other bio_frame_calm [OF spec(2)] by blast
qed

text \<open>Buffers held besides the one that is worked on stay held.\<close>

lemma held_other:
  "calm s s' \<Longrightarrow> bufs s' ! j = bufs s ! j \<Longrightarrow> held s' j bn = held s j bn"
  by (simp add: calm_def held_def)

lemma settled_other:
  "bufs s' ! j = bufs s ! j \<Longrightarrow> disk s' 1 (b_blockno (bufs s ! j)) = disk s 1 (b_blockno (bufs s ! j)) \<Longrightarrow>
   settled s' j = settled s j"
  by (simp add: settled_def)

section \<open>Sequences of disk writes\<close>

definition replay :: "(nat \<times> nat \<times> byte list) list \<Rightarrow> (nat \<Rightarrow> byte list) \<Rightarrow> nat \<Rightarrow> byte list" where
  "replay W d = fold (\<lambda>(dev, bn, x) d. if dev = 1 then d(bn := x) else d) W d"

lemma replay_simps [simp]:
  "replay [] d = d" "replay ((dev, bn, x) # W) d = replay W (if dev = 1 then d(bn := x) else d)"
  "replay (V @ W) d = replay W (replay V d)"
  by (simp_all add: replay_def)

lemma replay_sized:
  "\<forall>w\<in>set W. length (snd (snd w)) = n \<Longrightarrow> (\<And>b. length (d b) = n) \<Longrightarrow> length (replay W d bn) = n"
  by (induction W arbitrary: d) auto

text \<open>\<open>effect W s s'\<close>: between the two states exactly the writes \<open>W\<close> reached cache and disk.\<close>

definition effect :: "(nat \<times> nat \<times> byte list) list \<Rightarrow> 'z bio_state_scheme \<Rightarrow> 'z bio_state_scheme \<Rightarrow> bool"
where
  "effect W s s' \<longleftrightarrow> blk s' = replay W (blk s) \<and> disk s' = (disk s)(1 := replay W (disk s 1)) \<and>
     disk_hist s' = disk_hist s @ W \<and> calm s s'"

lemma effect_trans: "effect V s t \<Longrightarrow> effect W t u \<Longrightarrow> effect (V @ W) s u"
  by (auto simp: effect_def intro: calm_trans)

lemma effect_refl: "effect [] s s"
  by (simp add: effect_def)

lemma rest_write_back:
  assumes rest: "rest {i, j} s" and "i \<noteq> j" and i: "held s i a" "settled s i" and j: "held s j b"
    and "a \<noteq> b" and b: "b < FSSIZE" and d: "length d = BSIZE"
  shows "\<exists>s'. thenk (set_data j d) (thenk (block_write j) (thenk (block_release i) (block_release j))) s =
      Inr ((), s') \<and> rest {} s' \<and> effect [(1, b, d)] s s' \<and> dirty s' = dirty s - {b}"
proof -
  obtain s1 where 1: "set_data j d s = Inr ((), s1)" "rest {i, j} s1" "held s1 j b" "blk s1 = (blk s)(b := d)"
    "disk s1 = disk s" "disk_hist s1 = disk_hist s" "dirty s1 = dirty s" "calm s s1"
    "\<forall>k. k \<noteq> j \<longrightarrow> bufs s1 ! k = bufs s ! k"
    using rest_set_data [OF rest j d] by blast
  obtain s2 where 2: "block_write j s1 = Inr ((), s2)" "rest {i, j} s2" "held s2 j b" "settled s2 j"
    "blk s2 = blk s1" "disk s2 = (disk s1)(1 := (disk s1 1)(b := blk s1 b))"
    "disk_hist s2 = disk_hist s1 @ [(1, b, blk s1 b)]" "dirty s2 = dirty s1 - {b}" "calm s1 s2"
    "\<forall>k. k \<noteq> j \<longrightarrow> bufs s2 ! k = bufs s1 ! k"
    using rest_write [OF 1(2,3) b] by blast
  have bi: "bufs s2 ! i = bufs s ! i" "calm s s2"
    using 1 2 \<open>i \<noteq> j\<close> calm_trans by auto
  have i2: "held s2 i a" "settled s2 i"
    using i held_other [OF bi(2,1)] settled_other [OF bi(1)] 1 2 \<open>a \<noteq> b\<close>
    by (auto simp: held_def caches_def)
  obtain s3 where 3: "block_release i s2 = Inr ((), s3)" "rest ({i, j} - {i}) s3" "blk s3 = blk s2"
    "disk s3 = disk s2" "disk_hist s3 = disk_hist s2" "dirty s3 = dirty s2" "calm s2 s3"
    "\<forall>k. k \<noteq> i \<longrightarrow> bufs s3 ! k = bufs s2 ! k"
    using rest_release [OF 2(2) i2] by blast
  have bj: "bufs s3 ! j = bufs s2 ! j" using 3(8) \<open>i \<noteq> j\<close> by simp
  have j3: "held s3 j b" "settled s3 j"
    using held_other [OF 3(7) bj] settled_other [OF bj] 2 3 by auto
  have "{i, j} - {i} = {j}" using \<open>i \<noteq> j\<close> by auto
  with 3 have r3: "rest {j} s3" by simp
  obtain s4 where 4: "block_release j s3 = Inr ((), s4)" "rest ({j} - {j}) s4" "blk s4 = blk s3"
    "disk s4 = disk s3" "disk_hist s4 = disk_hist s3" "dirty s4 = dirty s3" "calm s3 s4"
    using rest_release [OF r3 j3] by blast
  have "thenk (set_data j d) (thenk (block_write j) (thenk (block_release i) (block_release j))) s = Inr ((), s4)"
    using 1(1) 2(1) 3(1) 4(1) by (simp add: kern_simps)
  moreover have "effect [(1, b, d)] s s4"
    using 1 2 3 4 by (simp add: effect_def calm_def)
  ultimately show ?thesis using 1 2 3 4 by auto
qed

lemma rest_read2:
  assumes rest: "rest {} s" and ab: "a \<noteq> b" "a < FSSIZE" "b < FSSIZE"
    and room: "card (dirty s) < NBUF" "b \<in> dirty s \<or> dirty s = {}"
  shows "\<exists>i s1 j s2. block_read 1 a s = Inr (i, s1) \<and> block_read 1 b s1 = Inr (j, s2) \<and> i \<noteq> j \<and>
    rest {i, j} s2 \<and> held s2 i a \<and> settled s2 i \<and> held s2 j b \<and> settled s2 j \<and>
    effect [] s s2 \<and> dirty s2 = dirty s \<and> calm s s1"
proof -
  obtain i s1 where 1: "block_read 1 a s = Inr (i, s1)" "rest {i} s1" "held s1 i a" "settled s1 i"
    "blk s1 = blk s" "disk s1 = disk s" "disk_hist s1 = disk_hist s" "dirty s1 = dirty s" "calm s s1"
    using rest_read [OF rest _ ab(2)] room by auto
  have "\<forall>k\<in>{i}. \<not> caches b (bufs s1 ! k)" using 1(3) ab(1) by (auto simp: held_def caches_def)
  moreover have "b \<in> dirty s1 \<or> card (dirty s1) + card {i} < NBUF"
    using room 1 by (auto simp: NBUF_def)
  ultimately obtain j s2 where 2: "block_read 1 b s1 = Inr (j, s2)" "j \<notin> {i}" "rest (insert j {i}) s2"
    "held s2 j b" "settled s2 j" "blk s2 = blk s1" "disk s2 = disk s1" "disk_hist s2 = disk_hist s1"
    "dirty s2 = dirty s1" "calm s1 s2" "\<forall>k. k \<noteq> j \<longrightarrow> bufs s2 ! k = bufs s1 ! k"
    using rest_read [OF 1(2) _ ab(3)] by blast
  have bi: "bufs s2 ! i = bufs s1 ! i" using 2 by auto
  have "held s2 i a" "settled s2 i"
    using held_other [OF 2(10) bi] settled_other [OF bi] 1 2 by auto
  moreover have "effect [] s s2" using 1 2 by (simp add: effect_def calm_def)
  ultimately show ?thesis using 1 2 by (auto simp: insert_commute)
qed

text \<open>Reading a block, changing it and writing it straight to disk.\<close>

lemma rest_update:
  assumes rest: "rest {} s" and bn: "bn < FSSIZE" and room: "card (dirty s) < NBUF"
    and d: "length (f (blk s bn)) = BSIZE"
  shows "\<exists>i s1 s'. block_read 1 bn s = Inr (i, s1) \<and> b_data (bufs s1 ! i) = blk s bn \<and> calm s s1 \<and>
    thenk (set_data i (f (blk s bn))) (thenk (block_write i) (block_release i)) s1 = Inr ((), s') \<and>
    rest {} s' \<and> effect [(1, bn, f (blk s bn))] s s' \<and> dirty s' = dirty s - {bn}"
proof -
  let ?d = "f (blk s bn)"
  obtain i s1 where 1: "block_read 1 bn s = Inr (i, s1)" "rest {i} s1" "held s1 i bn"
    "b_data (bufs s1 ! i) = blk s bn" "blk s1 = blk s" "disk s1 = disk s" "disk_hist s1 = disk_hist s"
    "dirty s1 = dirty s" "calm s s1"
    using rest_read [OF rest _ bn] room by auto
  obtain s2 where 2: "set_data i ?d s1 = Inr ((), s2)" "rest {i} s2" "held s2 i bn" "blk s2 = (blk s1)(bn := ?d)"
    "disk s2 = disk s1" "disk_hist s2 = disk_hist s1" "dirty s2 = dirty s1" "calm s1 s2"
    using rest_set_data [OF 1(2,3) d] by blast
  obtain s3 where 3: "block_write i s2 = Inr ((), s3)" "rest {i} s3" "held s3 i bn" "settled s3 i"
    "blk s3 = blk s2" "disk s3 = (disk s2)(1 := (disk s2 1)(bn := blk s2 bn))"
    "disk_hist s3 = disk_hist s2 @ [(1, bn, blk s2 bn)]" "dirty s3 = dirty s2 - {bn}" "calm s2 s3"
    using rest_write [OF 2(2,3) bn] by blast
  obtain s4 where 4: "block_release i s3 = Inr ((), s4)" "rest ({i} - {i}) s4" "blk s4 = blk s3"
    "disk s4 = disk s3" "disk_hist s4 = disk_hist s3" "dirty s4 = dirty s3" "calm s3 s4"
    using rest_release [OF 3(2-4)] by blast
  have "thenk (set_data i ?d) (thenk (block_write i) (block_release i)) s1 = Inr ((), s4)"
    using 2(1) 3(1) 4(1) by (simp add: kern_simps)
  moreover have "effect [(1, bn, ?d)] s s4"
    using 1 2 3 4 by (simp add: effect_def calm_def)
  ultimately show ?thesis using 1 2 3 4 by auto
qed

end
