(* ===== verification/Kern_Log.thy ===== *)
theory Kern_Log
  imports Kern_Cache
begin

text \<open>
  The write-ahead log of \<^verbatim>\<open>kernel/log.c\<close> and the superblock it is described by.

  The in-memory header is the array of block numbers and the count; on disk it is a block that
  holds the count and the array as 64-bit little-endian integers. A system call that must wait
  for log space sleeps. The theorems describe a commit as a sequence of disk writes and show what
  recovery makes of any prefix of it.
\<close>

section \<open>Data\<close>

record superblock =
  sb_signature :: "byte list"
  sb_size :: nat
  sb_nblocks :: nat
  sb_ninodes :: nat
  sb_nlog :: nat
  sb_logstart :: nat
  sb_inodestart :: nat
  sb_bmapstart :: nat

record log_state = bio_state +
  l_start :: nat
  l_size :: nat
  l_outstanding :: nat
  l_committing :: bool
  l_dev :: nat
  l_n :: nat
  l_block :: "nat list"

definition ROOTDEV :: nat where "ROOTDEV = 1"
definition MAXOPBLOCKS :: nat where "MAXOPBLOCKS = 10"
definition LOGSIZE :: nat where "LOGSIZE = 30"

definition decode_superblock :: "byte list \<Rightarrow> superblock" where
  "decode_superblock d = \<lparr>sb_signature = take 8 d, sb_size = get_le 8 8 d, sb_nblocks = get_le 16 8 d,
     sb_ninodes = get_le 24 8 d, sb_nlog = get_le 32 8 d, sb_logstart = get_le 40 8 d,
     sb_inodestart = get_le 48 8 d, sb_bmapstart = get_le 56 8 d\<rparr>"

section \<open>Operations\<close>

definition read_superblock :: "nat \<Rightarrow> ('z bio_state_scheme, superblock) kern" where
  "read_superblock dev =
     bindk (block_read dev 1) (\<lambda>bp.
     bindk (getk (\<lambda>s. decode_superblock (b_data (bufs s ! bp)))) (\<lambda>sb.
       thenk (block_release bp) (returnk sb)))"

fun install_trans_loop :: "nat list \<Rightarrow> nat \<Rightarrow> ('z log_state_scheme, unit) kern" where
  "install_trans_loop [] pos = returnk ()"
| "install_trans_loop (dst # blocks) pos =
     bindk (getk l_dev) (\<lambda>dev.
     bindk (block_read dev pos) (\<lambda>lbuf.
     bindk (block_read dev dst) (\<lambda>dbuf.
     bindk (getk (\<lambda>s. b_data (bufs s ! lbuf))) (\<lambda>d.
       thenk (set_data dbuf d)
      (thenk (block_write dbuf)
      (thenk (block_release lbuf)
      (thenk (block_release dbuf)
       (install_trans_loop blocks (pos + 1)))))))))"

definition install_trans :: "('z log_state_scheme, unit) kern" where
  "install_trans =
     bindk (getk (\<lambda>s. take (l_n s) (l_block s))) (\<lambda>blocks.
     bindk (getk l_start) (\<lambda>start. install_trans_loop blocks (start + 1)))"

text \<open>\<open>read_head\<close> copies as many entries as the header on disk says, without a test of the bound.\<close>

definition read_head :: "('z log_state_scheme, unit) kern" where
  "read_head =
     bindk (getk l_dev) (\<lambda>dev. bindk (getk l_start) (\<lambda>start.
     bindk (block_read dev start) (\<lambda>buf.
     bindk (getk (\<lambda>s. b_data (bufs s ! buf))) (\<lambda>d.
       (let n = get_entry 0 d in
        thenk (assertk (n \<le> LOGSIZE) ''log header'')
       (thenk (modk (\<lambda>s. s\<lparr>l_n := n,
            l_block := map (\<lambda>i. get_entry (i + 1) d) [0..<n] @ drop n (l_block s)\<rparr>))
        (block_release buf)))))))"

definition encode_head :: "nat list \<Rightarrow> byte list \<Rightarrow> byte list" where
  "encode_head blocks d = put_entries 1 blocks (put_entry 0 (length blocks) d)"

definition write_head :: "('z log_state_scheme, unit) kern" where
  "write_head =
     bindk (getk l_dev) (\<lambda>dev. bindk (getk l_start) (\<lambda>start.
     bindk (getk (\<lambda>s. take (l_n s) (l_block s))) (\<lambda>blocks.
     bindk (block_read dev start) (\<lambda>buf.
     bindk (getk (\<lambda>s. b_data (bufs s ! buf))) (\<lambda>d.
       thenk (set_data buf (encode_head blocks d))
      (thenk (block_write buf)
       (block_release buf)))))))"

definition recover_from_log :: "('z log_state_scheme, unit) kern" where
  "recover_from_log =
     thenk read_head (thenk install_trans (thenk (modk (\<lambda>s. s\<lparr>l_n := 0\<rparr>)) write_head))"

definition initlog :: "nat \<Rightarrow> ('z log_state_scheme, unit) kern" where
  "initlog dev =
     bindk (read_superblock dev) (\<lambda>sb.
       thenk (modk (\<lambda>s. s\<lparr>l_start := sb_logstart sb, l_size := sb_nlog sb, l_dev := dev\<rparr>))
             recover_from_log)"

definition begin_op :: "('z log_state_scheme, unit) kern" where
  "begin_op =
     bindk (getk (\<lambda>s. s)) (\<lambda>s.
       if l_committing s then sleepk ChanLog
       else if l_n s + (l_outstanding s + 1) * MAXOPBLOCKS > LOGSIZE then sleepk ChanLog
       else modk (\<lambda>s. s\<lparr>l_outstanding := l_outstanding s + 1\<rparr>))"

fun write_log_loop :: "nat list \<Rightarrow> nat \<Rightarrow> ('z log_state_scheme, unit) kern" where
  "write_log_loop [] pos = returnk ()"
| "write_log_loop (src # blocks) pos =
     bindk (getk l_dev) (\<lambda>dev.
     bindk (block_read dev pos) (\<lambda>to.
     bindk (block_read dev src) (\<lambda>frm.
     bindk (getk (\<lambda>s. b_data (bufs s ! frm))) (\<lambda>d.
       thenk (set_data to d)
      (thenk (block_write to)
      (thenk (block_release frm)
      (thenk (block_release to)
       (write_log_loop blocks (pos + 1)))))))))"

definition write_log :: "('z log_state_scheme, unit) kern" where
  "write_log =
     bindk (getk (\<lambda>s. take (l_n s) (l_block s))) (\<lambda>blocks.
     bindk (getk l_start) (\<lambda>start. write_log_loop blocks (start + 1)))"

definition commit :: "('z log_state_scheme, unit) kern" where
  "commit =
     bindk (getk l_n) (\<lambda>n.
       if n > 0
       then thenk write_log (thenk write_head (thenk install_trans
              (thenk (modk (\<lambda>s. s\<lparr>l_n := 0\<rparr>)) write_head)))
       else returnk ())"

text \<open>\<^verbatim>\<open>log.outstanding\<close> is unsigned: the decrement in \<^verbatim>\<open>end_op\<close> without a \<^verbatim>\<open>begin_op\<close> wraps.\<close>

definition end_op :: "('z log_state_scheme, unit) kern" where
  "end_op =
     thenk (modk (\<lambda>s. s\<lparr>l_outstanding := usub (l_outstanding s) 1\<rparr>))
    (bindk (getk (\<lambda>s. s)) (\<lambda>s.
       if l_committing s then panick ''log.committing''
       else if l_outstanding s = 0
       then thenk (modk (\<lambda>s. s\<lparr>l_committing := True\<rparr>))
           (thenk commit
           (thenk (modk (\<lambda>s. s\<lparr>l_committing := False\<rparr>)) (wakeup ChanLog)))
       else wakeup ChanLog))"

definition log_write :: "nat \<Rightarrow> ('z log_state_scheme, unit) kern" where
  "log_write b =
     bindk (getk (\<lambda>s. s)) (\<lambda>s.
       if l_n s \<ge> LOGSIZE \<or> l_n s \<ge> usub (l_size s) 1 then panick ''too big a transaction''
       else if l_outstanding s < 1 then panick ''log_write outside of trans''
       else (let bn = b_blockno (bufs s ! b);
                 i = (case first_index ((=) bn) (take (l_n s) (l_block s)) of None \<Rightarrow> l_n s | Some k \<Rightarrow> k) in
             thenk (modk (\<lambda>s. s\<lparr>l_block := (l_block s)[i := bn],
                                l_n := (if i = l_n s then l_n s + 1 else l_n s)\<rparr>))
                   (modk (upd_buf b (\<lambda>b. b\<lparr>b_dirty := True\<rparr>)))))"

section \<open>The header block\<close>

lemma encode_head_read:
  assumes "length d = BSIZE" and "length bs \<le> LOGSIZE" and "\<forall>b\<in>set bs. b < FSSIZE"
  shows "get_entry 0 (encode_head bs d) = length bs"
    and "i < length bs \<Longrightarrow> get_entry (i + 1) (encode_head bs d) = bs ! i"
    and "length (encode_head bs d) = BSIZE"
proof -
  have small: "\<forall>v\<in>set bs. v < 2 ^ 64" using assms(3) by (force simp: FSSIZE_def)
  have len: "length bs < 2 ^ 64" using assms(2) by (simp add: LOGSIZE_def)
  show "get_entry 0 (encode_head bs d) = length bs"
    using assms small len by (simp add: encode_head_def get_put_entries get_put_entry BSIZE_def LOGSIZE_def)
  show "i < length bs \<Longrightarrow> get_entry (i + 1) (encode_head bs d) = bs ! i"
    using assms small by (simp add: encode_head_def get_put_entries BSIZE_def LOGSIZE_def)
  show "length (encode_head bs d) = BSIZE"
    using assms by (simp add: encode_head_def BSIZE_def LOGSIZE_def)
qed

definition header_blocks :: "byte list \<Rightarrow> nat list" where
  "header_blocks d = map (\<lambda>i. get_entry (i + 1) d) [0..<get_entry 0 d]"

lemma header_blocks_encode:
  assumes "length d = BSIZE" and "length bs \<le> LOGSIZE" and "\<forall>b\<in>set bs. b < FSSIZE"
  shows "header_blocks (encode_head bs d) = bs"
  using encode_head_read [OF assms] by (intro nth_equalityI) (auto simp: header_blocks_def)

section \<open>The loops\<close>

lemma calm_log:
  assumes "calm s s'"
  shows "l_start s' = l_start s" and "l_size s' = l_size s" and "l_outstanding s' = l_outstanding s"
    and "l_committing s' = l_committing s" and "l_dev s' = l_dev s" and "l_n s' = l_n s"
    and "l_block s' = l_block s" and "log_state.more s' = log_state.more s"
  using assms by (cases s; cases s'; simp add: calm_def)+

text \<open>The writes a commit issues for the log blocks and for the home locations.\<close>

fun log_writes :: "nat \<Rightarrow> nat list \<Rightarrow> (nat \<Rightarrow> byte list) \<Rightarrow> (nat \<times> nat \<times> byte list) list" where
  "log_writes pos [] c = []"
| "log_writes pos (b # bs) c = (1, pos, c b) # log_writes (pos + 1) bs c"

fun install_writes :: "nat \<Rightarrow> nat list \<Rightarrow> (nat \<Rightarrow> byte list) \<Rightarrow> (nat \<times> nat \<times> byte list) list" where
  "install_writes pos [] c = []"
| "install_writes pos (b # bs) c = (1, b, c pos) # install_writes (pos + 1) bs c"

lemma length_log_writes [simp]: "length (log_writes pos bs c) = length bs"
  by (induction bs arbitrary: pos) auto

lemma length_install_writes [simp]: "length (install_writes pos bs c) = length bs"
  by (induction bs arbitrary: pos) auto

lemma log_writes_cong: "(\<And>b. b \<in> set bs \<Longrightarrow> c b = c' b) \<Longrightarrow> log_writes pos bs c = log_writes pos bs c'"
  by (induction bs arbitrary: pos) auto

lemma install_writes_cong:
  "(\<And>i. i < length bs \<Longrightarrow> c (pos + i) = c' (pos + i)) \<Longrightarrow> install_writes pos bs c = install_writes pos bs c'"
proof (induction bs arbitrary: pos)
  case (Cons b bs)
  have "c pos = c' pos" using Cons.prems [of 0] by simp
  moreover have "install_writes (pos + 1) bs c = install_writes (pos + 1) bs c'"
    using Cons.prems [of "Suc _"] by (intro Cons.IH) simp
  ultimately show ?case by simp
qed simp

lemma take_install_writes: "take k (install_writes pos bs c) = install_writes pos (take k bs) c"
proof (induction bs arbitrary: pos k)
  case (Cons b bs)
  then show ?case by (cases k) auto
qed simp

lemma replay_log_writes:
  "replay (log_writes pos bs c) d x = (if pos \<le> x \<and> x < pos + length bs then c (bs ! (x - pos)) else d x)"
proof (induction bs arbitrary: pos d)
  case (Cons b bs)
  then show ?case by (cases "x = pos") (auto simp: nth_Cons')
qed auto

lemma replay_install_other: "x \<notin> set bs \<Longrightarrow> replay (install_writes pos bs c) d x = d x"
  by (induction bs arbitrary: pos d) auto

lemma replay_install_writes:
  "distinct bs \<Longrightarrow> i < length bs \<Longrightarrow> replay (install_writes pos bs c) d (bs ! i) = c (pos + i)"
proof (induction bs arbitrary: pos d i)
  case (Cons b bs)
  then show ?case
    using replay_install_other [of b bs] by (cases i) auto
qed simp

lemma write_log_loop_spec:
  assumes "rest {} s" and "l_dev s = 1" and "set bs \<subseteq> dirty s" and "card (dirty s) < NBUF"
    and "\<forall>b\<in>set bs. b < FSSIZE" and "pos + length bs \<le> FSSIZE"
    and "\<forall>b\<in>dirty s. b < pos \<or> pos + length bs \<le> b"
  shows "\<exists>s'. write_log_loop bs pos s = Inr ((), s') \<and> rest {} s' \<and> dirty s' = dirty s \<and>
    effect (log_writes pos bs (blk s)) s s'"
  using assms
proof (induction bs arbitrary: pos s)
  case (Cons b bs)
  have b: "b \<in> dirty s" "b < FSSIZE" "b \<noteq> pos" using Cons.prems by auto
  have pos: "pos < FSSIZE" "pos \<notin> dirty s" using Cons.prems by auto
  obtain i s1 j s2 where r: "block_read 1 pos s = Inr (i, s1)" "block_read 1 b s1 = Inr (j, s2)" "i \<noteq> j"
    "rest {i, j} s2" "held s2 i pos" "held s2 j b" "settled s2 j" "effect [] s s2" "dirty s2 = dirty s"
    using rest_read2 [OF Cons.prems(1), of pos b] b pos Cons.prems(4) by blast
  have d: "b_data (bufs s2 ! j) = blk s b"
    using held_data [OF restD(1) [OF r(4)] r(6)] r(8) by (simp add: effect_def)
  have rji: "rest {j, i} s2" using r(4) by (simp add: insert_commute)
  obtain s3 where w: "thenk (set_data i (blk s b)) (thenk (block_write i)
      (thenk (block_release j) (block_release i))) s2 = Inr ((), s3)"
    "rest {} s3" "effect [(1, pos, blk s b)] s2 s3" "dirty s3 = dirty s2 - {pos}"
    using rest_write_back [OF rji _ r(6,7,5), of "blk s b"] r(3) b pos
      sizedD(1) [OF restD(2) [OF Cons.prems(1)]] by blast
  have e: "effect [(1, pos, blk s b)] s s3" using effect_trans [OF r(8) w(3)] by simp
  have dirty3: "dirty s3 = dirty s" using w(4) r(9) pos(2) by auto
  have "l_dev s3 = 1" using e calm_log(5) [of s s3] Cons.prems(2) by (simp add: effect_def)
  then obtain s' where l: "write_log_loop bs (pos + 1) s3 = Inr ((), s')" "rest {} s'" "dirty s' = dirty s3"
    "effect (log_writes (pos + 1) bs (blk s3)) s3 s'"
    using Cons.IH [OF w(2), of "pos + 1"] Cons.prems dirty3 by force
  have "log_writes (pos + 1) bs (blk s3) = log_writes (pos + 1) bs (blk s)"
    using e pos(2) Cons.prems(3) by (intro log_writes_cong) (auto simp: effect_def)
  then have "effect (log_writes pos (b # bs) (blk s)) s s'"
    using effect_trans [OF e] l(4) by simp
  moreover have "write_log_loop (b # bs) pos s = Inr ((), s')"
    using r(1,2) w(1) l(1) d Cons.prems(2) by (auto simp: kern_simps split: sum.splits)
  ultimately show ?case using l dirty3 by auto
qed (simp add: kern_simps effect_refl)

lemma install_trans_loop_spec:
  assumes "rest {} s" and "l_dev s = 1" and "set bs \<subseteq> dirty s \<or> dirty s = {}" and "card (dirty s) < NBUF"
    and "\<forall>b\<in>set bs. b < FSSIZE \<and> (b < pos \<or> pos + length bs \<le> b)" and "pos + length bs \<le> FSSIZE"
    and "\<forall>b\<in>dirty s. b < pos \<or> pos + length bs \<le> b" and "distinct bs"
  shows "\<exists>s'. install_trans_loop bs pos s = Inr ((), s') \<and> rest {} s' \<and> dirty s' = dirty s - set bs \<and>
    effect (install_writes pos bs (blk s)) s s'"
  using assms
proof (induction bs arbitrary: pos s)
  case (Cons b bs)
  have b: "b \<in> dirty s \<or> dirty s = {}" "b < FSSIZE" "pos \<noteq> b" using Cons.prems by auto
  have pos: "pos < FSSIZE" using Cons.prems by auto
  obtain i s1 j s2 where r: "block_read 1 pos s = Inr (i, s1)" "block_read 1 b s1 = Inr (j, s2)" "i \<noteq> j"
    "rest {i, j} s2" "held s2 i pos" "settled s2 i" "held s2 j b" "effect [] s s2" "dirty s2 = dirty s"
    using rest_read2 [OF Cons.prems(1), of pos b] b pos Cons.prems(4) by blast
  have d: "b_data (bufs s2 ! i) = blk s pos"
    using held_data [OF restD(1) [OF r(4)] r(5)] r(8) by (simp add: effect_def)
  obtain s3 where w: "thenk (set_data j (blk s pos)) (thenk (block_write j)
      (thenk (block_release i) (block_release j))) s2 = Inr ((), s3)"
    "rest {} s3" "effect [(1, b, blk s pos)] s2 s3" "dirty s3 = dirty s2 - {b}"
    using rest_write_back [OF r(4,3,5-7), of "blk s pos"] b
      sizedD(1) [OF restD(2) [OF Cons.prems(1)]] by blast
  have e: "effect [(1, b, blk s pos)] s s3" using effect_trans [OF r(8) w(3)] by simp
  have dirty3: "dirty s3 = dirty s - {b}" using w(4) r(9) by simp
  have dev: "l_dev s3 = 1" using e calm_log(5) [of s s3] Cons.prems(2) by (simp add: effect_def)
  have "card (dirty s3) < NBUF"
    using Cons.prems(4) dirty3 dirty_inj(2) [OF restD(1) [OF Cons.prems(1)]]
    by (metis card_Diff1_le order_le_less_trans)
  then obtain s' where l: "install_trans_loop bs (pos + 1) s3 = Inr ((), s')" "rest {} s'"
    "dirty s' = dirty s3 - set bs" "effect (install_writes (pos + 1) bs (blk s3)) s3 s'"
    using Cons.IH [OF w(2) dev, of "pos + 1"] Cons.prems dirty3 by force
  have "blk s3 = (blk s)(b := blk s pos)" using e by (simp add: effect_def)
  then have "install_writes (pos + 1) bs (blk s3) = install_writes (pos + 1) bs (blk s)"
    using Cons.prems(5) by (intro install_writes_cong) auto
  then have "effect (install_writes pos (b # bs) (blk s)) s s'"
    using effect_trans [OF e] l(4) by simp
  moreover have "install_trans_loop (b # bs) pos s = Inr ((), s')"
    using r(1,2) w(1) l(1) d Cons.prems(2) by (auto simp: kern_simps split: sum.splits)
  ultimately show ?case using l dirty3 by auto
qed (simp add: kern_simps effect_refl)

section \<open>The invariant\<close>

definition logged :: "'z log_state_scheme \<Rightarrow> nat list" where
  "logged s = take (l_n s) (l_block s)"

definition log_area :: "'z log_state_scheme \<Rightarrow> nat set" where
  "log_area s = {l_start s..<l_start s + l_size s}"

text \<open>The shape of the log: where it is on disk and how large it is.\<close>

definition log_shape :: "'z log_state_scheme \<Rightarrow> bool" where
  "log_shape s \<longleftrightarrow> l_dev s = 1 \<and> length (l_block s) = LOGSIZE \<and> 0 < l_size s \<and> l_size s \<le> LOGSIZE \<and>
     l_start s + l_size s \<le> FSSIZE"

text \<open>
  Between commits the blocks in the header are the dirty blocks of the cache, none of them in the
  log itself, and the header on disk is empty.
\<close>

definition log_inv :: "nat set \<Rightarrow> 'z log_state_scheme \<Rightarrow> bool" where
  "log_inv H s \<longleftrightarrow> rest H s \<and> log_shape s \<and> l_n s < l_size s \<and> distinct (logged s) \<and>
     set (logged s) = dirty s \<and> (\<forall>b\<in>dirty s. b < FSSIZE \<and> b \<notin> log_area s) \<and>
     get_entry 0 (disk s 1 (l_start s)) = 0"

lemma log_invD:
  assumes "log_inv H s"
  shows "rest H s" and "log_shape s" and "l_n s < l_size s" and "distinct (logged s)"
    and "set (logged s) = dirty s" and "b \<in> dirty s \<Longrightarrow> b < FSSIZE" and "b \<in> dirty s \<Longrightarrow> b \<notin> log_area s"
    and "get_entry 0 (disk s 1 (l_start s)) = 0" and "l_n s < LOGSIZE" and "length (logged s) = l_n s"
    and "card (dirty s) = l_n s"
proof -
  show shape: "rest H s" "log_shape s" "l_n s < l_size s" "distinct (logged s)" "set (logged s) = dirty s"
    "b \<in> dirty s \<Longrightarrow> b < FSSIZE" "b \<in> dirty s \<Longrightarrow> b \<notin> log_area s" "get_entry 0 (disk s 1 (l_start s)) = 0"
    using assms by (auto simp: log_inv_def)
  then show n: "l_n s < LOGSIZE" by (auto simp: log_shape_def)
  then show len: "length (logged s) = l_n s" using shape(2) by (simp add: logged_def log_shape_def)
  show "card (dirty s) = l_n s"
    using distinct_card [OF shape(4)] shape(5) len by simp
qed

text \<open>The fields that no operation inside a transaction changes.\<close>

definition lcalm :: "'z log_state_scheme \<Rightarrow> 'z log_state_scheme \<Rightarrow> bool" where
  "lcalm s s' \<longleftrightarrow> log_state.more s' = log_state.more s \<and> me s' = me s \<and> l_start s' = l_start s \<and>
     l_size s' = l_size s \<and> l_dev s' = l_dev s \<and> l_outstanding s' = l_outstanding s \<and>
     l_committing s' = l_committing s"

lemma lcalm_refl [simp]: "lcalm s s"
  by (simp add: lcalm_def)

lemma lcalm_trans [trans]: "lcalm s t \<Longrightarrow> lcalm t u \<Longrightarrow> lcalm s u"
  by (simp add: lcalm_def)

lemma calm_lcalm: "calm s s' \<Longrightarrow> lcalm s s'"
  using calm_log [of s s'] by (auto simp: lcalm_def calm_def)

definition leffect :: "(nat \<times> nat \<times> byte list) list \<Rightarrow> 'z log_state_scheme \<Rightarrow> 'z log_state_scheme \<Rightarrow> bool"
where
  "leffect W s s' \<longleftrightarrow> blk s' = replay W (blk s) \<and> disk s' = (disk s)(1 := replay W (disk s 1)) \<and>
     disk_hist s' = disk_hist s @ W \<and> lcalm s s'"

lemma effect_leffect: "effect W s s' \<Longrightarrow> leffect W s s'"
  by (simp add: effect_def leffect_def calm_lcalm)

lemma leffect_trans: "leffect V s t \<Longrightarrow> leffect W t u \<Longrightarrow> leffect (V @ W) s u"
  by (auto simp: leffect_def intro: lcalm_trans)

lemma me_log_update [simp]:
  "me (s\<lparr>l_n := n\<rparr>) = me s" "me (s\<lparr>l_block := bs\<rparr>) = me s" "me (s\<lparr>l_outstanding := k\<rparr>) = me s"
  "me (s\<lparr>l_committing := c\<rparr>) = me s" "me (s\<lparr>l_start := a\<rparr>) = me s" "me (s\<lparr>l_size := z\<rparr>) = me s"
  "me (s\<lparr>l_dev := dv\<rparr>) = me s"
  by (simp_all add: me_def cur_def)

lemma bio_log_cong:
  assumes "bufs s' = bufs s" and "disk s' = disk s"
  shows "blk s' = blk s" and "dirty s' = dirty s" and "sized s' = sized s"
proof -
  show "blk s' = blk s" using assms by (intro ext) (simp add: blk_def split: option.splits)
  then show "sized s' = sized s" using assms by (intro sized_cong) auto
  show "dirty s' = dirty s" using assms by (simp add: dirty_def)
qed

lemma rest_cong:
  assumes "bufs s' = bufs s" and "disk s' = disk s" and "lru s' = lru s" and "idequeue s' = idequeue s"
    and "havedisk1 s' = havedisk1 s" and "ide_ok s' = ide_ok s" and "runs s' = runs s"
  shows "rest H s' = rest H s"
  using assms bio_log_cong [OF assms(1,2)] by (simp add: rest_def bio_inv_def buf_ok_def)

text \<open>Changing only fields of the log.\<close>

definition log_only :: "'z log_state_scheme \<Rightarrow> 'z log_state_scheme \<Rightarrow> bool" where
  "log_only s s' \<longleftrightarrow> bio_state.truncate s' = bio_state.truncate s"

lemma log_only_update [simp]:
  "log_only s (s\<lparr>l_n := n\<rparr>)" "log_only s (s\<lparr>l_block := bs, l_n := n\<rparr>)" "log_only s (s\<lparr>l_outstanding := k\<rparr>)"
  "log_only s (s\<lparr>l_committing := c\<rparr>)" "log_only s (s\<lparr>l_n := n, l_block := bs\<rparr>)"
  "log_only s (s\<lparr>l_start := a, l_size := z, l_dev := dv\<rparr>)"
  by (simp_all add: log_only_def bio_state.defs)

lemma log_only_bio:
  assumes "log_only s s'"
  shows "blk s' = blk s" and "dirty s' = dirty s" and "disk s' = disk s" and "disk_hist s' = disk_hist s"
    and "rest H s' = rest H s" and "me s' = me s" and "bufs s' = bufs s" and "runs s' = runs s"
    and "held s' i bn = held s i bn" and "settled s' i = settled s i"
proof -
  have f: "bufs s' = bufs s" "disk s' = disk s" "lru s' = lru s" "idequeue s' = idequeue s"
    "havedisk1 s' = havedisk1 s" "ide_ok s' = ide_ok s" "disk_hist s' = disk_hist s"
    "procs s' = procs s" "curproc s' = curproc s"
    using assms by (simp_all add: log_only_def bio_state.defs)
  show "bufs s' = bufs s" "disk s' = disk s" "disk_hist s' = disk_hist s" using f by auto
  show m: "me s' = me s" "runs s' = runs s" using f by (simp_all add: me_def runs_def cur_def)
  show "blk s' = blk s" "dirty s' = dirty s" using bio_log_cong [OF f(1,2)] by auto
  show "rest H s' = rest H s" using rest_cong f m by blast
  show "held s' i bn = held s i bn" "settled s' i = settled s i"
    using f m by (simp_all add: held_def settled_def)
qed

section \<open>Specifications of the operations\<close>

lemma write_head_spec:
  assumes "rest {} s" and "log_shape s" and "card (dirty s) < NBUF" and "l_start s \<notin> dirty s"
    and "length (logged s) \<le> LOGSIZE" and "\<forall>b\<in>set (logged s). b < FSSIZE"
  shows "\<exists>s'. write_head s = Inr ((), s') \<and> rest {} s' \<and> dirty s' = dirty s \<and>
    effect [(1, l_start s, encode_head (logged s) (blk s (l_start s)))] s s'"
proof -
  let ?bn = "l_start s" and ?f = "encode_head (logged s)"
  have bn: "?bn < FSSIZE" "l_dev s = 1" using assms(2) by (auto simp: log_shape_def)
  have len: "length (?f (blk s ?bn)) = BSIZE"
    using encode_head_read(3) assms(5,6) sizedD(1) [OF restD(2) [OF assms(1)]] by blast
  obtain i s1 s' where u: "block_read 1 ?bn s = Inr (i, s1)" "b_data (bufs s1 ! i) = blk s ?bn"
    "thenk (set_data i (?f (blk s ?bn))) (thenk (block_write i) (block_release i)) s1 = Inr ((), s')"
    "rest {} s'" "effect [(1, ?bn, ?f (blk s ?bn))] s s'" "dirty s' = dirty s - {?bn}"
    using rest_update [OF assms(1) bn(1) assms(3), of ?f] len by blast
  have "write_head s = Inr ((), s')"
    using u(1-3) bn(2) by (simp add: write_head_def kern_simps logged_def)
  with u assms(4) show ?thesis by auto
qed

lemma usub_size: "log_shape s \<Longrightarrow> usub (l_size s) 1 = l_size s - 1"
  by (rule usub_eq) (auto simp: log_shape_def LOGSIZE_def)

lemma log_shape_cong:
  "lcalm s s' \<Longrightarrow> length (l_block s') = length (l_block s) \<Longrightarrow> log_shape s' = log_shape s"
  by (simp add: log_shape_def lcalm_def)

lemma log_area_cong: "lcalm s s' \<Longrightarrow> log_area s' = log_area s"
  by (simp add: log_area_def lcalm_def)

lemma upd_buf_log [simp]:
  "l_block (upd_buf i f s) = l_block s" "l_n (upd_buf i f s) = l_n s" "l_start (upd_buf i f s) = l_start s"
  "l_size (upd_buf i f s) = l_size s" "l_dev (upd_buf i f s) = l_dev s"
  "l_outstanding (upd_buf i f s) = l_outstanding s" "l_committing (upd_buf i f s) = l_committing s"
  "log_state.more (upd_buf i f s) = log_state.more s" "logged (upd_buf i f s) = logged s"
  by (simp_all add: upd_buf_def logged_def)

lemma logged_update: "logged (s\<lparr>l_block := bs, l_n := n\<rparr>) = take n bs"
  by (simp add: logged_def)

text \<open>Marking a held buffer dirty.\<close>

lemma rest_mark_dirty:
  assumes rest: "rest H s" and held: "held s i bn"
  defines "s' \<equiv> upd_buf i (\<lambda>b. b\<lparr>b_dirty := True\<rparr>) s"
  shows "rest H s'" and "held s' i bn" and "settled s' i" and "dirty s' = insert bn (dirty s)"
    and "blk s' = blk s" and "calm s s'"
proof -
  let ?f = "\<lambda>b. b\<lparr>b_dirty := True\<rparr>"
  have inv: "bio_inv s" and len: "length (bufs s) = NBUF" using rest restD by auto
  have i: "i < NBUF" "caches bn (bufs s ! i)" "b_valid (bufs s ! i)" "sl_locked (b_lock (bufs s ! i))"
    using held by (auto simp: held_def)
  have inv': "bio_inv s'"
    unfolding s'_def using inv i bio_inv_buf [OF inv i(1)] bio_inv_unique [OF inv i(1)]
    by (intro bio_inv_upd_buf) (auto simp: buf_ok_def)
  have "blk s' = (blk s)(bn := b_data (?f (bufs s ! i)))"
    unfolding s'_def using inv inv' i by (intro blk_upd_buf) (auto simp: caches_def s'_def)
  then show blk: "blk s' = blk s"
    using blk_hit [OF inv i(1,3,2)] by (simp add: fun_upd_idem)
  have nth: "bufs s' ! j = (if j = i then ?f (bufs s ! i) else bufs s ! j)" for j
    using i(1) len by (simp add: s'_def)
  show "rest H s'"
    using rest inv' nth sized_cong [OF blk] by (auto simp: rest_def s'_def)
  show "held s' i bn" "settled s' i" using held nth by (auto simp: held_def settled_def s'_def)
  show "dirty s' = insert bn (dirty s)"
    using dirty_frame(1) [of i s s' bn] i nth [of i] by (simp add: s'_def)
  show "calm s s'" by (simp add: s'_def calm_def)
qed

lemma log_write_spec:
  assumes inv: "log_inv H s" and held: "held s i bn" and bn: "bn < FSSIZE" "bn \<notin> log_area s"
    and room: "l_n s + 1 < l_size s" and op: "1 \<le> l_outstanding s"
  shows "\<exists>s'. log_write i s = Inr ((), s') \<and> log_inv H s' \<and> held s' i bn \<and> settled s' i \<and>
    dirty s' = insert bn (dirty s) \<and> blk s' = blk s \<and> disk s' = disk s \<and> disk_hist s' = disk_hist s \<and>
    lcalm s s' \<and> (\<forall>j. j \<noteq> i \<longrightarrow> bufs s' ! j = bufs s ! j)"
proof -
  note D = log_invD [OF inv]
  let ?k = "case first_index ((=) bn) (logged s) of None \<Rightarrow> l_n s | Some k \<Rightarrow> k"
  let ?n = "if ?k = l_n s then l_n s + 1 else l_n s"
  let ?s1 = "s\<lparr>l_block := (l_block s)[?k := bn], l_n := ?n\<rparr>"
  let ?s' = "upd_buf i (\<lambda>b. b\<lparr>b_dirty := True\<rparr>) ?s1"
  have lenb: "length (l_block s) = LOGSIZE" using D(2) by (simp add: log_shape_def)
  have bno: "b_blockno (bufs s ! i) = bn" using held by (auto simp: held_def caches_def)
  have "\<not> usub (l_size s) 1 \<le> l_n s" using room usub_size [OF D(2)] by simp
  then have run: "log_write i s = Inr ((), ?s')"
    using D(9) op bno by (simp add: log_write_def Let_def kern_simps logged_def)
  have lo: "log_only s ?s1" by simp
  note B = log_only_bio [OF lo]
  note M = rest_mark_dirty [of H ?s1 i bn, unfolded B(5,9), OF D(1) held]
  have logged': "logged ?s' = (if bn \<in> set (logged s) then logged s else logged s @ [bn])"
  proof (cases "first_index ((=) bn) (logged s)")
    case None
    then have "logged ?s' = take (l_n s + 1) ((l_block s)[l_n s := bn])"
      by (simp add: logged_update)
    moreover have "bn \<notin> set (logged s)" using None by (auto simp: first_index_None_iff)
    ultimately show ?thesis
      using D(9) lenb by (simp add: logged_def [of s] take_Suc_conv_app_nth)
  next
    case (Some k)
    then have k: "k < length (logged s)" "logged s ! k = bn" using first_index_SomeD by fastforce+
    then have "l_block s ! k = bn" "k < l_n s" using D(10) by (auto simp: logged_def)
    moreover have "bn \<in> set (logged s)" using k nth_mem by fastforce
    ultimately show ?thesis using Some by (simp add: logged_update) (auto simp: logged_def)
  qed
  have lc: "lcalm s ?s'" using B(6) by (simp add: lcalm_def upd_buf_def me_def cur_def)
  have "length (logged ?s') = l_n ?s'"
    using D(9) lenb by (auto simp: logged_def upd_buf_def)
  then have "l_n ?s' < l_size ?s'"
    using logged' D(10) D(3) room lc by (auto simp: lcalm_def split: if_splits)
  moreover have "log_shape ?s'"
    using log_shape_cong [OF lc] D(2) by (simp add: upd_buf_def)
  ultimately have "log_inv H ?s'"
    unfolding log_inv_def
    using M(1,4) B(2) D bn logged' log_area_cong [OF lc] lc
    by (auto simp: lcalm_def)
  with run M B lc show ?thesis by (auto simp: bio_frame_def)
qed

text \<open>The writes of a commit: the log, the header, the home locations, the cleared header.\<close>

definition commit_writes :: "'z log_state_scheme \<Rightarrow> (nat \<times> nat \<times> byte list) list" where
  "commit_writes s = (let bs = logged s; hd = encode_head bs (blk s (l_start s)) in
     if bs = [] then []
     else log_writes (l_start s + 1) bs (blk s) @ [(1, l_start s, hd)] @
          map (\<lambda>b. (1, b, blk s b)) bs @ [(1, l_start s, encode_head [] hd)])"

lemma install_writes_map:
  "(\<And>i. i < length bs \<Longrightarrow> c (pos + i) = c' (bs ! i)) \<Longrightarrow> install_writes pos bs c = map (\<lambda>b. (1, b, c' b)) bs"
proof (induction bs arbitrary: pos)
  case (Cons b bs)
  have "c pos = c' b" using Cons.prems [of 0] by simp
  moreover have "install_writes (pos + 1) bs c = map (\<lambda>b. (1, b, c' b)) bs"
    using Cons.prems [of "Suc _"] by (intro Cons.IH) simp
  ultimately show ?case by simp
qed simp

lemma log_inv_bounds:
  assumes "log_inv H s"
  shows "l_start s + 1 + l_n s \<le> FSSIZE" and "l_start s \<notin> dirty s" and "l_start s < FSSIZE"
    and "b \<in> dirty s \<Longrightarrow> b < l_start s + 1 \<or> l_start s + 1 + l_n s \<le> b"
    and "card (dirty s) < NBUF" and "l_dev s = 1"
proof -
  note D = log_invD [OF assms]
  show "l_start s + 1 + l_n s \<le> FSSIZE" "l_start s < FSSIZE" "l_dev s = 1"
    using D(2,3) by (auto simp: log_shape_def)
  show "l_start s \<notin> dirty s" "card (dirty s) < NBUF"
    using D(2,3,9,11) D(7) [of "l_start s"] by (auto simp: log_area_def log_shape_def NBUF_def LOGSIZE_def)
  show "b \<in> dirty s \<Longrightarrow> b < l_start s + 1 \<or> l_start s + 1 + l_n s \<le> b"
    using D(7) [of b] D(3) by (auto simp: log_area_def)
qed

lemma logged_calm: "calm s s' \<Longrightarrow> logged s' = logged s"
  using calm_log [of s s'] by (simp add: logged_def)

lemma log_shape_calm: "calm s s' \<Longrightarrow> log_shape s' = log_shape s"
  using calm_log [of s s'] by (simp add: log_shape_def)

lemma effectD:
  "effect W s s' \<Longrightarrow> blk s' = replay W (blk s)" "effect W s s' \<Longrightarrow> calm s s'"
  by (simp_all add: effect_def)

lemma leffectD:
  "leffect W s s' \<Longrightarrow> blk s' = replay W (blk s)" "leffect W s s' \<Longrightarrow> disk s' 1 = replay W (disk s 1)"
  "leffect W s s' \<Longrightarrow> lcalm s s'" "leffect W s s' \<Longrightarrow> disk_hist s' = disk_hist s @ W"
  by (simp_all add: leffect_def)

text \<open>Clearing the header, the last step of a commit and of a recovery.\<close>

lemma clear_head_spec:
  assumes "rest {} s" and "log_shape s" and "dirty s = {}"
  shows "\<exists>s'. thenk (modk (\<lambda>s. s\<lparr>l_n := 0\<rparr>)) write_head s = Inr ((), s') \<and> log_inv {} s' \<and> l_n s' = 0 \<and>
    leffect [(1, l_start s, encode_head [] (blk s (l_start s)))] s s'"
proof -
  let ?t = "s\<lparr>l_n := 0\<rparr>"
  have lo: "log_only s ?t" by simp
  note B = log_only_bio [OF lo]
  have empty: "logged ?t = []" by (simp add: logged_def)
  have shape: "log_shape ?t" using assms(2) by (simp add: log_shape_def)
  obtain s' where w: "write_head ?t = Inr ((), s')" "rest {} s'" "dirty s' = {}"
    "effect [(1, l_start s, encode_head [] (blk s (l_start s)))] ?t s'"
    using write_head_spec [of ?t] shape assms B empty by (auto simp: NBUF_def)
  have c: "calm ?t s'" using w(4) by (rule effectD)
  have "leffect [] s ?t" using B by (simp add: leffect_def lcalm_def)
  from leffect_trans [OF this effect_leffect [OF w(4)]]
  have e: "leffect [(1, l_start s, encode_head [] (blk s (l_start s)))] s s'" by simp
  have start: "l_start s' = l_start s" using calm_log(1) [OF c] by simp
  have "get_entry 0 (disk s' 1 (l_start s')) = 0"
    using encode_head_read(1) [of "blk s (l_start s)" "[]"] leffectD(2) [OF e] start
      sizedD(1) [OF restD(2) [OF assms(1)]] by simp
  moreover have "logged s' = []" "log_shape s'" "l_n s' = 0"
    using logged_calm [OF c] log_shape_calm [OF c] calm_log(6) [OF c] empty shape by auto
  ultimately have "log_inv {} s'"
    using w(2,3) by (auto simp: log_inv_def log_shape_def)
  with w(1) e \<open>l_n s' = 0\<close> show ?thesis by (auto simp: kern_simps)
qed

lemma commit_spec:
  assumes inv: "log_inv {} s"
  shows "\<exists>s'. commit s = Inr ((), s') \<and> log_inv {} s' \<and> l_n s' = 0 \<and> leffect (commit_writes s) s s'"
proof (cases "l_n s = 0")
  case True
  then have "commit_writes s = []" "commit s = Inr ((), s)"
    by (simp_all add: commit_writes_def logged_def commit_def kern_simps)
  with inv True show ?thesis by (auto simp: leffect_def)
next
  case False
  note D = log_invD [OF inv] and bounds = log_inv_bounds [OF inv]
  let ?bs = "logged s" and ?pos = "l_start s + 1" and ?h = "encode_head (logged s) (blk s (l_start s))"
  have bs: "?bs \<noteq> []" "\<forall>b\<in>set ?bs. b < FSSIZE" "length ?bs \<le> LOGSIZE" using D False by auto
  obtain s1 where 1: "write_log_loop ?bs ?pos s = Inr ((), s1)" "rest {} s1" "dirty s1 = dirty s"
    "effect (log_writes ?pos ?bs (blk s)) s s1"
    using write_log_loop_spec [of s ?bs ?pos] D bounds by auto
  note c1 = effectD(2) [OF 1(4)]
  have "blk s1 (l_start s) = blk s (l_start s)"
    using effectD(1) [OF 1(4)] by (simp add: replay_log_writes)
  then obtain s2 where 2: "write_head s1 = Inr ((), s2)" "rest {} s2" "dirty s2 = dirty s"
    "effect [(1, l_start s, ?h)] s1 s2"
    using write_head_spec [OF 1(2)] D bounds bs 1(3) logged_calm [OF c1] log_shape_calm [OF c1]
      calm_log(1) [OF c1] by auto
  have c2: "calm s s2" using c1 effectD(2) [OF 2(4)] by (rule calm_trans)
  have blk2: "blk s2 = (replay (log_writes ?pos ?bs (blk s)) (blk s))(l_start s := ?h)"
    using effectD(1) [OF 1(4)] effectD(1) [OF 2(4)] by simp
  have away: "\<forall>b\<in>set ?bs. b < FSSIZE \<and> (b < ?pos \<or> ?pos + length ?bs \<le> b)"
    using D bounds by auto
  obtain s3 where 3: "install_trans_loop ?bs ?pos s2 = Inr ((), s3)" "rest {} s3" "dirty s3 = {}"
    "effect (install_writes ?pos ?bs (blk s2)) s2 s3"
    using install_trans_loop_spec [of s2 ?bs ?pos] 2(2,3) D bounds away calm_log(5) [OF c2] by auto
  have "install_writes ?pos ?bs (blk s2) = map (\<lambda>b. (1, b, blk s b)) ?bs"
    using blk2 by (intro install_writes_map) (simp add: replay_log_writes)
  with 3(4) have e3: "effect (map (\<lambda>b. (1, b, blk s b)) ?bs) s2 s3" by simp
  have c3: "calm s s3" using c2 effectD(2) [OF e3] by (rule calm_trans)
  have "l_start s \<notin> set ?bs" using D(5) bounds(2) by simp
  then have "blk s3 (l_start s) = ?h"
    using effectD(1) [OF 3(4)] replay_install_other blk2 by simp
  then obtain s4 where 4: "thenk (modk (\<lambda>s. s\<lparr>l_n := 0\<rparr>)) write_head s3 = Inr ((), s4)"
    "log_inv {} s4" "l_n s4 = 0" "leffect [(1, l_start s, encode_head [] ?h)] s3 s4"
    using clear_head_spec [OF 3(2) _ 3(3)] D(2) log_shape_calm [OF c3] calm_log(1) [OF c3] by auto
  have "leffect (commit_writes s) s s4"
    using leffect_trans [OF effect_leffect [OF effect_trans [OF 1(4) effect_trans [OF 2(4) e3]]] 4(4)] bs(1)
    by (simp add: commit_writes_def Let_def)
  moreover have "commit s = Inr ((), s4)"
    using False 1(1) 2(1) 3(1) 4(1) calm_log [OF c1] calm_log [OF c2]
    by (simp add: commit_def write_log_def install_trans_def kern_simps logged_def)
  ultimately show ?thesis using 4 by blast
qed

section \<open>Recovery\<close>

text \<open>
  A header on disk that a crash can leave: at most \<open>n < nlog\<close> distinct blocks, none of them in the
  log area.
\<close>

definition header_ok :: "'z log_state_scheme \<Rightarrow> nat list \<Rightarrow> bool" where
  "header_ok s bs \<longleftrightarrow> length bs < l_size s \<and> distinct bs \<and> (\<forall>b\<in>set bs. b < FSSIZE \<and> b \<notin> log_area s)"

lemma recover_from_log_spec:
  assumes rest: "rest {} s" and shape: "log_shape s" and clean: "dirty s = {}"
    and hdr: "header_blocks (disk s 1 (l_start s)) = bs" and ok: "header_ok s bs"
  shows "\<exists>s'. recover_from_log s = Inr ((), s') \<and> log_inv {} s' \<and> l_n s' = 0 \<and>
    leffect (install_writes (l_start s + 1) bs (disk s 1) @
      [(1, l_start s, encode_head [] (disk s 1 (l_start s)))]) s s'"
proof -
  let ?pos = "l_start s + 1"
  have blk: "blk s = disk s 1" using clean_disk [OF rest] clean by auto
  have bounds: "l_start s < FSSIZE" "l_dev s = 1" "length (l_block s) = LOGSIZE" "length bs \<le> LOGSIZE"
    "?pos + length bs \<le> FSSIZE" using shape ok by (auto simp: log_shape_def header_ok_def)
  obtain i s1 where r: "block_read 1 (l_start s) s = Inr (i, s1)" "rest {i} s1" "held s1 i (l_start s)"
    "settled s1 i" "b_data (bufs s1 ! i) = blk s (l_start s)" "blk s1 = blk s" "disk s1 = disk s"
    "disk_hist s1 = disk_hist s" "dirty s1 = dirty s" "calm s s1"
    using rest_read [OF rest _ bounds(1)] clean by (auto simp: NBUF_def)
  let ?t = "s1\<lparr>l_n := length bs, l_block := bs @ drop (length bs) (l_block s1)\<rparr>"
  have lo: "log_only s1 ?t" by simp
  note B = log_only_bio [OF lo] and c1 = calm_log [OF r(10)]
  have n: "get_entry 0 (disk s 1 (l_start s)) = length bs" using hdr by (auto simp: header_blocks_def)
  obtain s2 where f: "block_release i ?t = Inr ((), s2)" "rest ({i} - {i}) s2" "blk s2 = blk ?t"
    "disk s2 = disk ?t" "disk_hist s2 = disk_hist ?t" "dirty s2 = dirty ?t" "calm ?t s2"
    using rest_release [of "{i}" ?t i "l_start s"] r B by blast
  have rh: "read_head s = Inr ((), s2)"
    using r(1,5) f(1) bounds hdr n blk
    by (simp add: read_head_def kern_simps Let_def header_blocks_def)
  note c2 = calm_log [OF f(7)]
  have lg: "logged s2 = bs" using c2 by (simp add: logged_def)
  have shape2: "log_shape s2" using shape c1 c2 bounds by (simp add: log_shape_def)
  have e0: "leffect [] s s2"
    using B r f c1 c2 by (simp add: leffect_def lcalm_def calm_def)
  have away: "\<forall>b\<in>set bs. b < FSSIZE \<and> (b < ?pos \<or> ?pos + length bs \<le> b)" "l_start s \<notin> set bs"
    using ok by (auto simp: header_ok_def log_area_def)
  obtain s3 where 3: "install_trans_loop bs ?pos s2 = Inr ((), s3)" "rest {} s3" "dirty s3 = {}"
    "effect (install_writes ?pos bs (blk s2)) s2 s3"
    using install_trans_loop_spec [of s2 bs ?pos] f r clean B bounds away ok c1 c2
    by (auto simp: header_ok_def NBUF_def)
  have blk2: "blk s2 = disk s 1" using f r B blk by simp
  have "blk s3 (l_start s) = disk s 1 (l_start s)"
    using effectD(1) [OF 3(4)] replay_install_other [OF away(2)] blk2 by simp
  moreover have c3: "calm s2 s3" using 3(4) by (rule effectD)
  ultimately obtain s4 where 4: "thenk (modk (\<lambda>s. s\<lparr>l_n := 0\<rparr>)) write_head s3 = Inr ((), s4)"
    "log_inv {} s4" "l_n s4 = 0" "leffect [(1, l_start s, encode_head [] (disk s 1 (l_start s)))] s3 s4"
    using clear_head_spec [OF 3(2) _ 3(3)] shape2 log_shape_calm [OF c3] calm_log(1) [OF c3] c1 c2
    by auto
  have "recover_from_log s = Inr ((), s4)"
    using rh 3(1) 4(1) lg c1 c2 by (simp add: recover_from_log_def install_trans_def kern_simps logged_def)
  moreover have "leffect (install_writes ?pos bs (disk s 1) @
      [(1, l_start s, encode_head [] (disk s 1 (l_start s)))]) s s4"
    using leffect_trans [OF leffect_trans [OF e0 effect_leffect [OF 3(4)]] 4(4)] blk2 by simp
  ultimately show ?thesis using 4 by blast
qed

lemma read_superblock_spec:
  assumes rest: "rest {} s" and clean: "dirty s = {}"
  shows "\<exists>s'. read_superblock 1 s = Inr (decode_superblock (disk s 1 1), s') \<and> rest {} s' \<and> dirty s' = {} \<and>
    effect [] s s'"
proof -
  have blk: "blk s 1 = disk s 1 1" using clean_disk [OF rest] clean by auto
  have "(1 :: nat) < FSSIZE" by (simp add: FSSIZE_def)
  then obtain i s1 where r: "block_read 1 1 s = Inr (i, s1)" "rest {i} s1" "held s1 i 1" "settled s1 i"
    "b_data (bufs s1 ! i) = blk s 1" "blk s1 = blk s" "disk s1 = disk s" "disk_hist s1 = disk_hist s"
    "dirty s1 = dirty s" "calm s s1"
    using rest_read [OF rest, of 1] clean by (auto simp: NBUF_def)
  obtain s2 where f: "block_release i s1 = Inr ((), s2)" "rest ({i} - {i}) s2" "blk s2 = blk s1"
    "disk s2 = disk s1" "disk_hist s2 = disk_hist s1" "dirty s2 = dirty s1" "calm s1 s2"
    using rest_release [OF r(2-4)] by blast
  have "effect [] s s2" using r f by (simp add: effect_def calm_def)
  with r f blk clean show ?thesis by (auto simp: read_superblock_def kern_simps)
qed

lemma initlog_spec:
  assumes rest: "rest {} s" and clean: "dirty s = {}" and len: "length (l_block s) = LOGSIZE"
    and sb: "decode_superblock (disk s 1 1) = sb"
    and fits: "0 < sb_nlog sb" "sb_nlog sb \<le> LOGSIZE" "sb_logstart sb + sb_nlog sb \<le> FSSIZE"
    and hdr: "header_blocks (disk s 1 (sb_logstart sb)) = bs"
    and ok: "length bs < sb_nlog sb" "distinct bs"
      "\<forall>b\<in>set bs. b < FSSIZE \<and> b \<notin> {sb_logstart sb..<sb_logstart sb + sb_nlog sb}"
  shows "\<exists>s'. initlog 1 s = Inr ((), s') \<and> log_inv {} s' \<and> l_n s' = 0 \<and>
    disk s' 1 = replay (install_writes (sb_logstart sb + 1) bs (disk s 1) @
      [(1, sb_logstart sb, encode_head [] (disk s 1 (sb_logstart sb)))]) (disk s 1)"
proof -
  obtain s1 where r: "read_superblock 1 s = Inr (sb, s1)" "rest {} s1" "dirty s1 = {}" "effect [] s s1"
    using read_superblock_spec [OF rest clean] sb by blast
  let ?t = "s1\<lparr>l_start := sb_logstart sb, l_size := sb_nlog sb, l_dev := 1\<rparr>"
  have lo: "log_only s1 ?t" by simp
  note B = log_only_bio [OF lo]
  have d: "disk s1 = disk s" using r(4) by (simp add: effect_def)
  have "length (l_block s1) = LOGSIZE" using calm_log(7) [OF effectD(2) [OF r(4)]] len by simp
  then have "log_shape ?t" "header_ok ?t bs"
    using fits ok by (auto simp: log_shape_def header_ok_def log_area_def)
  then obtain s' where s': "recover_from_log ?t = Inr ((), s')" "log_inv {} s'" "l_n s' = 0"
    "leffect (install_writes (l_start ?t + 1) bs (disk ?t 1) @
      [(1, l_start ?t, encode_head [] (disk ?t 1 (l_start ?t)))]) ?t s'"
    using recover_from_log_spec [of ?t bs] B r hdr d by auto
  moreover have "initlog 1 s = Inr ((), s')"
    using r(1) s'(1) by (simp add: initlog_def kern_simps)
  ultimately show ?thesis
    using leffectD(2) [OF s'(4)] d by auto
qed

end
