(* ===== verification/Kern_Crash.thy ===== *)
theory Kern_Crash
  imports Kern_Log
begin

text \<open>
  Crash safety of the log of \<^verbatim>\<open>kernel/log.c\<close>: a commit and a recovery as sequences of disk writes,
  what recovery makes of every prefix of them, and the properties of transactions.
\<close>

section \<open>Crashes\<close>

lemma take_log_writes: "take k (log_writes pos bs c) = log_writes pos (take k bs) c"
proof (induction bs arbitrary: pos k)
  case (Cons b bs)
  then show ?case by (cases k) auto
qed simp

lemma replay_map: "replay (map (\<lambda>b. (Suc 0, b, c b)) bs) d x = (if x \<in> set bs then c x else d x)"
  by (induction bs arbitrary: d) auto

lemma header_blocks_empty: "get_entry 0 d = 0 \<Longrightarrow> header_blocks d = []"
  by (simp add: header_blocks_def)

text \<open>
  What the disk holds after a prefix of the writes of a commit: nothing visible happened, or the
  whole transaction is in the log, or it is installed.
\<close>

lemma commit_prefix:
  assumes inv: "log_inv {} s" and d: "d = replay (take k (commit_writes s)) (disk s 1)"
  shows "(header_blocks (d (l_start s)) = [] \<and> (\<forall>b. b \<notin> log_area s \<longrightarrow> d b = disk s 1 b) \<and>
       (k < length (commit_writes s) \<or> dirty s = {})) \<or>
    (header_blocks (d (l_start s)) = logged s \<and>
       (\<forall>i<length (logged s). d (l_start s + 1 + i) = blk s (logged s ! i)) \<and>
       (\<forall>b. b \<notin> log_area s \<and> b \<notin> dirty s \<longrightarrow> d b = disk s 1 b)) \<or>
    (header_blocks (d (l_start s)) = [] \<and> (\<forall>b. b \<notin> log_area s \<longrightarrow> d b = blk s b))"
    (is "?A \<or> ?B \<or> ?C")
proof (cases "logged s = []")
  case True
  then have "commit_writes s = []" "dirty s = {}"
    using log_invD(5) [OF inv] by (auto simp: commit_writes_def)
  with d log_invD(8) [OF inv] show ?thesis by (simp add: header_blocks_empty)
next
  case False
  note D = log_invD [OF inv] and bounds = log_inv_bounds [OF inv]
  let ?bs = "logged s" and ?n = "length (logged s)" and ?pos = "l_start s + 1"
  let ?h = "encode_head ?bs (blk s (l_start s))"
  let ?L = "log_writes ?pos ?bs (blk s)" and ?M = "map (\<lambda>b. (1 :: nat, b, blk s b)) ?bs"
  have W: "commit_writes s = ?L @ [(1, l_start s, ?h)] @ ?M @ [(1, l_start s, encode_head [] ?h)]"
    using False by (simp add: commit_writes_def Let_def)
  have size: "length (blk s (l_start s)) = BSIZE" using sizedD(1) [OF restD(2) [OF D(1)]] .
  have hdr: "header_blocks ?h = ?bs" "length ?h = BSIZE"
    using header_blocks_encode encode_head_read(3) size D by auto
  have hdr0: "header_blocks (encode_head [] ?h) = []"
    using header_blocks_encode [OF hdr(2), of "[]"] by simp
  have start: "l_start s \<notin> set ?bs" using D(5) bounds(2) by simp
  have away: "?pos + i \<notin> set ?bs" if "i < ?n" for i
    using D(3,5,10) D(7) [of "?pos + i"] that by (auto simp: log_area_def)
  have home: "\<not> (?pos \<le> b \<and> b < ?pos + ?n)" "b \<noteq> l_start s" if "b \<notin> log_area s" for b
    using that D(3,10) by (auto simp: log_area_def)
  have clean: "b \<notin> dirty s \<Longrightarrow> blk s b = disk s 1 b" for b
    using clean_disk [OF D(1)] by simp
  consider (log) "k \<le> ?n" | (head) "?n < k" "k \<le> 2 * ?n + 1" | (all) "2 * ?n + 2 \<le> k" by linarith
  then show ?thesis
  proof cases
    case log
    then have "d = replay (log_writes ?pos (take k ?bs) (blk s)) (disk s 1)"
      using d W by (simp add: take_log_writes)
    then have dx: "d x = (if ?pos \<le> x \<and> x < ?pos + k then blk s (take k ?bs ! (x - ?pos)) else disk s 1 x)" for x
      using log by (simp add: replay_log_writes)
    have "d b = disk s 1 b" if "b \<notin> log_area s" for b
      using dx [of b] home(1) [OF that] log by auto
    moreover have "d (l_start s) = disk s 1 (l_start s)" by (simp add: dx)
    ultimately have ?A using D(8) log W by (simp add: header_blocks_empty)
    then show ?thesis by blast
  next
    case head
    let ?j = "k - ?n - 1"
    have "take k (commit_writes s) = ?L @ [(1, l_start s, ?h)] @ map (\<lambda>b. (1, b, blk s b)) (take ?j ?bs)"
      using W head by (simp add: take_map take_Cons')
    then have dx: "d x = (if x \<in> set (take ?j ?bs) then blk s x else
        if x = l_start s then ?h else replay ?L (disk s 1) x)" for x
      using d by (simp add: replay_map)
    have out: "x \<notin> set (take ?j ?bs)" if "x \<notin> set ?bs" for x using that in_set_takeD by fast
    have "d (l_start s) = ?h" using dx [of "l_start s"] out [OF start] by simp
    moreover have "d (?pos + i) = blk s (?bs ! i)" if "i < ?n" for i
      using that dx [of "?pos + i"] out [OF away [OF that]] by (simp add: replay_log_writes)
    moreover have "d b = disk s 1 b" if "b \<notin> log_area s" "b \<notin> dirty s" for b
    proof -
      have "b \<notin> set (take ?j ?bs)" using out that(2) D(5) by simp
      with home [OF that(1)] dx [of b] show ?thesis by (auto simp: replay_log_writes)
    qed
    ultimately have ?B using hdr by auto
    then show ?thesis by blast
  next
    case all
    then have "take k (commit_writes s) = commit_writes s" using W by simp
    then have dx: "d x = (if x = l_start s then encode_head [] ?h else if x \<in> set ?bs then blk s x
        else replay ?L (disk s 1) x)" for x
      using d W by (simp add: replay_map)
    have "d b = blk s b" if "b \<notin> log_area s" for b
      using home [OF that] clean [of b] D(5) dx [of b] by (auto simp: replay_log_writes)
    then have ?C using hdr0 dx [of "l_start s"] by simp
    then show ?thesis by blast
  qed
qed

lemma replay_recovery:
  assumes "distinct bs" and "\<forall>b\<in>set bs. b \<notin> A" and "start \<in> A" and "b \<notin> A"
  shows "replay (install_writes pos bs c @ [(1, start, x)]) d b =
    (case first_index ((=) b) bs of None \<Rightarrow> d b | Some i \<Rightarrow> c (pos + i))"
proof -
  have "b \<noteq> start" using assms(3,4) by blast
  then have drop: "replay (install_writes pos bs c @ [(1, start, x)]) d b = replay (install_writes pos bs c) d b"
    by simp
  show ?thesis
  proof (cases "first_index ((=) b) bs")
    case None
    then have "b \<notin> set bs" by (auto simp: first_index_None_iff)
    with None drop show ?thesis by (simp add: replay_install_other)
  next
    case (Some i)
    then have "i < length bs" "bs ! i = b" by (auto dest: first_index_SomeD)
    with Some drop replay_install_writes [OF assms(1), of i pos c d] show ?thesis by simp
  qed
qed

text \<open>The contents that recovery gives to a block outside the log.\<close>

definition recovered :: "nat \<Rightarrow> nat list \<Rightarrow> (nat \<Rightarrow> byte list) \<Rightarrow> nat \<Rightarrow> byte list" where
  "recovered start bs d b = (case first_index ((=) b) bs of None \<Rightarrow> d b | Some i \<Rightarrow> d (start + 1 + i))"

lemma recover_home:
  assumes "rest {} s" and "log_shape s" and "dirty s = {}"
    and "header_blocks (disk s 1 (l_start s)) = bs" and "header_ok s bs"
  shows "\<exists>s'. recover_from_log s = Inr ((), s') \<and> log_inv {} s' \<and>
    disk s' 1 = replay (install_writes (l_start s + 1) bs (disk s 1) @
      [(1, l_start s, encode_head [] (disk s 1 (l_start s)))]) (disk s 1) \<and>
    disk_hist s' = disk_hist s @ install_writes (l_start s + 1) bs (disk s 1) @
      [(1, l_start s, encode_head [] (disk s 1 (l_start s)))] \<and>
    (\<forall>b. b \<notin> log_area s \<longrightarrow> disk s' 1 b = recovered (l_start s) bs (disk s 1) b)"
proof -
  let ?W = "install_writes (l_start s + 1) bs (disk s 1) @ [(1, l_start s, encode_head [] (disk s 1 (l_start s)))]"
  obtain s' where s': "recover_from_log s = Inr ((), s')" "log_inv {} s'" "leffect ?W s s'"
    using recover_from_log_spec [OF assms] by blast
  have ok: "distinct bs" "\<forall>b\<in>set bs. b \<notin> log_area s" using assms(5) by (auto simp: header_ok_def)
  have start: "l_start s \<in> log_area s" using assms(2) by (simp add: log_area_def log_shape_def)
  have "disk s' 1 b = recovered (l_start s) bs (disk s 1) b" if "b \<notin> log_area s" for b
    unfolding leffectD(2) [OF s'(3)] recovered_def by (rule replay_recovery [OF ok start that])
  with s' leffectD(2) [OF s'(3)] leffectD(4) [OF s'(3)] show ?thesis by blast
qed

lemma recovered_prefix:
  assumes "log_shape s" and "header_ok s bs"
    and "d = replay (take k (install_writes (l_start s + 1) bs c)) c"
  shows "b \<in> log_area s \<Longrightarrow> d b = c b"
    and "b \<notin> log_area s \<Longrightarrow> recovered (l_start s) bs d b = recovered (l_start s) bs c b"
proof -
  have ok: "\<And>b. b \<in> set bs \<Longrightarrow> b \<notin> log_area s" "length bs < l_size s"
    using assms(2) by (auto simp: header_ok_def)
  have other: "d b = c b" if "b \<notin> set (take k bs)" for b
    using assms(3) that by (simp add: take_install_writes replay_install_other)
  show area: "b \<in> log_area s \<Longrightarrow> d b = c b" for b
    using other ok(1) in_set_takeD by metis
  show "b \<notin> log_area s \<Longrightarrow> recovered (l_start s) bs d b = recovered (l_start s) bs c b"
  proof (cases "first_index ((=) b) bs")
    case None
    then have "b \<notin> set bs" by (auto simp: first_index_None_iff)
    then have "d b = c b" using other in_set_takeD by metis
    with None show ?thesis by (simp add: recovered_def)
  next
    case (Some i)
    then have "l_start s + 1 + i \<in> log_area s"
      using first_index_SomeD [OF Some] ok(2) by (simp add: log_area_def)
    with area Some show ?thesis by (simp add: recovered_def)
  qed
qed

lemma initlog_after_crash:
  assumes inv: "log_inv {} s" and t: "rest {} t" "dirty t = {}" "length (l_block t) = LOGSIZE"
    and d: "disk t 1 = replay (take k (commit_writes s)) (disk s 1)"
    and sb: "sb_logstart (decode_superblock (disk s 1 1)) = l_start s"
      "sb_nlog (decode_superblock (disk s 1 1)) = l_size s" "1 \<notin> log_area s" "1 \<notin> dirty s"
  shows "\<exists>t'. initlog 1 t = Inr ((), t') \<and> log_inv {} t' \<and>
    ((\<forall>b. b \<notin> log_area s \<longrightarrow> disk t' 1 b = disk s 1 b) \<and> (k < length (commit_writes s) \<or> dirty s = {}) \<or>
     (\<forall>b. b \<notin> log_area s \<longrightarrow> disk t' 1 b = blk s b))"
proof -
  note D = log_invD [OF inv]
  let ?start = "l_start s" and ?bs = "header_blocks (disk t 1 (l_start s))"
  have clean: "b \<notin> dirty s \<Longrightarrow> blk s b = disk s 1 b" for b
    using clean_disk [OF D(1)] by simp
  note pre = commit_prefix [OF inv d]
  have one: "disk t 1 1 = disk s 1 1" using pre sb(3,4) clean [of 1] by auto
  have bs: "?bs = [] \<or> ?bs = logged s" using pre by blast
  then have ok: "length ?bs < l_size s" "distinct ?bs" "\<forall>b\<in>set ?bs. b < FSSIZE \<and> b \<notin> log_area s"
    using D(2,3,4,5,6,7,10) by (auto simp: log_shape_def)
  have start: "?start \<in> log_area s" using D(2) by (simp add: log_area_def log_shape_def)
  let ?W = "install_writes (?start + 1) ?bs (disk t 1) @ [(1, ?start, encode_head [] (disk t 1 ?start))]"
  obtain t' where t': "initlog 1 t = Inr ((), t')" "log_inv {} t'" "disk t' 1 = replay ?W (disk t 1)"
    using initlog_spec [OF t, of _ ?bs] one sb ok D(2) by (auto simp: log_shape_def log_area_def)
  have dt: "disk t' 1 b = (case first_index ((=) b) ?bs of None \<Rightarrow> disk t 1 b | Some i \<Rightarrow> disk t 1 (?start + 1 + i))"
    if "b \<notin> log_area s" for b
    unfolding t'(3) by (rule replay_recovery [OF ok(2) _ start that]) (use ok(3) in blast)
  from pre consider
    (old) "?bs = []" "\<forall>b. b \<notin> log_area s \<longrightarrow> disk t 1 b = disk s 1 b" "k < length (commit_writes s) \<or> dirty s = {}"
  | (redo) "?bs = logged s" "\<forall>i<length (logged s). disk t 1 (?start + 1 + i) = blk s (logged s ! i)"
      "\<forall>b. b \<notin> log_area s \<and> b \<notin> dirty s \<longrightarrow> disk t 1 b = disk s 1 b"
  | (new) "?bs = []" "\<forall>b. b \<notin> log_area s \<longrightarrow> disk t 1 b = blk s b" by blast
  then have "(\<forall>b. b \<notin> log_area s \<longrightarrow> disk t' 1 b = disk s 1 b) \<and> (k < length (commit_writes s) \<or> dirty s = {}) \<or>
     (\<forall>b. b \<notin> log_area s \<longrightarrow> disk t' 1 b = blk s b)"
  proof cases
    case old
    with dt show ?thesis by simp
  next
    case redo
    have "disk t' 1 b = blk s b" if "b \<notin> log_area s" for b
    proof (cases "first_index ((=) b) (logged s)")
      case None
      then have "b \<notin> dirty s" using D(5) by (auto simp: first_index_None_iff)
      with None redo dt [OF that] that clean show ?thesis by simp
    next
      case (Some i)
      then have "i < length (logged s)" "logged s ! i = b" by (auto dest: first_index_SomeD)
      with Some redo dt [OF that] show ?thesis by simp
    qed
    then show ?thesis by blast
  next
    case new
    with dt show ?thesis by simp
  qed
  with t' show ?thesis by blast
qed

section \<open>Transactions\<close>

lemma rest_wakeup1 [simp]: "rest H (wakeup1 c s) = rest H s"
proof -
  have "sized (wakeup1 c s) = sized s" by (simp add: sized_def)
  then show ?thesis by (simp add: rest_def)
qed

lemma wakeup1_log [simp]:
  "l_n (wakeup1 c s) = l_n s" "l_block (wakeup1 c s) = l_block s" "l_start (wakeup1 c s) = l_start s"
  "l_size (wakeup1 c s) = l_size s" "l_outstanding (wakeup1 c s) = l_outstanding s"
  "l_committing (wakeup1 c s) = l_committing s" "l_dev (wakeup1 c s) = l_dev s"
  "log_state.more (wakeup1 c s) = log_state.more s" "logged (wakeup1 c s) = logged s"
  "dirty (wakeup1 c s) = dirty s"
  by (simp_all add: wakeup1_def logged_def dirty_def)

lemma log_inv_cong:
  assumes "log_only s s'" and "l_start s' = l_start s" and "l_size s' = l_size s" and "l_dev s' = l_dev s"
    and "l_n s' = l_n s" and "l_block s' = l_block s"
  shows "log_inv H s' = log_inv H s"
  using assms(2-) log_only_bio [OF assms(1)]
  by (simp add: log_inv_def log_shape_def logged_def log_area_def)

lemma log_inv_wakeup1 [simp]: "log_inv H (wakeup1 c s) = log_inv H s"
  by (simp add: log_inv_def log_shape_def log_area_def)

lemma commit_durable_lemma:
  assumes "log_inv {} s" and "commit s = Inr ((), s')" and "b \<notin> log_area s"
  shows "blk s' b = blk s b \<and> disk s' 1 b = blk s b"
proof -
  note D = log_invD [OF assms(1)]
  have e: "leffect (commit_writes s) s s'" and inv': "log_inv {} s'" and "l_n s' = 0"
    using commit_spec [OF assms(1)] assms(2) by auto
  then have "dirty s' = {}" using log_invD(5,10) [OF inv'] by auto
  then have "blk s' b = disk s' 1 b" using clean_disk [OF log_invD(1) [OF inv']] by simp
  moreover have "blk s' b = blk s b"
  proof (cases "logged s = []")
    case True
    with leffectD(1) [OF e] show ?thesis by (simp add: commit_writes_def)
  next
    case False
    have "l_start s \<in> log_area s" using D(2) by (simp add: log_area_def log_shape_def)
    then have "b \<noteq> l_start s" using assms(3) by auto
    moreover have "\<not> (Suc (l_start s) \<le> b \<and> b < Suc (l_start s + length (logged s)))"
      using assms(3) D(3,10) by (auto simp: log_area_def)
    ultimately show ?thesis
      using leffectD(1) [OF e] False by (auto simp: commit_writes_def Let_def replay_map replay_log_writes)
  qed
  ultimately show ?thesis by simp
qed

section \<open>Properties\<close>

text \<open>An example state: the log is blocks 2 to 31 of the disk, one transaction is open.\<close>

definition example_sb :: "byte list" where
  "example_sb = put_le 40 8 2 (put_le 32 8 30 (replicate BSIZE 0))"

definition example_disk :: "nat \<Rightarrow> byte list" where
  "example_disk bn = (if bn = 1 then example_sb else replicate BSIZE 0)"

definition log_example :: "block_buffer \<Rightarrow> nat \<Rightarrow> (nat \<Rightarrow> byte list) \<Rightarrow> log_state" where
  "log_example b n d = \<lparr>freelist = [], kernel_end = 0, available_memory = 0, kpdpt = 0, ptab = (\<lambda>_ _. 0),
     pdata = (\<lambda>_. []), procs = [blank_proc\<lparr>p_state := RUNNING, p_pid := 1\<rparr>], nextpid = 2,
     initproc = Some 0, curproc = 0, ticks = 0, bufs = b # replicate 29 empty_buf, lru = rev [0..<NBUF],
     idequeue = [], disk = (\<lambda>_. d), havedisk1 = True, ide_ok = True, disk_hist = [],
     l_start = 2, l_size = 30, l_outstanding = 1, l_committing = False, l_dev = 1, l_n = n,
     l_block = 100 # replicate 29 0\<rparr>"

definition dirty_buf :: block_buffer where
  "dirty_buf = empty_buf\<lparr>b_valid := True, b_dirty := True, b_dev := 1, b_blockno := 100,
     b_data := replicate BSIZE 9\<rparr>"

lemma example_nth:
  "i < NBUF \<Longrightarrow> bufs (log_example b n d) ! i = (if i = 0 then b else empty_buf)"
  by (auto simp: log_example_def NBUF_def nth_Cons')

lemma example_rest:
  assumes "b = empty_buf \<or> b = dirty_buf" and "\<And>bn. length (d bn) = BSIZE"
  shows "rest {} (log_example b n d)"
proof -
  let ?s = "log_example b n d"
  have set: "x \<in> set (bufs ?s) \<Longrightarrow> x = b \<or> x = empty_buf" for x
    by (auto simp: log_example_def)
  have ok: "buf_ok ?s x" if "x \<in> set (bufs ?s)" for x
    using set [OF that] assms(1) by (auto simp: buf_ok_def dirty_buf_def empty_buf_def unlocked_def)
  have "keys_unique (bufs ?s)"
    unfolding keys_unique_def using assms(1) by (auto simp: example_nth empty_buf_def)
  with ok have inv: "bio_inv ?s"
    by (auto simp: bio_inv_def log_example_def runs_def NBUF_def)
  have "length (blk ?s bn) = BSIZE" for bn
  proof -
    consider i where "i < NBUF" "b_valid (bufs ?s ! i)" "caches bn (bufs ?s ! i)" | "blk ?s bn = disk ?s 1 bn"
      using blk_cases [of ?s bn] by (auto simp: log_example_def NBUF_def)
    then show ?thesis
    proof cases
      case 1
      with blk_hit [OF inv 1] set [of "bufs ?s ! i"] assms(1) example_nth [OF 1(1), of b n d] show ?thesis
        by (auto simp: empty_buf_def dirty_buf_def)
    qed (simp add: log_example_def assms(2))
  qed
  then have "sized ?s" by (simp add: sized_def log_example_def assms(2))
  moreover have "b_refcnt (bufs ?s ! i) = 0" if "i < NBUF" for i
    using assms(1) example_nth [OF that] by (auto simp: empty_buf_def dirty_buf_def)
  ultimately show ?thesis using inv by (simp add: rest_def)
qed

lemma example_dirty:
  "dirty (log_example dirty_buf n d) = {100}" "dirty (log_example empty_buf n d) = {}"
proof -
  have 0: "0 < NBUF" by (simp add: NBUF_def)
  have "caches 100 dirty_buf \<and> b_dirty dirty_buf" by (simp add: dirty_buf_def caches_def)
  moreover have "x = 100" if "x \<in> dirty (log_example dirty_buf n d)" for x
    using that by (auto simp: dirty_def example_nth caches_def dirty_buf_def empty_buf_def split: if_splits)
  ultimately show "dirty (log_example dirty_buf n d) = {100}"
    using 0 example_nth [OF 0, of dirty_buf n d] by (auto simp: dirty_def)
  show "dirty (log_example empty_buf n d) = {}"
    by (auto simp: dirty_def example_nth empty_buf_def)
qed

lemma example_disk_sized: "length (example_disk bn) = BSIZE"
  by (simp add: example_disk_def example_sb_def BSIZE_def)

lemma example_disk_sb:
  "sb_logstart (decode_superblock (example_disk 1)) = 2" "sb_nlog (decode_superblock (example_disk 1)) = 30"
  by (simp_all add: example_disk_def example_sb_def decode_superblock_def get_put_le_same get_put_le_other BSIZE_def)

lemma get_le_zero: "get_le off n (replicate m 0) = 0"
proof -
  have "le_val (replicate k 0) = 0" for k by (induction k) auto
  then show ?thesis by (simp add: get_le_def)
qed

lemma example_fields [simp]:
  "l_start (log_example b n d) = 2" "l_size (log_example b n d) = 30" "l_outstanding (log_example b n d) = 1"
  "\<not> l_committing (log_example b n d)" "l_dev (log_example b n d) = 1" "l_n (log_example b n d) = n"
  "l_block (log_example b n d) = 100 # replicate 29 0" "disk (log_example b n d) = (\<lambda>_. d)"
  "disk_hist (log_example b n d) = []"
  by (simp_all add: log_example_def)

lemma example_log_inv: "log_inv {} (log_example dirty_buf 1 example_disk)"
  unfolding log_inv_def
  using example_rest [of dirty_buf example_disk 1] example_disk_sized
  by (simp add: example_dirty log_shape_def logged_def log_area_def
      FSSIZE_def LOGSIZE_def example_disk_def get_entry_def get_le_zero)

lemma example_blk: "blk (log_example dirty_buf 1 example_disk) 100 = replicate BSIZE 9"
proof -
  have 0: "0 < NBUF" by (simp add: NBUF_def)
  from blk_hit [OF restD(1) [OF log_invD(1) [OF example_log_inv]] this, of 100] show ?thesis
    by (simp add: example_nth [OF 0] dirty_buf_def caches_def)
qed

lemma end_op_spec:
  assumes "log_inv {} s" and "l_outstanding s = 1" and "\<not> l_committing s"
  shows "\<exists>s'. end_op s = Inr ((), s') \<and> log_inv {} s' \<and> l_n s' = 0 \<and> l_outstanding s' = 0 \<and>
    \<not> l_committing s' \<and> (\<forall>b. b \<notin> log_area s \<longrightarrow> disk s' 1 b = blk s b \<and> blk s' b = blk s b) \<and>
    log_state.more s' = log_state.more s \<and> me s' = me s \<and> l_start s' = l_start s \<and> l_size s' = l_size s"
proof -
  let ?t = "s\<lparr>l_outstanding := 0, l_committing := True\<rparr>"
  have lo: "log_only s ?t" by (simp add: log_only_def bio_state.defs)
  have inv: "log_inv {} ?t" using assms(1) log_inv_cong [OF lo] by simp
  obtain s1 where c: "commit ?t = Inr ((), s1)" "log_inv {} s1" "l_n s1 = 0" "lcalm ?t s1"
    using commit_spec [OF inv] leffectD(3) by blast
  have area: "log_area ?t = log_area s" by (simp add: log_area_def)
  let ?u = "s1\<lparr>l_committing := False\<rparr>"
  have lo': "log_only s1 ?u" by simp
  have "end_op s = Inr ((), wakeup1 ChanLog ?u)"
    using assms(2,3) c(1) by (simp add: end_op_def kern_simps usub_eq wakeup_run)
  moreover have "log_inv {} ?u" using c(2) log_inv_cong [OF lo'] by simp
  moreover have "l_outstanding s1 = 0" "l_start s1 = l_start s" "l_size s1 = l_size s" "me s1 = me s"
    "log_state.more s1 = log_state.more s"
    using c(4) log_only_bio(6) [OF lo] by (simp_all add: lcalm_def)
  moreover have "runs ?u" using bio_invD(5) [OF restD(1) [OF log_invD(1) [OF calculation(2)]]] .
  ultimately show ?thesis
    using c(3) commit_durable_lemma [OF inv c(1)] log_only_bio [OF lo] log_only_bio [OF lo'] area by auto
qed

text \<open>
  C10: The end of the last open operation makes the transaction durable: \<^verbatim>\<open>end_op\<close> returns, the log is
  empty and closed again, and every block outside the log is on disk as the operations left it in
  the cache.
\<close>

theorem end_op_commits:
  assumes "log_inv {} s" and "l_outstanding s = 1" and "\<not> l_committing s"
  shows "\<exists>s'. end_op s = Inr ((), s') \<and> log_inv {} s' \<and> l_n s' = 0 \<and> l_outstanding s' = 0 \<and>
    \<not> l_committing s' \<and> (\<forall>b. b \<notin> log_area s \<longrightarrow> disk s' 1 b = blk s b \<and> blk s' b = blk s b)"
  using end_op_spec [OF assms] by blast

theorem end_op_commits_witness:
  "\<exists>s'. end_op (log_example dirty_buf 1 example_disk) = Inr ((), s') \<and> l_n s' = 0 \<and>
     disk s' 1 100 = replicate BSIZE 9"
  using end_op_commits [OF example_log_inv] example_blk by (fastforce simp: log_area_def)

text \<open>
  C1: A transaction is atomic with respect to crashes. Stop the machine after any number of the disk
  writes of a commit and start it again with an empty cache: \<^verbatim>\<open>initlog\<close> recovers, and afterwards every
  block outside the log has its contents from before the transaction, or every one has its
  contents from after it; the latter when all the writes had been done.
\<close>

theorem commit_crash_atomic:
  assumes "log_inv {} s" and "commit s = Inr ((), s')" and "disk_hist s' = disk_hist s @ W"
    and "rest {} t" and "dirty t = {}" and "length (l_block t) = LOGSIZE"
    and "disk t 1 = replay (take k W) (disk s 1)"
    and "sb_logstart (decode_superblock (disk s 1 1)) = l_start s"
    and "sb_nlog (decode_superblock (disk s 1 1)) = l_size s" and "1 \<notin> log_area s" and "1 \<notin> dirty s"
  shows "\<exists>t'. initlog 1 t = Inr ((), t') \<and> log_inv {} t' \<and>
    ((\<forall>b. b \<notin> log_area s \<longrightarrow> disk t' 1 b = disk s 1 b) \<or> (\<forall>b. b \<notin> log_area s \<longrightarrow> disk t' 1 b = blk s b)) \<and>
    (length W \<le> k \<longrightarrow> (\<forall>b. b \<notin> log_area s \<longrightarrow> disk t' 1 b = blk s b))"
proof -
  have "leffect (commit_writes s) s s'" using commit_spec [OF assms(1)] assms(2) by auto
  then have W: "W = commit_writes s" using assms(3) by (simp add: leffect_def)
  have "blk s b = disk s 1 b" if "dirty s = {}" for b
    using clean_disk [OF log_invD(1) [OF assms(1)]] that by simp
  with initlog_after_crash [OF assms(1,4-6) assms(7) [unfolded W] assms(8-11)] W show ?thesis
    by fastforce
qed

theorem commit_crash_atomic_witness:
  "\<exists>W s' t'. commit (log_example dirty_buf 1 example_disk) = Inr ((), s') \<and> disk_hist s' = W \<and>
     initlog 1 (log_example empty_buf 0 (replay (take 2 W) example_disk)) = Inr ((), t') \<and>
     (disk t' 1 100 = replicate BSIZE 0 \<or> disk t' 1 100 = replicate BSIZE 9)"
proof -
  let ?s = "log_example dirty_buf 1 example_disk"
  obtain s' where c: "commit ?s = Inr ((), s')" using commit_spec [OF example_log_inv] by blast
  let ?W = "disk_hist s'"
  let ?t = "log_example empty_buf 0 (replay (take 2 ?W) example_disk)"
  have e: "leffect (commit_writes ?s) ?s s'" using commit_spec [OF example_log_inv] c by auto
  have len: "length (replay (take 2 ?W) example_disk bn) = BSIZE" for bn
  proof -
    have "?W = commit_writes ?s" using e by (simp add: leffect_def)
    then have "\<forall>w\<in>set (take 2 ?W). length (snd (snd w)) = BSIZE"
      using sizedD(1) [OF restD(2) [OF log_invD(1) [OF example_log_inv]]]
        encode_head_read(3) [of "blk ?s 2" "[100]"]
      by (simp add: commit_writes_def Let_def logged_def FSSIZE_def LOGSIZE_def)
    then show ?thesis using example_disk_sized by (rule replay_sized)
  qed
  have "1 \<notin> log_area ?s" "1 \<notin> dirty ?s" by (simp_all add: log_area_def example_dirty)
  from commit_crash_atomic [OF example_log_inv c, of ?W ?t 2] len this
  obtain t' where "initlog 1 ?t = Inr ((), t')"
    "(\<forall>b. b \<notin> log_area ?s \<longrightarrow> disk t' 1 b = example_disk b) \<or> (\<forall>b. b \<notin> log_area ?s \<longrightarrow> disk t' 1 b = blk ?s b)"
    by (auto simp: example_rest example_dirty LOGSIZE_def example_disk_sb [unfolded One_nat_def])
  moreover have "100 \<notin> log_area ?s" by (simp add: log_area_def)
  ultimately show ?thesis using c example_blk by (auto simp: example_disk_def)
qed

text \<open>
  C11: Recovery can itself be interrupted. When a header on disk lists distinct blocks outside the
  log, stopping the machine after any number of the disk writes of a recovery and recovering again
  gives every block outside the log the contents that the undisturbed recovery gives it.
\<close>

theorem recovery_idempotent:
  assumes "rest {} t" and "log_shape t" and "dirty t = {}"
    and "header_ok t (header_blocks (disk t 1 (l_start t)))"
    and "recover_from_log t = Inr ((), t')" and "disk_hist t' = disk_hist t @ W"
    and "rest {} u" and "log_shape u" and "dirty u = {}" and "l_start u = l_start t" and "l_size u = l_size t"
    and "disk u 1 = replay (take k W) (disk t 1)"
  shows "\<exists>u'. recover_from_log u = Inr ((), u') \<and> log_inv {} u' \<and>
    (\<forall>b. b \<notin> log_area t \<longrightarrow> disk u' 1 b = disk t' 1 b)"
proof -
  let ?start = "l_start t" and ?bs = "header_blocks (disk t 1 (l_start t))"
  note T = recover_home [OF assms(1-3) refl assms(4)]
  have W: "W = install_writes (?start + 1) ?bs (disk t 1) @ [(1, ?start, encode_head [] (disk t 1 ?start))]"
    and t'1: "disk t' 1 = replay W (disk t 1)"
    and home: "\<forall>b. b \<notin> log_area t \<longrightarrow> disk t' 1 b = recovered ?start ?bs (disk t 1) b"
    using T assms(5,6) by auto
  have area: "log_area u = log_area t" using assms(10,11) by (simp add: log_area_def)
  show ?thesis
  proof (cases "k \<le> length ?bs")
    case True
    have "take k W = take k (install_writes (?start + 1) ?bs (disk t 1))" using W True by simp
    then have du: "disk u 1 = replay (take k (install_writes (?start + 1) ?bs (disk t 1))) (disk t 1)"
      using assms(12) by simp
    note P = recovered_prefix [OF assms(2,4) du]
    then have hdr: "header_blocks (disk u 1 (l_start u)) = ?bs"
      using assms(2,10) by (simp add: log_area_def log_shape_def)
    have "header_ok u ?bs" using assms(4,11) area by (simp add: header_ok_def)
    from recover_home [OF assms(7-9) hdr this] show ?thesis
      using P(2) home area assms(10) by auto
  next
    case False
    then have same: "disk u 1 = disk t' 1" using W assms(12) t'1 by simp
    moreover have "disk t' 1 ?start = encode_head [] (disk t 1 ?start)" using t'1 W by simp
    ultimately have hdr: "header_blocks (disk u 1 (l_start u)) = []"
      using header_blocks_encode [of "disk t 1 ?start" "[]"] sizedD(2) [OF restD(2) [OF assms(1)]] assms(10) by simp
    have "header_ok u []" using assms(8) by (simp add: header_ok_def log_shape_def)
    from recover_home [OF assms(7-9) hdr this] show ?thesis
      using area same by (auto simp: recovered_def)
  qed
qed

definition crashed_disk :: "nat \<Rightarrow> byte list" where
  "crashed_disk = example_disk(2 := encode_head [100] (replicate BSIZE 0), 3 := replicate BSIZE 9)"

lemma crashed_disk_facts:
  "length (crashed_disk bn) = BSIZE" "header_blocks (crashed_disk 2) = [100]"
  "header_ok (log_example b n d) [100]" "log_shape (log_example b n d)"
proof -
  have z: "length (replicate BSIZE (0 :: byte)) = BSIZE" by simp
  have l: "length [100 :: nat] \<le> LOGSIZE" "\<forall>b\<in>set [100 :: nat]. b < FSSIZE"
    by (simp_all add: LOGSIZE_def FSSIZE_def)
  show "length (crashed_disk bn) = BSIZE"
    using encode_head_read(3) [OF z l] example_disk_sized by (simp add: crashed_disk_def)
  show "header_blocks (crashed_disk 2) = [100]"
    using header_blocks_encode [OF z l] by (simp add: crashed_disk_def)
  show "header_ok (log_example b n d) [100]" "log_shape (log_example b n d)"
    by (simp_all add: header_ok_def log_shape_def log_area_def FSSIZE_def LOGSIZE_def)
qed

theorem recovery_idempotent_witness:
  "\<exists>t' u'. recover_from_log (log_example empty_buf 0 crashed_disk) = Inr ((), t') \<and>
     recover_from_log (log_example empty_buf 0 (replay (take 1 (disk_hist t')) crashed_disk)) = Inr ((), u') \<and>
     disk u' 1 100 = disk t' 1 100"
proof -
  let ?t = "log_example empty_buf 0 crashed_disk"
  have rest: "rest {} (log_example empty_buf 0 d)" if "\<And>bn. length (d bn) = BSIZE" for d
    using example_rest [of empty_buf d 0] that by simp
  have hdr: "header_blocks (disk ?t 1 (l_start ?t)) = [100]" by (simp add: crashed_disk_facts)
  have ok: "header_ok ?t (header_blocks (disk ?t 1 (l_start ?t)))" unfolding hdr by (rule crashed_disk_facts)
  note R = rest [OF crashed_disk_facts(1)] crashed_disk_facts(4) example_dirty(2)
  obtain t' where t': "recover_from_log ?t = Inr ((), t')"
    "disk_hist t' = disk_hist ?t @ install_writes 3 [100] crashed_disk @ [(1, 2, encode_head [] (crashed_disk 2))]"
    using recover_home [OF R hdr crashed_disk_facts(3)] by auto
  let ?u = "log_example empty_buf 0 (replay (take 1 (disk_hist t')) crashed_disk)"
  have "length (replay (take 1 (disk_hist t')) crashed_disk bn) = BSIZE" for bn
    by (rule replay_sized) (use t'(2) crashed_disk_facts(1) in auto)
  from rest [OF this] have u: "rest {} ?u" .
  have "\<exists>u'. recover_from_log ?u = Inr ((), u') \<and> log_inv {} u' \<and>
      (\<forall>b. b \<notin> log_area ?t \<longrightarrow> disk u' 1 b = disk t' 1 b)"
    by (rule recovery_idempotent [OF R ok t'(1) _ u crashed_disk_facts(4) example_dirty(2), where k = 1])
      simp_all
  then show ?thesis using t' by (auto simp: log_area_def)
qed

text \<open>
  C16: \<^verbatim>\<open>log_write\<close> of a held buffer inside a transaction records its block once and pins the buffer:
  the log keeps its invariant, the block joins the dirty blocks, the count grows by one exactly
  when the block was not logged before, and neither the disk nor the contents of any block change.
\<close>

theorem log_write_records:
  assumes "log_inv H s" and "held s i bn" and "bn < FSSIZE" and "bn \<notin> log_area s"
    and "l_n s + 1 < l_size s" and "1 \<le> l_outstanding s"
  shows "\<exists>s'. log_write i s = Inr ((), s') \<and> log_inv H s' \<and> dirty s' = insert bn (dirty s) \<and>
    l_n s' = (if bn \<in> dirty s then l_n s else l_n s + 1) \<and> blk s' = blk s \<and> disk s' = disk s \<and> settled s' i"
proof -
  obtain s' where s': "log_write i s = Inr ((), s')" "log_inv H s'" "dirty s' = insert bn (dirty s)"
    "blk s' = blk s" "disk s' = disk s" "settled s' i"
    using log_write_spec [OF assms] by blast
  have "finite (dirty s)" using dirty_inj(2) [OF restD(1) [OF log_invD(1) [OF assms(1)]]] .
  then have "l_n s' = (if bn \<in> dirty s then l_n s else l_n s + 1)"
    using log_invD(11) [OF s'(2)] log_invD(11) [OF assms(1)] s'(3) by (cases "bn \<in> dirty s") (auto simp: insert_absorb)
  with s' show ?thesis by blast
qed

theorem log_write_records_witness:
  "\<exists>i s1 s'. block_read 1 200 (log_example dirty_buf 1 example_disk) = Inr (i, s1) \<and>
     log_write i s1 = Inr ((), s') \<and> l_n s' = 2 \<and> dirty s' = {100, 200}"
proof -
  let ?s = "log_example dirty_buf 1 example_disk"
  have bn: "(200 :: nat) < FSSIZE" by (simp add: FSSIZE_def)
  obtain i s1 where r: "block_read 1 200 ?s = Inr (i, s1)" "rest {i} s1" "held s1 i 200" "disk s1 = disk ?s"
    "dirty s1 = {100}" "calm ?s s1"
    using rest_read [OF log_invD(1) [OF example_log_inv] _ bn] by (auto simp: example_dirty NBUF_def)
  note c = calm_log [OF r(6)]
  have inv: "log_inv {i} s1"
    using r example_log_inv logged_calm [OF r(6)] log_shape_calm [OF r(6)] c
    by (simp add: log_inv_def log_area_def example_dirty)
  have "200 \<notin> log_area s1" "l_n s1 + 1 < l_size s1" "1 \<le> l_outstanding s1"
    using c by (simp_all add: log_area_def)
  from log_write_records [OF inv r(3) bn this] r c show ?thesis by (auto simp: insert_commute)
qed



end
