(* ===== verification/Kern_Fs.thy ===== *)
theory Kern_Fs
  imports Kern_Crash Kern_Pipe
begin

text \<open>
  The lower half of the file system, \<^verbatim>\<open>kernel/fs.c\<close>: the block allocator, the inode table, the map
  from a file's blocks to disk blocks, and reading and writing of file contents.

  An inode pointer is an index into the inode table. Sizes and block numbers, unsigned 64-bit
  integers in the code, are naturals; \<^verbatim>\<open>block_alloc\<close> reports a full disk by the value \<open>2 ^ 64 - 28\<close>
  of \<^verbatim>\<open>-ENOSPC\<close> as an unsigned integer. A buffer of a caller is the list of its bytes. The state also
  holds the file table and the pipes of the later theories, because path lookup reads them.

  The device switch is part of the state. What a device does is not: the answer of a device may
  depend on the number of calls of devices made before, so it stands for any behaviour. In the same
  way \<open>kmalloc_ok\<close> says which calls of the kernel's heap allocator succeed.

  Sizes of files are below \<open>2 ^ 63\<close>, as \<^verbatim>\<open>MAXFILE\<close> implies, so that an offset that passes the test
  of \<^verbatim>\<open>inode_read\<close> and \<^verbatim>\<open>inode_write\<close> is not negative.
\<close>

section \<open>Data\<close>

record inode =
  i_dev :: nat
  i_rf :: "nat option"
  i_wf :: "nat option"
  i_inum :: nat
  i_fattrs :: int
  i_ref :: int
  i_lock :: sleeplock
  i_valid :: bool
  i_ctime :: nat
  i_atime :: nat
  i_mtime :: nat
  i_size :: nat
  i_mode :: nat
  i_gid :: nat
  i_uid :: nat
  i_addrs :: "nat list"
  i_major :: int
  i_minor :: int
  i_nlink :: int

datatype file_type = FD_NONE | FD_PIPE | FD_INODE | FD_FIFO

record file_rec =
  f_type :: file_type
  f_flags :: int
  f_ref :: int
  f_readable :: bool
  f_writable :: bool
  f_pipe :: "nat option"
  f_ip :: "nat option"
  f_off :: int

record devsw =
  d_open :: "(nat \<Rightarrow> int \<Rightarrow> int \<Rightarrow> int) option"
  d_close :: "(nat \<Rightarrow> int \<Rightarrow> int) option"
  d_read :: "(nat \<Rightarrow> int \<Rightarrow> nat \<Rightarrow> int \<times> byte list) option"
  d_write :: "(nat \<Rightarrow> int \<Rightarrow> byte list \<Rightarrow> int) option"
  d_mmap :: "(nat \<Rightarrow> int \<Rightarrow> u64 \<Rightarrow> u64 \<Rightarrow> u64 \<Rightarrow> mmap_info) option"

record fs_state = log_state +
  inodes :: "inode list"
  global_sb :: superblock
  rtc :: nat \<comment> \<open>what \<open>rtc_now\<close> reads\<close>
  files :: "file_rec list"
  pipes :: "nat \<Rightarrow> pipe option"
  devtab :: "devsw list"
  io_time :: nat
  kmalloc_ok :: "nat \<Rightarrow> bool"
  kmalloc_time :: nat

record stat =
  st_dev :: nat
  st_ino :: nat
  st_nlink :: int
  st_size :: int
  st_mode :: nat
  st_uid :: nat
  st_gid :: nat
  st_rdev :: nat
  st_ctime :: nat
  st_atime :: nat
  st_mtime :: nat
  st_blksize :: nat
  st_blocks :: nat

definition NINODE :: nat where "NINODE = 50"
definition NDEV :: nat where "NDEV = 10"
definition NDIRECT :: nat where "NDIRECT = 8"
definition NINDIRECT :: nat where "NINDIRECT = BSIZE div 8"
definition MAXFILE :: nat where "MAXFILE = NDIRECT + NINDIRECT + NINDIRECT * NINDIRECT"
definition DINODE_SIZE :: nat where "DINODE_SIZE = 128"
definition IPB :: nat where "IPB = BSIZE div DINODE_SIZE"
definition BPB :: nat where "BPB = BSIZE * 8"
definition IBLOCK :: "nat \<Rightarrow> superblock \<Rightarrow> nat" where "IBLOCK i sb = i div IPB + sb_inodestart sb"
definition BBLOCK :: "nat \<Rightarrow> superblock \<Rightarrow> nat" where "BBLOCK b sb = b div BPB + sb_bmapstart sb"

definition S_IFMT :: nat where "S_IFMT = 0xF000"
definition S_IFIFO :: nat where "S_IFIFO = 0x1000"
definition S_IFCHR :: nat where "S_IFCHR = 0x2000"
definition S_IFDIR :: nat where "S_IFDIR = 0x4000"
definition S_IFBLK :: nat where "S_IFBLK = 0x6000"
definition S_IFREG :: nat where "S_IFREG = 0x8000"
definition S_IFLNK :: nat where "S_IFLNK = 0xA000"
definition S_IFSOCK :: nat where "S_IFSOCK = 0xC000"

definition S_ISTYPE :: "nat \<Rightarrow> nat \<Rightarrow> bool" where "S_ISTYPE mode msk \<longleftrightarrow> mode AND S_IFMT = msk"
definition S_ISDIR :: "nat \<Rightarrow> bool" where "S_ISDIR mode \<longleftrightarrow> S_ISTYPE mode S_IFDIR"
definition S_ISCHR :: "nat \<Rightarrow> bool" where "S_ISCHR mode \<longleftrightarrow> S_ISTYPE mode S_IFCHR"
definition S_ISREG :: "nat \<Rightarrow> bool" where "S_ISREG mode \<longleftrightarrow> S_ISTYPE mode S_IFREG"
definition S_ISFIFO :: "nat \<Rightarrow> bool" where "S_ISFIFO mode \<longleftrightarrow> S_ISTYPE mode S_IFIFO"
definition S_ISLNK :: "nat \<Rightarrow> bool" where "S_ISLNK mode \<longleftrightarrow> S_ISTYPE mode S_IFLNK"
definition S_ISANY :: "nat \<Rightarrow> bool" where
  "S_ISANY mode \<longleftrightarrow> S_ISDIR mode \<or> S_ISCHR mode \<or> S_ISTYPE mode S_IFBLK \<or> S_ISREG mode \<or>
     S_ISFIFO mode \<or> S_ISLNK mode \<or> S_ISTYPE mode S_IFSOCK"

text \<open>A \<^verbatim>\<open>short\<close> in a structure on disk.\<close>

definition get_short :: "nat \<Rightarrow> byte list \<Rightarrow> int" where
  "get_short off d = (let v = get_le off 2 d in if v < 2 ^ 15 then int v else int v - 2 ^ 16)"

definition put_short :: "nat \<Rightarrow> int \<Rightarrow> byte list \<Rightarrow> byte list" where
  "put_short off v d = put_le off 2 (nat (v mod 2 ^ 16)) d"

section \<open>Blocks\<close>

definition block_zero :: "nat \<Rightarrow> nat \<Rightarrow> ('z fs_state_scheme, unit) kern" where
  "block_zero dev bno =
     bindk (block_read dev bno) (\<lambda>bp.
       thenk (set_data bp (replicate BSIZE 0))
      (thenk (log_write bp)
       (block_release bp)))"

definition map_bit :: "nat \<Rightarrow> byte list \<Rightarrow> bool" where
  "map_bit bi d = bit (d ! (bi div 8)) (bi mod 8)"

definition set_map_bit :: "nat \<Rightarrow> byte list \<Rightarrow> byte list" where
  "set_map_bit bi d = d[bi div 8 := d ! (bi div 8) OR push_bit (bi mod 8) 1]"

definition clear_map_bit :: "nat \<Rightarrow> byte list \<Rightarrow> byte list" where
  "clear_map_bit bi d = d[bi div 8 := d ! (bi div 8) AND NOT (push_bit (bi mod 8) 1)]"

text \<open>The loop over the blocks of the free map; a free block of one of them ends it.\<close>

fun block_alloc_loop :: "nat \<Rightarrow> nat list \<Rightarrow> ('z fs_state_scheme, nat) kern" where
  "block_alloc_loop dev [] = returnk (2 ^ 64 - 28)"
| "block_alloc_loop dev (b # bs) =
     bindk (getk global_sb) (\<lambda>sb.
     bindk (block_read dev (BBLOCK b sb)) (\<lambda>bp.
     bindk (getk (\<lambda>s. b_data (bufs s ! bp))) (\<lambda>d.
       case find (\<lambda>bi. \<not> map_bit bi d) [0..<min BPB (sb_size sb - b)] of
         Some bi \<Rightarrow>
           thenk (set_data bp (set_map_bit bi d))
          (thenk (log_write bp)
          (thenk (block_release bp)
          (thenk (block_zero dev (b + bi))
           (returnk (b + bi)))))
       | None \<Rightarrow> thenk (block_release bp) (block_alloc_loop dev bs))))"

definition block_alloc :: "nat \<Rightarrow> ('z fs_state_scheme, nat) kern" where
  "block_alloc dev =
     bindk (getk global_sb) (\<lambda>sb.
       block_alloc_loop dev (map (\<lambda>k. k * BPB) [0..<(sb_size sb + BPB - 1) div BPB]))"

definition block_free :: "nat \<Rightarrow> nat \<Rightarrow> ('z fs_state_scheme, unit) kern" where
  "block_free dev b =
     bindk (getk global_sb) (\<lambda>sb.
     bindk (block_read dev (BBLOCK b sb)) (\<lambda>bp.
     bindk (getk (\<lambda>s. b_data (bufs s ! bp))) (\<lambda>d.
       if \<not> map_bit (b mod BPB) d then panick ''freeing free block''
       else thenk (set_data bp (clear_map_bit (b mod BPB) d))
           (thenk (log_write bp)
            (block_release bp)))))"

section \<open>Inodes\<close>

definition upd_inode :: "nat \<Rightarrow> (inode \<Rightarrow> inode) \<Rightarrow> 'z fs_state_scheme \<Rightarrow> 'z fs_state_scheme" where
  "upd_inode i f s = s\<lparr>inodes := (inodes s)[i := f (inodes s ! i)]\<rparr>"

definition acquiresleep_inode :: "nat \<Rightarrow> ('z fs_state_scheme, unit) kern" where
  "acquiresleep_inode i =
     bindk (getk (\<lambda>s. i_lock (inodes s ! i))) (\<lambda>lk.
       if sl_locked lk then sleepk (ChanInodeLock i)
       else modk (\<lambda>s. upd_inode i (\<lambda>ip. ip\<lparr>i_lock := \<lparr>sl_locked = True, sl_pid = p_pid (cur s)\<rparr>\<rparr>) s))"

definition releasesleep_inode :: "nat \<Rightarrow> ('z fs_state_scheme, unit) kern" where
  "releasesleep_inode i =
     thenk (modk (upd_inode i (\<lambda>ip. ip\<lparr>i_lock := unlocked\<rparr>))) (wakeup (ChanInodeLock i))"

definition inode_init :: "nat \<Rightarrow> ('z fs_state_scheme, unit) kern" where
  "inode_init dev =
     thenk (modk (\<lambda>s. s\<lparr>inodes := map (\<lambda>ip. ip\<lparr>i_lock := unlocked\<rparr>) (inodes s)\<rparr>))
    (bindk (read_superblock dev) (\<lambda>sb.
       thenk (modk (\<lambda>s. s\<lparr>global_sb := sb\<rparr>))
             (assertk (sb_signature sb = [82, 69, 76, 73, 88, 70, 83, 48])
                ''Cannot find any recognized filesytem.'')))"

text \<open>The position of an inode in its block, and its fields there.\<close>

definition dinode_off :: "nat \<Rightarrow> nat" where
  "dinode_off inum = DINODE_SIZE * (inum mod IPB)"

definition load_dinode :: "nat \<Rightarrow> byte list \<Rightarrow> inode \<Rightarrow> inode" where
  "load_dinode off d ip = ip\<lparr>i_major := get_short (off + 120) d, i_minor := get_short (off + 122) d,
     i_nlink := get_short (off + 124) d, i_size := get_le (off + 24) 8 d, i_mode := get_le (off + 32) 4 d,
     i_uid := get_le (off + 38) 2 d, i_gid := get_le (off + 36) 2 d, i_atime := get_le (off + 8) 8 d,
     i_ctime := get_le off 8 d, i_mtime := get_le (off + 16) 8 d,
     i_addrs := map (\<lambda>k. get_le (off + 40 + 8 * k) 8 d) [0..<NDIRECT + 2]\<rparr>"

definition store_dinode :: "nat \<Rightarrow> nat \<Rightarrow> inode \<Rightarrow> byte list \<Rightarrow> byte list" where
  "store_dinode off now ip d =
     blit (off + 40) (concat (map (le_bytes 8) (i_addrs ip)))
    (put_le off 8 (i_ctime ip) (put_le (off + 8) 8 now (put_le (off + 16) 8 now
    (put_le (off + 32) 4 (i_mode ip) (put_le (off + 24) 8 (i_size ip)
    (put_short (off + 124) (i_nlink ip) (put_short (off + 122) (i_minor ip)
    (put_short (off + 120) (i_major ip) d))))))))"

definition fresh_dinode :: "nat \<Rightarrow> nat \<Rightarrow> nat \<Rightarrow> byte list \<Rightarrow> byte list" where
  "fresh_dinode off now mode d =
     put_le (off + 16) 8 now (put_le (off + 8) 8 now (put_le off 8 now
    (put_le (off + 38) 2 0 (put_le (off + 36) 2 0 (put_le (off + 32) 4 mode
    (blit off (replicate DINODE_SIZE 0) d))))))"

text \<open>
  One pass over the table both looks for the inode and remembers the first empty entry; the
  entry found first in the pass decides, as in the code, only among entries in use.
\<close>

definition inode_get :: "nat \<Rightarrow> nat \<Rightarrow> ('z fs_state_scheme, nat) kern" where
  "inode_get dev inum =
     bindk (getk inodes) (\<lambda>tab.
       case first_index (\<lambda>ip. i_ref ip > 0 \<and> i_dev ip = dev \<and> i_inum ip = inum) tab of
         Some i \<Rightarrow> thenk (modk (upd_inode i (\<lambda>ip. ip\<lparr>i_ref := i_ref ip + 1\<rparr>))) (returnk i)
       | None \<Rightarrow> (case first_index (\<lambda>ip. i_ref ip = 0) tab of
             None \<Rightarrow> panick ''inode_get: no inodes''
           | Some i \<Rightarrow>
               thenk (modk (upd_inode i (\<lambda>ip. ip\<lparr>i_dev := dev, i_inum := inum, i_ref := 1, i_valid := False\<rparr>)))
                     (returnk i)))"

fun inode_alloc_loop :: "nat \<Rightarrow> nat \<Rightarrow> nat list \<Rightarrow> ('z fs_state_scheme, nat) kern" where
  "inode_alloc_loop dev mode [] = panick ''inode_alloc: no inodes''"
| "inode_alloc_loop dev mode (inum # inums) =
     bindk (getk global_sb) (\<lambda>sb.
     bindk (block_read dev (IBLOCK inum sb)) (\<lambda>bp.
     bindk (getk (\<lambda>s. b_data (bufs s ! bp))) (\<lambda>d.
       if \<not> S_ISANY (get_le (dinode_off inum + 32) 4 d)
       then bindk (getk rtc) (\<lambda>now.
            thenk (set_data bp (fresh_dinode (dinode_off inum) now mode d))
           (thenk (log_write bp)
           (thenk (block_release bp)
            (inode_get dev inum))))
       else thenk (block_release bp) (inode_alloc_loop dev mode inums))))"

definition inode_alloc :: "nat \<Rightarrow> nat \<Rightarrow> ('z fs_state_scheme, nat) kern" where
  "inode_alloc dev mode =
     bindk (getk global_sb) (\<lambda>sb. inode_alloc_loop dev mode [1..<sb_ninodes sb])"

definition inode_update :: "nat \<Rightarrow> ('z fs_state_scheme, unit) kern" where
  "inode_update i =
     bindk (getk (\<lambda>s. inodes s ! i)) (\<lambda>ip. bindk (getk global_sb) (\<lambda>sb.
     bindk (block_read (i_dev ip) (IBLOCK (i_inum ip) sb)) (\<lambda>bp.
     bindk (getk (\<lambda>s. b_data (bufs s ! bp))) (\<lambda>d. bindk (getk rtc) (\<lambda>now.
       thenk (set_data bp (store_dinode (dinode_off (i_inum ip)) now ip d))
      (thenk (log_write bp)
       (block_release bp)))))))"

definition inode_dup :: "nat \<Rightarrow> ('z fs_state_scheme, nat) kern" where
  "inode_dup i = thenk (modk (upd_inode i (\<lambda>ip. ip\<lparr>i_ref := i_ref ip + 1\<rparr>))) (returnk i)"

definition inode_lock :: "nat \<Rightarrow> ('z fs_state_scheme, unit) kern" where
  "inode_lock i =
     bindk (getk (\<lambda>s. s)) (\<lambda>s. (let ip = inodes s ! i in
       if i_ref ip < 1 then panick ''inode_lock: ip->ref < 1''
       else thenk (assertk (\<not> holdingsleep (i_lock ip) s) ''holdingsleep'')
           (thenk (acquiresleep_inode i)
            (if i_valid ip then returnk ()
             else bindk (block_read (i_dev ip) (IBLOCK (i_inum ip) (global_sb s))) (\<lambda>bp.
                  bindk (getk (\<lambda>s. b_data (bufs s ! bp))) (\<lambda>d.
                    thenk (modk (upd_inode i (load_dinode (dinode_off (i_inum ip)) d)))
                   (thenk (block_release bp)
                   (thenk (modk (upd_inode i (\<lambda>ip. ip\<lparr>i_valid := True\<rparr>)))
                   (bindk (getk (\<lambda>s. i_mode (inodes s ! i))) (\<lambda>m.
                      assertk (m \<noteq> 0) ''inode_lock: no mode''))))))))))"

definition inode_unlock :: "nat \<Rightarrow> ('z fs_state_scheme, unit) kern" where
  "inode_unlock i =
     bindk (getk (\<lambda>s. s)) (\<lambda>s. (let ip = inodes s ! i in
       if i_ref ip < 1 then panick ''inode_unlock''
       else thenk (assertk (holdingsleep (i_lock ip) s) ''holdingsleep'') (releasesleep_inode i)))"

section \<open>The blocks of a file\<close>

text \<open>An address kept in the inode, allocated when it is 0.\<close>

definition bmap_slot :: "nat \<Rightarrow> nat \<Rightarrow> ('z fs_state_scheme, nat) kern" where
  "bmap_slot i k =
     bindk (getk (\<lambda>s. inodes s ! i)) (\<lambda>ip.
       if i_addrs ip ! k = 0
       then bindk (block_alloc (i_dev ip)) (\<lambda>addr.
            thenk (modk (upd_inode i (\<lambda>ip. ip\<lparr>i_addrs := (i_addrs ip)[k := addr]\<rparr>)))
                  (returnk addr))
       else returnk (i_addrs ip ! k))"

text \<open>An address kept in an indirect block, allocated when it is 0.\<close>

definition bmap_entry :: "nat \<Rightarrow> nat \<Rightarrow> nat \<Rightarrow> ('z fs_state_scheme, nat) kern" where
  "bmap_entry dev bno k =
     bindk (block_read dev bno) (\<lambda>bp.
     bindk (getk (\<lambda>s. b_data (bufs s ! bp))) (\<lambda>d.
       if get_entry k d = 0
       then bindk (block_alloc dev) (\<lambda>addr.
            thenk (set_data bp (put_entry k addr d))
           (thenk (log_write bp)
           (thenk (block_release bp) (returnk addr))))
       else thenk (block_release bp) (returnk (get_entry k d))))"

definition bmap :: "nat \<Rightarrow> nat \<Rightarrow> ('z fs_state_scheme, nat) kern" where
  "bmap i bn =
     bindk (getk (\<lambda>s. s)) (\<lambda>s. (let ip = inodes s ! i in
       thenk (assertk (holdingsleep (i_lock ip) s) ''holdingsleep'')
      (if bn < NDIRECT then bmap_slot i bn
       else if bn - NDIRECT < NINDIRECT
       then bindk (bmap_slot i NDIRECT) (\<lambda>addr. bmap_entry (i_dev ip) addr (bn - NDIRECT))
       else if bn - NDIRECT - NINDIRECT < NINDIRECT * NINDIRECT
       then bindk (bmap_slot i (NDIRECT + 1)) (\<lambda>addr.
            bindk (bmap_entry (i_dev ip) addr ((bn - NDIRECT - NINDIRECT) div NINDIRECT)) (\<lambda>addr.
              bmap_entry (i_dev ip) addr ((bn - NDIRECT - NINDIRECT) mod NINDIRECT)))
       else panick ''bmap: out of range'')))"

definition entries :: "byte list \<Rightarrow> nat list" where
  "entries d = map (\<lambda>j. get_entry j d) [0..<NINDIRECT]"

text \<open>Freeing of the blocks listed in an indirect block, up to the first 0.\<close>

fun free_run :: "nat \<Rightarrow> nat list \<Rightarrow> ('z fs_state_scheme, unit) kern" where
  "free_run dev [] = returnk ()"
| "free_run dev (a # as) = (if a \<noteq> 0 then thenk (block_free dev a) (free_run dev as) else returnk ())"

definition truncate_direct :: "nat \<Rightarrow> ('z fs_state_scheme, unit) kern" where
  "truncate_direct i = foreachk [0..<NDIRECT] (\<lambda>k.
     bindk (getk (\<lambda>s. inodes s ! i)) (\<lambda>ip.
       if i_addrs ip ! k \<noteq> 0
       then thenk (block_free (i_dev ip) (i_addrs ip ! k))
                  (modk (upd_inode i (\<lambda>ip. ip\<lparr>i_addrs := (i_addrs ip)[k := 0]\<rparr>)))
       else returnk ()))"

definition free_indirect :: "nat \<Rightarrow> nat \<Rightarrow> ('z fs_state_scheme, unit) kern" where
  "free_indirect dev bno =
     bindk (block_read dev bno) (\<lambda>bp.
     bindk (getk (\<lambda>s. b_data (bufs s ! bp))) (\<lambda>d.
       thenk (free_run dev (entries d))
      (thenk (block_release bp)
       (block_free dev bno))))"

definition truncate_indirect :: "nat \<Rightarrow> ('z fs_state_scheme, unit) kern" where
  "truncate_indirect i =
     bindk (getk (\<lambda>s. inodes s ! i)) (\<lambda>ip.
       if i_addrs ip ! NDIRECT \<noteq> 0
       then thenk (free_indirect (i_dev ip) (i_addrs ip ! NDIRECT))
                  (modk (upd_inode i (\<lambda>ip. ip\<lparr>i_addrs := (i_addrs ip)[NDIRECT := 0]\<rparr>)))
       else returnk ())"

definition truncate_double :: "nat \<Rightarrow> ('z fs_state_scheme, unit) kern" where
  "truncate_double i =
     bindk (getk (\<lambda>s. inodes s ! i)) (\<lambda>ip.
       if i_addrs ip ! (NDIRECT + 1) \<noteq> 0
       then bindk (block_read (i_dev ip) (i_addrs ip ! (NDIRECT + 1))) (\<lambda>bp.
            bindk (getk (\<lambda>s. b_data (bufs s ! bp))) (\<lambda>d.
              thenk (foreachk (entries d) (\<lambda>a. if a \<noteq> 0 then free_indirect (i_dev ip) a else returnk ()))
             (thenk (block_release bp)
             (thenk (block_free (i_dev ip) (i_addrs ip ! (NDIRECT + 1)))
              (modk (upd_inode i (\<lambda>ip. ip\<lparr>i_addrs := (i_addrs ip)[NDIRECT + 1 := 0]\<rparr>)))))))
       else returnk ())"

definition inode_truncate :: "nat \<Rightarrow> ('z fs_state_scheme, unit) kern" where
  "inode_truncate i =
     thenk (truncate_direct i)
    (thenk (truncate_indirect i)
    (thenk (truncate_double i)
    (thenk (modk (upd_inode i (\<lambda>ip. ip\<lparr>i_size := 0\<rparr>)))
     (inode_update i))))"

definition inode_put :: "nat \<Rightarrow> ('z fs_state_scheme, unit) kern" where
  "inode_put i =
     bindk (getk (\<lambda>s. inodes s ! i)) (\<lambda>ip.
       thenk
        (if i_ref ip = 1 \<and> i_valid ip \<and> i_nlink ip = 0
         then thenk (acquiresleep_inode i)
             (thenk (inode_truncate i)
             (thenk (modk (upd_inode i (\<lambda>ip. ip\<lparr>i_mode := 0\<rparr>)))
             (thenk (inode_update i)
             (thenk (modk (upd_inode i (\<lambda>ip. ip\<lparr>i_valid := False\<rparr>)))
              (releasesleep_inode i)))))
         else returnk ())
        (modk (upd_inode i (\<lambda>ip. ip\<lparr>i_ref := i_ref ip - 1\<rparr>))))"

definition inode_unlockput :: "nat \<Rightarrow> ('z fs_state_scheme, unit) kern" where
  "inode_unlockput i = thenk (inode_unlock i) (inode_put i)"

definition makedev :: "int \<Rightarrow> int \<Rightarrow> nat" where
  "makedev mj mn = (push_bit 32 (nat (mj mod 2 ^ 64)) mod 2 ^ 64) OR nat (mn mod 2 ^ 64)"

definition inode_stat :: "nat \<Rightarrow> ('z fs_state_scheme, stat) kern" where
  "inode_stat i =
     bindk (getk (\<lambda>s. s)) (\<lambda>s. (let ip = inodes s ! i in
       thenk (assertk (holdingsleep (i_lock ip) s) ''holdingsleep'')
      (returnk \<lparr>st_dev = 0, st_ino = i_inum ip, st_nlink = i_nlink ip, st_size = int (i_size ip),
         st_mode = i_mode ip, st_uid = i_uid ip, st_gid = i_gid ip,
         st_rdev = makedev (i_major ip) (i_minor ip), st_ctime = i_ctime ip, st_atime = i_atime ip,
         st_mtime = i_mtime ip, st_blksize = BSIZE,
         st_blocks = (i_size ip + (BSIZE - 1)) div BSIZE * BSIZE div 512\<rparr>)))"

section \<open>Reading and writing\<close>

text \<open>
  The test of offset and length: the offset, converted to unsigned, is beyond the size, or the
  sum does not fit a signed 64-bit integer.
\<close>

definition off_bad :: "int \<Rightarrow> nat \<Rightarrow> nat \<Rightarrow> bool" where
  "off_bad off n sz \<longleftrightarrow> nat (off mod 2 ^ 64) > sz \<or> off + int n \<ge> 2 ^ 63"

definition chunk :: "nat \<Rightarrow> nat \<Rightarrow> nat" where
  "chunk off left = min left (BSIZE - off mod BSIZE)"

lemma chunk_pos: "0 < left \<Longrightarrow> 0 < chunk off left"
  by (simp add: chunk_def BSIZE_def)

lemma chunk_le: "chunk off left \<le> left"
  by (simp add: chunk_def)

function inode_read_loop :: "nat \<Rightarrow> nat \<Rightarrow> nat \<Rightarrow> ('z fs_state_scheme, bool \<times> byte list) kern" where
  "inode_read_loop i off left =
     (if left = 0 then returnk (True, [])
      else bindk (bmap i (off div BSIZE)) (\<lambda>addr.
        if addr = 0 then returnk (False, [])
        else bindk (getk (\<lambda>s. i_dev (inodes s ! i))) (\<lambda>dev.
             bindk (block_read dev addr) (\<lambda>bp.
             bindk (getk (\<lambda>s. b_data (bufs s ! bp))) (\<lambda>d.
               thenk (block_release bp)
              (bindk (inode_read_loop i (off + chunk off left) (left - chunk off left)) (\<lambda>(ok, bs).
                 returnk (ok, take (chunk off left) (drop (off mod BSIZE) d) @ bs))))))))"
  by pat_completeness auto

termination
  by (relation "measure (\<lambda>(i, off, left). left)") (auto simp: chunk_pos)

definition inode_read :: "nat \<Rightarrow> int \<Rightarrow> nat \<Rightarrow> ('z fs_state_scheme, int \<times> byte list) kern" where
  "inode_read i off n =
     bindk (getk (\<lambda>s. s)) (\<lambda>s. (let ip = inodes s ! i in
       thenk (assertk (holdingsleep (i_lock ip) s) ''holdingsleep'')
      (if S_ISCHR (i_mode ip)
       then (if i_major ip < 0 \<or> i_major ip \<ge> int NDEV then returnk (- ENODEV, [])
             else (case d_read (devtab s ! nat (i_major ip)) of
                 None \<Rightarrow> returnk (- ENODEV, [])
               | Some f \<Rightarrow> thenk (modk (\<lambda>s. s\<lparr>io_time := io_time s + 1\<rparr>))
                                 (returnk (f (io_time s) (i_minor ip) n))))
       else if off_bad off n (i_size ip) then returnk (- EDOM, [])
       else (let left = (if nat off + n > i_size ip then i_size ip - nat off else n) in
             bindk (inode_read_loop i (nat off) left) (\<lambda>(ok, bs).
               returnk (if ok then int left else - ENOSPC, bs))))))"

function inode_write_loop :: "nat \<Rightarrow> nat \<Rightarrow> byte list \<Rightarrow> ('z fs_state_scheme, bool) kern" where
  "inode_write_loop i off src =
     (if src = [] then returnk True
      else bindk (bmap i (off div BSIZE)) (\<lambda>addr.
        if addr = 0 then returnk False
        else bindk (getk (\<lambda>s. i_dev (inodes s ! i))) (\<lambda>dev.
             bindk (block_read dev addr) (\<lambda>bp.
             bindk (getk (\<lambda>s. b_data (bufs s ! bp))) (\<lambda>d.
               thenk (set_data bp (blit (off mod BSIZE) (take (chunk off (length src)) src) d))
              (thenk (log_write bp)
              (thenk (block_release bp)
               (inode_write_loop i (off + chunk off (length src)) (drop (chunk off (length src)) src)))))))))"
  by pat_completeness auto

termination
  by (relation "measure (\<lambda>(i, off, src). length src)") (auto simp: chunk_pos)

definition inode_write :: "nat \<Rightarrow> byte list \<Rightarrow> int \<Rightarrow> ('z fs_state_scheme, int) kern" where
  "inode_write i src off =
     bindk (getk (\<lambda>s. s)) (\<lambda>s. (let ip = inodes s ! i; n = length src in
       thenk (assertk (holdingsleep (i_lock ip) s) ''holdingsleep'')
      (if S_ISCHR (i_mode ip)
       then (if i_major ip < 0 \<or> i_major ip \<ge> int NDEV then returnk (- ENODEV)
             else (case d_write (devtab s ! nat (i_major ip)) of
                 None \<Rightarrow> returnk (- ENODEV)
               | Some f \<Rightarrow> thenk (modk (\<lambda>s. s\<lparr>io_time := io_time s + 1\<rparr>))
                                 (returnk (f (io_time s) (i_minor ip) src))))
       else if off_bad off n (i_size ip) then returnk (- EDOM)
       else if nat off + n > MAXFILE * BSIZE then returnk (- EDOM)
       else bindk (inode_write_loop i (nat off) src) (\<lambda>ok.
            if \<not> ok then returnk (- ENOSPC)
            else bindk (getk (\<lambda>s. i_size (inodes s ! i))) (\<lambda>sz.
                 if 0 < n \<and> nat off + n > sz
                 then thenk (modk (upd_inode i (\<lambda>ip. ip\<lparr>i_size := nat off + n\<rparr>)))
                     (thenk (inode_update i) (returnk (int n)))
                 else returnk (int n))))))"

declare inode_read_loop.simps [simp del] inode_write_loop.simps [simp del]

end
