(* ===== verification/Kern_Dir.thy ===== *)
theory Kern_Dir
  imports Kern_Fs Klib_String
begin

text \<open>
  Directories and paths, the upper half of \<^verbatim>\<open>kernel/fs.c\<close>.

  A directory is a file of entries of 260 bytes: the inode number in four bytes, then a name in 255
  and a byte of padding. Names and paths are arrays of bytes; what \<^verbatim>\<open>strncmp\<close> and \<^verbatim>\<open>strncpy\<close> do with
  them is taken from the theory of the kernel's strings, and an access outside of an array stops
  the run. A path is the array from the pointer on; the end of the array counts as its terminator.
  The local \<^verbatim>\<open>struct dirent\<close> of the loops keeps its contents from one iteration to the next; its
  initial contents, which the code leaves undefined, are zeros.
\<close>

definition boundsk :: "'a option \<Rightarrow> ('s, 'a) kern" where
  "boundsk v = (\<lambda>s. case v of None \<Rightarrow> Inl (Panic ''access out of bounds'') | Some x \<Rightarrow> Inr (x, s))"

lemma boundsk_run [kern_simps]: "boundsk (Some x) s = Inr (x, s)"
  by (simp add: boundsk_def)

lemma boundsk_eq_Inr [simp]: "boundsk v s = Inr (x, t) \<longleftrightarrow> v = Some x \<and> t = s"
  by (auto simp: boundsk_def split: option.splits)

definition DIRSIZ :: nat where "DIRSIZ = 254"
definition DIRENT_SIZE :: nat where "DIRENT_SIZE = 260"
definition ROOTINO :: nat where "ROOTINO = 1"
definition AT_FDCWD :: int where "AT_FDCWD = - 42"
definition OPEN_MAX :: nat where "OPEN_MAX = 100"

definition d_ino :: "byte list \<Rightarrow> nat" where
  "d_ino de = get_le 0 4 de"

definition d_name :: "byte list \<Rightarrow> byte list" where
  "d_name de = take 255 (drop 4 de)"

section \<open>Directories\<close>

definition namecmp :: "byte list \<Rightarrow> byte list \<Rightarrow> int option" where
  "namecmp s t = strncmp s t DIRSIZ"

text \<open>The offsets at which the loops over a directory of a given size read an entry.\<close>

definition dir_offsets :: "nat \<Rightarrow> nat list" where
  "dir_offsets sz = map (\<lambda>k. DIRENT_SIZE * k) [0..<(sz + (DIRENT_SIZE - 1)) div DIRENT_SIZE]"

fun dirlookup_loop ::
  "nat \<Rightarrow> byte list \<Rightarrow> nat list \<Rightarrow> byte list \<Rightarrow> ('z fs_state_scheme, (nat \<times> nat) option) kern" where
  "dirlookup_loop dp name [] de = returnk None"
| "dirlookup_loop dp name (off # offs) de =
     bindk (inode_read dp (int off) DIRENT_SIZE) (\<lambda>(r, bs).
       if r < 0 then panick ''dirlookup read''
       else (let de = blit 0 bs de in
             if d_ino de = 0 then dirlookup_loop dp name offs de
             else bindk (boundsk (namecmp name (d_name de))) (\<lambda>c.
                  if c = 0
                  then bindk (getk (\<lambda>s. i_dev (inodes s ! dp))) (\<lambda>dev.
                       bindk (inode_get dev (d_ino de)) (\<lambda>ip. returnk (Some (ip, off))))
                  else dirlookup_loop dp name offs de)))"

text \<open>The inode found and the offset of its entry, which the code stores at \<^verbatim>\<open>poff\<close>.\<close>

definition dirlookup :: "nat \<Rightarrow> byte list \<Rightarrow> ('z fs_state_scheme, (nat \<times> nat) option) kern" where
  "dirlookup dp name =
     bindk (getk (\<lambda>s. s)) (\<lambda>s. (let ip = inodes s ! dp in
       thenk (assertk (holdingsleep (i_lock ip) s) ''holdingsleep'')
      (if \<not> S_ISDIR (i_mode ip) then panick ''dirlookup not DIR''
       else dirlookup_loop dp name (dir_offsets (i_size ip)) (replicate DIRENT_SIZE 0))))"

text \<open>
  The search for an empty entry: an error, or the offset of the entry, the end of the directory if
  there is none, with the last entry read.
\<close>

fun dirlink_scan ::
  "nat \<Rightarrow> nat list \<Rightarrow> nat \<Rightarrow> byte list \<Rightarrow> ('z fs_state_scheme, int + nat \<times> byte list) kern" where
  "dirlink_scan dp [] eod de = returnk (Inr (eod, de))"
| "dirlink_scan dp (off # offs) eod de =
     bindk (inode_read dp (int off) DIRENT_SIZE) (\<lambda>(r, bs).
       if r < 0 then returnk (Inl r)
       else (let de = blit 0 bs de in
             if d_ino de = 0 then returnk (Inr (off, de)) else dirlink_scan dp offs eod de))"

definition make_dirent :: "byte list \<Rightarrow> nat \<Rightarrow> byte list \<Rightarrow> byte list option" where
  "make_dirent name inum de = map_option (\<lambda>nm. le_bytes 4 inum @ nm) (strncpy (drop 4 de) name DIRSIZ)"

definition dirlink :: "nat \<Rightarrow> byte list \<Rightarrow> nat \<Rightarrow> ('z fs_state_scheme, int) kern" where
  "dirlink dp name inum =
     bindk (dirlookup dp name) (\<lambda>found. case found of
       Some (ip, _) \<Rightarrow> thenk (inode_put ip) (returnk (- EEXIST))
     | None \<Rightarrow>
         bindk (getk (\<lambda>s. i_size (inodes s ! dp))) (\<lambda>sz.
         bindk (dirlink_scan dp (dir_offsets sz) (DIRENT_SIZE * length (dir_offsets sz)) (replicate DIRENT_SIZE 0))
           (\<lambda>r. case r of
             Inl e \<Rightarrow> returnk e
           | Inr (off, de) \<Rightarrow>
               bindk (boundsk (make_dirent name inum de)) (\<lambda>de.
               bindk (inode_write dp de (int off)) (\<lambda>r.
                 returnk (if r < 0 then r else 0))))))"

section \<open>Paths\<close>

text \<open>The rest of the path, and the name buffer with the next element copied into it.\<close>

definition skipelem :: "byte list \<Rightarrow> byte list \<Rightarrow> (byte list \<times> byte list) option" where
  "skipelem path name =
     (let path = dropWhile (\<lambda>c. c = 47) path in
      if path = [] \<or> hd path = 0 then None
      else (let elem = takeWhile (\<lambda>c. c \<noteq> 47 \<and> c \<noteq> 0) path;
                path = dropWhile (\<lambda>c. c \<noteq> 47 \<and> c \<noteq> 0) path;
                name = (if length elem \<ge> DIRSIZ then blit 0 (take DIRSIZ elem) name
                        else blit 0 (elem @ [0]) name)
            in Some (dropWhile (\<lambda>c. c = 47) path, name)))"

lemma skipelem_shorter: "skipelem path name = Some (path', name') \<Longrightarrow> length path' < length path"
proof -
  assume *: "skipelem path name = Some (path', name')"
  let ?p = "dropWhile (\<lambda>c. c = 47) path"
  have ne: "?p \<noteq> []" "hd ?p \<noteq> 0" and p': "path' = dropWhile (\<lambda>c. c = 47) (dropWhile (\<lambda>c. c \<noteq> 47 \<and> c \<noteq> 0) ?p)"
    using * by (auto simp: skipelem_def Let_def split: if_splits)
  obtain c cs where c: "?p = c # cs" using ne(1) by (cases ?p) auto
  have "c \<noteq> 47" using hd_dropWhile [OF ne(1)] c by simp
  then have "dropWhile (\<lambda>c. c \<noteq> 47 \<and> c \<noteq> 0) ?p = dropWhile (\<lambda>c. c \<noteq> 47 \<and> c \<noteq> 0) cs" using c ne(2) by simp
  then have "length path' \<le> length (dropWhile (\<lambda>c. c \<noteq> 47 \<and> c \<noteq> 0) cs)"
    using p' length_dropWhile_le by simp
  also have "\<dots> \<le> length cs" by (rule length_dropWhile_le)
  finally have "length path' \<le> length cs" .
  moreover have "length ?p \<le> length path" by (rule length_dropWhile_le)
  ultimately show ?thesis using c by simp
qed

definition at_end :: "byte list \<Rightarrow> bool" where
  "at_end path \<longleftrightarrow> path = [] \<or> hd path = 0"

definition fd_to_struct_file :: "int \<Rightarrow> 'z proc_state_scheme \<Rightarrow> nat option" where
  "fd_to_struct_file fd s = (if fd < 0 \<or> fd \<ge> int OPEN_MAX then None else p_ofile (cur s) ! nat fd)"

function namex_loop ::
  "nat \<Rightarrow> byte list \<Rightarrow> bool \<Rightarrow> byte list \<Rightarrow> ('z fs_state_scheme, nat option \<times> byte list) kern" where
  "namex_loop ip path nameiparent name =
     (case skipelem path name of
        None \<Rightarrow> if nameiparent then thenk (inode_put ip) (returnk (None, name))
                else returnk (Some ip, name)
      | Some (path', name') \<Rightarrow>
          thenk (inode_lock ip)
         (bindk (getk (\<lambda>s. i_mode (inodes s ! ip))) (\<lambda>mode.
            if \<not> S_ISDIR mode then thenk (inode_unlockput ip) (returnk (None, name'))
            else if nameiparent \<and> at_end path' then thenk (inode_unlock ip) (returnk (Some ip, name'))
            else bindk (dirlookup ip name') (\<lambda>next. case next of
                None \<Rightarrow> thenk (inode_unlockput ip) (returnk (None, name'))
              | Some (nip, _) \<Rightarrow> thenk (inode_unlockput ip) (namex_loop nip path' nameiparent name')))))"
  by pat_completeness auto

termination
  by (relation "measure (\<lambda>(ip, path, np, name). length path)") (auto dest: skipelem_shorter)

declare namex_loop.simps [simp del]

definition namex ::
  "int \<Rightarrow> byte list \<Rightarrow> bool \<Rightarrow> byte list \<Rightarrow> ('z fs_state_scheme, nat option \<times> byte list) kern" where
  "namex dirfd path nameiparent name =
     bindk
      (if \<not> at_end path \<and> hd path = 47 then inode_get ROOTDEV ROOTINO
       else if dirfd = AT_FDCWD
       then bindk (getk (\<lambda>s. p_cwd (cur s))) (\<lambda>cwd. bindk (derefk cwd) inode_dup)
       else bindk (getk (fd_to_struct_file dirfd)) (\<lambda>f. bindk (derefk f) (\<lambda>f.
            bindk (getk (\<lambda>s. f_ip (files s ! f))) (\<lambda>ip. bindk (derefk ip) inode_dup))))
      (\<lambda>ip. namex_loop ip path nameiparent name)"

definition namei :: "byte list \<Rightarrow> ('z fs_state_scheme, nat option) kern" where
  "namei path = bindk (namex AT_FDCWD path False (replicate DIRSIZ 0)) (\<lambda>(ip, _). returnk ip)"

definition namei_with_fd :: "int \<Rightarrow> byte list \<Rightarrow> ('z fs_state_scheme, nat option) kern" where
  "namei_with_fd dirfd path = bindk (namex dirfd path False (replicate DIRSIZ 0)) (\<lambda>(ip, _). returnk ip)"

definition nameiparent ::
  "byte list \<Rightarrow> byte list \<Rightarrow> ('z fs_state_scheme, nat option \<times> byte list) kern" where
  "nameiparent path name = namex AT_FDCWD path True name"

definition nameiparent_with_fd ::
  "int \<Rightarrow> byte list \<Rightarrow> byte list \<Rightarrow> ('z fs_state_scheme, nat option \<times> byte list) kern" where
  "nameiparent_with_fd dirfd path name = namex dirfd path True name"

end
