(* ===== verification/Kern_File.thy ===== *)
theory Kern_File
  imports Kern_Dir
begin

text \<open>
  Open files, \<^verbatim>\<open>kernel/file.c\<close>, and \<^verbatim>\<open>pipealloc\<close> of \<^verbatim>\<open>kernel/pipe.c\<close>.

  A \<^verbatim>\<open>struct file *\<close> is an index into the file table, a \<^verbatim>\<open>struct pipe *\<close> a key of the map of live
  pipes. Following a null pointer, or a pointer to a pipe that was freed, stops the run. Reading
  from and writing to a pipe may have to wait after some bytes were moved, so these return a
  \<open>pipe_run\<close>; opening a FIFO returns where it has to wait for the other end.
\<close>

section \<open>The file table\<close>

definition NFILE :: nat where "NFILE = 100"
definition SYMLOOP_MAX :: nat where "SYMLOOP_MAX = 8"
definition PATH_MAX :: nat where "PATH_MAX = 256"

definition O_RDONLY :: int where "O_RDONLY = 0"
definition O_WRONLY :: int where "O_WRONLY = 1"
definition O_RDWR :: int where "O_RDWR = 2"
definition O_ACCMODE :: int where "O_ACCMODE = 3"
definition O_CREATE :: int where "O_CREATE = 4"
definition O_APPEND :: int where "O_APPEND = 0x20"
definition O_NONBLOCK :: int where "O_NONBLOCK = 0x40"
definition O_NOFOLLOW :: int where "O_NOFOLLOW = 0x80"

definition upd_file :: "nat \<Rightarrow> (file_rec \<Rightarrow> file_rec) \<Rightarrow> 'z fs_state_scheme \<Rightarrow> 'z fs_state_scheme" where
  "upd_file f g s = s\<lparr>files := (files s)[f := g (files s ! f)]\<rparr>"

definition filealloc :: "('z fs_state_scheme, nat option) kern" where
  "filealloc =
     bindk (getk (\<lambda>s. first_index (\<lambda>f. f_ref f = 0) (files s))) (\<lambda>r. case r of
       None \<Rightarrow> returnk None
     | Some f \<Rightarrow> thenk (modk (upd_file f (\<lambda>f. f\<lparr>f_ref := 1, f_flags := 0\<rparr>))) (returnk (Some f)))"

definition filedup :: "nat \<Rightarrow> int \<Rightarrow> ('z fs_state_scheme, nat) kern" where
  "filedup f flags =
     bindk (getk (\<lambda>s. f_ref (files s ! f))) (\<lambda>ref.
       if ref < 1 then panick ''filedup''
       else thenk (modk (upd_file f (\<lambda>f. f\<lparr>f_ref := f_ref f + 1, f_flags := flags\<rparr>))) (returnk f))"

definition set_ofile :: "nat \<Rightarrow> nat option \<Rightarrow> 'z proc_state_scheme \<Rightarrow> 'z proc_state_scheme" where
  "set_ofile fd f = upd_cur (\<lambda>p. p\<lparr>p_ofile := (p_ofile p)[fd := f]\<rparr>)"

definition fdalloc :: "nat \<Rightarrow> ('z fs_state_scheme, int) kern" where
  "fdalloc f =
     bindk (getk (\<lambda>s. first_index (\<lambda>x. x = None) (take OPEN_MAX (p_ofile (cur s))))) (\<lambda>r. case r of
       None \<Rightarrow> returnk (- EMFILE)
     | Some fd \<Rightarrow> thenk (modk (set_ofile fd (Some f))) (returnk (int fd)))"

section \<open>Closing\<close>

definition pipe_event_run :: "nat \<Rightarrow> pipe_event \<Rightarrow> ('z fs_state_scheme, unit) kern" where
  "pipe_event_run p e = (case e of
     WakeReaders \<Rightarrow> wakeup (ChanPipeRead p)
   | WakeWriters \<Rightarrow> wakeup (ChanPipeWrite p)
   | KillSelf n \<Rightarrow> bindk (getk (\<lambda>s. p_pid (cur s))) (\<lambda>pid. thenk (kill pid (int n)) (returnk ())))"

definition upd_pipe :: "nat \<Rightarrow> pipe option \<Rightarrow> 'z fs_state_scheme \<Rightarrow> 'z fs_state_scheme" where
  "upd_pipe p v s = s\<lparr>pipes := (pipes s)(p := v)\<rparr>"

definition pipe_close_end :: "nat \<Rightarrow> bool \<Rightarrow> ('z fs_state_scheme, unit) kern" where
  "pipe_close_end p writable =
     bindk (getk (\<lambda>s. pipes s p)) (\<lambda>v. bindk (derefk v) (\<lambda>v.
       thenk (foreachk (snd (pipeclose v writable)) (pipe_event_run p))
             (modk (upd_pipe p (fst (pipeclose v writable))))))"

definition dev_of :: "inode \<Rightarrow> 'z fs_state_scheme \<Rightarrow> devsw option" where
  "dev_of ip s = (if i_major ip < 0 \<or> i_major ip \<ge> int NDEV then None else Some (devtab s ! nat (i_major ip)))"

definition drop_fifo_ends :: "nat \<Rightarrow> ('z fs_state_scheme, unit) kern" where
  "drop_fifo_ends ip =
     bindk (getk (\<lambda>s. i_rf (inodes s ! ip))) (\<lambda>rf. bindk (derefk rf) (\<lambda>rf.
     thenk (modk (upd_file rf (\<lambda>f. f\<lparr>f_ref := 0\<rparr>)))
    (bindk (getk (\<lambda>s. i_wf (inodes s ! ip))) (\<lambda>wf. bindk (derefk wf) (\<lambda>wf.
       modk (upd_file wf (\<lambda>f. f\<lparr>f_ref := 0\<rparr>)))))))"

definition file_release :: "file_rec \<Rightarrow> ('z fs_state_scheme, unit) kern" where
  "file_release ff = (case f_type ff of
     FD_PIPE \<Rightarrow> bindk (derefk (f_pipe ff)) (\<lambda>p. pipe_close_end p (f_writable ff))
   | FD_FIFO \<Rightarrow> bindk (derefk (f_pipe ff)) (\<lambda>p. thenk (pipe_close_end p (f_writable ff))
                  (bindk (derefk (f_ip ff)) drop_fifo_ends))
   | FD_INODE \<Rightarrow> thenk begin_op (bindk (derefk (f_ip ff)) (\<lambda>ip. thenk (inode_put ip) end_op))
   | FD_NONE \<Rightarrow> returnk ())"

definition vfs_close :: "nat \<Rightarrow> ('z fs_state_scheme, int) kern" where
  "vfs_close f =
     bindk (getk (\<lambda>s. files s ! f)) (\<lambda>ff.
       if f_ref ff < 1 then panick ''fileclose: file already closed''
       else thenk (modk (upd_file f (\<lambda>ff. ff\<lparr>f_ref := f_ref ff - 1\<rparr>)))
        (if f_ref ff - 1 > 0 then returnk 0
         else bindk (derefk (f_ip ff)) (\<lambda>ip.
              bindk (getk (\<lambda>s. s)) (\<lambda>s. (let node = inodes s ! ip in
                if S_ISCHR (i_mode node) \<and> Option.bind (dev_of node s) d_close = None then returnk (- ENODEV)
                else thenk (if S_ISCHR (i_mode node) then modk (\<lambda>s. s\<lparr>io_time := io_time s + 1\<rparr>) else returnk ())
                    (thenk (modk (upd_file f (\<lambda>ff. ff\<lparr>f_ref := 0, f_type := FD_NONE, f_flags := 0\<rparr>)))
                    (thenk (file_release ff)
                     (returnk 0))))))))"

definition fdalloc2 :: "nat \<Rightarrow> nat \<Rightarrow> ('z fs_state_scheme, int) kern" where
  "fdalloc2 f fd =
     bindk (getk (\<lambda>s. p_ofile (cur s) ! fd)) (\<lambda>old.
     bindk (case old of None \<Rightarrow> returnk 0 | Some g \<Rightarrow> vfs_close g) (\<lambda>r.
       if r < 0 then returnk r
       else thenk (modk (set_ofile fd (Some f))) (returnk (int fd))))"

section \<open>Pipes\<close>

definition kmalloc_call :: "('z fs_state_scheme, bool) kern" where
  "kmalloc_call =
     bindk (getk (\<lambda>s. kmalloc_ok s (kmalloc_time s))) (\<lambda>ok.
       thenk (modk (\<lambda>s. s\<lparr>kmalloc_time := kmalloc_time s + 1\<rparr>)) (returnk ok))"

definition new_ring :: "('z fs_state_scheme, ring_buf option) kern" where
  "new_ring =
     bindk kmalloc_call (\<lambda>a1.
     bindk (if a1 then kmalloc_call else returnk False) (\<lambda>a2.
       returnk (fst (ring_buffer_create PIPESIZE a1 (if a2 then Some (replicate (unat PIPESIZE) 0) else None)))))"

text \<open>The result and the two files, which are also set on failure.\<close>

definition pipealloc :: "('z fs_state_scheme, int \<times> nat option \<times> nat option) kern" where
  "pipealloc =
     bindk filealloc (\<lambda>f0. case f0 of
       None \<Rightarrow> returnk (- ENOMEM, None, None)
     | Some a \<Rightarrow> bindk filealloc (\<lambda>f1. case f1 of
         None \<Rightarrow> thenk (vfs_close a) (returnk (- ENOMEM, Some a, None))
       | Some b \<Rightarrow>
           bindk (getk kmalloc_time) (\<lambda>p. bindk kmalloc_call (\<lambda>ok.
           bindk (if ok then new_ring else returnk None) (\<lambda>rb. case rb of
             None \<Rightarrow> thenk (vfs_close a) (thenk (vfs_close b) (returnk (- ENOMEM, Some a, Some b)))
           | Some rb \<Rightarrow>
               thenk (modk (upd_pipe p (Some \<lparr>readopen = 1, writeopen = 1, ring_buffer = rb\<rparr>)))
              (thenk (modk (upd_file a (\<lambda>f. f\<lparr>f_type := FD_PIPE, f_readable := True, f_writable := False,
                        f_pipe := Some p\<rparr>)))
              (thenk (modk (upd_file b (\<lambda>f. f\<lparr>f_type := FD_PIPE, f_readable := False, f_writable := True,
                        f_pipe := Some p\<rparr>)))
               (returnk (0, Some a, Some b)))))))))"

section \<open>Symbolic links\<close>

text \<open>The loop that follows links; the inode is locked at its start.\<close>

fun readlink_loop :: "nat \<Rightarrow> nat \<Rightarrow> byte list \<Rightarrow> int \<Rightarrow> ('z fs_state_scheme, int \<times> byte list) kern" where
  "readlink_loop 0 ip buf nbytes = panick ''unreachable''"
| "readlink_loop (Suc ref_count) ip buf nbytes =
     bindk (getk (\<lambda>s. i_mode (inodes s ! ip))) (\<lambda>mode.
       if \<not> S_ISLNK mode then thenk (inode_unlockput ip) (returnk (nbytes, buf))
       else if ref_count = 0 then thenk (inode_unlockput ip) (returnk (- ELOOP, buf))
       else bindk (inode_read ip 0 (length buf)) (\<lambda>(r, bs).
            if r < 0 then thenk (inode_unlockput ip) (returnk (r, blit 0 bs buf))
            else thenk (inode_unlock ip)
                (bindk (namei (blit 0 bs buf)) (\<lambda>next. bindk (derefk next) (\<lambda>ip.
                   thenk (inode_lock ip) (readlink_loop ref_count ip (blit 0 bs buf) r))))))"

definition filereadlinkat :: "int \<Rightarrow> byte list \<Rightarrow> byte list \<Rightarrow> ('z fs_state_scheme, int \<times> byte list) kern" where
  "filereadlinkat dirfd pathname buf =
     bindk (namei_with_fd dirfd pathname) (\<lambda>r. case r of
       None \<Rightarrow> returnk (- ENOENT, buf)
     | Some ip \<Rightarrow>
         thenk (inode_lock ip)
        (bindk (getk (\<lambda>s. i_mode (inodes s ! ip))) (\<lambda>mode.
           if \<not> S_ISLNK mode then thenk (inode_unlockput ip) (returnk (- EINVAL, buf))
           else readlink_loop SYMLOOP_MAX ip buf 0)))"

definition resolve_nameat :: "int \<Rightarrow> byte list \<Rightarrow> ('z fs_state_scheme, nat option) kern" where
  "resolve_nameat dirfd path =
     bindk (namei_with_fd dirfd path) (\<lambda>r. case r of
       None \<Rightarrow> returnk None
     | Some ip \<Rightarrow>
         thenk (inode_lock ip)
        (bindk (getk (\<lambda>s. S_ISLNK (i_mode (inodes s ! ip)))) (\<lambda>is_link.
         thenk (inode_unlock ip)
        (if \<not> is_link then returnk (Some ip)
         else bindk (filereadlinkat dirfd path (replicate PATH_MAX 0)) (\<lambda>(ret, buf).
              if ret < 0 then returnk None
              else thenk (inode_put ip) (namei_with_fd dirfd buf))))))"

definition resolve_name :: "byte list \<Rightarrow> ('z fs_state_scheme, nat option) kern" where
  "resolve_name path = resolve_nameat AT_FDCWD path"

section \<open>Creating\<close>

definition to_short :: "nat \<Rightarrow> int" where
  "to_short v = (let w = v mod 2 ^ 16 in if w < 2 ^ 15 then int w else int w - 2 ^ 16)"

definition same_kind :: "nat \<Rightarrow> nat \<Rightarrow> bool" where
  "same_kind m mode \<longleftrightarrow> S_ISREG m \<and> S_ISREG mode \<or> S_ISLNK m \<and> S_ISLNK mode \<or> S_ISFIFO m \<and> S_ISFIFO mode"

text \<open>The new inode gets its fields; a new directory gets its two entries.\<close>

definition create_node :: "nat \<Rightarrow> nat \<Rightarrow> byte list \<Rightarrow> nat \<Rightarrow> nat \<Rightarrow> ('z fs_state_scheme, nat option) kern" where
  "create_node dp ip name mode dev =
     thenk (inode_lock ip)
    (thenk (modk (upd_inode ip (\<lambda>i. i\<lparr>i_major := to_short (dev div 2 ^ 32), i_minor := to_short dev,
              i_nlink := 1, i_mode := mode, i_gid := 0, i_uid := 0, i_fattrs := 0\<rparr>)))
    (thenk (inode_update ip)
    (thenk
      (if S_ISDIR mode
       then thenk (modk (upd_inode dp (\<lambda>i. i\<lparr>i_nlink := to_short (nat ((i_nlink i + 1) mod 2 ^ 16))\<rparr>)))
           (thenk (inode_update dp)
           (bindk (getk (\<lambda>s. i_inum (inodes s ! ip))) (\<lambda>inum.
            bindk (dirlink ip [46, 0] inum) (\<lambda>r.
              if r < 0 then panick ''create dots''
              else bindk (getk (\<lambda>s. i_inum (inodes s ! dp))) (\<lambda>pinum.
                   bindk (dirlink ip [46, 46, 0] pinum) (\<lambda>r.
                     if r < 0 then panick ''create dots'' else returnk ()))))))
       else returnk ())
    (bindk (getk (\<lambda>s. i_inum (inodes s ! ip))) (\<lambda>inum.
     bindk (dirlink dp name inum) (\<lambda>r.
       if r < 0 then panick ''create: dirlink''
       else thenk (inode_unlockput dp) (returnk (Some ip))))))))"

definition vfs_locked_inode_create ::
  "int \<Rightarrow> byte list \<Rightarrow> nat \<Rightarrow> nat \<Rightarrow> ('z fs_state_scheme, nat option) kern" where
  "vfs_locked_inode_create dirfd path mode0 dev =
     (let mode = (if mode0 AND S_IFMT = 0 then mode0 OR S_IFREG else mode0) in
      bindk (nameiparent_with_fd dirfd path (replicate DIRSIZ 0)) (\<lambda>(r, name). case r of
        None \<Rightarrow> returnk None
      | Some dp \<Rightarrow>
          thenk (inode_lock dp)
         (bindk (dirlookup dp name) (\<lambda>found. case found of
            Some (ip, _) \<Rightarrow>
              thenk (inode_unlockput dp)
             (thenk (inode_lock ip)
             (bindk (getk (\<lambda>s. i_mode (inodes s ! ip))) (\<lambda>m.
                if same_kind m mode
                then thenk (modk (upd_inode ip (\<lambda>i. i\<lparr>i_mode := mode\<rparr>))) (returnk (Some ip))
                else thenk (inode_unlockput ip) (returnk None))))
          | None \<Rightarrow>
              bindk (getk (\<lambda>s. i_dev (inodes s ! dp))) (\<lambda>d.
              bindk (inode_alloc d mode) (\<lambda>ip. create_node dp ip name mode dev))))))"

section \<open>Opening\<close>

datatype open_run = Opened int | AwaitsReader nat int | AwaitsWriter nat int

text \<open>From the label \<^verbatim>\<open>get_fd\<close> on.\<close>

definition open_get_fd :: "nat \<Rightarrow> int \<Rightarrow> ('z fs_state_scheme, int) kern" where
  "open_get_fd ip flags =
     bindk filealloc (\<lambda>r. case r of
       None \<Rightarrow> thenk (inode_unlockput ip) (thenk end_op (returnk (- EMFILE)))
     | Some f \<Rightarrow> bindk (fdalloc f) (\<lambda>fd.
         if fd < 0
         then thenk (vfs_close f) (thenk (inode_unlockput ip) (thenk end_op (returnk (- EMFILE))))
         else thenk (inode_unlock ip)
             (thenk end_op
             (thenk (modk (\<lambda>s. upd_file f (\<lambda>f. f\<lparr>f_type := FD_INODE, f_ip := Some ip,
                 f_off := (if flags AND O_APPEND \<noteq> 0 then int (i_size (inodes s ! ip)) else 0),
                 f_readable := (flags AND O_ACCMODE = O_RDONLY \<or> flags AND O_ACCMODE = O_RDWR),
                 f_writable := (flags AND O_ACCMODE = O_WRONLY \<or> flags AND O_ACCMODE = O_RDWR)\<rparr>) s))
              (returnk fd)))))"

text \<open>The pipe of a FIFO, made when the inode has none.\<close>

definition fifo_create :: "nat \<Rightarrow> ('z fs_state_scheme, bool) kern" where
  "fifo_create ip =
     bindk pipealloc (\<lambda>(r, f0, f1).
     thenk (modk (upd_inode ip (\<lambda>i. i\<lparr>i_rf := f0, i_wf := f1\<rparr>)))
    (if r < 0 then returnk False
     else bindk (derefk f0) (\<lambda>rf. bindk (derefk f1) (\<lambda>wf.
          thenk (modk (upd_file rf (\<lambda>f. f\<lparr>f_type := FD_FIFO, f_ip := Some ip\<rparr>)))
         (thenk (modk (upd_file wf (\<lambda>f. f\<lparr>f_type := FD_FIFO, f_ip := Some ip\<rparr>)))
         (bindk (getk (\<lambda>s. f_pipe (files s ! rf))) (\<lambda>p. bindk (derefk p) (\<lambda>p.
          bindk (getk (\<lambda>s. pipes s p)) (\<lambda>v. bindk (derefk v) (\<lambda>v.
            thenk (modk (upd_pipe p (Some (v\<lparr>writeopen := 0, readopen := 0\<rparr>)))) (returnk True)))))))))))"

text \<open>One end of a FIFO is opened; \<open>f\<close> is the file of that end and \<open>wr\<close> says which it is.\<close>

definition fifo_open :: "nat \<Rightarrow> nat option \<Rightarrow> bool \<Rightarrow> ('z fs_state_scheme, open_run) kern" where
  "fifo_open ip end_file wr =
     bindk (derefk end_file) (\<lambda>f.
     bindk (getk (\<lambda>s. f_pipe (files s ! f))) (\<lambda>p. bindk (derefk p) (\<lambda>p.
     bindk (getk (\<lambda>s. pipes s p)) (\<lambda>v. bindk (derefk v) (\<lambda>v.
       if wr \<and> readopen v = 0
       then thenk (inode_unlock ip) (thenk end_op (returnk (Opened (- ENXIO))))
       else thenk (modk (upd_pipe p (Some (if wr then v\<lparr>writeopen := writeopen v + 1\<rparr>
                                            else v\<lparr>readopen := readopen v + 1\<rparr>))))
           (thenk (modk (upd_file f (\<lambda>f. f\<lparr>f_ref := f_ref f + 1\<rparr>)))
           (bindk (fdalloc f) (\<lambda>fd.
            thenk (inode_unlock ip)
           (if fd < 0 then thenk end_op (returnk (Opened fd))
            else returnk (if wr then AwaitsReader p fd else AwaitsWriter p fd))))))))))"

definition fifo_open_ends :: "nat \<Rightarrow> int \<Rightarrow> ('z fs_state_scheme, open_run option) kern" where
  "fifo_open_ends ip flags =
     bindk (getk (\<lambda>s. inodes s ! ip)) (\<lambda>node.
       if \<not> S_ISFIFO (i_mode node) \<or> flags AND O_NONBLOCK = O_NONBLOCK then returnk None
       else bindk (if i_rf node = None \<and> i_wf node = None then fifo_create ip else returnk True) (\<lambda>ok.
            if \<not> ok then thenk (inode_unlockput ip) (thenk end_op (returnk (Some (Opened (- 1)))))
            else bindk (getk (\<lambda>s. inodes s ! ip)) (\<lambda>node.
                 if flags AND O_ACCMODE = O_WRONLY
                 then bindk (fifo_open ip (i_wf node) True) (\<lambda>r. returnk (Some r))
                 else if flags AND O_ACCMODE = O_RDONLY
                 then bindk (fifo_open ip (i_rf node) False) (\<lambda>r. returnk (Some r))
                 else returnk None)))"

text \<open>The waiting loops of the two ends; each is run again when the process is woken.\<close>

definition fifo_wait_reader :: "nat \<Rightarrow> int \<Rightarrow> ('z fs_state_scheme, int) kern" where
  "fifo_wait_reader p fd =
     bindk (getk (\<lambda>s. pipes s p)) (\<lambda>v. bindk (derefk v) (\<lambda>v.
       thenk (wakeup (ChanPipeRead p))
      (if readopen v = 0 then sleepk (ChanPipeWrite p) else thenk end_op (returnk fd))))"

definition fifo_wait_writer :: "nat \<Rightarrow> int \<Rightarrow> ('z fs_state_scheme, int) kern" where
  "fifo_wait_writer p fd =
     bindk (getk (\<lambda>s. pipes s p)) (\<lambda>v. bindk (derefk v) (\<lambda>v.
       thenk (wakeup (ChanPipeWrite p))
      (if writeopen v = 0 then sleepk (ChanPipeRead p) else thenk end_op (returnk fd))))"

definition open_lookup :: "int \<Rightarrow> byte list \<Rightarrow> int \<Rightarrow> ('z fs_state_scheme, nat option) kern" where
  "open_lookup dirfd path flags =
     (if flags AND O_NOFOLLOW \<noteq> 0 then namei_with_fd dirfd path else resolve_nameat dirfd path)"

text \<open>The rest of an open once the inode is locked and not a plain error.\<close>

definition open_finish :: "nat \<Rightarrow> int \<Rightarrow> ('z fs_state_scheme, open_run) kern" where
  "open_finish ip flags =
     bindk (fifo_open_ends ip flags) (\<lambda>r. case r of
       Some run \<Rightarrow> returnk run
     | None \<Rightarrow> bindk (open_get_fd ip flags) (\<lambda>fd. returnk (Opened fd)))"

definition open_create :: "int \<Rightarrow> byte list \<Rightarrow> int \<Rightarrow> nat \<Rightarrow> ('z fs_state_scheme, open_run) kern" where
  "open_create dirfd path flags mode =
     bindk (open_lookup dirfd path flags) (\<lambda>r. case r of
       Some ip \<Rightarrow>
         thenk (inode_lock ip)
        (bindk (getk (\<lambda>s. i_mode (inodes s ! ip))) (\<lambda>m.
           if S_ISCHR m then bindk (open_get_fd ip flags) (\<lambda>fd. returnk (Opened fd))
           else thenk (inode_unlockput ip) (thenk end_op (returnk (Opened (- EEXIST))))))
     | None \<Rightarrow>
         bindk (vfs_locked_inode_create dirfd path mode 0) (\<lambda>r. case r of
           None \<Rightarrow> thenk end_op (returnk (Opened (- EIO)))
         | Some ip \<Rightarrow> open_finish ip flags))"

definition open_existing :: "int \<Rightarrow> byte list \<Rightarrow> int \<Rightarrow> ('z fs_state_scheme, open_run) kern" where
  "open_existing dirfd path flags =
     bindk (open_lookup dirfd path flags) (\<lambda>r. case r of
       None \<Rightarrow> thenk end_op (returnk (Opened (- ENOENT)))
     | Some ip \<Rightarrow>
         thenk (inode_lock ip)
        (thenk (modk (upd_inode ip (\<lambda>i. i\<lparr>i_fattrs := flags\<rparr>)))
        (bindk (getk (\<lambda>s. s)) (\<lambda>s. (let node = inodes s ! ip in
           if S_ISDIR (i_mode node) \<and> flags AND O_ACCMODE \<noteq> O_RDONLY
           then thenk (inode_unlockput ip) (thenk end_op (returnk (Opened (- EISDIR))))
           else if S_ISCHR (i_mode node) \<and> Option.bind (dev_of node s) d_open = None
           then thenk (inode_unlockput ip) (thenk end_op (returnk (Opened (- ENODEV))))
           else thenk (if S_ISCHR (i_mode node) then modk (\<lambda>s. s\<lparr>io_time := io_time s + 1\<rparr>) else returnk ())
                      (open_finish ip flags))))))"

definition vfs_openat_start :: "int \<Rightarrow> byte list option \<Rightarrow> int \<Rightarrow> nat \<Rightarrow> ('z fs_state_scheme, open_run) kern" where
  "vfs_openat_start dirfd path flags mode = (case path of
     None \<Rightarrow> returnk (Opened (- EFAULT))
   | Some path \<Rightarrow> thenk begin_op
       (if flags AND O_CREATE = O_CREATE then open_create dirfd path flags mode
        else open_existing dirfd path flags))"

definition vfs_openat :: "int \<Rightarrow> byte list option \<Rightarrow> int \<Rightarrow> nat \<Rightarrow> ('z fs_state_scheme, int) kern" where
  "vfs_openat dirfd path flags mode =
     bindk (vfs_openat_start dirfd path flags mode) (\<lambda>r. case r of
       Opened fd \<Rightarrow> returnk fd
     | AwaitsReader p fd \<Rightarrow> fifo_wait_reader p fd
     | AwaitsWriter p fd \<Rightarrow> fifo_wait_writer p fd)"

section \<open>Reading, writing, seeking\<close>

definition vfs_stat :: "nat \<Rightarrow> ('z fs_state_scheme, int \<times> stat option) kern" where
  "vfs_stat f =
     bindk (getk (\<lambda>s. files s ! f)) (\<lambda>ff.
       if f_type ff = FD_INODE \<or> f_type ff = FD_FIFO \<or> f_type ff = FD_PIPE
       then bindk (derefk (f_ip ff)) (\<lambda>ip.
            thenk (inode_lock ip)
           (bindk (inode_stat ip) (\<lambda>st.
            thenk (inode_unlock ip) (returnk (0, Some st)))))
       else returnk (- ENOENT, None))"

definition pipe_read_file :: "nat option \<Rightarrow> nat \<Rightarrow> ('z fs_state_scheme, pipe_run \<times> byte list) kern" where
  "pipe_read_file p n =
     bindk (derefk p) (\<lambda>p. bindk (getk (\<lambda>s. pipes s p)) (\<lambda>v. bindk (derefk v) (\<lambda>v.
     bindk (getk (\<lambda>s. p_killed (cur s))) (\<lambda>killed. (let (v', r, bs, ev) = piperead killed v n in
       thenk (modk (upd_pipe p (Some v')))
      (thenk (foreachk ev (pipe_event_run p)) (returnk (r, bs))))))))"

definition vfs_read :: "nat \<Rightarrow> nat \<Rightarrow> ('z fs_state_scheme, pipe_run \<times> byte list) kern" where
  "vfs_read f n =
     bindk (getk (\<lambda>s. files s ! f)) (\<lambda>ff.
       if \<not> f_readable ff then returnk (Returns (- EINVAL), [])
       else (case f_type ff of
         FD_PIPE \<Rightarrow> pipe_read_file (f_pipe ff) n
       | FD_FIFO \<Rightarrow> pipe_read_file (f_pipe ff) n
       | FD_INODE \<Rightarrow>
           bindk (derefk (f_ip ff)) (\<lambda>ip.
           thenk (inode_lock ip)
          (bindk (inode_read ip (f_off ff) n) (\<lambda>(r, bs).
           thenk (if r > 0 then modk (upd_file f (\<lambda>f. f\<lparr>f_off := f_off f + r\<rparr>)) else returnk ())
          (thenk (inode_unlock ip) (returnk (Returns r, bs))))))
       | FD_NONE \<Rightarrow> panick ''fileread''))"

definition SEEK_SET :: int where "SEEK_SET = 0"
definition SEEK_CUR :: int where "SEEK_CUR = 1"
definition SEEK_END :: int where "SEEK_END = 2"

definition fileseek :: "nat \<Rightarrow> int \<Rightarrow> int \<Rightarrow> ('z fs_state_scheme, int) kern" where
  "fileseek f n whence =
     bindk (getk (\<lambda>s. files s ! f)) (\<lambda>ff.
       if whence = SEEK_CUR then thenk (modk (upd_file f (\<lambda>f. f\<lparr>f_off := f_off f + n\<rparr>))) (returnk 0)
       else if whence = SEEK_SET then thenk (modk (upd_file f (\<lambda>f. f\<lparr>f_off := n\<rparr>))) (returnk 0)
       else if whence = SEEK_END
       then bindk (derefk (f_ip ff)) (\<lambda>ip.
            thenk (modk (\<lambda>s. upd_file f (\<lambda>f. f\<lparr>f_off := int (i_size (inodes s ! ip))\<rparr>) s)) (returnk 0))
       else returnk (- EINVAL))"

definition pipe_write_file :: "nat option \<Rightarrow> byte list \<Rightarrow> ('z fs_state_scheme, pipe_run) kern" where
  "pipe_write_file p addr =
     bindk (derefk p) (\<lambda>p. bindk (getk (\<lambda>s. pipes s p)) (\<lambda>v. bindk (derefk v) (\<lambda>v.
     bindk (getk (\<lambda>s. p_killed (cur s))) (\<lambda>killed. (let (v', r, ev) = pipewrite killed v addr in
       thenk (modk (upd_pipe p (Some v')))
      (thenk (foreachk ev (pipe_event_run p)) (returnk r)))))))"

definition write_max :: nat where "write_max = (MAXOPBLOCKS - 1 - 1 - 2) div 2 * 512"

lemma write_max_pos: "0 < write_max"
  by (simp add: write_max_def MAXOPBLOCKS_def)

text \<open>The loop of \<^verbatim>\<open>vfs_write\<close>; \<open>i\<close> bytes are written, \<open>addr\<close> holds those left.\<close>

function vfs_write_loop :: "nat \<Rightarrow> nat \<Rightarrow> byte list \<Rightarrow> ('z fs_state_scheme, pipe_run) kern" where
  "vfs_write_loop f i addr =
     (if addr = [] then returnk (Returns (int i))
      else (let chunk = take write_max addr in
        thenk begin_op
       (bindk (getk (\<lambda>s. f_ip (files s ! f))) (\<lambda>ip. bindk (derefk ip) (\<lambda>ip.
        thenk (inode_lock ip)
       (bindk (getk (\<lambda>s. f_off (files s ! f))) (\<lambda>off.
        bindk (inode_write ip chunk off) (\<lambda>r.
        thenk (if r \<noteq> 0 then modk (upd_file f (\<lambda>f. f\<lparr>f_off := f_off f + r\<rparr>)) else returnk ())
       (thenk (inode_unlock ip)
       (thenk end_op
       (if r < 0 then returnk (Returns (int i))
        else if r \<noteq> int (length chunk) then panick ''short filewrite''
        else vfs_write_loop f (i + length chunk) (drop write_max addr))))))))))))"
  by pat_completeness auto

termination
  by (relation "measure (\<lambda>(f, i, addr). length addr)") (auto simp: write_max_pos)

declare vfs_write_loop.simps [simp del]

definition vfs_write :: "nat \<Rightarrow> byte list \<Rightarrow> ('z fs_state_scheme, pipe_run) kern" where
  "vfs_write f addr =
     bindk (getk (\<lambda>s. files s ! f)) (\<lambda>ff.
       if \<not> f_writable ff then returnk (Returns (- EROFS))
       else (case f_type ff of
         FD_PIPE \<Rightarrow> pipe_write_file (f_pipe ff) addr
       | FD_FIFO \<Rightarrow> pipe_write_file (f_pipe ff) addr
       | FD_INODE \<Rightarrow> vfs_write_loop f 0 addr
       | FD_NONE \<Rightarrow> panick ''filewrite''))"

section \<open>The path of a directory\<close>

fun name_of_inode_loop ::
  "nat \<Rightarrow> nat \<Rightarrow> nat list \<Rightarrow> byte list \<Rightarrow> byte list \<Rightarrow> nat \<Rightarrow> ('z fs_state_scheme, int \<times> byte list) kern" where
  "name_of_inode_loop inum parent [] de buf n = returnk (- 1, buf)"
| "name_of_inode_loop inum parent (off # offs) de buf n =
     bindk (inode_read parent (int off) DIRENT_SIZE) (\<lambda>(r, bs).
       if r < 0 then returnk (r, buf)
       else (let de = blit 0 bs de in
             if d_ino de = inum
             then bindk (boundsk (strncpy buf (d_name de) (n - 1))) (\<lambda>buf. returnk (0, buf))
             else name_of_inode_loop inum parent offs de buf n))"

definition name_of_inode :: "nat \<Rightarrow> nat \<Rightarrow> byte list \<Rightarrow> nat \<Rightarrow> ('z fs_state_scheme, int \<times> byte list) kern" where
  "name_of_inode ip parent buf n =
     bindk (getk (\<lambda>s. s)) (\<lambda>s.
       name_of_inode_loop (i_inum (inodes s ! ip)) parent (dir_offsets (i_size (inodes s ! parent)))
         (replicate DIRENT_SIZE 0) buf n)"

definition append_path :: "byte list \<Rightarrow> byte list \<Rightarrow> byte list option" where
  "append_path s node_name =
     Option.bind (strcmp s [47, 0]) (\<lambda>c.
     Option.bind (if c \<noteq> 0 then strncat s [47, 0] 2 else Some s) (\<lambda>s.
     Option.bind (strlen node_name) (\<lambda>len. strncat s node_name (DIRSIZ - len))))"

text \<open>
  The recursion follows the entries \<^verbatim>\<open>..\<close> up to the root. It is bounded by \<open>depth\<close>: running out
  stands for the overflow of the kernel stack.
\<close>

fun inode_to_path :: "nat \<Rightarrow> byte list \<Rightarrow> nat \<Rightarrow> nat \<Rightarrow> ('z fs_state_scheme, byte list option) kern" where
  "inode_to_path 0 buf n ip = panick ''kernel stack overflow''"
| "inode_to_path (Suc depth) buf n ip =
     bindk (namei [47, 0]) (\<lambda>tmp.
     thenk (assertk (tmp \<noteq> None) ''tmp_ip != NULL'')
    (bindk (derefk tmp) (\<lambda>tmp.
     bindk (getk (\<lambda>s. i_inum (inodes s ! ip) = i_inum (inodes s ! tmp))) (\<lambda>isroot.
     thenk (inode_put tmp)
    (thenk (inode_lock ip)
    (bindk (getk (\<lambda>s. S_ISDIR (i_mode (inodes s ! ip)))) (\<lambda>isdir.
     thenk (inode_unlock ip)
    (if isroot then bindk (boundsk (if length buf < 2 then None else Some (blit 0 [47, 0] buf))) (\<lambda>b. returnk (Some b))
     else if \<not> isdir then returnk None
     else thenk (inode_lock ip)
         (bindk (dirlookup ip [46, 46, 0]) (\<lambda>r.
          thenk (inode_unlock ip)
         (case r of None \<Rightarrow> returnk None
          | Some (parent, _) \<Rightarrow>
              thenk (inode_lock parent)
             (bindk (name_of_inode ip parent (replicate DIRSIZ 0) n) (\<lambda>(r, node_name).
                if r < 0 then thenk (inode_unlockput parent) (returnk None)
                else thenk (inode_unlock parent)
                    (bindk (inode_to_path depth buf n parent) (\<lambda>res. case res of
                       None \<Rightarrow> returnk None
                     | Some s \<Rightarrow>
                         thenk (inode_put parent)
                        (bindk (boundsk (append_path s node_name)) (\<lambda>s. returnk (Some s))))))))))))))))))"

end
