(* ===== verification/Kern_Frame.thy ===== *)
theory Kern_Frame
  imports Kern_File
begin

text \<open>
  What the file system leaves alone. Operations of the cache, of the log and on inodes change neither
  the memory of processes nor the process table, except that they wake sleeping processes. Each
  operation has one rule in \<open>still_rules\<close>; its proof follows the structure of the code.
\<close>

section \<open>Waking only\<close>

definition awoken :: "proc \<Rightarrow> proc \<Rightarrow> bool" where
  "awoken p p' \<longleftrightarrow> p' = p \<or> p_state p = SLEEPING \<and> p' = p\<lparr>p_state := RUNNABLE\<rparr>"

definition still :: "'z proc_state_scheme \<Rightarrow> 'z proc_state_scheme \<Rightarrow> bool" where
  "still s s' \<longleftrightarrow> mem_state.truncate s' = mem_state.truncate s \<and> curproc s' = curproc s \<and> nextpid s' = nextpid s \<and>
     initproc s' = initproc s \<and> ticks s' = ticks s \<and> list_all2 awoken (procs s) (procs s')"

lemma awoken_refl [simp]: "awoken p p"
  by (simp add: awoken_def)

lemma awoken_trans: "awoken p q \<Longrightarrow> awoken q r \<Longrightarrow> awoken p r"
  by (auto simp: awoken_def)

lemma still_refl [simp]: "still s s"
  by (simp add: still_def list_all2_same)

lemma still_trans: "still s t \<Longrightarrow> still t u \<Longrightarrow> still s u"
  unfolding still_def using list_all2_trans [of awoken awoken awoken, OF awoken_trans] by auto

lemma still_mem:
  assumes "still s s'"
  shows "freelist s' = freelist s" and "ptab s' = ptab s" and "pdata s' = pdata s" and "curproc s' = curproc s"
    and "length (procs s') = length (procs s)"
proof -
  have m: "mem_state.truncate s' = mem_state.truncate s" using assms by (simp add: still_def)
  show "freelist s' = freelist s" "ptab s' = ptab s" "pdata s' = pdata s"
    using m by (simp_all add: mem_state.defs)
  show "curproc s' = curproc s" "length (procs s') = length (procs s)"
    using assms by (auto simp: still_def dest: list_all2_lengthD)
qed

text \<open>The process that makes the system call is running, so it is the same process afterwards.\<close>

lemma still_cur:
  assumes "still s s'" and "runs s"
  shows "awoken (cur s) (cur s')" and "p_state (cur s) = RUNNING \<Longrightarrow> cur s' = cur s"
proof -
  show a: "awoken (cur s) (cur s')"
    using assms by (auto simp: still_def runs_def cur_def intro: list_all2_nthD)
  show "p_state (cur s) = RUNNING \<Longrightarrow> cur s' = cur s" using a by (auto simp: awoken_def)
qed

lemma awoken_fields:
  assumes "awoken p p'"
  shows "p_pgdir p' = p_pgdir p" and "p_sz p' = p_sz p" and "p_tf p' = p_tf p" and "p_ofile p' = p_ofile p"
    and "p_pid p' = p_pid p"
  using assms by (auto simp: awoken_def)

lemma still_keepsI: "(\<And>s. still s (f s)) \<Longrightarrow> keeps (still s0) (modk f)"
  by (rule keeps_mod) (blast intro: still_trans)

lemma still_keepsD: "(\<And>s0. keeps (still s0) m) \<Longrightarrow> m s = Inr (x, s') \<Longrightarrow> still s s'"
  using keepsD [of "still s" m s x s'] by simp

lemma still_wakeup1 [simp]: "still s (wakeup1 c s)"
  by (simp add: still_def wakeup1_def mem_state.defs list_all2_conv_all_nth awoken_def wake_def)

lemma still_upd [simp]:
  "still s (upd_buf i f s)" "still s (disk_write dev bn d s)" "still t (t\<lparr>idequeue := q\<rparr>)" "still t (t\<lparr>lru := l\<rparr>)"
  by (simp_all add: still_def upd_buf_def disk_write_def mem_state.defs list_all2_same)

lemma still_upd_log [simp]:
  "still s (s\<lparr>l_n := n\<rparr>)" "still s (s\<lparr>l_block := bs, l_n := n\<rparr>)" "still s (s\<lparr>l_outstanding := k\<rparr>)"
  "still s (s\<lparr>l_committing := c\<rparr>)"
  by (simp_all add: still_def mem_state.defs list_all2_same)

lemma still_upd_fs [simp]:
  "still s (upd_inode i f s)" "still s (upd_file j g s)" "still s (s\<lparr>io_time := n\<rparr>)"
  by (simp_all add: still_def upd_inode_def upd_file_def mem_state.defs list_all2_same)

named_theorems still_rules

section \<open>The cache\<close>

lemma still_wakeup [still_rules]: "keeps (still s0) (wakeup c)"
  unfolding wakeup_def by (rule still_keepsI) simp

lemma keeps_case_list: "keeps I m \<Longrightarrow> (\<And>x xs. keeps I (f x xs)) \<Longrightarrow> keeps I (case v of [] \<Rightarrow> m | x # xs \<Rightarrow> f x xs)"
  by (cases v) auto

lemma still_bio [still_rules]:
  "keeps (still s0) (acquiresleep_buf i)" "keeps (still s0) (releasesleep_buf i)" "keeps (still s0) (set_data i d)"
  "keeps (still s0) (idestart i)"
  unfolding acquiresleep_buf_def releasesleep_buf_def set_data_def idestart_def
  by (intro keeps_rules still_keepsI still_rules; simp)+

lemma still_ideintr [still_rules]: "keeps (still s0) ideintr"
  unfolding ideintr_def by (intro keeps_rules keeps_case_list still_keepsI still_rules; simp)

lemma still_ide_serve [still_rules]: "keeps (still s0) (ide_serve i n)"
  by (induction n) (simp_all, (intro keeps_rules still_rules; simp)+)

lemma still_iderw [still_rules]: "keeps (still s0) (iderw i)"
  unfolding iderw_def Let_def by (intro keeps_rules still_keepsI still_rules; simp)

lemma still_blocks [still_rules]:
  "keeps (still s0) (block_get dev bn)" "keeps (still s0) (block_read dev bn)" "keeps (still s0) (block_write i)"
  "keeps (still s0) (block_release i)"
proof -
  show g: "keeps (still s0) (block_get dev bn)"
    unfolding block_get_def by (intro keeps_rules still_keepsI still_rules; simp)
  show "keeps (still s0) (block_read dev bn)" unfolding block_read_def by (intro keeps_rules g still_rules)
  show "keeps (still s0) (block_write i)" "keeps (still s0) (block_release i)"
    unfolding block_write_def block_release_def by (intro keeps_rules still_keepsI still_rules; simp)+
qed

section \<open>The log\<close>

lemma still_install [still_rules]: "keeps (still s0) (install_trans_loop bs pos)"
  by (induction bs arbitrary: pos) (simp_all, (intro keeps_rules still_rules; assumption?)+)

lemma still_write_log [still_rules]: "keeps (still s0) (write_log_loop bs pos)"
  by (induction bs arbitrary: pos) (simp_all, (intro keeps_rules still_rules; assumption?)+)

lemma still_commit [still_rules]: "keeps (still s0) write_head" "keeps (still s0) commit"
proof -
  show h: "keeps (still s0) write_head" unfolding write_head_def by (intro keeps_rules still_rules)
  show "keeps (still s0) commit"
    unfolding commit_def write_log_def install_trans_def by (intro keeps_rules still_keepsI still_rules h; simp)
qed

lemma still_op [still_rules]:
  "keeps (still s0) begin_op" "keeps (still s0) end_op" "keeps (still s0) (log_write b)"
  unfolding begin_op_def end_op_def log_write_def Let_def by (intro keeps_rules still_keepsI still_rules; simp)+

section \<open>Inodes and their blocks\<close>

lemma still_zero [still_rules]: "keeps (still s0) (block_zero dev b)"
  unfolding block_zero_def by (intro keeps_rules still_rules)

lemma still_alloc_loop [still_rules]: "keeps (still s0) (block_alloc_loop dev bs)"
  by (induction bs) (simp_all, (intro keeps_rules still_rules; assumption?)+)

lemma still_bmap [still_rules]: "keeps (still s0) (bmap i bn)"
  unfolding bmap_def bmap_slot_def bmap_entry_def block_alloc_def Let_def
  by (intro keeps_rules still_keepsI still_rules; simp)

lemma still_inode [still_rules]:
  "keeps (still s0) (inode_lock i)" "keeps (still s0) (inode_unlock i)" "keeps (still s0) (inode_update i)"
  unfolding inode_lock_def inode_unlock_def inode_update_def acquiresleep_inode_def releasesleep_inode_def Let_def
  by (intro keeps_rules still_keepsI still_rules; simp)+

lemma still_read_loop [still_rules]: "keeps (still s0) (inode_read_loop i off left)"
proof (induction i off left rule: inode_read_loop.induct)
  case (1 i off left)
  then show ?case by (subst inode_read_loop.simps) (intro keeps_rules still_rules "1.IH"; assumption)
qed

lemma still_write_loop [still_rules]: "keeps (still s0) (inode_write_loop i off src)"
proof (induction i off src rule: inode_write_loop.induct)
  case (1 i off src)
  then show ?case by (subst inode_write_loop.simps) (intro keeps_rules still_rules "1.IH"; assumption)
qed

lemma still_rw [still_rules]:
  "keeps (still s0) (inode_read i off n)" "keeps (still s0) (inode_write i src pos)"
  unfolding inode_read_def inode_write_def Let_def by (intro keeps_rules still_keepsI still_rules; simp)+

lemma still_vfs_write_loop [still_rules]: "keeps (still s0) (vfs_write_loop f k addr)"
proof (induction f k addr rule: vfs_write_loop.induct)
  case (1 f k addr)
  then show ?case
    by (subst vfs_write_loop.simps, unfold Let_def) (intro keeps_rules still_keepsI still_rules "1.IH"; simp)
qed

end
