(* ===== verification/Kern_User.thy ===== *)
theory Kern_User
  imports Kern_File
begin

text \<open>
  The arguments of system calls, \<^verbatim>\<open>kernel/syscall.c\<close>, and the memory of the calling process as the
  kernel sees it through the current page table. An access to a page that is not present runs the
  page-fault handler of \<^verbatim>\<open>kernel/trap.c\<close> and is tried once more; a fault that is not resolved stops
  the run. The page directory of a process covers the first gigabyte, an access above it stops the
  run as well. The kernel's own accesses depend on the present bit only.
\<close>

section \<open>Page faults\<close>

text \<open>
  \<^verbatim>\<open>page_fault addr user\<close> is the case \<^verbatim>\<open>T_PGFLT\<close> of \<^verbatim>\<open>trap\<close>; \<open>user\<close> tells whether the fault was taken in
  user mode.
\<close>

definition page_fault :: "u64 \<Rightarrow> bool \<Rightarrow> ('z proc_state_scheme, unit) kern" where
  "page_fault addr user =
     bindk (getk cur) (\<lambda>p. bindk (derefk (p_pgdir p)) (\<lambda>pgdir.
     (let segv = thenk (kill (p_pid p) SIGSEGV) (returnk ());
          give_up = (if user then segv else panick ''trap'') in
      bindk (getk (read_pte (pgdir, PDX addr))) (\<lambda>pde.
        if \<not> present pde then give_up
        else (let pg = (p2v (PTE_ADDR pde), PTX addr) in
              bindk (getk (read_pte pg)) (\<lambda>e.
                if e AND PTE_COW \<noteq> 0 \<and> \<not> present e
                then bindk kpage_alloc (\<lambda>m. case m of
                    None \<Rightarrow> segv
                  | Some mem \<Rightarrow> modk (\<lambda>s. write_pte pg ((read_pte pg s OR (v2p mem OR PTE_P)) AND NOT PTE_COW) s))
                else give_up))))))"

section \<open>User memory\<close>

definition user_page :: "u64 \<Rightarrow> 'z proc_state_scheme \<Rightarrow> u64 option" where
  "user_page va s = (case p_pgdir (cur s) of
     None \<Rightarrow> None
   | Some pgdir \<Rightarrow>
       (let pde = ptab s pgdir (PDX va); e = ptab s (p2v (PTE_ADDR pde)) (PTX va) in
        if present pde \<and> present e then Some (p2v (PTE_ADDR e)) else None))"

definition touch :: "u64 \<Rightarrow> ('z proc_state_scheme, u64) kern" where
  "touch va =
     (if 2 ^ 30 \<le> va then panick ''trap''
      else bindk (getk (user_page va)) (\<lambda>r. case r of
        Some pg \<Rightarrow> returnk pg
      | None \<Rightarrow> thenk (page_fault va False)
          (bindk (getk (user_page va)) (\<lambda>r. case r of
             Some pg \<Rightarrow> returnk pg
           | None \<Rightarrow> panick ''trap''))))"

definition page_off :: "u64 \<Rightarrow> nat" where
  "page_off va = unat va mod 4096"

fun uload :: "u64 \<Rightarrow> nat \<Rightarrow> ('z proc_state_scheme, byte list) kern" where
  "uload va 0 = returnk []"
| "uload va (Suc n) =
     bindk (touch va) (\<lambda>pg. bindk (getk (\<lambda>s. pdata s pg ! page_off va)) (\<lambda>b.
     bindk (uload (va + 1) n) (\<lambda>bs. returnk (b # bs))))"

fun ustore :: "u64 \<Rightarrow> byte list \<Rightarrow> ('z proc_state_scheme, unit) kern" where
  "ustore va [] = returnk ()"
| "ustore va (b # bs) =
     bindk (touch va) (\<lambda>pg.
     thenk (modk (\<lambda>s. s\<lparr>pdata := (pdata s)(pg := (pdata s pg)[page_off va := b])\<rparr>))
           (ustore (va + 1) bs))"

section \<open>Arguments\<close>

text \<open>
  A call that fails hands its negative errno to the caller: \<^verbatim>\<open>PROPOGATE_ERR\<close>. Arguments come in registers
  and are converted to the type the handler asks for.
\<close>

definition tryk :: "('s, int + 'a) kern \<Rightarrow> ('a \<Rightarrow> ('s, int) kern) \<Rightarrow> ('s, int) kern" where
  "tryk m f = bindk m (\<lambda>r. case r of Inl e \<Rightarrow> returnk e | Inr x \<Rightarrow> f x)"

definition fetcharg :: "nat \<Rightarrow> 'z proc_state_scheme \<Rightarrow> u64" where
  "fetcharg n s = (let tf = p_tf (cur s) in [rdi tf, rsi tf, rdx tf, r10 tf, r8 tf, r9 tf] ! n)"

definition to_int :: "u64 \<Rightarrow> int" where
  "to_int v = sint (ucast v :: u32)"

definition argint :: "nat \<Rightarrow> 'z proc_state_scheme \<Rightarrow> int" where
  "argint n s = to_int (fetcharg n s)"

definition argsize_t :: "nat \<Rightarrow> 'z proc_state_scheme \<Rightarrow> nat" where
  "argsize_t n s = unat (fetcharg n s)"

definition argoff_t :: "nat \<Rightarrow> 'z proc_state_scheme \<Rightarrow> int" where
  "argoff_t n s = sint (fetcharg n s)"

definition argmode_t :: "nat \<Rightarrow> 'z proc_state_scheme \<Rightarrow> u32" where
  "argmode_t n s = ucast (fetcharg n s)"

definition argptr :: "nat \<Rightarrow> int \<Rightarrow> ('z proc_state_scheme, int + u64) kern" where
  "argptr n len =
     getk (\<lambda>s. (let ptr = fetcharg n s; sz = p_sz (cur s) in
       if len < 0 \<or> ptr \<ge> sz \<or> ptr + of_int len > sz then Inl (- EFAULT) else Inr ptr))"

text \<open>\<open>scan_nul s ep k\<close> is the loop of \<^verbatim>\<open>fetchstr\<close>: \<open>n\<close> bytes are left before \<^verbatim>\<open>ep\<close>, \<open>k\<close> were looked at.\<close>

fun scan_nul :: "u64 \<Rightarrow> nat \<Rightarrow> nat \<Rightarrow> ('z proc_state_scheme, int) kern" where
  "scan_nul a 0 k = returnk (- 1)"
| "scan_nul a (Suc n) k =
     (if a = 0 then scan_nul (a + 1) n (k + 1)
      else bindk (touch a) (\<lambda>pg. bindk (getk (\<lambda>s. pdata s pg ! page_off a)) (\<lambda>b.
           if b = 0 then returnk (int k) else scan_nul (a + 1) n (k + 1))))"

text \<open>The result of \<^verbatim>\<open>fetchstr\<close> is the address and the length; \<open>user_str\<close> reads the string with its NUL.\<close>

definition fetchstr :: "u64 \<Rightarrow> ('z proc_state_scheme, int + u64 \<times> nat) kern" where
  "fetchstr addr =
     bindk (getk (\<lambda>s. p_sz (cur s))) (\<lambda>sz.
       if addr \<ge> sz then returnk (Inl (- EFAULT))
       else bindk (scan_nul addr (unat sz - unat addr) 0) (\<lambda>r.
            returnk (if r < 0 then Inl r else Inr (addr, nat r))))"

definition argstr :: "nat \<Rightarrow> ('z proc_state_scheme, int + u64 \<times> nat) kern" where
  "argstr n = bindk (getk (fetcharg n)) fetchstr"

definition user_str :: "u64 \<times> nat \<Rightarrow> ('z proc_state_scheme, byte list) kern" where
  "user_str a = uload (fst a) (snd a + 1)"

definition fetchuintptr_t :: "u64 \<Rightarrow> ('z proc_state_scheme, int + u64) kern" where
  "fetchuintptr_t addr =
     bindk (getk (\<lambda>s. p_sz (cur s))) (\<lambda>sz.
       if addr \<ge> sz \<or> addr + 8 > sz then returnk (Inl (- EFAULT))
       else bindk (uload addr 8) (\<lambda>bs. returnk (Inr (of_nat (le_val bs)))))"

end
