(* ===== verification/Kern_Sysfile.thy ===== *)
theory Kern_Sysfile
  imports Kern_User
begin

text \<open>
  System calls on open files, \<^verbatim>\<open>kernel/sysfile.c\<close>. A handler returns the value that ends up in \<^verbatim>\<open>rax\<close>
  as a signed number; the handlers that read or write return a \<open>pipe_run\<close>, because they may have to
  wait in the middle of a transfer.

  \<^verbatim>\<open>argfd\<close> accepts \<^verbatim>\<open>AT_FDCWD\<close> without setting the file. A handler that uses the file then follows a
  pointer that was never set; the run stops.
\<close>

section \<open>Descriptors\<close>

definition O_CLOEXEC :: int where "O_CLOEXEC = 0x400"
definition O_CLOFORK :: int where "O_CLOFORK = 0x800"
definition FD_CLOEXEC :: int where "FD_CLOEXEC = 1"
definition FD_CLOFORK :: int where "FD_CLOFORK = 2"

definition tryrun :: "('s, int + 'a) kern \<Rightarrow> ('a \<Rightarrow> ('s, pipe_run) kern) \<Rightarrow> ('s, pipe_run) kern" where
  "tryrun m f = bindk m (\<lambda>r. case r of Inl e \<Rightarrow> returnk (Returns e) | Inr x \<Rightarrow> f x)"

definition argfd :: "nat \<Rightarrow> ('z fs_state_scheme, int + int \<times> nat option) kern" where
  "argfd n =
     getk (\<lambda>s. (let fd = argint n s in
       if fd = AT_FDCWD then Inr (fd, None)
       else if fd < 0 then Inl (- EBADF)
       else if fd \<ge> int OPEN_MAX then Inl (- ENFILE)
       else (case p_ofile (cur s) ! nat fd of
           None \<Rightarrow> Inl (- EBADF)
         | Some f \<Rightarrow> Inr (fd, Some f))))"

text \<open>
  The test of the new descriptor in \<^verbatim>\<open>sys_dup3\<close> is a conjunction that never holds, so any number reaches
  the array of open files.
\<close>

definition sys_dup3 :: "('z fs_state_scheme, int) kern" where
  "sys_dup3 =
     tryk (argfd 0) (\<lambda>(fd1, f).
     bindk (getk (argint 1)) (\<lambda>fd2. bindk (getk (argint 2)) (\<lambda>oflags.
       if oflags AND NOT (O_CLOEXEC OR O_CLOFORK) \<noteq> 0 then returnk (- EINVAL)
       else if fd2 < 0 \<and> fd2 \<ge> int OPEN_MAX then returnk (- EBADF)
       else if fd1 = fd2 then returnk fd2
       else thenk (assertk (0 \<le> fd2 \<and> fd2 < int OPEN_MAX) ''ofile'')
           (bindk (derefk f) (\<lambda>f.
            bindk (fdalloc2 f (nat fd2)) (\<lambda>r.
              if r < 0 then returnk r
              else thenk (filedup f oflags) (returnk r)))))))"

definition sys_close :: "('z fs_state_scheme, int) kern" where
  "sys_close =
     tryk (argfd 0) (\<lambda>(fd, f). bindk (derefk f) (\<lambda>f.
       thenk (modk (set_ofile (nat fd) None)) (vfs_close f)))"

section \<open>Reading and writing\<close>

text \<open>
  \<^verbatim>\<open>sys_read\<close> and \<^verbatim>\<open>sys_write\<close> hand a 64-bit length to the \<^verbatim>\<open>int\<close> parameter of \<^verbatim>\<open>argptr\<close>, which is where it is
  truncated. The bytes to write are fetched when the file is known to be writable.
\<close>

definition sys_read :: "('z fs_state_scheme, pipe_run) kern" where
  "sys_read =
     tryrun (argfd 0) (\<lambda>(_, f).
     bindk (getk (fetcharg 2)) (\<lambda>n.
     tryrun (argptr 1 (to_int n)) (\<lambda>p.
     bindk (derefk f) (\<lambda>f.
     bindk (vfs_read f (unat n)) (\<lambda>(r, bs).
       thenk (ustore p bs) (returnk r))))))"

definition user_bytes :: "nat \<Rightarrow> u64 \<Rightarrow> nat \<Rightarrow> ('z fs_state_scheme, byte list) kern" where
  "user_bytes f p n =
     bindk (getk (\<lambda>s. f_writable (files s ! f))) (\<lambda>w. if w then uload p n else returnk [])"

definition sys_write :: "('z fs_state_scheme, pipe_run) kern" where
  "sys_write =
     tryrun (argfd 0) (\<lambda>(_, f).
     bindk (getk (fetcharg 2)) (\<lambda>n.
     tryrun (argptr 1 (to_int n)) (\<lambda>p.
     bindk (derefk f) (\<lambda>f.
     bindk (user_bytes f p (unat n)) (vfs_write f)))))"

text \<open>
  \<^verbatim>\<open>sys_writev\<close> writes the first element of the vector once for every element. A wait leaves the number
  of turns left and the bytes accumulated so far.
\<close>

datatype writev_run = WritevReturns int | WritevWaits nat int pipe_run

fun writev_loop :: "nat \<Rightarrow> u64 \<Rightarrow> nat \<Rightarrow> int \<Rightarrow> ('z fs_state_scheme, writev_run) kern" where
  "writev_loop f iovecs 0 acc = returnk (WritevReturns acc)"
| "writev_loop f iovecs (Suc n) acc =
     bindk (uload iovecs 16) (\<lambda>v.
     bindk (user_bytes f (of_nat (le_val (take 8 v))) (le_val (drop 8 v))) (\<lambda>bs.
     bindk (vfs_write f bs) (\<lambda>r. case r of
         Returns ret \<Rightarrow> if ret < 0 then returnk (WritevReturns ret) else writev_loop f iovecs n (acc + ret)
       | _ \<Rightarrow> returnk (WritevWaits n acc r))))"

definition sys_writev :: "('z fs_state_scheme, writev_run) kern" where
  "sys_writev =
     bindk (argfd 0) (\<lambda>a. case a of
       Inl e \<Rightarrow> returnk (WritevReturns e)
     | Inr (_, f) \<Rightarrow>
         bindk (getk (argint 2)) (\<lambda>iovcnt.
         bindk (argptr 1 (to_int (of_int (16 * iovcnt)))) (\<lambda>p. case p of
           Inl e \<Rightarrow> returnk (WritevReturns e)
         | Inr iovecs \<Rightarrow>
             if iovcnt \<le> 0 then returnk (WritevReturns 0)
             else bindk (derefk f) (\<lambda>f. writev_loop f iovecs (nat iovcnt) 0))))"

definition sys_lseek :: "('z fs_state_scheme, int) kern" where
  "sys_lseek =
     tryk (argfd 0) (\<lambda>(_, f).
     bindk (getk (argoff_t 1)) (\<lambda>off. bindk (getk (argint 2)) (\<lambda>whence.
     bindk (derefk f) (\<lambda>f.
     bindk (getk (\<lambda>s. f_ip (files s ! f))) (\<lambda>ip. bindk (derefk ip) (\<lambda>ip.
     bindk (getk (\<lambda>s. i_mode (inodes s ! ip))) (\<lambda>mode.
       if S_ISFIFO mode \<or> S_ISTYPE mode S_IFSOCK then returnk (- ESPIPE)
       else fileseek f off whence)))))))"

definition sys_fsync :: "('z fs_state_scheme, int) kern" where
  "sys_fsync = tryk (argfd 0) (\<lambda>(fd, _). returnk (if fd = 0 then - EINVAL else 0))"

section \<open>Status\<close>

text \<open>\<open>store_stat\<close> writes the fields \<^verbatim>\<open>inode_stat\<close> sets at their offsets in \<^verbatim>\<open>struct stat\<close>.\<close>

definition le_int :: "nat \<Rightarrow> int \<Rightarrow> byte list" where
  "le_int n v = le_bytes n (nat (v mod 2 ^ (8 * n)))"

definition store_stat :: "u64 \<Rightarrow> stat \<Rightarrow> ('z fs_state_scheme, unit) kern" where
  "store_stat a st =
     foreachk [(0, le_bytes 8 (st_dev st)), (40, le_bytes 8 (st_rdev st)), (8, le_bytes 4 (st_ino st)),
       (12, le_int 4 (st_nlink st)), (16, le_int 8 (st_size st)), (24, le_bytes 4 (st_mode st)),
       (28, le_bytes 4 (st_uid st)), (32, le_bytes 4 (st_gid st)), (64, le_bytes 8 (st_atime st)),
       (48, le_bytes 8 (st_ctime st)), (80, le_bytes 8 (st_mtime st)), (104, le_bytes 8 (st_blocks st)),
       (96, le_bytes 8 (st_blksize st))]
      (\<lambda>(off, bs). ustore (a + off) bs)"

definition STAT_SIZE :: int where "STAT_SIZE = 112"

definition sys_fstat :: "('z fs_state_scheme, int) kern" where
  "sys_fstat =
     tryk (argfd 0) (\<lambda>(_, f).
     tryk (argptr 1 STAT_SIZE) (\<lambda>st.
       if st = 0 then returnk (- EFAULT)
       else bindk (derefk f) (\<lambda>f. bindk (vfs_stat f) (\<lambda>(r, v).
            thenk (case v of None \<Rightarrow> returnk () | Some v \<Rightarrow> store_stat st v) (returnk r)))))"

definition sys_fchmod :: "('z fs_state_scheme, int) kern" where
  "sys_fchmod =
     bindk (argfd 0) (\<lambda>a. case a of
       Inl e \<Rightarrow> thenk end_op (returnk e)
     | Inr (_, f) \<Rightarrow>
         bindk (getk (argmode_t 1)) (\<lambda>mode.
         bindk (derefk f) (\<lambda>f.
         thenk begin_op
        (bindk (getk (\<lambda>s. f_ip (files s ! f))) (\<lambda>ip. bindk (derefk ip) (\<lambda>ip.
         thenk (inode_lock ip)
        (thenk (modk (upd_inode ip (\<lambda>i. i\<lparr>i_mode := (i_mode i AND S_IFMT) OR unat mode\<rparr>)))
        (thenk (inode_update ip)
        (thenk (inode_unlock ip)
        (thenk end_op (returnk 0)))))))))))"

section \<open>Control\<close>

definition dup_to_new :: "nat \<Rightarrow> int \<Rightarrow> ('z fs_state_scheme, int) kern" where
  "dup_to_new f flags =
     bindk (fdalloc f) (\<lambda>fd. if fd < 0 then returnk fd else thenk (filedup f flags) (returnk fd))"

definition sys_fcntl :: "('z fs_state_scheme, int) kern" where
  "sys_fcntl =
     tryk (argfd 0) (\<lambda>(_, f).
     bindk (getk (argint 1)) (\<lambda>op_no. bindk (getk (argint 2)) (\<lambda>arg.
     bindk (derefk f) (\<lambda>f.
       if op_no = 0 then dup_to_new f 0
       else if op_no = 0x10 then dup_to_new f O_CLOEXEC
       else if op_no = 0x800 then dup_to_new f O_CLOFORK
       else if op_no = 4
       then bindk (getk (\<lambda>s. f_ip (files s ! f))) (\<lambda>ip. bindk (derefk ip) (\<lambda>ip.
            thenk (inode_lock ip)
           (bindk (getk (\<lambda>s. i_fattrs (inodes s ! ip))) (\<lambda>flags.
            thenk (inode_unlock ip) (returnk flags)))))
       else if op_no = 8
       then bindk (getk (\<lambda>s. f_ip (files s ! f))) (\<lambda>ip. bindk (derefk ip) (\<lambda>ip.
            thenk (inode_lock ip)
           (thenk (modk (upd_inode ip (\<lambda>i. i\<lparr>i_fattrs := arg\<rparr>)))
           (thenk (inode_unlock ip) (returnk 0)))))
       else if op_no = 1 then getk (\<lambda>s. f_flags (files s ! f))
       else if op_no = 2
       then (if arg AND NOT (FD_CLOEXEC OR FD_CLOFORK) \<noteq> 0 then returnk (- EINVAL)
             else thenk (modk (upd_file f (\<lambda>f. f\<lparr>f_flags :=
                     (if arg AND FD_CLOFORK \<noteq> 0 then O_CLOFORK else 0) OR (if arg AND FD_CLOEXEC \<noteq> 0 then O_CLOEXEC else 0)\<rparr>)))
                  (returnk 0))
       else if op_no \<in> {0x20, 0x40, 0x80, 0x100, 0x200, 0x400} then returnk (- ENOSYS)
       else returnk (- EINVAL)))))"

text \<open>\<^verbatim>\<open>sys_umask\<close> reads its argument and returns the mask; it does not set it.\<close>

definition sys_umask :: "('z fs_state_scheme, int) kern" where
  "sys_umask = getk (\<lambda>s. uint (p_umask (cur s)))"

definition sys_pipe2 :: "('z fs_state_scheme, int) kern" where
  "sys_pipe2 =
     tryk (argptr 0 8) (\<lambda>fd.
     bindk (getk (argint 1)) (\<lambda>oflags.
       if oflags AND NOT (O_CLOEXEC OR O_CLOFORK OR O_NONBLOCK) \<noteq> 0 then returnk (- EINVAL)
       else bindk pipealloc (\<lambda>(r, rf, wf).
            if r < 0 then returnk r
            else bindk (derefk rf) (\<lambda>rf. bindk (derefk wf) (\<lambda>wf.
                 bindk (fdalloc rf) (\<lambda>fd0.
                 bindk (if fd0 < 0 then returnk (- 1) else fdalloc wf) (\<lambda>fd1.
                   if fd0 < 0 \<or> fd1 < 0
                   then thenk (if fd0 \<ge> 0 then modk (set_ofile (nat fd0) None) else returnk ())
                       (thenk (vfs_close rf) (thenk (vfs_close wf) (returnk (- EBADF))))
                   else thenk (modk (upd_file rf (\<lambda>f. f\<lparr>f_flags := oflags\<rparr>)))
                       (thenk (modk (upd_file wf (\<lambda>f. f\<lparr>f_flags := oflags\<rparr>)))
                       (thenk (ustore fd (le_int 4 fd0))
                       (thenk (ustore (fd + 4) (le_int 4 fd1))
                        (returnk 0)))))))))))"

end
