(* ===== verification/Kern_Balloc.thy ===== *)
theory Kern_Balloc
  imports Kern_Fs
begin

text \<open>
  The block allocator of \<^verbatim>\<open>kernel/fs.c\<close> inside a transaction: which blocks the free map marks as
  used, what \<^verbatim>\<open>block_alloc\<close>, \<^verbatim>\<open>block_zero\<close> and \<^verbatim>\<open>block_free\<close> change, and that allocation and release
  undo each other. The first section gives the two patterns in which all of the file system uses
  the cache: reading a block, and changing a block through the log.
\<close>

section \<open>Blocks inside a transaction\<close>

lemma lcalm_fs:
  assumes "lcalm s s'"
  shows "inodes s' = inodes s" and "global_sb s' = global_sb s" and "rtc s' = rtc s" and "files s' = files s"
    and "pipes s' = pipes s" and "devtab s' = devtab s" and "io_time s' = io_time s"
    and "kmalloc_ok s' = kmalloc_ok s" and "kmalloc_time s' = kmalloc_time s"
    and "fs_state.more s' = fs_state.more s"
  using assms by (cases s; cases s'; simp add: lcalm_def)+

lemma lcalm_log:
  assumes "lcalm s s'"
  shows "l_size s' = l_size s" and "l_outstanding s' = l_outstanding s" and "me s' = me s"
    and "log_area s' = log_area s" and "l_committing s' = l_committing s"
  using assms by (simp_all add: lcalm_def log_area_def)

text \<open>
  \<open>txn k H s\<close>: an operation is open that holds the buffers \<open>H\<close>, and the log has room for \<open>k\<close> more
  blocks.
\<close>

definition txn :: "nat \<Rightarrow> nat set \<Rightarrow> 'z log_state_scheme \<Rightarrow> bool" where
  "txn k H s \<longleftrightarrow> log_inv H s \<and> finite H \<and> 1 \<le> l_outstanding s \<and> l_n s + k < l_size s \<and> l_n s + card H + k \<le> 29"

text \<open>What a step of an operation leaves alone: the layers above, the disk and the buffers held.\<close>

definition tstep :: "nat set \<Rightarrow> 'z log_state_scheme \<Rightarrow> 'z log_state_scheme \<Rightarrow> bool" where
  "tstep H s s' \<longleftrightarrow> lcalm s s' \<and> disk s' = disk s \<and> disk_hist s' = disk_hist s \<and>
     (\<forall>j\<in>H. bufs s' ! j = bufs s ! j)"

lemma tstep_refl [simp]: "tstep H s s"
  by (simp add: tstep_def)

lemma tstep_trans [trans]: "tstep H s t \<Longrightarrow> tstep H t u \<Longrightarrow> tstep H s u"
  by (auto simp: tstep_def intro: lcalm_trans)

lemma tstep_mono: "tstep H s t \<Longrightarrow> K \<subseteq> H \<Longrightarrow> tstep K s t"
  by (auto simp: tstep_def)

lemma tstepD: "tstep H s t \<Longrightarrow> lcalm s t" "tstep H s t \<Longrightarrow> disk t = disk s"
  "tstep H s t \<Longrightarrow> j \<in> H \<Longrightarrow> bufs t ! j = bufs s ! j"
  by (simp_all add: tstep_def)

lemma txnD:
  assumes "txn k H s"
  shows "log_inv H s" and "rest H s" and "finite H" and "1 \<le> l_outstanding s" and "l_n s + k < l_size s"
    and "card (dirty s) + card H < NBUF" and "sized s"
  using assms log_invD(1,11) [of H s] restD(2) [of H s]
  by (auto simp: txn_def NBUF_def)

lemma txn_mono: "txn k H s \<Longrightarrow> j \<le> k \<Longrightarrow> txn j H s"
  by (auto simp: txn_def)

definition free_of :: "nat set \<Rightarrow> 'z bio_state_scheme \<Rightarrow> nat \<Rightarrow> bool" where
  "free_of H s bn \<longleftrightarrow> (\<forall>j\<in>H. \<not> caches bn (bufs s ! j))"

lemma free_of_step: "tstep H s t \<Longrightarrow> free_of H t bn = free_of H s bn"
  by (simp add: free_of_def tstep_def)

lemma free_of_held: "held s j bn' \<Longrightarrow> bn' \<noteq> bn \<Longrightarrow> free_of H s bn \<Longrightarrow> free_of (insert j H) s bn"
  by (auto simp: free_of_def held_def caches_def)

lemma log_inv_tstep:
  assumes "log_inv H s" and "rest K t" and "calm s t" and "dirty t = dirty s" and "disk t = disk s"
  shows "log_inv K t"
  using assms logged_calm [OF assms(3)] log_shape_calm [OF assms(3)] calm_log [OF assms(3)]
  by (simp add: log_inv_def log_area_def)

text \<open>Taking a block for reading.\<close>

lemma txn_get:
  assumes t: "txn k H s" and bn: "bn < FSSIZE" "free_of H s bn"
  shows "\<exists>i s1. block_read 1 bn s = Inr (i, s1) \<and> i \<notin> H \<and> held s1 i bn \<and> settled s1 i \<and>
    b_data (bufs s1 ! i) = blk s bn \<and> log_inv (insert i H) s1 \<and> blk s1 = blk s \<and> dirty s1 = dirty s \<and>
    tstep H s s1 \<and> l_n s1 = l_n s"
proof -
  obtain i s1 where r: "block_read 1 bn s = Inr (i, s1)" "i \<notin> H" "rest (insert i H) s1" "held s1 i bn"
    "settled s1 i" "b_data (bufs s1 ! i) = blk s bn" "blk s1 = blk s" "disk s1 = disk s"
    "disk_hist s1 = disk_hist s" "dirty s1 = dirty s" "calm s s1" "\<forall>j. j \<noteq> i \<longrightarrow> bufs s1 ! j = bufs s ! j"
    using rest_read [OF txnD(2,3) [OF t] bn(1)] bn(2) txnD(6) [OF t] by (auto simp: free_of_def)
  have "log_inv (insert i H) s1" using log_inv_tstep [OF txnD(1) [OF t] r(3,11,10,8)] .
  moreover have "tstep H s s1" using r by (auto simp: tstep_def calm_lcalm)
  ultimately show ?thesis using r calm_log(6) [OF r(11)] by blast
qed

text \<open>Giving back a block that was only read, or whose changes are logged.\<close>

lemma txn_release:
  assumes inv: "log_inv (insert i H) s" and "i \<notin> H" and h: "held s i bn" "settled s i"
  shows "\<exists>s'. block_release i s = Inr ((), s') \<and> log_inv H s' \<and> blk s' = blk s \<and> dirty s' = dirty s \<and>
    tstep H s s' \<and> l_n s' = l_n s"
proof -
  obtain s' where f: "block_release i s = Inr ((), s')" "rest (insert i H - {i}) s'" "blk s' = blk s"
    "disk s' = disk s" "disk_hist s' = disk_hist s" "dirty s' = dirty s" "calm s s'"
    "\<forall>j. j \<noteq> i \<longrightarrow> bufs s' ! j = bufs s ! j"
    using rest_release [OF log_invD(1) [OF inv] h] by auto
  have "rest H s'" using f(2) assms(2) by simp
  then have "log_inv H s'" using log_inv_tstep [OF inv _ f(7,6,4)] by blast
  moreover have "tstep H s s'" using f assms(2) by (auto simp: tstep_def calm_lcalm)
  ultimately show ?thesis using f calm_log(6) [OF f(7)] by blast
qed

text \<open>Changing a held block through the log and giving it back.\<close>

lemma txn_put:
  assumes inv: "log_inv (insert i H) s" and i: "i \<notin> H" and h: "held s i bn"
    and bn: "bn < FSSIZE" "bn \<notin> log_area s" and d: "length d = BSIZE"
    and room: "l_n s + 1 < l_size s" "1 \<le> l_outstanding s"
  shows "\<exists>s'. thenk (set_data i d) (thenk (log_write i) (block_release i)) s = Inr ((), s') \<and> log_inv H s' \<and>
    blk s' = (blk s)(bn := d) \<and> dirty s' = insert bn (dirty s) \<and> tstep H s s' \<and> l_n s' \<le> l_n s + 1"
proof -
  obtain s1 where 1: "set_data i d s = Inr ((), s1)" "rest (insert i H) s1" "held s1 i bn"
    "blk s1 = (blk s)(bn := d)" "disk s1 = disk s" "disk_hist s1 = disk_hist s" "dirty s1 = dirty s" "calm s s1"
    "\<forall>j. j \<noteq> i \<longrightarrow> bufs s1 ! j = bufs s ! j"
    using rest_set_data [OF log_invD(1) [OF inv] h d] by blast
  note c1 = calm_log [OF 1(8)]
  have inv1: "log_inv (insert i H) s1" using log_inv_tstep [OF inv 1(2,8,7,5)] .
  have pre: "bn \<notin> log_area s1" "l_n s1 + 1 < l_size s1" "1 \<le> l_outstanding s1"
    using bn room c1 by (simp_all add: log_area_def)
  obtain s2 where 2: "log_write i s1 = Inr ((), s2)" "log_inv (insert i H) s2" "held s2 i bn" "settled s2 i"
    "dirty s2 = insert bn (dirty s1)" "blk s2 = blk s1" "disk s2 = disk s1" "disk_hist s2 = disk_hist s1"
    "lcalm s1 s2" "\<forall>j. j \<noteq> i \<longrightarrow> bufs s2 ! j = bufs s1 ! j"
    using log_write_spec [OF inv1 1(3) bn(1) pre] by blast
  obtain s3 where 3: "block_release i s2 = Inr ((), s3)" "log_inv H s3" "blk s3 = blk s2" "dirty s3 = dirty s2"
    "tstep H s2 s3" "l_n s3 = l_n s2"
    using txn_release [OF 2(2) i 2(3,4)] by blast
  have "l_n s3 \<le> l_n s + 1"
    using log_invD(11) [OF 2(2)] log_invD(11) [OF inv] 2(5) 1(7) 3(6) dirty_inj(2) [OF restD(1) [OF log_invD(1) [OF inv]]]
    by (simp add: card_insert_if split: if_splits)
  moreover have "tstep H s s2" using 1 2 i by (auto simp: tstep_def intro: lcalm_trans calm_lcalm)
  then have "tstep H s s3" using 3(5) by (rule tstep_trans)
  ultimately show ?thesis using 1 2 3 by (auto simp: kern_simps)
qed

text \<open>Reading one block and giving it back at once.\<close>

lemma txn_read:
  assumes t: "txn k H s" and bn: "bn < FSSIZE" "free_of H s bn"
  shows "\<exists>i s1 s'. block_read 1 bn s = Inr (i, s1) \<and> b_data (bufs s1 ! i) = blk s bn \<and> lcalm s s1 \<and>
    block_release i s1 = Inr ((), s') \<and> txn k H s' \<and> blk s' = blk s \<and> dirty s' = dirty s \<and> tstep H s s'"
proof -
  obtain i s1 where r: "block_read 1 bn s = Inr (i, s1)" "i \<notin> H" "held s1 i bn" "settled s1 i"
    "b_data (bufs s1 ! i) = blk s bn" "log_inv (insert i H) s1" "blk s1 = blk s" "dirty s1 = dirty s"
    "tstep H s s1" "l_n s1 = l_n s"
    using txn_get [OF t bn] by blast
  obtain s2 where f: "block_release i s1 = Inr ((), s2)" "log_inv H s2" "blk s2 = blk s1" "dirty s2 = dirty s1"
    "tstep H s1 s2" "l_n s2 = l_n s1"
    using txn_release [OF r(6,2,3,4)] by blast
  have st: "tstep H s s2" using r(9) f(5) by (rule tstep_trans)
  then have "txn k H s2" using t f r lcalm_log [OF tstepD(1) [OF st]] by (simp add: txn_def)
  then show ?thesis using r f st tstepD(1) [OF r(9)] by auto
qed

text \<open>Reading a block, changing it through the log, giving it back.\<close>

lemma txn_modify:
  assumes t: "txn (Suc k) H s" and bn: "bn < FSSIZE" "free_of H s bn" "bn \<notin> log_area s"
    and d: "length (f (blk s bn)) = BSIZE"
  shows "\<exists>i s1 s'. block_read 1 bn s = Inr (i, s1) \<and> b_data (bufs s1 ! i) = blk s bn \<and> lcalm s s1 \<and>
    thenk (set_data i (f (blk s bn))) (thenk (log_write i) (block_release i)) s1 = Inr ((), s') \<and> txn k H s' \<and>
    blk s' = (blk s)(bn := f (blk s bn)) \<and> dirty s' = insert bn (dirty s) \<and> tstep H s s'"
proof -
  obtain i s1 where r: "block_read 1 bn s = Inr (i, s1)" "i \<notin> H" "held s1 i bn" "settled s1 i"
    "b_data (bufs s1 ! i) = blk s bn" "log_inv (insert i H) s1" "blk s1 = blk s" "dirty s1 = dirty s"
    "tstep H s s1" "l_n s1 = l_n s"
    using txn_get [OF t bn(1,2)] by blast
  note c = lcalm_log [OF tstepD(1) [OF r(9)]]
  have room: "l_n s1 + 1 < l_size s1" "1 \<le> l_outstanding s1" "bn \<notin> log_area s1"
    using t r(10) c bn(3) by (simp_all add: txn_def)
  obtain s2 where f: "thenk (set_data i (f (blk s bn))) (thenk (log_write i) (block_release i)) s1 = Inr ((), s2)"
    "log_inv H s2" "blk s2 = (blk s1)(bn := f (blk s bn))" "dirty s2 = insert bn (dirty s1)"
    "tstep H s1 s2" "l_n s2 \<le> l_n s1 + 1"
    using txn_put [OF r(6,2,3) bn(1) room(3) d room(1,2)] by blast
  have st: "tstep H s s2" using r(9) f(5) by (rule tstep_trans)
  then have "txn k H s2" using t f r lcalm_log [OF tstepD(1) [OF st]] by (auto simp: txn_def)
  then show ?thesis using r f st tstepD(1) [OF r(9)] by auto
qed

section \<open>The free map\<close>

lemma map_bit_set:
  assumes "length d = BSIZE" and "bi < BPB" and "bj < BPB"
  shows "map_bit bj (set_map_bit bi d) \<longleftrightarrow> bj = bi \<or> map_bit bj d"
proof -
  have i: "bi div 8 < length d" "bj div 8 < length d" using assms by (auto simp: BPB_def)
  show ?thesis
  proof (cases "bj div 8 = bi div 8")
    case True
    then have "bj mod 8 = bi mod 8 \<longleftrightarrow> bj = bi" by (metis div_mult_mod_eq)
    with True i show ?thesis
      by (auto simp: map_bit_def set_map_bit_def bit_or_iff bit_exp_iff)
  next
    case False
    then show ?thesis using i by (auto simp: map_bit_def set_map_bit_def)
  qed
qed

lemma map_bit_clear:
  assumes "length d = BSIZE" and "bi < BPB" and "bj < BPB"
  shows "map_bit bj (clear_map_bit bi d) \<longleftrightarrow> bj \<noteq> bi \<and> map_bit bj d"
proof -
  have i: "bi div 8 < length d" "bj div 8 < length d" using assms by (auto simp: BPB_def)
  show ?thesis
  proof (cases "bj div 8 = bi div 8")
    case True
    then have "bj mod 8 = bi mod 8 \<longleftrightarrow> bj = bi" by (metis div_mult_mod_eq)
    with True i show ?thesis
      by (auto simp: map_bit_def clear_map_bit_def bit_and_iff bit_not_iff bit_exp_iff)
  next
    case False
    then show ?thesis using i by (auto simp: map_bit_def clear_map_bit_def)
  qed
qed

lemma length_map_bit [simp]: "length (set_map_bit bi d) = length d" "length (clear_map_bit bi d) = length d"
  by (simp_all add: set_map_bit_def clear_map_bit_def)

lemma clear_set_map_bit:
  assumes "length d = BSIZE" and "bi < BPB" and "\<not> map_bit bi d"
  shows "clear_map_bit bi (set_map_bit bi d) = d"
proof -
  have i: "bi div 8 < length d" using assms by (auto simp: BPB_def)
  have "(d ! (bi div 8) OR push_bit (bi mod 8) 1) AND NOT (push_bit (bi mod 8) 1) = d ! (bi div 8)"
    using assms(3) by (intro bit_word_eqI)
      (auto simp: map_bit_def bit_or_iff bit_and_iff bit_not_iff bit_exp_iff)
  with i show ?thesis by (simp add: clear_map_bit_def set_map_bit_def list_update_same_conv)
qed

text \<open>The blocks the map marks as used, and the layout of the disk that the superblock gives.\<close>

definition used :: "'z fs_state_scheme \<Rightarrow> nat \<Rightarrow> bool" where
  "used s b \<longleftrightarrow> map_bit (b mod BPB) (blk s (BBLOCK b (global_sb s)))"

definition map_blocks :: "superblock \<Rightarrow> nat set" where
  "map_blocks sb = (\<lambda>b. BBLOCK b sb) ` {..<sb_size sb}"

definition inode_blocks :: "superblock \<Rightarrow> nat set" where
  "inode_blocks sb = (\<lambda>i. IBLOCK i sb) ` {..<sb_ninodes sb}"

definition meta :: "'z fs_state_scheme \<Rightarrow> nat set" where
  "meta s = {0, 1} \<union> log_area s \<union> map_blocks (global_sb s) \<union> inode_blocks (global_sb s)"

definition layout :: "'z fs_state_scheme \<Rightarrow> bool" where
  "layout s \<longleftrightarrow> sb_size (global_sb s) \<le> FSSIZE \<and> meta s \<subseteq> {..<sb_size (global_sb s)} \<and>
     (\<forall>b\<in>meta s. used s b) \<and> {0, 1} \<inter> log_area s = {} \<and>
     log_area s \<inter> map_blocks (global_sb s) = {} \<and> log_area s \<inter> inode_blocks (global_sb s) = {} \<and>
     map_blocks (global_sb s) \<inter> inode_blocks (global_sb s) = {} \<and>
     {0, 1} \<inter> (map_blocks (global_sb s) \<union> inode_blocks (global_sb s)) = {}"

lemma layoutD:
  assumes "layout s"
  shows "sb_size (global_sb s) \<le> FSSIZE" and "b \<in> meta s \<Longrightarrow> b < sb_size (global_sb s)"
    and "b \<in> meta s \<Longrightarrow> used s b" and "b \<in> map_blocks (global_sb s) \<Longrightarrow> b \<notin> log_area s"
    and "b \<in> inode_blocks (global_sb s) \<Longrightarrow> b \<notin> log_area s"
    and "b \<in> inode_blocks (global_sb s) \<Longrightarrow> b \<notin> map_blocks (global_sb s)"
    and "b \<in> meta s \<Longrightarrow> b < FSSIZE"
  using assms by (auto simp: layout_def)

lemma map_blocks_meta: "b < sb_size (global_sb s) \<Longrightarrow> BBLOCK b (global_sb s) \<in> map_blocks (global_sb s)"
  "b \<in> map_blocks (global_sb s) \<Longrightarrow> b \<in> meta s" "b \<in> inode_blocks (global_sb s) \<Longrightarrow> b \<in> meta s"
  "b \<in> log_area s \<Longrightarrow> b \<in> meta s"
  by (auto simp: map_blocks_def meta_def)

lemma used_cong: "blk s' = blk s \<Longrightarrow> global_sb s' = global_sb s \<Longrightarrow> used s' = used s"
  by (rule ext) (simp add: used_def)

lemma meta_cong: "lcalm s s' \<Longrightarrow> meta s' = meta s"
  using lcalm_fs(2) [of s s'] lcalm_log(4) [of s s'] by (simp add: meta_def)

lemma layout_cong: "lcalm s s' \<Longrightarrow> blk s' = blk s \<Longrightarrow> layout s' = layout s"
  using lcalm_fs(2) [of s s'] lcalm_log(4) [of s s'] meta_cong [of s s'] used_cong [of s' s]
  by (simp add: layout_def)

text \<open>Marking and clearing one bit of the map changes the set of used blocks by that block.\<close>

lemma same_map_block:
  assumes "BBLOCK b sb = BBLOCK c sb" and "b mod BPB = c mod BPB"
  shows "b = c"
proof -
  have "b div BPB = c div BPB" using assms(1) by (simp add: BBLOCK_def)
  with assms(2) show ?thesis by (metis div_mult_mod_eq)
qed

lemma used_set_bit:
  assumes "sized s" and "global_sb s' = global_sb s" and "b \<notin> map_blocks (global_sb s)"
    and "blk s' = (blk s)(BBLOCK b (global_sb s) := set_map_bit (b mod BPB) (blk s (BBLOCK b (global_sb s))), b := x)"
    and "c < sb_size (global_sb s)" and "b < sb_size (global_sb s)"
  shows "used s' c \<longleftrightarrow> c = b \<or> used s c"
proof -
  let ?B = "BBLOCK b (global_sb s)"
  have ne: "BBLOCK c (global_sb s) \<noteq> b" using assms(3,5) map_blocks_meta(1) [of c s] by auto
  have lt: "b mod BPB < BPB" "c mod BPB < BPB" by (simp_all add: BPB_def BSIZE_def)
  show ?thesis
  proof (cases "BBLOCK c (global_sb s) = ?B")
    case True
    then have "used s' c \<longleftrightarrow> map_bit (c mod BPB) (set_map_bit (b mod BPB) (blk s ?B))"
      using assms(2,4) ne by (simp add: used_def)
    also have "\<dots> \<longleftrightarrow> c mod BPB = b mod BPB \<or> map_bit (c mod BPB) (blk s ?B)"
      using map_bit_set [OF sizedD(1) [OF assms(1)] lt] by simp
    finally show ?thesis using True same_map_block [OF True] by (auto simp: used_def)
  next
    case False
    then show ?thesis using assms(2,4) ne by (auto simp: used_def)
  qed
qed

lemma used_clear_bit:
  assumes "sized s" and "global_sb s' = global_sb s"
    and "blk s' = (blk s)(BBLOCK b (global_sb s) := clear_map_bit (b mod BPB) (blk s (BBLOCK b (global_sb s))))"
  shows "used s' c \<longleftrightarrow> c \<noteq> b \<and> used s c"
proof -
  let ?B = "BBLOCK b (global_sb s)"
  have lt: "b mod BPB < BPB" "c mod BPB < BPB" by (simp_all add: BPB_def BSIZE_def)
  show ?thesis
  proof (cases "BBLOCK c (global_sb s) = ?B")
    case True
    then have "used s' c \<longleftrightarrow> map_bit (c mod BPB) (clear_map_bit (b mod BPB) (blk s ?B))"
      using assms(2,3) by (simp add: used_def)
    also have "\<dots> \<longleftrightarrow> c mod BPB \<noteq> b mod BPB \<and> map_bit (c mod BPB) (blk s ?B)"
      using map_bit_clear [OF sizedD(1) [OF assms(1)] lt] by simp
    finally show ?thesis using True same_map_block [OF True] by (auto simp: used_def)
  next
    case False
    then show ?thesis using assms(2,3) by (auto simp: used_def)
  qed
qed

section \<open>The allocator\<close>

text \<open>The buffers an operation holds do not get in the way of the allocator.\<close>

definition out_of_way :: "nat set \<Rightarrow> 'z fs_state_scheme \<Rightarrow> bool" where
  "out_of_way H s \<longleftrightarrow> (\<forall>bn. bn \<in> map_blocks (global_sb s) \<or> (bn < sb_size (global_sb s) \<and> \<not> used s bn) \<longrightarrow>
     free_of H s bn)"

lemma out_of_way_empty [simp]: "out_of_way {} s"
  by (simp add: out_of_way_def free_of_def)

lemma out_of_way_cong: "tstep H s s' \<Longrightarrow> blk s' = blk s \<Longrightarrow> out_of_way H s' = out_of_way H s"
  using lcalm_fs(2) [OF tstepD(1), of H s s'] used_cong [of s' s] free_of_step [of H s s']
  by (simp add: out_of_way_def)

lemma out_of_way_insert:
  assumes "out_of_way H s" and "held s i bn" and "used s bn" and "bn \<notin> map_blocks (global_sb s)"
  shows "out_of_way (insert i H) s"
  unfolding out_of_way_def
proof (intro allI impI)
  fix x assume x: "x \<in> map_blocks (global_sb s) \<or> (x < sb_size (global_sb s) \<and> \<not> used s x)"
  then have "bn \<noteq> x" "free_of H s x" using assms by (auto simp: out_of_way_def)
  with free_of_held [OF assms(2)] show "free_of (insert i H) s x" by blast
qed

lemma block_zero_spec:
  assumes t: "txn (Suc k) H s" and bn: "bn < FSSIZE" "free_of H s bn" "bn \<notin> log_area s"
  shows "\<exists>s'. block_zero 1 bn s = Inr ((), s') \<and> txn k H s' \<and> blk s' = (blk s)(bn := replicate BSIZE 0) \<and>
    dirty s' = insert bn (dirty s) \<and> tstep H s s'"
proof -
  have "length ((\<lambda>_. replicate BSIZE 0) (blk s bn)) = BSIZE" by simp
  from txn_modify [OF t bn this] show ?thesis
    by (auto simp: block_zero_def bindk_run)
qed

text \<open>The new contents of the disk when block \<open>b\<close> is allocated.\<close>

definition allocated :: "'z fs_state_scheme \<Rightarrow> nat \<Rightarrow> nat \<Rightarrow> byte list" where
  "allocated s b = (blk s)(BBLOCK b (global_sb s) :=
     set_map_bit (b mod BPB) (blk s (BBLOCK b (global_sb s))), b := replicate BSIZE 0)"

lemma block_alloc_loop_spec:
  assumes "txn (k + 2) H s" and "layout s" and "out_of_way H s"
    and "\<forall>b\<in>set bs. b mod BPB = 0 \<and> b < sb_size (global_sb s)"
  shows "\<exists>r s'. block_alloc_loop 1 bs s = Inr (r, s') \<and> tstep H s s' \<and>
    ((r = 2 ^ 64 - 28 \<and> txn (k + 2) H s' \<and> blk s' = blk s \<and> dirty s' = dirty s \<and>
        (\<forall>b\<in>set bs. \<forall>bi<min BPB (sb_size (global_sb s) - b). used s (b + bi))) \<or>
     (r < sb_size (global_sb s) \<and> \<not> used s r \<and> txn k H s' \<and> blk s' = allocated s r))"
  using assms
proof (induction bs arbitrary: s)
  case (Cons b bs)
  let ?sb = "global_sb s" and ?B = "BBLOCK b (global_sb s)"
  have b: "b mod BPB = 0" "b < sb_size ?sb" using Cons.prems(4) by auto
  have B: "?B \<in> map_blocks ?sb" "?B \<in> meta s" using map_blocks_meta b(2) by blast+
  note L = layoutD [OF Cons.prems(2)]
  have Bok: "?B < FSSIZE" "free_of H s ?B" "?B \<notin> log_area s"
    using B L(4,7) Cons.prems(3) by (auto simp: out_of_way_def)
  have bit: "used s (b + bi) \<longleftrightarrow> map_bit bi (blk s ?B)" if "bi < BPB" for bi
  proof -
    have "(b + bi) div BPB = b div BPB" "(b + bi) mod BPB = bi"
      using b(1) that by (auto simp: div_add1_eq mod_add_eq [symmetric])
    then show ?thesis by (simp add: used_def BBLOCK_def)
  qed
  show ?case
  proof (cases "find (\<lambda>bi. \<not> map_bit bi (blk s ?B)) [0..<min BPB (sb_size ?sb - b)]")
    case None
    obtain i s1 s2 where r: "block_read 1 ?B s = Inr (i, s1)" "b_data (bufs s1 ! i) = blk s ?B" "lcalm s s1"
      "block_release i s1 = Inr ((), s2)" "txn (k + 2) H s2" "blk s2 = blk s" "dirty s2 = dirty s" "tstep H s s2"
      using txn_read [OF Cons.prems(1) Bok(1,2)] by blast
    have sb2: "global_sb s2 = ?sb" using lcalm_fs(2) [OF tstepD(1) [OF r(8)]] .
    have "layout s2" "out_of_way H s2" "used s2 = used s"
      using layout_cong [OF tstepD(1) [OF r(8)] r(6)] out_of_way_cong [OF r(8,6)] used_cong [OF r(6) sb2]
        Cons.prems(2,3) by simp_all
    moreover have "allocated s2 = allocated s" using r(6) sb2 by (auto simp: allocated_def)
    ultimately obtain x s' where IH: "block_alloc_loop 1 bs s2 = Inr (x, s')" "tstep H s2 s'"
      "(x = 2 ^ 64 - 28 \<and> txn (k + 2) H s' \<and> blk s' = blk s \<and> dirty s' = dirty s \<and>
        (\<forall>b\<in>set bs. \<forall>bi<min BPB (sb_size ?sb - b). used s (b + bi))) \<or>
       (x < sb_size ?sb \<and> \<not> used s x \<and> txn k H s' \<and> blk s' = allocated s x)"
      using Cons.IH [OF r(5)] Cons.prems(4) r(6,7) sb2 by auto
    have full: "\<forall>bi<min BPB (sb_size ?sb - b). used s (b + bi)"
      using None bit by (auto simp: find_None_iff)
    have "block_alloc_loop 1 (b # bs) s = Inr (x, s')"
      using r(1,2,4) IH(1) None by (simp add: kern_simps)
    with IH tstep_trans [OF r(8) IH(2)] full show ?thesis by auto
  next
    case (Some bi)
    then have bi: "bi < BPB" "b + bi < sb_size ?sb" "\<not> map_bit bi (blk s ?B)"
      by (auto simp: find_Some_iff)
    let ?r = "b + bi"
    have r: "BBLOCK ?r ?sb = ?B" "?r mod BPB = bi"
      using b(1) bi(1) by (auto simp: BBLOCK_def div_add1_eq mod_add_eq [symmetric])
    have nu: "\<not> used s ?r" using bit [OF bi(1)] bi(3) by simp
    have ne: "?r \<noteq> ?B" "?r \<notin> log_area s" using nu L(3) B map_blocks_meta(4) [of ?r s] by auto
    have len: "length (set_map_bit bi (blk s ?B)) = BSIZE"
      using sizedD(1) [OF txnD(7) [OF Cons.prems(1)]] by simp
    obtain i s1 s2 where m: "block_read 1 ?B s = Inr (i, s1)" "b_data (bufs s1 ! i) = blk s ?B" "lcalm s s1"
      "thenk (set_data i (set_map_bit bi (blk s ?B))) (thenk (log_write i) (block_release i)) s1 = Inr ((), s2)"
      "txn (Suc k) H s2" "blk s2 = (blk s)(?B := set_map_bit bi (blk s ?B))" "tstep H s s2"
      using txn_modify [OF _ Bok, of "Suc k" "set_map_bit bi"] Cons.prems(1) len by (auto simp: eval_nat_numeral)
    have "?r < FSSIZE" "free_of H s2 ?r" "?r \<notin> log_area s2"
      using L(1) bi(2) nu Cons.prems(3) free_of_step [OF m(7)] ne lcalm_log(4) [OF tstepD(1) [OF m(7)]]
      by (auto simp: out_of_way_def)
    then obtain s3 where z: "block_zero 1 ?r s2 = Inr ((), s3)" "txn k H s3"
      "blk s3 = (blk s2)(?r := replicate BSIZE 0)" "tstep H s2 s3"
      using block_zero_spec [OF m(5)] by blast
    have "block_alloc_loop 1 (b # bs) s = Inr (?r, s3)"
      using m(1,2,4) z(1) Some by (auto simp: kern_simps split: sum.splits)
    moreover have "blk s3 = allocated s ?r" using z(3) m(6) r by (simp add: allocated_def)
    ultimately show ?thesis using bi(2) nu z(2) tstep_trans [OF m(7) z(4)] by blast
  qed
qed (simp add: kern_simps)

lemma alloc_starts:
  assumes "b < n"
  shows "\<exists>k<(n + BPB - 1) div BPB. \<exists>bi<min BPB (n - k * BPB). b = k * BPB + bi"
proof -
  have pos: "0 < BPB" by (simp add: BPB_def BSIZE_def)
  have le: "b div BPB * BPB \<le> b" by simp
  have "b div BPB < (n + BPB - 1) div BPB"
  proof -
    have "Suc (b div BPB) * BPB = b div BPB * BPB + BPB" by simp
    then have "Suc (b div BPB) * BPB \<le> n + BPB - 1" using le assms by linarith
    then have "Suc (b div BPB) \<le> (n + BPB - 1) div BPB" using pos by (simp add: less_eq_div_iff_mult_less_eq)
    then show ?thesis by simp
  qed
  moreover have "b mod BPB < min BPB (n - b div BPB * BPB)"
    using assms pos le by (simp add: minus_mod_eq_div_mult [symmetric])
  ultimately show ?thesis by (metis div_mult_mod_eq)
qed

lemma block_alloc_result:
  assumes t: "txn (k + 2) H s" and l: "layout s" and H: "out_of_way H s"
  shows "\<exists>r s'. block_alloc 1 s = Inr (r, s') \<and> tstep H s s' \<and>
    ((r = 2 ^ 64 - 28 \<and> txn (k + 2) H s' \<and> blk s' = blk s \<and> (\<forall>b < sb_size (global_sb s). used s b)) \<or>
     (r < sb_size (global_sb s) \<and> \<not> used s r \<and> txn k H s' \<and> blk s' = allocated s r))"
proof -
  let ?n = "sb_size (global_sb s)"
  let ?bs = "map (\<lambda>k. k * BPB) [0..<(?n + BPB - 1) div BPB]"
  have pos: "0 < BPB" by (simp add: BPB_def BSIZE_def)
  have "\<forall>b\<in>set ?bs. b mod BPB = 0 \<and> b < ?n"
  proof
    fix b assume "b \<in> set ?bs"
    then have "\<exists>j. b = j * BPB \<and> j < (?n + BPB - 1) div BPB" by auto
    then obtain j where j: "b = j * BPB" "j < (?n + BPB - 1) div BPB" by blast
    then have "Suc j \<le> (?n + BPB - 1) div BPB" by simp
    then have "Suc j * BPB \<le> ?n + BPB - 1" using pos by (simp add: less_eq_div_iff_mult_less_eq)
    with j pos show "b mod BPB = 0 \<and> b < ?n" by simp
  qed
  then obtain r s' where r: "block_alloc_loop 1 ?bs s = Inr (r, s')" "tstep H s s'"
    "(r = 2 ^ 64 - 28 \<and> txn (k + 2) H s' \<and> blk s' = blk s \<and>
        (\<forall>b\<in>set ?bs. \<forall>bi<min BPB (?n - b). used s (b + bi))) \<or>
     (r < ?n \<and> \<not> used s r \<and> txn k H s' \<and> blk s' = allocated s r)"
    using block_alloc_loop_spec [OF t l H, of ?bs] by blast
  have full: "\<forall>b < ?n. used s b" if "\<forall>b\<in>set ?bs. \<forall>bi<min BPB (?n - b). used s (b + bi)"
    using alloc_starts that by fastforce
  have run: "block_alloc 1 s = Inr (r, s')" using r(1) by (simp add: block_alloc_def kern_simps)
  from r(3) show ?thesis
  proof (elim disjE conjE)
    assume *: "r = 2 ^ 64 - 28" "txn (k + 2) H s'" "blk s' = blk s"
      "\<forall>b\<in>set ?bs. \<forall>bi<min BPB (?n - b). used s (b + bi)"
    show ?thesis using run r(2) *(1-3) full [OF *(4)] by blast
  next
    assume "r < ?n" "\<not> used s r" "txn k H s'" "blk s' = allocated s r"
    then show ?thesis using run r(2) by blast
  qed
qed

lemma allocated_used:
  assumes "sized s" and "layout s" and "r < sb_size (global_sb s)" and "\<not> used s r"
    and "blk s' = allocated s r" and "lcalm s s'"
  shows "b < sb_size (global_sb s) \<Longrightarrow> used s' b \<longleftrightarrow> b = r \<or> used s b" and "layout s'"
    and "blk s' r = replicate BSIZE 0"
    and "b \<noteq> r \<Longrightarrow> b \<notin> map_blocks (global_sb s) \<Longrightarrow> blk s' b = blk s b"
proof -
  have sb: "global_sb s' = global_sb s" using lcalm_fs(2) [OF assms(6)] .
  have r: "r \<notin> map_blocks (global_sb s)" using layoutD(3) [OF assms(2)] map_blocks_meta(2) assms(4) by blast
  show u: "b < sb_size (global_sb s) \<Longrightarrow> used s' b \<longleftrightarrow> b = r \<or> used s b" for b
    using used_set_bit [OF assms(1) sb r assms(5) [unfolded allocated_def]] assms(3) by blast
  show "blk s' r = replicate BSIZE 0" using assms(5) by (simp add: allocated_def)
  show "b \<noteq> r \<Longrightarrow> b \<notin> map_blocks (global_sb s) \<Longrightarrow> blk s' b = blk s b"
    using assms(5) map_blocks_meta(1) [OF assms(3)] by (auto simp: allocated_def)
  have "used s' b" if "b \<in> meta s" for b
    using layoutD(2,3) [OF assms(2) that] u by blast
  then show "layout s'"
    using assms(2) sb meta_cong [OF assms(6)] lcalm_log(4) [OF assms(6)] by (simp add: layout_def)
qed

lemma block_free_spec:
  assumes t: "txn (Suc k) H s" and l: "layout s" and H: "free_of H s (BBLOCK b (global_sb s))"
    and b: "b < sb_size (global_sb s)" "used s b"
  shows "\<exists>s'. block_free 1 b s = Inr ((), s') \<and> txn k H s' \<and> tstep H s s' \<and>
    blk s' = (blk s)(BBLOCK b (global_sb s) := clear_map_bit (b mod BPB) (blk s (BBLOCK b (global_sb s)))) \<and>
    (\<forall>c. used s' c \<longleftrightarrow> c \<noteq> b \<and> used s c)"
proof -
  let ?B = "BBLOCK b (global_sb s)"
  have B: "?B \<in> map_blocks (global_sb s)" "?B < FSSIZE" "?B \<notin> log_area s"
    using map_blocks_meta(1) [OF b(1)] map_blocks_meta(2) [of ?B s] layoutD(4,7) [OF l] by blast+
  have len: "length (clear_map_bit (b mod BPB) (blk s ?B)) = BSIZE"
    using sizedD(1) [OF txnD(7) [OF t]] by simp
  obtain i s1 s2 where m: "block_read 1 ?B s = Inr (i, s1)" "b_data (bufs s1 ! i) = blk s ?B" "lcalm s s1"
    "thenk (set_data i (clear_map_bit (b mod BPB) (blk s ?B))) (thenk (log_write i) (block_release i)) s1 = Inr ((), s2)"
    "txn k H s2" "blk s2 = (blk s)(?B := clear_map_bit (b mod BPB) (blk s ?B))" "tstep H s s2"
    using txn_modify [OF t B(2) H B(3), of "clear_map_bit (b mod BPB)"] len by blast
  have "map_bit (b mod BPB) (blk s ?B)" using b(2) by (simp add: used_def)
  then have "block_free 1 b s = Inr ((), s2)" using m(1,2,4) by (simp add: block_free_def kern_simps)
  moreover have "used s2 c \<longleftrightarrow> c \<noteq> b \<and> used s c" for c
    using used_clear_bit [OF txnD(7) [OF t] lcalm_fs(2) [OF tstepD(1) [OF m(7)]] m(6)] .
  ultimately show ?thesis using m by blast
qed

text \<open>A block that is not in use cannot be freed.\<close>

lemma block_free_panics:
  assumes t: "txn k H s" and l: "layout s" and H: "free_of H s (BBLOCK b (global_sb s))"
    and b: "b < sb_size (global_sb s)" "\<not> used s b"
  shows "block_free 1 b s = Inl (Panic ''freeing free block'')"
proof -
  let ?B = "BBLOCK b (global_sb s)"
  have B: "?B < FSSIZE" using map_blocks_meta(1) [OF b(1)] map_blocks_meta(2) [of ?B s] layoutD(7) [OF l] by blast
  obtain i s1 where "block_read 1 ?B s = Inr (i, s1)" "b_data (bufs s1 ! i) = blk s ?B"
    using txn_get [OF t B H] by blast
  with b(2) show ?thesis by (simp add: block_free_def kern_simps used_def)
qed

section \<open>Properties\<close>

text \<open>An example: a disk with nine blocks of metadata and no file.\<close>

definition fs_example_sb :: superblock where
  "fs_example_sb = \<lparr>sb_signature = [82, 69, 76, 73, 88, 70, 83, 48], sb_size = 100, sb_nblocks = 60,
     sb_ninodes = 32, sb_nlog = 30, sb_logstart = 2, sb_inodestart = 32, sb_bmapstart = 34\<rparr>"

definition fs_example_disk :: "nat \<Rightarrow> byte list" where
  "fs_example_disk b = (if b = 34 then replicate 4 255 @ [7] @ replicate (BSIZE - 5) 0 else replicate BSIZE 0)"

definition fs_example :: "inode list \<Rightarrow> fs_state" where
  "fs_example tab = \<lparr>freelist = [], kernel_end = 0, available_memory = 0, kpdpt = 0, ptab = (\<lambda>_ _. 0),
     pdata = (\<lambda>_. []), procs = [blank_proc\<lparr>p_state := RUNNING, p_pid := 1\<rparr>], nextpid = 2,
     initproc = Some 0, curproc = 0, ticks = 0, bufs = replicate NBUF empty_buf, lru = rev [0..<NBUF],
     idequeue = [], disk = (\<lambda>_. fs_example_disk), havedisk1 = True, ide_ok = True, disk_hist = [],
     l_start = 2, l_size = 30, l_outstanding = 1, l_committing = False, l_dev = 1, l_n = 0,
     l_block = replicate 30 0, inodes = tab, global_sb = fs_example_sb, rtc = 0, files = [],
     pipes = (\<lambda>_. None), devtab = [], io_time = 0, kmalloc_ok = (\<lambda>_. True), kmalloc_time = 0\<rparr>"

lemma fs_example_nth: "i < NBUF \<Longrightarrow> bufs (fs_example tab) ! i = empty_buf"
  by (simp add: fs_example_def)

lemma fs_example_fields [simp]:
  "l_n (fs_example tab) = 0" "l_size (fs_example tab) = 30" "l_start (fs_example tab) = 2"
  "l_outstanding (fs_example tab) = 1" "disk (fs_example tab) = (\<lambda>_. fs_example_disk)"
  "global_sb (fs_example tab) = fs_example_sb" "inodes (fs_example tab) = tab"
  by (simp_all add: fs_example_def)

lemma fs_example_blk: "blk (fs_example tab) = fs_example_disk"
  by (rule ext, subst blk_miss) (auto simp: fs_example_def empty_buf_def)

lemma fs_example_txn: "k \<le> 29 \<Longrightarrow> txn k {} (fs_example tab)"
proof -
  assume k: "k \<le> 29"
  let ?s = "fs_example tab"
  have len: "length (fs_example_disk b) = BSIZE" for b by (simp add: fs_example_disk_def BSIZE_def)
  have "bio_inv ?s"
    by (auto simp: bio_inv_def fs_example_def runs_def buf_ok_def empty_buf_def unlocked_def keys_unique_def)
  moreover have "sized ?s" using len by (simp add: sized_def fs_example_blk)
  ultimately have rest: "rest {} ?s" by (simp add: rest_def fs_example_nth) (simp add: empty_buf_def)
  have dirty: "dirty ?s = {}" by (auto simp: dirty_def fs_example_nth empty_buf_def)
  have "log_inv {} ?s"
    using rest dirty unfolding log_inv_def
    by (simp add: log_shape_def logged_def fs_example_def LOGSIZE_def FSSIZE_def fs_example_disk_def
        get_entry_def get_le_zero)
  with k show ?thesis by (simp add: txn_def)
qed

lemma fs_example_used: "b < 100 \<Longrightarrow> used (fs_example tab) b \<longleftrightarrow> b < 35"
proof -
  assume b: "b < 100"
  let ?d = "replicate 4 255 @ [7] @ replicate (BSIZE - 5) 0 :: byte list"
  have u: "used (fs_example tab) b \<longleftrightarrow> bit (?d ! (b div 8)) (b mod 8)"
    using b by (simp add: used_def map_bit_def fs_example_blk fs_example_disk_def fs_example_sb_def BBLOCK_def
        BPB_def BSIZE_def)
  have ones: "bit (255 :: int) n \<longleftrightarrow> n < 8" "bit (7 :: int) n \<longleftrightarrow> n < 3" for n
    using bit_mask_iff [of 8 n, where 'a = int] bit_mask_iff [of 3 n, where 'a = int]
    by (auto simp: mask_eq_exp_minus_1)
  consider "b div 8 < 4" | "b div 8 = 4" | "5 \<le> b div 8" by linarith
  then show ?thesis
  proof cases
    case 1
    then have "?d ! (b div 8) = 255" by (simp add: nth_append)
    with 1 u show ?thesis by (simp add: ones)
  next
    case 2
    then have "?d ! (b div 8) = 7" "b mod 8 < 3 \<longleftrightarrow> b < 35" by (auto simp: nth_append) presburger+
    with u show ?thesis by (simp add: ones)
  next
    case 3
    then have "?d ! (b div 8) = 0" using b by (simp add: nth_append BSIZE_def)
    with 3 u show ?thesis by simp
  qed
qed

lemma fs_example_meta:
  "map_blocks fs_example_sb = {34}" "inode_blocks fs_example_sb = {32, 33}"
  "log_area (fs_example tab) = {2..<32}"
proof -
  have "(\<lambda>b. b div 16384 + 34) ` {..<100 :: nat} = {34}" by (auto simp: image_def intro: exI [of _ 0])
  then show "map_blocks fs_example_sb = {34}"
    by (simp add: map_blocks_def BBLOCK_def fs_example_sb_def BPB_def BSIZE_def)
  have "(\<lambda>i. i div 16 + 32) ` {..<32 :: nat} = {32, 33}"
  proof
    show "{32, 33} \<subseteq> (\<lambda>i. i div 16 + 32) ` {..<32 :: nat}"
      by (auto intro: image_eqI [of 32 _ 0] image_eqI [of 33 _ 16])
  qed auto
  then show "inode_blocks fs_example_sb = {32, 33}"
    by (simp add: inode_blocks_def IBLOCK_def fs_example_sb_def IPB_def BSIZE_def DINODE_SIZE_def)
  show "log_area (fs_example tab) = {2..<32}" by (simp add: log_area_def)
qed

lemma fs_example_layout: "layout (fs_example tab)"
proof -
  have m: "meta (fs_example tab) \<subseteq> {..<35}"
    by (auto simp: meta_def fs_example_meta)
  then have "\<forall>b\<in>meta (fs_example tab). used (fs_example tab) b" using fs_example_used by fastforce
  moreover have "sb_size fs_example_sb = 100" by (simp add: fs_example_sb_def)
  ultimately show ?thesis using m by (auto simp: layout_def fs_example_meta FSSIZE_def)
qed

text \<open>
  C12: \<^verbatim>\<open>block_alloc\<close> inside a transaction returns a block that the free map did not mark, marks it and
  no other, fills it with zeros, and changes no block besides it and the free map; the layout of
  the disk stays intact. Only when every block is marked does it return \<^verbatim>\<open>-ENOSPC\<close>, as an unsigned
  number, and then it changes nothing.
\<close>

theorem block_alloc_fresh:
  assumes "txn (k + 2) {} s" and "layout s"
  shows "\<exists>r s'. block_alloc 1 s = Inr (r, s') \<and> layout s' \<and> disk s' = disk s \<and>
    (if \<forall>b < sb_size (global_sb s). used s b then r = 2 ^ 64 - 28 \<and> blk s' = blk s
     else r < sb_size (global_sb s) \<and> \<not> used s r \<and> txn k {} s' \<and> blk s' r = replicate BSIZE 0 \<and>
       (\<forall>b < sb_size (global_sb s). used s' b \<longleftrightarrow> b = r \<or> used s b) \<and>
       (\<forall>b. b \<noteq> r \<and> b \<notin> map_blocks (global_sb s) \<longrightarrow> blk s' b = blk s b))"
proof -
  obtain r s' where r: "block_alloc 1 s = Inr (r, s')" "tstep {} s s'"
    "(r = 2 ^ 64 - 28 \<and> txn (k + 2) {} s' \<and> blk s' = blk s \<and> (\<forall>b < sb_size (global_sb s). used s b)) \<or>
     (r < sb_size (global_sb s) \<and> \<not> used s r \<and> txn k {} s' \<and> blk s' = allocated s r)"
    using block_alloc_result [OF assms out_of_way_empty] by blast
  note c = tstepD(1,2) [OF r(2)]
  from r(3) show ?thesis
  proof (elim disjE conjE)
    assume "r = 2 ^ 64 - 28" "blk s' = blk s" "\<forall>b < sb_size (global_sb s). used s b"
    with r(1) c assms(2) layout_cong [OF c(1)] show ?thesis by auto
  next
    assume *: "r < sb_size (global_sb s)" "\<not> used s r" "txn k {} s'" "blk s' = allocated s r"
    note A = allocated_used [OF txnD(7) [OF assms(1)] assms(2) *(1,2,4) c(1)]
    have "\<not> (\<forall>b < sb_size (global_sb s). used s b)" using *(1,2) by blast
    with r(1) c(2) * A show ?thesis by auto
  qed
qed

theorem block_alloc_fresh_witness:
  "\<exists>r s'. block_alloc 1 (fs_example []) = Inr (r, s') \<and> 35 \<le> r \<and> r < 100 \<and> used s' r \<and> blk s' r = replicate BSIZE 0"
proof -
  let ?s = "fs_example []"
  have "\<not> (\<forall>b < sb_size (global_sb ?s). used ?s b)"
    using fs_example_used [of 50] by (auto simp: fs_example_sb_def intro!: exI [of _ 50])
  then obtain r s' where r: "block_alloc 1 ?s = Inr (r, s')" "r < sb_size (global_sb ?s)" "\<not> used ?s r"
    "blk s' r = replicate BSIZE 0" "\<forall>b < sb_size (global_sb ?s). used s' b \<longleftrightarrow> b = r \<or> used ?s b"
    using block_alloc_fresh [OF fs_example_txn [of "0 + 2" "[]"] fs_example_layout] by (simp split: if_splits) blast
  with fs_example_used [of r] show ?thesis by (auto simp: fs_example_sb_def)
qed

text \<open>
  C13: Freeing an allocated block undoes the allocation: the free map is as before, no other block has
  changed, and freeing the block once more panics.
\<close>

theorem block_alloc_free_roundtrip:
  assumes "txn (k + 4) {} s" and "layout s" and "block_alloc 1 s = Inr (r, s1)" and "r < sb_size (global_sb s)"
  shows "\<exists>s2. block_free 1 r s1 = Inr ((), s2) \<and> layout s2 \<and> (\<forall>b. b \<noteq> r \<longrightarrow> blk s2 b = blk s b) \<and>
    (\<forall>b < sb_size (global_sb s). used s2 b = used s b) \<and>
    block_free 1 r s2 = Inl (Panic ''freeing free block'')"
proof -
  have t: "txn ((k + 2) + 2) {} s" using assms(1) by (rule txn_mono) simp
  have "sb_size (global_sb s) \<le> FSSIZE" using layoutD(1) [OF assms(2)] .
  then have r64: "r \<noteq> 2 ^ 64 - 28" using assms(4) by (simp add: FSSIZE_def)
  have r: "tstep {} s s1" "\<not> used s r" "txn (k + 2) {} s1" "blk s1 = allocated s r"
    using block_alloc_result [OF t assms(2) out_of_way_empty] assms(3) r64 by auto
  note c = tstepD(1) [OF r(1)]
  note A = allocated_used [OF txnD(7) [OF t] assms(2,4) r(2,4) c]
  have sb: "global_sb s1 = global_sb s" using lcalm_fs(2) [OF c] .
  let ?B = "BBLOCK r (global_sb s)"
  have free: "free_of {} s1 (BBLOCK r (global_sb s1))" for s1 :: "'a fs_state_scheme" by (simp add: free_of_def)
  obtain s2 where f: "block_free 1 r s1 = Inr ((), s2)" "txn (Suc k) {} s2" "tstep {} s1 s2"
    "blk s2 = (blk s1)(?B := clear_map_bit (r mod BPB) (blk s1 ?B))" "\<forall>c. used s2 c \<longleftrightarrow> c \<noteq> r \<and> used s1 c"
    using block_free_spec [of "Suc k" "{}" s1 r] r(3) A(1) [of r] A(2) free [of s1] sb assms(4) by auto
  have sb2: "global_sb s2 = global_sb s" using lcalm_fs(2) [OF tstepD(1) [OF f(3)]] sb by simp
  have ne: "?B \<noteq> r" using map_blocks_meta(2) [OF map_blocks_meta(1) [OF assms(4)]] layoutD(3) [OF assms(2)] r(2) by metis
  have "\<not> map_bit (r mod BPB) (blk s ?B)" using r(2) by (simp add: used_def)
  then have "clear_map_bit (r mod BPB) (blk s1 ?B) = blk s ?B"
    using clear_set_map_bit [OF sizedD(1) [OF txnD(7) [OF t]]] r(4) ne by (simp add: allocated_def BPB_def BSIZE_def)
  then have blk: "\<forall>b. b \<noteq> r \<longrightarrow> blk s2 b = blk s b" using f(4) r(4) by (simp add: allocated_def)
  have u: "\<forall>b < sb_size (global_sb s). used s2 b = used s b" using f(5) A(1) r(2) by auto
  have m: "meta s2 = meta s" using meta_cong [OF lcalm_trans [OF c tstepD(1) [OF f(3)]]] .
  then have l2: "layout s2"
    using assms(2) u sb2 lcalm_log(4) [OF lcalm_trans [OF c tstepD(1) [OF f(3)]]] by (auto simp: layout_def)
  have "block_free 1 r s2 = Inl (Panic ''freeing free block'')"
    by (rule block_free_panics [OF f(2) l2 free]) (use assms(4) sb2 u r(2) in auto)
  with f(1) l2 blk u show ?thesis by blast
qed

theorem block_alloc_free_roundtrip_witness:
  "\<exists>r s1 s2. block_alloc 1 (fs_example []) = Inr (r, s1) \<and> block_free 1 r s1 = Inr ((), s2) \<and> \<not> used s2 r"
proof -
  let ?s = "fs_example []"
  have "\<not> (\<forall>b < sb_size (global_sb ?s). used ?s b)"
    using fs_example_used [of 50] by (auto simp: fs_example_sb_def intro!: exI [of _ 50])
  then obtain r s1 where r: "block_alloc 1 ?s = Inr (r, s1)" "r < sb_size (global_sb ?s)" "\<not> used ?s r"
    using block_alloc_result [OF fs_example_txn [of "0 + 2" "[]"] fs_example_layout out_of_way_empty] by auto
  with block_alloc_free_roundtrip [OF fs_example_txn [of "0 + 4" "[]"] fs_example_layout r(1,2)] show ?thesis
    by auto
qed

end
