(* ===== verification/Kern_Bmap.thy ===== *)
theory Kern_Bmap
  imports Kern_Balloc
begin

text \<open>
  The block map of \<^verbatim>\<open>kernel/fs.c\<close>: the pointers that lead from an inode to the blocks of its file, and
  what \<^verbatim>\<open>bmap\<close> adds to them.

  The pointers of an inode form a tree of depth three. It is seen here as one function from
  positions to block numbers, 0 where there is no block; allocating a block updates this function
  at one position.
\<close>

section \<open>Changes of the inode table\<close>

lemma upd_inode_bio [simp]:
  "bufs (upd_inode i f s) = bufs s" "disk (upd_inode i f s) = disk s" "lru (upd_inode i f s) = lru s"
  "disk_hist (upd_inode i f s) = disk_hist s" "l_n (upd_inode i f s) = l_n s"
  "l_size (upd_inode i f s) = l_size s" "l_start (upd_inode i f s) = l_start s"
  "l_outstanding (upd_inode i f s) = l_outstanding s" "l_block (upd_inode i f s) = l_block s"
  "global_sb (upd_inode i f s) = global_sb s" "rtc (upd_inode i f s) = rtc s" "procs (upd_inode i f s) = procs s"
  "curproc (upd_inode i f s) = curproc s" "files (upd_inode i f s) = files s" "devtab (upd_inode i f s) = devtab s"
  "inodes (upd_inode i f s) = (inodes s)[i := f (inodes s ! i)]"
  by (simp_all add: upd_inode_def)

lemma upd_inode_derived [simp]:
  "blk (upd_inode i f s) = blk s" "me (upd_inode i f s) = me s" "cur (upd_inode i f s) = cur s"
  "dirty (upd_inode i f s) = dirty s" "log_area (upd_inode i f s) = log_area s"
  "used (upd_inode i f s) = used s" "meta (upd_inode i f s) = meta s" "layout (upd_inode i f s) = layout s"
proof -
  show blk: "blk (upd_inode i f s) = blk s" by (rule ext) (simp add: blk_def split: option.split)
  show "me (upd_inode i f s) = me s" "cur (upd_inode i f s) = cur s" by (simp_all add: me_def cur_def)
  show "dirty (upd_inode i f s) = dirty s" by (simp add: dirty_def)
  show area: "log_area (upd_inode i f s) = log_area s" by (simp add: log_area_def)
  show used: "used (upd_inode i f s) = used s" by (rule used_cong) (simp_all add: blk)
  show meta: "meta (upd_inode i f s) = meta s" by (simp add: meta_def area)
  show "layout (upd_inode i f s) = layout s" by (simp add: layout_def area used meta)
qed

lemma upd_inode_rest [simp]: "rest H (upd_inode i f s) = rest H s"
proof -
  have "bio_inv (upd_inode i f s) = bio_inv s"
    by (simp add: bio_inv_def upd_inode_def runs_def buf_ok_def cur_def)
  then show ?thesis by (simp add: rest_def sized_def)
qed

lemma upd_inode_log [simp]: "log_inv H (upd_inode i f s) = log_inv H s"
proof -
  have "l_dev (upd_inode i f s) = l_dev s" by (simp add: upd_inode_def)
  then show ?thesis by (simp add: log_inv_def logged_def log_shape_def)
qed

lemma upd_inode_txn [simp]: "txn k H (upd_inode i f s) = txn k H s"
  by (simp add: txn_def)

lemma upd_inode_free [simp]: "free_of H (upd_inode i f s) = free_of H s" "out_of_way H (upd_inode i f s) = out_of_way H s"
  by (auto simp: free_of_def out_of_way_def fun_eq_iff)

lemma upd_inode_compose [simp]: "upd_inode i f (upd_inode i g s) = upd_inode i (f \<circ> g) s"
  by (cases "i < length (inodes s)") (simp_all add: upd_inode_def list_update_beyond)

text \<open>Steps of an operation commute with changes of the table.\<close>

lemma tstep_upd_inode:
  assumes "tstep H s s'"
  shows "tstep H (upd_inode i f s) (upd_inode i f s')"
proof -
  have "inodes s' = inodes s" using lcalm_fs(1) [OF tstepD(1) [OF assms]] .
  with assms show ?thesis
    by (cases s; cases s') (simp add: tstep_def lcalm_def upd_inode_def me_def cur_def)
qed

section \<open>Reading blocks\<close>

text \<open>
  Reading needs no transaction: \<open>ready H s\<close> says that the cache has a buffer to spare, \<open>reads H s s'\<close>
  that \<open>s'\<close> differs from \<open>s\<close> only in what is cached.
\<close>

definition ready :: "nat set \<Rightarrow> 'z bio_state_scheme \<Rightarrow> bool" where
  "ready H s \<longleftrightarrow> rest H s \<and> finite H \<and> card (dirty s) + card H < NBUF"

definition reads :: "nat set \<Rightarrow> 'z bio_state_scheme \<Rightarrow> 'z bio_state_scheme \<Rightarrow> bool" where
  "reads H s s' \<longleftrightarrow> ready H s' \<and> calm s s' \<and> blk s' = blk s \<and> disk s' = disk s \<and> disk_hist s' = disk_hist s \<and>
     dirty s' = dirty s \<and> (\<forall>j\<in>H. bufs s' ! j = bufs s ! j)"

lemma reads_refl: "ready H s \<Longrightarrow> reads H s s"
  by (simp add: reads_def)

lemma reads_trans [trans]: "reads H s t \<Longrightarrow> reads H t u \<Longrightarrow> reads H s u"
  by (auto simp: reads_def intro: calm_trans)

lemma readsD:
  assumes "reads H s s'"
  shows "ready H s'" and "calm s s'" and "blk s' = blk s" and "disk s' = disk s" and "dirty s' = dirty s"
  using assms by (auto simp: reads_def)

lemma calm_fs:
  assumes "calm s s'"
  shows "inodes s' = inodes s" and "global_sb s' = global_sb s" and "files s' = files s" and "devtab s' = devtab s"
    and "me s' = me s" and "rtc s' = rtc s"
  using lcalm_fs [OF calm_lcalm [OF assms]] assms by (simp_all add: calm_def)

lemma ready_read:
  assumes r: "ready H s" and bn: "bn < FSSIZE" "free_of H s bn"
  shows "\<exists>i s1 s'. block_read 1 bn s = Inr (i, s1) \<and> b_data (bufs s1 ! i) = blk s bn \<and> calm s s1 \<and>
    block_release i s1 = Inr ((), s') \<and> reads H s s'"
proof -
  obtain i s1 where 1: "block_read 1 bn s = Inr (i, s1)" "i \<notin> H" "rest (insert i H) s1" "held s1 i bn"
    "settled s1 i" "b_data (bufs s1 ! i) = blk s bn" "blk s1 = blk s" "disk s1 = disk s"
    "disk_hist s1 = disk_hist s" "dirty s1 = dirty s" "calm s s1" "\<forall>j. j \<noteq> i \<longrightarrow> bufs s1 ! j = bufs s ! j"
    using rest_read [of H s bn] r bn by (auto simp: ready_def free_of_def)
  obtain s2 where 2: "block_release i s1 = Inr ((), s2)" "rest (insert i H - {i}) s2" "blk s2 = blk s1"
    "disk s2 = disk s1" "disk_hist s2 = disk_hist s1" "dirty s2 = dirty s1" "calm s1 s2"
    "\<forall>j. j \<noteq> i \<longrightarrow> bufs s2 ! j = bufs s1 ! j"
    using rest_release [OF 1(3-5)] by auto
  have "rest H s2" using 2(2) 1(2) by simp
  moreover have "calm s s2" using 1(11) 2(7) by (rule calm_trans)
  moreover have "\<forall>j\<in>H. bufs s2 ! j = bufs s ! j" using 1(2,12) 2(8) by metis
  ultimately have "reads H s s2" using 1 2 r by (simp add: reads_def ready_def)
  then show ?thesis using 1 2 by blast
qed

lemma txn_ready: "txn k H s \<Longrightarrow> ready H s"
  using txnD(2,3,6) [of k H s] by (simp add: ready_def)

lemma txn_reads:
  assumes "txn k H s" and "reads H s s'"
  shows "txn k H s'" and "tstep H s s'"
proof -
  have r: "rest H s'" "calm s s'" "dirty s' = dirty s" "disk s' = disk s" "disk_hist s' = disk_hist s"
    "\<forall>j\<in>H. bufs s' ! j = bufs s ! j"
    using assms(2) by (auto simp: reads_def ready_def)
  have "log_inv H s'" using log_inv_tstep [OF txnD(1) [OF assms(1)] r(1-4)] .
  with assms(1) calm_log [OF r(2)] show "txn k H s'" by (simp add: txn_def)
  show "tstep H s s'" using r calm_lcalm [OF r(2)] by (simp add: tstep_def)
qed

section \<open>The tree of pointers\<close>

datatype pos = Direct nat | Single | In1 nat | Double | Mid nat | In2 nat nat

definition ent :: "(nat \<Rightarrow> byte list) \<Rightarrow> nat \<Rightarrow> nat \<Rightarrow> nat" where
  "ent B b k = (if b = 0 then 0 else get_entry k (B b))"

fun ptr :: "(nat \<Rightarrow> byte list) \<Rightarrow> nat list \<Rightarrow> pos \<Rightarrow> nat" where
  "ptr B a (Direct k) = a ! k"
| "ptr B a Single = a ! NDIRECT"
| "ptr B a (In1 k) = ent B (a ! NDIRECT) k"
| "ptr B a Double = a ! (NDIRECT + 1)"
| "ptr B a (Mid q) = ent B (a ! (NDIRECT + 1)) q"
| "ptr B a (In2 q r) = ent B (ent B (a ! (NDIRECT + 1)) q) r"

fun vpos :: "pos \<Rightarrow> bool" where
  "vpos (Direct k) \<longleftrightarrow> k < NDIRECT"
| "vpos Single \<longleftrightarrow> True"
| "vpos (In1 k) \<longleftrightarrow> k < NINDIRECT"
| "vpos Double \<longleftrightarrow> True"
| "vpos (Mid q) \<longleftrightarrow> q < NINDIRECT"
| "vpos (In2 q r) \<longleftrightarrow> q < NINDIRECT \<and> r < NINDIRECT"

text \<open>Where a pointer is kept: in the inode, or in the block of another position.\<close>

fun home :: "pos \<Rightarrow> nat + pos \<times> nat" where
  "home (Direct k) = Inl k"
| "home Single = Inl NDIRECT"
| "home (In1 k) = Inr (Single, k)"
| "home Double = Inl (NDIRECT + 1)"
| "home (Mid q) = Inr (Double, q)"
| "home (In2 q r) = Inr (Mid q, r)"

lemma ptr_home: "ptr B a p = (case home p of Inl k \<Rightarrow> a ! k | Inr (pp, k) \<Rightarrow> ent B (ptr B a pp) k)"
  by (cases p) simp_all

lemma home_inj: "vpos p \<Longrightarrow> vpos q \<Longrightarrow> home p = home q \<longleftrightarrow> p = q"
  by (cases p; cases q) auto

lemma home_vpos:
  "vpos p \<Longrightarrow> home p = Inl k \<Longrightarrow> k < NDIRECT + 2" "vpos p \<Longrightarrow> home p = Inr (pp, k) \<Longrightarrow> vpos pp"
  "vpos p \<Longrightarrow> home p = Inr (pp, k) \<Longrightarrow> k < NINDIRECT"
  by (cases p; auto)+

lemma pos_induct [case_names top below]:
  assumes "\<And>p k. home p = Inl k \<Longrightarrow> P p" and "\<And>p pp k. home p = Inr (pp, k) \<Longrightarrow> P pp \<Longrightarrow> P p"
  shows "P p"
proof -
  have *: "P Single" "P Double" "P (Direct k)" for k using assms(1) by (simp_all add: assms(1))
  have "P (Mid q)" for q using assms(2) [of "Mid q" Double q] * by simp
  then show ?thesis using * assms(2) [of "In1 k" Single k for k] assms(2) [of "In2 q r" "Mid q" r for q r]
    by (cases p) auto
qed

text \<open>
  The pointers are within the disk, point to used blocks outside of the file system's own areas, and
  no two of them are equal.
\<close>

definition tree_ok :: "'z fs_state_scheme \<Rightarrow> nat list \<Rightarrow> bool" where
  "tree_ok s a \<longleftrightarrow> length a = NDIRECT + 2 \<and>
     (\<forall>p. vpos p \<and> ptr (blk s) a p \<noteq> 0 \<longrightarrow>
        ptr (blk s) a p < sb_size (global_sb s) \<and> used s (ptr (blk s) a p) \<and> ptr (blk s) a p \<notin> meta s) \<and>
     (\<forall>p q. vpos p \<and> vpos q \<and> ptr (blk s) a p \<noteq> 0 \<and> ptr (blk s) a p = ptr (blk s) a q \<longrightarrow> p = q)"

lemma tree_okD:
  assumes "tree_ok s a"
  shows "length a = NDIRECT + 2"
    and "vpos p \<Longrightarrow> ptr (blk s) a p \<noteq> 0 \<Longrightarrow> ptr (blk s) a p < sb_size (global_sb s)"
    and "vpos p \<Longrightarrow> ptr (blk s) a p \<noteq> 0 \<Longrightarrow> used s (ptr (blk s) a p)"
    and "vpos p \<Longrightarrow> ptr (blk s) a p \<noteq> 0 \<Longrightarrow> ptr (blk s) a p \<notin> meta s"
    and "vpos p \<Longrightarrow> vpos q \<Longrightarrow> ptr (blk s) a p \<noteq> 0 \<Longrightarrow> ptr (blk s) a p = ptr (blk s) a q \<Longrightarrow> p = q"
  using assms by (simp_all add: tree_ok_def)

lemma get_entry_zero [simp]: "get_entry k (replicate n 0) = 0"
  by (simp add: get_entry_def get_le_zero)

text \<open>
  Filling an empty position \<open>p\<close> with a new block \<open>r\<close> of zeros: the pointer is stored where it belongs,
  in the inode or in a block, and the other blocks of the tree stay as they are.
\<close>

definition grows ::
  "(nat \<Rightarrow> byte list) \<Rightarrow> nat list \<Rightarrow> (nat \<Rightarrow> byte list) \<Rightarrow> nat list \<Rightarrow> pos \<Rightarrow> nat \<Rightarrow> bool" where
  "grows B a B' a' p r \<longleftrightarrow> vpos p \<and> ptr B a p = 0 \<and> r \<noteq> 0 \<and> r < 2 ^ 64 \<and> B' r = replicate BSIZE 0 \<and>
     (\<forall>k. home p = Inl k \<longrightarrow> a' = a[k := r] \<and> k < length a) \<and>
     (\<forall>pp k. home p = Inr (pp, k) \<longrightarrow> a' = a \<and> ptr B a pp \<noteq> 0 \<and> length (B (ptr B a pp)) = BSIZE \<and>
        B' (ptr B a pp) = put_entry k r (B (ptr B a pp))) \<and>
     (\<forall>q. vpos q \<and> ptr B a q \<noteq> 0 \<and> (\<forall>k. home p \<noteq> Inr (q, k)) \<longrightarrow> B' (ptr B a q) = B (ptr B a q))"

lemma growsD:
  assumes "grows B a B' a' p r"
  shows "vpos p" and "ptr B a p = 0" and "r \<noteq> 0" and "B' r = replicate BSIZE 0"
    and "home p = Inl k \<Longrightarrow> a' = a[k := r]" and "home p = Inl k \<Longrightarrow> k < length a"
    and "home p = Inr (pp, k) \<Longrightarrow> a' = a"
  using assms by (simp_all add: grows_def)

lemma grows_entry:
  assumes g: "grows B a B' a' p r" and q: "vpos q" "ptr B a q \<noteq> 0" and k: "k < NINDIRECT"
  shows "get_entry k (B' (ptr B a q)) = (if home p = Inr (q, k) then r else get_entry k (B (ptr B a q)))"
proof (cases "\<exists>k'. home p = Inr (q, k')")
  case True
  then obtain k' where k': "home p = Inr (q, k')" by blast
  then have b: "B' (ptr B a q) = put_entry k' r (B (ptr B a q))" "length (B (ptr B a q)) = BSIZE" "r < 2 ^ 64"
    using g by (auto simp: grows_def)
  have "k' < NINDIRECT" using home_vpos(3) [OF growsD(1) [OF g] k'] .
  then show ?thesis using get_put_entry [of k' "B (ptr B a q)" r k] b k' by (auto simp: NINDIRECT_def BSIZE_def)
next
  case False
  then have "B' (ptr B a q) = B (ptr B a q)" using g q by (auto simp: grows_def)
  with False show ?thesis by auto
qed

lemma ptr_grow:
  assumes g: "grows B a B' a' p r" and q: "vpos q"
  shows "ptr B' a' q = (if q = p then r else ptr B a q)"
  using q
proof (induction q rule: pos_induct)
  case (top q k)
  show ?case
  proof (cases "home p")
    case (Inl k')
    then show ?thesis using growsD(5,6) [OF g Inl] top home_inj [OF growsD(1) [OF g] top(2)]
      by (auto simp: ptr_home [of _ _ q])
  next
    case (Inr y)
    then have "a' = a" "q \<noteq> p" using growsD(7) [OF g, of "fst y" "snd y"] top by auto
    then show ?thesis using top by (simp add: ptr_home [of _ _ q])
  qed
next
  case (below q qq k)
  have v: "vpos qq" "k < NINDIRECT" using home_vpos(2,3) [OF below(3) below(1)] by auto
  have eq: "ptr B' a' q = ent B' (ptr B' a' qq) k" "ptr B a q = ent B (ptr B a qq) k"
    using below(1) by (simp_all add: ptr_home [of _ _ q])
  have qp: "q = p \<longleftrightarrow> home p = Inr (qq, k)" using below(1) home_inj [OF below(3) growsD(1) [OF g]] by auto
  show ?case
  proof (cases "qq = p")
    case True
    then have "q \<noteq> p" using below(1) by (cases p) auto
    then show ?thesis using eq below(2) [OF v(1)] True growsD(2,4) [OF g] by (simp add: ent_def)
  next
    case False
    then have b: "ptr B' a' qq = ptr B a qq" using below(2) [OF v(1)] by simp
    have "ptr B a qq = 0 \<Longrightarrow> q \<noteq> p" using qp g by (auto simp: grows_def)
    then show ?thesis using eq b qp grows_entry [OF g v(1) _ v(2)] by (auto simp: ent_def)
  qed
qed

section \<open>Allocation along the tree\<close>

text \<open>The positions that hold data, the data there, and the number of free blocks.\<close>

fun dpos :: "pos \<Rightarrow> bool" where
  "dpos (Direct k) = True"
| "dpos (In1 k) = True"
| "dpos (In2 q r) = True"
| "dpos p = False"

definition dat :: "'z fs_state_scheme \<Rightarrow> nat list \<Rightarrow> pos \<Rightarrow> byte list" where
  "dat s a p = (if ptr (blk s) a p = 0 then replicate BSIZE 0 else blk s (ptr (blk s) a p))"

definition nfree :: "'z fs_state_scheme \<Rightarrow> nat" where
  "nfree s = card {b. b < sb_size (global_sb s) \<and> \<not> used s b}"

lemma dpos_home: "home p = Inr (q, k) \<Longrightarrow> \<not> dpos q"
  by (cases p) auto

text \<open>
  \<open>grown n s a s' a'\<close>: at most \<open>n\<close> blocks were allocated for the file with pointers \<open>a\<close>, now \<open>a'\<close>; its
  old pointers and all blocks of other files are the same. \<open>extends\<close>: moreover the data of the file
  is the same.
\<close>

definition grown :: "nat \<Rightarrow> 'z fs_state_scheme \<Rightarrow> nat list \<Rightarrow> 'z fs_state_scheme \<Rightarrow> nat list \<Rightarrow> bool" where
  "grown n s a s' a' \<longleftrightarrow> tree_ok s' a' \<and> layout s' \<and> nfree s \<le> nfree s' + n \<and>
     (\<forall>p. vpos p \<and> ptr (blk s) a p \<noteq> 0 \<longrightarrow> ptr (blk s') a' p = ptr (blk s) a p) \<and>
     (\<forall>b < sb_size (global_sb s). used s b \<longrightarrow> used s' b) \<and>
     (\<forall>b < sb_size (global_sb s). used s b \<and> b \<notin> meta s \<and> (\<forall>p. vpos p \<longrightarrow> ptr (blk s) a p \<noteq> b) \<longrightarrow>
        blk s' b = blk s b \<and> (\<forall>p. vpos p \<longrightarrow> ptr (blk s') a' p \<noteq> b))"

definition extends :: "nat \<Rightarrow> 'z fs_state_scheme \<Rightarrow> nat list \<Rightarrow> 'z fs_state_scheme \<Rightarrow> nat list \<Rightarrow> bool" where
  "extends n s a s' a' \<longleftrightarrow> grown n s a s' a' \<and> (\<forall>p. vpos p \<and> dpos p \<longrightarrow> dat s' a' p = dat s a p)"

lemma grownD:
  assumes "grown n s a s' a'"
  shows "tree_ok s' a'" and "layout s'" and "nfree s \<le> nfree s' + n"
    and "vpos p \<Longrightarrow> ptr (blk s) a p \<noteq> 0 \<Longrightarrow> ptr (blk s') a' p = ptr (blk s) a p"
    and "b < sb_size (global_sb s) \<Longrightarrow> used s b \<Longrightarrow> used s' b"
    and "b < sb_size (global_sb s) \<Longrightarrow> used s b \<Longrightarrow> b \<notin> meta s \<Longrightarrow>
      (\<forall>p. vpos p \<longrightarrow> ptr (blk s) a p \<noteq> b) \<Longrightarrow> blk s' b = blk s b"
    and "b < sb_size (global_sb s) \<Longrightarrow> used s b \<Longrightarrow> b \<notin> meta s \<Longrightarrow>
      (\<forall>p. vpos p \<longrightarrow> ptr (blk s) a p \<noteq> b) \<Longrightarrow> vpos p \<Longrightarrow> ptr (blk s') a' p \<noteq> b"
  using assms by (simp_all add: grown_def)

lemma grown_refl: "tree_ok s a \<Longrightarrow> layout s \<Longrightarrow> grown n s a s a"
  by (simp add: grown_def)

lemma grown_trans:
  assumes 1: "grown m s a t b" and 2: "grown n t b u c" and sb: "global_sb t = global_sb s" "meta t = meta s"
  shows "grown (m + n) s a u c"
  unfolding grown_def
proof (intro conjI allI impI)
  show "tree_ok u c" "layout u" using grownD(1,2) [OF 2] by auto
  show "nfree s \<le> nfree u + (m + n)" using grownD(3) [OF 1] grownD(3) [OF 2] by simp
next
  fix p assume "vpos p \<and> ptr (blk s) a p \<noteq> 0"
  then show "ptr (blk u) c p = ptr (blk s) a p" using grownD(4) [OF 1, of p] grownD(4) [OF 2, of p] by auto
next
  fix b assume "b < sb_size (global_sb s)" "used s b"
  then show "used u b" using grownD(5) [OF 1, of b] grownD(5) [OF 2, of b] sb by auto
next
  fix x assume x: "x < sb_size (global_sb s)"
    and "used s x \<and> x \<notin> meta s \<and> (\<forall>p. vpos p \<longrightarrow> ptr (blk s) a p \<noteq> x)"
  then have *: "used s x" "x \<notin> meta s" "\<forall>p. vpos p \<longrightarrow> ptr (blk s) a p \<noteq> x" by auto
  have t: "used t x" "blk t x = blk s x" "\<forall>p. vpos p \<longrightarrow> ptr (blk t) b p \<noteq> x"
    using grownD(5,6) [OF 1 x *(1)] grownD(7) [OF 1 x *] *(2,3) by auto
  have xt: "x < sb_size (global_sb t)" "x \<notin> meta t" using x *(2) sb by auto
  show "blk u x = blk s x" using grownD(6) [OF 2 xt(1) t(1) xt(2) t(3)] t(2) by simp
  fix p assume "vpos p"
  then show "ptr (blk u) c p \<noteq> x" using grownD(7) [OF 2 xt(1) t(1) xt(2) t(3)] by blast
qed

text \<open>One more block for the file: \<open>r\<close> was taken from the free blocks and stored at position \<open>p\<close>.\<close>

definition takes :: "'z fs_state_scheme \<Rightarrow> nat list \<Rightarrow> 'z fs_state_scheme \<Rightarrow> nat list \<Rightarrow> pos \<Rightarrow> nat \<Rightarrow> bool" where
  "takes s a s' a' p r \<longleftrightarrow> vpos p \<and> ptr (blk s) a p = 0 \<and> r < sb_size (global_sb s) \<and> \<not> used s r \<and>
     (\<forall>c < sb_size (global_sb s). used s' c \<longleftrightarrow> c = r \<or> used s c) \<and> layout s' \<and>
     global_sb s' = global_sb s \<and> meta s' = meta s \<and> blk s' r = replicate BSIZE 0 \<and>
     (\<forall>k. home p = Inl k \<longrightarrow> a' = a[k := r] \<and>
        (\<forall>b. b \<noteq> r \<and> b \<notin> map_blocks (global_sb s) \<longrightarrow> blk s' b = blk s b)) \<and>
     (\<forall>pp k. home p = Inr (pp, k) \<longrightarrow> a' = a \<and> ptr (blk s) a pp \<noteq> 0 \<and>
        blk s' (ptr (blk s) a pp) = put_entry k r (blk s (ptr (blk s) a pp)) \<and>
        (\<forall>b. b \<noteq> r \<and> b \<notin> map_blocks (global_sb s) \<and> b \<noteq> ptr (blk s) a pp \<longrightarrow> blk s' b = blk s b))"

lemma takes_grows:
  assumes t: "takes s a s' a' p r" and ok: "tree_ok s a" "layout s" "sized s"
  shows "grows (blk s) a (blk s') a' p r"
proof -
  have T: "vpos p" "ptr (blk s) a p = 0" "r < sb_size (global_sb s)" "\<not> used s r" "blk s' r = replicate BSIZE 0"
    using t by (auto simp: takes_def)
  have "0 \<in> meta s" by (simp add: meta_def)
  then have r0: "r \<noteq> 0" using layoutD(3) [OF ok(2)] T(4) by metis
  have r64: "r < 2 ^ 64" using layoutD(1) [OF ok(2)] T(3) by (simp add: FSSIZE_def)
  have old: "ptr (blk s) a q \<noteq> r" "ptr (blk s) a q \<notin> map_blocks (global_sb s)"
    if "vpos q" "ptr (blk s) a q \<noteq> 0" for q
    using tree_okD(3,4) [OF ok(1) that] T(4) map_blocks_meta(2) by blast+
  have "blk s' (ptr (blk s) a q) = blk s (ptr (blk s) a q)"
    if q: "vpos q" "ptr (blk s) a q \<noteq> 0" "\<forall>k. home p \<noteq> Inr (q, k)" for q
  proof (cases "home p")
    case (Inl k)
    then show ?thesis using t old [OF q(1,2)] by (auto simp: takes_def)
  next
    case (Inr y)
    obtain pp k where y: "home p = Inr (pp, k)" using Inr by (cases y) auto
    then have "pp \<noteq> q" "vpos pp" using q(3) home_vpos(2) [OF T(1)] by auto
    then have "ptr (blk s) a q \<noteq> ptr (blk s) a pp" using tree_okD(5) [OF ok(1) q(1) _ q(2)] by blast
    then show ?thesis using t y old [OF q(1,2)] by (auto simp: takes_def)
  qed
  moreover have "k < length a" if "home p = Inl k" for k
    using home_vpos(1) [OF T(1) that] tree_okD(1) [OF ok(1)] by simp
  ultimately show ?thesis using t T r0 r64 sizedD(1) [OF ok(3)] by (auto simp: grows_def takes_def)
qed

lemma nfree_claim:
  assumes "\<forall>c < sb_size (global_sb s). used s' c \<longleftrightarrow> c = r \<or> used s c" and "global_sb s' = global_sb s"
  shows "nfree s \<le> nfree s' + 1"
proof -
  let ?F = "\<lambda>s. {b. b < sb_size (global_sb s) \<and> \<not> used s b}"
  have "?F s \<subseteq> insert r (?F s')" using assms by auto
  then have "card (?F s) \<le> card (insert r (?F s'))" by (intro card_mono) auto
  also have "\<dots> \<le> card (?F s') + 1" by (simp add: card_insert_if)
  finally show ?thesis by (simp add: nfree_def)
qed

lemma takes_tree:
  assumes t: "takes s a s' a' p r" and ok: "tree_ok s a" "layout s" "sized s"
  shows "tree_ok s' a'"
proof -
  have T: "r < sb_size (global_sb s)" "\<not> used s r" "\<forall>c < sb_size (global_sb s). used s' c \<longleftrightarrow> c = r \<or> used s c"
    "global_sb s' = global_sb s" "meta s' = meta s" using t by (auto simp: takes_def)
  have P: "ptr (blk s') a' q = (if q = p then r else ptr (blk s) a q)" if "vpos q" for q
    using ptr_grow [OF takes_grows [OF assms] that] .
  have "length a' = length a" using t by (cases "home p") (auto simp: takes_def)
  moreover have "r \<notin> meta s" using layoutD(3) [OF ok(2)] T(2) by blast
  moreover have "ptr (blk s) a q \<noteq> r" if "vpos q" "ptr (blk s) a q \<noteq> 0" for q
    using tree_okD(3) [OF ok(1) that] T(2) by auto
  ultimately show ?thesis
    unfolding tree_ok_def using tree_okD [OF ok(1)] T P by (auto split: if_splits)
qed

lemma takes_extends:
  assumes t: "takes s a s' a' p r" and ok: "tree_ok s a" "layout s" "sized s"
  shows "extends 1 s a s' a'"
  unfolding extends_def grown_def
proof (intro conjI allI impI)
  note g = takes_grows [OF assms]
  have T: "r < sb_size (global_sb s)" "\<not> used s r" "\<forall>c < sb_size (global_sb s). used s' c \<longleftrightarrow> c = r \<or> used s c"
    "global_sb s' = global_sb s" "layout s'" "ptr (blk s) a p = 0" using t by (auto simp: takes_def)
  note P = ptr_grow [OF g]
  show "tree_ok s' a'" "layout s'" using takes_tree [OF assms] T by auto
  show "nfree s \<le> nfree s' + 1" using nfree_claim [OF T(3,4)] .
  show "ptr (blk s') a' q = ptr (blk s) a q" if "vpos q \<and> ptr (blk s) a q \<noteq> 0" for q
    using P [of q] that T(6) by auto
  show "dat s' a' q = dat s a q" if "vpos q \<and> dpos q" for q
  proof (cases "q = p")
    case True
    then show ?thesis using P [of p] that growsD(2-4) [OF g] by (simp add: dat_def)
  next
    case False
    have "\<forall>k. home p \<noteq> Inr (q, k)" using dpos_home that by blast
    then have "ptr (blk s) a q \<noteq> 0 \<Longrightarrow> blk s' (ptr (blk s) a q) = blk s (ptr (blk s) a q)"
      using g that by (auto simp: grows_def)
    then show ?thesis using P [of q] that False by (simp add: dat_def)
  qed
  show "used s' b" if "b < sb_size (global_sb s)" "used s b" for b using T(3) that by auto
  fix b assume b: "b < sb_size (global_sb s)"
    and "used s b \<and> b \<notin> meta s \<and> (\<forall>p. vpos p \<longrightarrow> ptr (blk s) a p \<noteq> b)"
  then have *: "b \<noteq> r" "b \<notin> map_blocks (global_sb s)" "\<forall>p. vpos p \<longrightarrow> ptr (blk s) a p \<noteq> b"
    using T(2) map_blocks_meta(2) by blast+
  show "blk s' b = blk s b"
  proof (cases "home p")
    case (Inl k)
    then show ?thesis using t * by (auto simp: takes_def)
  next
    case (Inr y)
    obtain pp k where y: "home p = Inr (pp, k)" using Inr by (cases y) auto
    then have "b \<noteq> ptr (blk s) a pp" using * home_vpos(2) [OF growsD(1) [OF g] y] by blast
    then show ?thesis using t y * by (auto simp: takes_def)
  qed
  show "ptr (blk s') a' q \<noteq> b" if "vpos q" for q using P [OF that] * that by auto
qed

section \<open>The block map\<close>

abbreviation addrs :: "'z fs_state_scheme \<Rightarrow> nat \<Rightarrow> nat list" where
  "addrs s i \<equiv> i_addrs (inodes s ! i)"

definition set_addrs :: "nat \<Rightarrow> nat list \<Rightarrow> 'z fs_state_scheme \<Rightarrow> 'z fs_state_scheme" where
  "set_addrs i a = upd_inode i (\<lambda>ip. ip\<lparr>i_addrs := a\<rparr>)"

lemma set_addrs_simps [simp]:
  "blk (set_addrs i a s) = blk s" "used (set_addrs i a s) = used s" "meta (set_addrs i a s) = meta s"
  "layout (set_addrs i a s) = layout s" "txn k H (set_addrs i a s) = txn k H s"
  "global_sb (set_addrs i a s) = global_sb s" "disk (set_addrs i a s) = disk s"
  "dirty (set_addrs i a s) = dirty s" "rest H (set_addrs i a s) = rest H s"
  "set_addrs i a (set_addrs i b s) = set_addrs i a s" "log_area (set_addrs i a s) = log_area s"
  by (simp_all add: set_addrs_def o_def)

lemma set_addrs_same: "a = addrs s i \<Longrightarrow> set_addrs i a s = s"
  by (simp add: set_addrs_def upd_inode_def)

lemma set_addrs_inode:
  "i < length (inodes s) \<Longrightarrow> inodes (set_addrs i a s) ! i = (inodes s ! i)\<lparr>i_addrs := a\<rparr>"
  "j \<noteq> i \<Longrightarrow> inodes (set_addrs i a s) ! j = inodes s ! j" "length (inodes (set_addrs i a s)) = length (inodes s)"
  "holdingsleep lk (set_addrs i a s) = holdingsleep lk s"
  by (simp_all add: set_addrs_def holdingsleep_def)

lemma set_addrs_tree [simp]:
  "tree_ok (set_addrs i a s) b = tree_ok s b" "dat (set_addrs i a s) b p = dat s b p" "nfree (set_addrs i a s) = nfree s"
  by (simp_all add: tree_ok_def dat_def nfree_def)

text \<open>The current process works, inside a transaction, on the file of inode \<open>i\<close>, whose lock it holds.\<close>

definition writing :: "nat \<Rightarrow> nat \<Rightarrow> 'z fs_state_scheme \<Rightarrow> bool" where
  "writing k i s \<longleftrightarrow> txn k {} s \<and> layout s \<and> i < length (inodes s) \<and> i_dev (inodes s ! i) = 1 \<and>
     holdingsleep (i_lock (inodes s ! i)) s \<and> tree_ok s (addrs s i)"

lemma writingD:
  assumes "writing k i s"
  shows "txn k {} s" and "layout s" and "i < length (inodes s)" and "i_dev (inodes s ! i) = 1"
    and "holdingsleep (i_lock (inodes s ! i)) s" and "tree_ok s (addrs s i)" and "sized s"
  using assms txnD(7) by (auto simp: writing_def)

lemma writing_mono: "writing k i s \<Longrightarrow> j \<le> k \<Longrightarrow> writing j i s"
  by (auto simp: writing_def intro: txn_mono)

text \<open>
  A step of the work on the file: it may allocate up to \<open>n\<close> blocks and change the data. An \<open>fstep\<close>
  does not change the data.
\<close>

definition wstep :: "nat \<Rightarrow> nat \<Rightarrow> 'z fs_state_scheme \<Rightarrow> 'z fs_state_scheme \<Rightarrow> bool" where
  "wstep n i s s' \<longleftrightarrow> tstep {} (set_addrs i (addrs s' i) s) s' \<and> grown n s (addrs s i) s' (addrs s' i)"

definition fstep :: "nat \<Rightarrow> nat \<Rightarrow> 'z fs_state_scheme \<Rightarrow> 'z fs_state_scheme \<Rightarrow> bool" where
  "fstep n i s s' \<longleftrightarrow> tstep {} (set_addrs i (addrs s' i) s) s' \<and> extends n s (addrs s i) s' (addrs s' i)"

lemma fstep_wstep: "fstep n i s s' \<Longrightarrow> wstep n i s s'"
  by (simp add: fstep_def wstep_def extends_def)

lemma fstep_dat: "fstep n i s s' \<Longrightarrow> vpos p \<Longrightarrow> dpos p \<Longrightarrow> dat s' (addrs s' i) p = dat s (addrs s i) p"
  by (simp add: fstep_def extends_def)

lemma tstep_fs:
  assumes "tstep H s s'"
  shows "inodes s' = inodes s" and "global_sb s' = global_sb s" and "meta s' = meta s"
    and "holdingsleep lk s' = holdingsleep lk s" and "log_area s' = log_area s" and "devtab s' = devtab s"
proof -
  note c = tstepD(1) [OF assms]
  show "inodes s' = inodes s" "global_sb s' = global_sb s" "meta s' = meta s" "log_area s' = log_area s"
    "devtab s' = devtab s"
    using lcalm_fs [OF c] meta_cong [OF c] lcalm_log [OF c] by simp_all
  show "holdingsleep lk s' = holdingsleep lk s" using lcalm_log(3) [OF c] by (simp add: holdingsleep_def me_def)
qed

lemma wstepD:
  assumes "wstep n i s s'"
  shows "grown n s (addrs s i) s' (addrs s' i)" and "inodes s' = inodes (set_addrs i (addrs s' i) s)"
    and "global_sb s' = global_sb s" and "meta s' = meta s" and "holdingsleep lk s' = holdingsleep lk s"
    and "disk s' = disk s"
  using assms tstep_fs [of "{}" "set_addrs i (addrs s' i) s" s'] tstepD(2) [of "{}" "set_addrs i (addrs s' i) s" s']
  by (auto simp: wstep_def set_addrs_inode)

lemma wstep_inode:
  assumes "wstep n i s s'"
  shows "i < length (inodes s) \<Longrightarrow> inodes s' ! i = (inodes s ! i)\<lparr>i_addrs := addrs s' i\<rparr>"
    and "j \<noteq> i \<Longrightarrow> inodes s' ! j = inodes s ! j" and "length (inodes s') = length (inodes s)"
    and "i_dev (inodes s' ! i) = i_dev (inodes s ! i)" and "i_lock (inodes s' ! i) = i_lock (inodes s ! i)"
    and "i_size (inodes s' ! i) = i_size (inodes s ! i)" and "i_inum (inodes s' ! i) = i_inum (inodes s ! i)"
    and "i_mode (inodes s' ! i) = i_mode (inodes s ! i)"
    and "i_ref (inodes s' ! i) = i_ref (inodes s ! i)" and "i_valid (inodes s' ! i) = i_valid (inodes s ! i)"
proof -
  define a' where "a' = addrs s' i"
  have *: "inodes s' = inodes (set_addrs i a' s)" using wstepD(2) [OF assms] by (simp add: a'_def)
  show "i < length (inodes s) \<Longrightarrow> inodes s' ! i = (inodes s ! i)\<lparr>i_addrs := addrs s' i\<rparr>"
    unfolding a'_def [symmetric] by (simp add: * set_addrs_inode)
  show "j \<noteq> i \<Longrightarrow> inodes s' ! j = inodes s ! j" "length (inodes s') = length (inodes s)"
    by (simp_all add: * set_addrs_inode)
  show "i_dev (inodes s' ! i) = i_dev (inodes s ! i)" "i_lock (inodes s' ! i) = i_lock (inodes s ! i)"
    "i_size (inodes s' ! i) = i_size (inodes s ! i)" "i_inum (inodes s' ! i) = i_inum (inodes s ! i)"
    "i_mode (inodes s' ! i) = i_mode (inodes s ! i)" "i_ref (inodes s' ! i) = i_ref (inodes s ! i)"
    "i_valid (inodes s' ! i) = i_valid (inodes s ! i)"
    by (atomize (full), cases "i < length (inodes s)") (simp_all add: * set_addrs_def list_update_beyond)
qed

lemma wstep_trans:
  assumes 1: "wstep m i s t" and 2: "wstep n i t u"
  shows "wstep (m + n) i s u"
proof -
  have "tstep {} (set_addrs i (addrs u i) s) (set_addrs i (addrs u i) t)"
    using tstep_upd_inode [of "{}" "set_addrs i (addrs t i) s" t i "\<lambda>ip. ip\<lparr>i_addrs := addrs u i\<rparr>"] 1
    by (simp add: wstep_def set_addrs_def o_def)
  then have "tstep {} (set_addrs i (addrs u i) s) u" using 2 by (auto simp: wstep_def intro: tstep_trans)
  moreover have "grown (m + n) s (addrs s i) u (addrs u i)"
    using grown_trans [OF wstepD(1) [OF 1] wstepD(1) [OF 2] wstepD(3,4) [OF 1]] .
  ultimately show ?thesis by (simp add: wstep_def)
qed

lemma wstep_refl: "writing k i s \<Longrightarrow> wstep n i s s"
  using writingD(2,6) [of k i s] by (simp add: wstep_def set_addrs_same grown_refl)

lemma fstep_iff: "fstep n i s s' \<longleftrightarrow> wstep n i s s' \<and> (\<forall>p. vpos p \<and> dpos p \<longrightarrow> dat s' (addrs s' i) p = dat s (addrs s i) p)"
  by (simp add: fstep_def wstep_def extends_def)

lemma fstep_refl: "writing k i s \<Longrightarrow> fstep n i s s"
  using wstep_refl by (simp add: fstep_iff)

lemma fstep_trans: "fstep m i s t \<Longrightarrow> fstep n i t u \<Longrightarrow> fstep (m + n) i s u"
  using wstep_trans by (auto simp: fstep_iff)

lemma wstep_writing:
  assumes "writing j i s" and "wstep n i s s'" and "txn k {} s'"
  shows "writing k i s'"
proof -
  have "length (inodes s') = length (inodes s)" "i_dev (inodes s' ! i) = i_dev (inodes s ! i)"
    "i_lock (inodes s' ! i) = i_lock (inodes s ! i)"
    using wstep_inode [OF assms(2)] by auto
  with assms(3) writingD(3-5) [OF assms(1)] grownD(1,2) [OF wstepD(1) [OF assms(2)]] wstepD(5) [OF assms(2)]
  show ?thesis by (simp add: writing_def)
qed

lemma used_other:
  assumes "blk s' = (blk s)(b := x)" and "b \<notin> map_blocks (global_sb s)" and "global_sb s' = global_sb s"
    and "c < sb_size (global_sb s)"
  shows "used s' c = used s c"
proof -
  have "BBLOCK c (global_sb s) \<noteq> b" using map_blocks_meta(1) [OF assms(4)] assms(2) by auto
  then show ?thesis using assms(1,3) by (simp add: used_def)
qed

lemma layout_other:
  assumes "blk s' = (blk s)(b := x)" and "b \<notin> map_blocks (global_sb s)" and "lcalm s s'" and "layout s"
  shows "layout s'"
proof -
  have sb: "global_sb s' = global_sb s" "log_area s' = log_area s" "meta s' = meta s"
    using lcalm_fs(2) [OF assms(3)] lcalm_log(4) [OF assms(3)] meta_cong [OF assms(3)] by auto
  have "\<forall>c\<in>meta s. used s' c"
    using layoutD(2,3) [OF assms(4)] used_other [OF assms(1,2) sb(1)] by blast
  with assms(4) sb show ?thesis by (simp add: layout_def)
qed

lemma nfree_some: "1 \<le> nfree s \<Longrightarrow> \<not> (\<forall>b < sb_size (global_sb s). used s b)"
proof
  assume "1 \<le> nfree s" "\<forall>b < sb_size (global_sb s). used s b"
  moreover have "{b. b < sb_size (global_sb s) \<and> \<not> used s b} = {}" using calculation(2) by auto
  ultimately show False by (simp add: nfree_def)
qed

lemma block_alloc_some:
  assumes t: "txn (k + 2) H s" and l: "layout s" and H: "out_of_way H s" and n: "1 \<le> nfree s"
  shows "\<exists>r s'. block_alloc 1 s = Inr (r, s') \<and> tstep H s s' \<and> r < sb_size (global_sb s) \<and> \<not> used s r \<and>
    txn k H s' \<and> blk s' = allocated s r"
  using block_alloc_result [OF t l H] nfree_some [OF n] by blast

text \<open>A pointer in the inode.\<close>

lemma bmap_slot_spec:
  assumes w: "writing (k + 2) i s" and n: "1 \<le> nfree s" and p: "vpos p" "home p = Inl j"
  shows "\<exists>s'. bmap_slot i j s = Inr (ptr (blk s') (addrs s' i) p, s') \<and> ptr (blk s') (addrs s' i) p \<noteq> 0 \<and>
    fstep 1 i s s' \<and> writing k i s'"
proof (cases "addrs s i ! j = 0")
  case False
  then have "bmap_slot i j s = Inr (ptr (blk s) (addrs s i) p, s)" "ptr (blk s) (addrs s i) p \<noteq> 0"
    using p by (simp_all add: bmap_slot_def kern_simps ptr_home [of _ _ p])
  then show ?thesis using fstep_refl [OF w, of 1] writing_mono [OF w, of k] by auto
next
  case True
  note W = writingD [OF w]
  obtain r s1 where a: "block_alloc 1 s = Inr (r, s1)" "tstep {} s s1" "r < sb_size (global_sb s)" "\<not> used s r"
    "txn k {} s1" "blk s1 = allocated s r"
    using block_alloc_some [OF W(1,2) out_of_way_empty n] by blast
  note f = tstep_fs [OF a(2)]
  let ?a = "(addrs s i)[j := r]"
  let ?s' = "set_addrs i ?a s1"
  note A = allocated_used [OF W(7,2) a(3,4,6) tstepD(1) [OF a(2)]]
  have i: "addrs ?s' i = ?a" using W(3) f(1) by (simp add: set_addrs_inode)
  have "takes s (addrs s i) ?s' ?a p r"
    unfolding takes_def using p True A a(3,4) f by (simp add: ptr_home [of _ _ p])
  note e = takes_extends [OF this W(6,2,7)]
  have "tstep {} (set_addrs i ?a s) ?s'" using tstep_upd_inode [OF a(2)] by (simp add: set_addrs_def)
  then have fs: "fstep 1 i s ?s'" using e i by (simp add: fstep_def)
  have run: "bmap_slot i j s = Inr (r, ?s')"
    using True W(4) a(1) f(1) by (simp add: bmap_slot_def kern_simps set_addrs_def upd_inode_def)
  have "ptr (blk ?s') (addrs ?s' i) p = r"
    using p i W(3) home_vpos(1) [OF p] tree_okD(1) [OF W(6)] by (simp add: ptr_home [of _ _ p])
  moreover have "r \<noteq> 0" using layoutD(3) [OF W(2), of 0] a(4) by (cases r) (auto simp: meta_def)
  moreover have "txn k {} ?s'" using a(5) by simp
  ultimately show ?thesis using run fs wstep_writing [OF w fstep_wstep [OF fs]] by auto
qed

text \<open>A pointer in a block of the tree.\<close>

lemma txn_hold:
  assumes t: "txn (k + 1) {} s" and bn: "bn < FSSIZE"
  shows "\<exists>b s1. block_read 1 bn s = Inr (b, s1) \<and> held s1 b bn \<and> settled s1 b \<and> b_data (bufs s1 ! b) = blk s bn \<and>
    txn k {b} s1 \<and> blk s1 = blk s \<and> tstep {} s s1"
proof -
  obtain b s1 where r: "block_read 1 bn s = Inr (b, s1)" "held s1 b bn" "settled s1 b"
    "b_data (bufs s1 ! b) = blk s bn" "log_inv {b} s1" "blk s1 = blk s" "tstep {} s s1" "l_n s1 = l_n s"
    using txn_get [OF t bn] by (auto simp: free_of_def)
  have "txn k {b} s1" using t r(5,8) lcalm_log [OF tstepD(1) [OF r(7)]] by (simp add: txn_def)
  with r show ?thesis by blast
qed

lemma held_step: "tstep H s s' \<Longrightarrow> j \<in> H \<Longrightarrow> held s' j bn = held s j bn"
  using tstepD(3) [of H s s' j] lcalm_log(3) [OF tstepD(1), of H s s'] by (simp add: held_def)

lemma entry_alloc:
  assumes t: "txn (k + 4) {} s" and l: "layout s" and n: "1 \<le> nfree s" and b: "b < sb_size (global_sb s)" "used s b" "b \<notin> meta s"
    and j: "j < NINDIRECT" and z: "get_entry j (blk s b) = 0"
  shows "\<exists>r s'. bmap_entry 1 b j s = Inr (r, s') \<and> r < sb_size (global_sb s) \<and> \<not> used s r \<and> txn k {} s' \<and> tstep {} s s' \<and>
    blk s' = (allocated s r)(b := put_entry j r (blk s b))"
proof -
  have B: "b < FSSIZE" "b \<notin> log_area s" "b \<notin> map_blocks (global_sb s)"
    using b layoutD(1) [OF l] by (auto simp: meta_def)
  have t3: "txn ((k + 3) + 1) {} s" using t by (rule txn_mono) simp
  obtain x s1 where r: "block_read 1 b s = Inr (x, s1)" "held s1 x b" "settled s1 x"
    "b_data (bufs s1 ! x) = blk s b" "txn (k + 3) {x} s1" "blk s1 = blk s" "tstep {} s s1"
    using txn_hold [OF t3 B(1)] by blast
  note f = tstep_fs [OF r(7)]
  have l1: "layout s1" "used s1 = used s" "nfree s1 = nfree s" "allocated s1 = allocated s"
    using layout_cong [OF tstepD(1) [OF r(7)] r(6)] l used_cong [OF r(6) f(2)] f(2) r(6)
    by (auto simp: nfree_def allocated_def fun_eq_iff)
  have H: "out_of_way {x} s1"
    using out_of_way_insert [OF out_of_way_empty r(2)] b(2) l1(2) B(3) f(2) by simp
  have "txn ((k + 1) + 2) {x} s1" using r(5) by (rule txn_mono) simp
  then obtain v s2 where a: "block_alloc 1 s1 = Inr (v, s2)" "tstep {x} s1 s2" "v < sb_size (global_sb s)" "\<not> used s v"
    "txn (k + 1) {x} s2" "blk s2 = allocated s v"
    using block_alloc_some [OF _ l1(1) H, of "k + 1"] n l1 f(2) by auto
  have h2: "held s2 x b" using held_step [OF a(2)] r(2) by simp
  have st: "tstep {} s s2" using r(7) tstep_mono [OF a(2)] by (auto intro: tstep_trans)
  have len: "length (put_entry j v (blk s b)) = BSIZE"
    using sizedD(1) [OF txnD(7) [OF t], of b] j by (simp add: NINDIRECT_def BSIZE_def)
  have room: "b \<notin> log_area s2" "l_n s2 + 1 < l_size s2" "1 \<le> l_outstanding s2" "log_inv (insert x {}) s2"
    using B(2) tstep_fs(5) [OF st] a(5) by (auto simp: txn_def)
  obtain s3 where p: "thenk (set_data x (put_entry j v (blk s b))) (thenk (log_write x) (block_release x)) s2 = Inr ((), s3)"
    "log_inv {} s3" "blk s3 = (blk s2)(b := put_entry j v (blk s b))" "tstep {} s2 s3" "l_n s3 \<le> l_n s2 + 1"
    using txn_put [OF room(4) _ h2 B(1) room(1) len room(2,3)] by auto
  have t3: "txn k {} s3" using p(2,5) a(5) lcalm_log [OF tstepD(1) [OF p(4)]] by (simp add: txn_def)
  have "bmap_entry 1 b j s = Inr (v, s3)"
    using r(1,4) a(1) z p(1) by (auto simp: bmap_entry_def bindk_run getk_run thenk_run returnk_run split: sum.splits)
  then show ?thesis using a(3,4,6) t3 p(3) tstep_trans [OF st p(4)] by auto
qed

lemma entry_takes:
  assumes s: "sized s" "layout s" and r: "r < sb_size (global_sb s)" "\<not> used s r"
    and b: "ptr (blk s) a pp \<notin> map_blocks (global_sb s)"
    and B: "blk s' = (allocated s r)(ptr (blk s) a pp := put_entry j r (blk s (ptr (blk s) a pp)))" and c: "lcalm s s'"
    and p: "vpos p" "home p = Inr (pp, j)" and b0: "ptr (blk s) a pp \<noteq> 0" and z: "ptr (blk s) a p = 0"
    and ne: "ptr (blk s) a pp \<noteq> r"
  shows "takes s a s' a p r"
proof -
  let ?b = "ptr (blk s) a pp"
  let ?B = "BBLOCK r (global_sb s)"
  have rm: "r \<notin> map_blocks (global_sb s)" using layoutD(3) [OF s(2)] map_blocks_meta(2) r(2) by blast
  have Bm: "?B \<in> map_blocks (global_sb s)" using map_blocks_meta(1) [OF r(1)] .
  have sb: "global_sb s' = global_sb s" "meta s' = meta s" "log_area s' = log_area s"
    using lcalm_fs(2) [OF c] meta_cong [OF c] lcalm_log(4) [OF c] by auto
  let ?t = "s\<lparr>bufs := [], disk := \<lambda>_. allocated s r\<rparr>"
  have t: "blk ?t = allocated s r" "global_sb ?t = global_sb s" by (auto simp: blk_def)
  have u: "used s' x \<longleftrightarrow> x = r \<or> used s x" if x: "x < sb_size (global_sb s)" for x
  proof -
    have "BBLOCK x (global_sb s) \<noteq> ?b" using map_blocks_meta(1) [OF x] b by auto
    then have "used s' x \<longleftrightarrow> map_bit (x mod BPB) (allocated s r (BBLOCK x (global_sb s)))"
      using B sb(1) by (simp add: used_def)
    also have "\<dots> \<longleftrightarrow> x = r \<or> used s x"
      using used_set_bit [OF s(1) _ rm _ x r(1), of ?t] t by (simp add: used_def allocated_def)
    finally show ?thesis .
  qed
  have "layout s'" using s(2) sb u layoutD(2) [OF s(2)] by (auto simp: layout_def)
  with assms u sb rm Bm show ?thesis by (auto simp: takes_def allocated_def)
qed

lemma free_of_empty: "free_of {} s bn"
  by (simp add: free_of_def)

lemma bmap_entry_spec:
  assumes w: "writing (k + 4) i s" and n: "1 \<le> nfree s" and p: "vpos p" "home p = Inr (pp, j)"
    and b: "ptr (blk s) (addrs s i) pp \<noteq> 0"
  shows "\<exists>s'. bmap_entry 1 (ptr (blk s) (addrs s i) pp) j s = Inr (ptr (blk s') (addrs s' i) p, s') \<and>
    ptr (blk s') (addrs s' i) p \<noteq> 0 \<and> fstep 1 i s s' \<and> writing k i s'"
proof -
  let ?a = "addrs s i"
  let ?b = "ptr (blk s) ?a pp"
  note W = writingD [OF w]
  have v: "vpos pp" "j < NINDIRECT" using home_vpos(2,3) [OF p] by auto
  have B: "?b < sb_size (global_sb s)" "used s ?b" "?b \<notin> meta s" using tree_okD(2-4) [OF W(6) v(1) b] by auto
  have pe: "ptr (blk s) ?a p = get_entry j (blk s ?b)" using p(2) b by (simp add: ptr_home [of _ _ p] ent_def)
  show ?thesis
  proof (cases "get_entry j (blk s ?b) = 0")
    case False
    have "?b < FSSIZE" using B(1) layoutD(1) [OF W(2)] by simp
    then obtain x s1 s2 where r: "block_read 1 ?b s = Inr (x, s1)" "b_data (bufs s1 ! x) = blk s ?b"
      "block_release x s1 = Inr ((), s2)" "txn (k + 4) {} s2" "blk s2 = blk s" "tstep {} s s2"
      using txn_read [OF W(1) _ free_of_empty] by blast
    have run: "bmap_entry 1 ?b j s = Inr (get_entry j (blk s ?b), s2)"
      using r(1-3) False by (simp add: bmap_entry_def kern_simps)
    have a: "addrs s2 i = ?a" using tstep_fs(1) [OF r(6)] by simp
    have "extends 1 s ?a s2 ?a"
      using layout_cong [OF tstepD(1) [OF r(6)] r(5)] used_cong [OF r(5) tstep_fs(2) [OF r(6)]] W(2,6)
        tstep_fs(2,3) [OF r(6)] r(5) by (simp add: extends_def grown_def tree_ok_def nfree_def dat_def)
    then have fs: "fstep 1 i s s2" using r(6) a by (simp add: fstep_def set_addrs_same)
    have "txn k {} s2" using r(4) by (rule txn_mono) simp
    then show ?thesis using run fs wstep_writing [OF w fstep_wstep [OF fs]] a r(5) False pe by auto
  next
    case True
    obtain r s' where e: "bmap_entry 1 ?b j s = Inr (r, s')" "r < sb_size (global_sb s)" "\<not> used s r" "txn k {} s'"
      "tstep {} s s'" "blk s' = (allocated s r)(?b := put_entry j r (blk s ?b))"
      using entry_alloc [OF W(1,2) n B v(2) True] by blast
    note f = tstep_fs [OF e(5)] and c = tstepD(1) [OF e(5)]
    have bm: "?b \<notin> map_blocks (global_sb s)" "?b \<noteq> r" "r \<notin> map_blocks (global_sb s)"
      using B e(3) map_blocks_meta(2) layoutD(3) [OF W(2)] by blast+
    have "takes s ?a s' ?a p r"
      using entry_takes [OF W(7,2) e(2,3) bm(1) e(6) c p b _ bm(2)] pe True by simp
    note tk = this
    note ex = takes_extends [OF tk W(6,2,7)]
    have a: "addrs s' i = ?a" using f(1) by simp
    have fs: "fstep 1 i s s'" using ex e(5) a by (simp add: fstep_def set_addrs_same)
    have "ptr (blk s') ?a p = r" using ptr_grow [OF takes_grows [OF tk W(6,2,7)] p(1)] by simp
    moreover have "r \<noteq> 0" using growsD(3) [OF takes_grows [OF tk W(6,2,7)]] .
    ultimately show ?thesis using e(1,4) fs wstep_writing [OF w fstep_wstep [OF fs]] a by auto
  qed
qed

text \<open>The position of the \<open>bn\<close>-th block of a file.\<close>

definition leaf :: "nat \<Rightarrow> pos" where
  "leaf bn = (if bn < NDIRECT then Direct bn
     else if bn - NDIRECT < NINDIRECT then In1 (bn - NDIRECT)
     else In2 ((bn - NDIRECT - NINDIRECT) div NINDIRECT) ((bn - NDIRECT - NINDIRECT) mod NINDIRECT))"

lemma leaf_vpos: "bn < MAXFILE \<Longrightarrow> vpos (leaf bn)"
proof -
  assume "bn < MAXFILE"
  then have "\<not> bn < NDIRECT \<Longrightarrow> \<not> bn - NDIRECT < NINDIRECT \<Longrightarrow> bn - NDIRECT - NINDIRECT < NINDIRECT * NINDIRECT"
    by (simp add: MAXFILE_def)
  then show ?thesis
    by (auto simp: leaf_def less_mult_imp_div_less NINDIRECT_def BSIZE_def)
qed

lemma leaf_dpos [simp]: "dpos (leaf bn)"
  by (simp add: leaf_def)

lemma leaf_inj: "leaf m = leaf n \<longleftrightarrow> m = n"
proof
  assume *: "leaf m = leaf n"
  have "m - NDIRECT - NINDIRECT = n - NDIRECT - NINDIRECT"
    if "\<not> m < NDIRECT" "\<not> m - NDIRECT < NINDIRECT" "\<not> n < NDIRECT" "\<not> n - NDIRECT < NINDIRECT"
  proof -
    have "(m - NDIRECT - NINDIRECT) div NINDIRECT = (n - NDIRECT - NINDIRECT) div NINDIRECT"
      "(m - NDIRECT - NINDIRECT) mod NINDIRECT = (n - NDIRECT - NINDIRECT) mod NINDIRECT"
      using * that by (simp_all add: leaf_def)
    then show ?thesis by (metis div_mult_mod_eq)
  qed
  with * show "m = n" by (auto simp: leaf_def split: if_splits)
qed simp

definition bmap_ok :: "nat \<Rightarrow> nat \<Rightarrow> nat \<Rightarrow> 'z fs_state_scheme \<Rightarrow> bool" where
  "bmap_ok k i bn s \<longleftrightarrow> (\<exists>s'. bmap i bn s = Inr (ptr (blk s') (addrs s' i) (leaf bn), s') \<and>
     ptr (blk s') (addrs s' i) (leaf bn) \<noteq> 0 \<and> fstep 3 i s s' \<and> writing k i s')"

lemma bmap_direct:
  assumes w: "writing (k + 10) i s" and n: "3 \<le> nfree s" and d: "bn < NDIRECT"
  shows "bmap_ok k i bn s"
proof -
  have "writing ((k + 8) + 2) i s" using w by (rule writing_mono) simp
  then obtain s1 where 1: "bmap_slot i bn s = Inr (ptr (blk s1) (addrs s1 i) (Direct bn), s1)"
    "ptr (blk s1) (addrs s1 i) (Direct bn) \<noteq> 0" "fstep 1 i s s1" "writing (k + 8) i s1"
    using bmap_slot_spec [of "k + 8" i s "Direct bn"] n d by auto
  then have "fstep 3 i s s1" using fstep_trans [OF 1(3) fstep_refl [OF 1(4), of 2]] by (simp add: numeral_3_eq_3)
  moreover have "bmap i bn s = bmap_slot i bn s" using writingD(5) [OF w] d by (simp add: bmap_def kern_simps)
  ultimately show ?thesis using 1 d writing_mono [OF 1(4), of k] by (auto simp: leaf_def bmap_ok_def)
qed

text \<open>The two indirect cases begin with the same step.\<close>

lemma bmap_top:
  assumes w: "writing (k + 10) i s" and n: "3 \<le> nfree s" and p: "vpos p" "home p = Inl j"
  shows "\<exists>s1. bmap_slot i j s = Inr (ptr (blk s1) (addrs s1 i) p, s1) \<and> ptr (blk s1) (addrs s1 i) p \<noteq> 0 \<and>
    fstep 1 i s s1 \<and> writing ((k + 4) + 4) i s1 \<and> 2 \<le> nfree s1"
proof -
  have "writing ((k + 8) + 2) i s" using w by (rule writing_mono) simp
  then obtain s1 where 1: "bmap_slot i j s = Inr (ptr (blk s1) (addrs s1 i) p, s1)"
    "ptr (blk s1) (addrs s1 i) p \<noteq> 0" "fstep 1 i s s1" "writing (k + 8) i s1"
    using bmap_slot_spec [of "k + 8" i s p j] n p by auto
  then show ?thesis using grownD(3) [OF wstepD(1) [OF fstep_wstep [OF 1(3)]]] n writing_mono [OF 1(4), of "(k + 4) + 4"]
    by auto
qed

lemma bmap_single:
  assumes w: "writing (k + 10) i s" and n: "3 \<le> nfree s" and b: "\<not> bn < NDIRECT" "bn - NDIRECT < NINDIRECT"
  shows "bmap_ok k i bn s"
proof -
  obtain s1 where 1: "bmap_slot i NDIRECT s = Inr (ptr (blk s1) (addrs s1 i) Single, s1)"
    "ptr (blk s1) (addrs s1 i) Single \<noteq> 0" "fstep 1 i s s1" "writing ((k + 4) + 4) i s1" "2 \<le> nfree s1"
    using bmap_top [OF w n, of Single NDIRECT] by auto
  obtain s2 where 2: "bmap_entry 1 (ptr (blk s1) (addrs s1 i) Single) (bn - NDIRECT) s1 =
      Inr (ptr (blk s2) (addrs s2 i) (leaf bn), s2)"
    "ptr (blk s2) (addrs s2 i) (leaf bn) \<noteq> 0" "fstep 1 i s1 s2" "writing (k + 4) i s2"
    using bmap_entry_spec [OF 1(4), of "In1 (bn - NDIRECT)" Single "bn - NDIRECT"] 1(2,5) b by (auto simp: leaf_def)
  have "fstep 3 i s s2"
    using fstep_trans [OF 1(3) fstep_trans [OF 2(3) fstep_refl [OF 2(4), of 1]]] by (simp add: numeral_3_eq_3)
  moreover have "bmap i bn s = Inr (ptr (blk s2) (addrs s2 i) (leaf bn), s2)"
    using writingD(4,5) [OF w] b 1(1) 2(1) by (simp add: bmap_def kern_simps)
  ultimately show ?thesis using 2 writing_mono [OF 2(4), of k] by (auto simp: bmap_ok_def)
qed

lemma bmap_double:
  assumes w: "writing (k + 10) i s" and n: "3 \<le> nfree s" and bn: "bn < MAXFILE"
    and b: "\<not> bn < NDIRECT" "\<not> bn - NDIRECT < NINDIRECT"
  shows "bmap_ok k i bn s"
proof -
  let ?c = "bn - NDIRECT - NINDIRECT"
  have v: "vpos (In2 (?c div NINDIRECT) (?c mod NINDIRECT))" using leaf_vpos [OF bn] b by (simp add: leaf_def)
  have c: "?c < NINDIRECT * NINDIRECT" using bn b by (simp add: MAXFILE_def)
  obtain s1 where 1: "bmap_slot i (NDIRECT + 1) s = Inr (ptr (blk s1) (addrs s1 i) Double, s1)"
    "ptr (blk s1) (addrs s1 i) Double \<noteq> 0" "fstep 1 i s s1" "writing ((k + 4) + 4) i s1" "2 \<le> nfree s1"
    using bmap_top [OF w n, of Double "NDIRECT + 1"] by auto
  obtain s2 where 2: "bmap_entry 1 (ptr (blk s1) (addrs s1 i) Double) (?c div NINDIRECT) s1 =
      Inr (ptr (blk s2) (addrs s2 i) (Mid (?c div NINDIRECT)), s2)"
    "ptr (blk s2) (addrs s2 i) (Mid (?c div NINDIRECT)) \<noteq> 0" "fstep 1 i s1 s2" "writing (k + 4) i s2"
    using bmap_entry_spec [OF 1(4), of "Mid (?c div NINDIRECT)" Double "?c div NINDIRECT"] 1(2,5) v by auto
  have n2: "1 \<le> nfree s2" using grownD(3) [OF wstepD(1) [OF fstep_wstep [OF 2(3)]]] 1(5) by simp
  obtain s3 where 3: "bmap_entry 1 (ptr (blk s2) (addrs s2 i) (Mid (?c div NINDIRECT))) (?c mod NINDIRECT) s2 =
      Inr (ptr (blk s3) (addrs s3 i) (leaf bn), s3)"
    "ptr (blk s3) (addrs s3 i) (leaf bn) \<noteq> 0" "fstep 1 i s2 s3" "writing k i s3"
    using bmap_entry_spec [OF 2(4) n2 v _ 2(2)] b by (auto simp: leaf_def)
  have "fstep 3 i s s3" using fstep_trans [OF 1(3) fstep_trans [OF 2(3) 3(3)]] by (simp add: numeral_3_eq_3)
  moreover have "bmap i bn s = Inr (ptr (blk s3) (addrs s3 i) (leaf bn), s3)"
    using writingD(4,5) [OF w] b c 1(1) 2(1) 3(1) by (simp add: bmap_def kern_simps)
  ultimately show ?thesis using 3 by (auto simp: bmap_ok_def)
qed

lemma bmap_spec:
  assumes "writing (k + 10) i s" and "3 \<le> nfree s" and "bn < MAXFILE"
  shows "\<exists>s'. bmap i bn s = Inr (ptr (blk s') (addrs s' i) (leaf bn), s') \<and>
    ptr (blk s') (addrs s' i) (leaf bn) \<noteq> 0 \<and> fstep 3 i s s' \<and> writing k i s'"
  using bmap_direct [OF assms(1,2), of bn] bmap_single [OF assms(1,2), of bn] bmap_double [OF assms]
  unfolding bmap_ok_def by blast

end
