(* ===== verification/Kern_Rw.thy ===== *)
theory Kern_Rw
  imports Kern_Bmap
begin

text \<open>
  The contents of files: what \<^verbatim>\<open>inode_read\<close> and \<^verbatim>\<open>inode_write\<close> of \<^verbatim>\<open>kernel/fs.c\<close> do to the bytes of a
  file, and how an inode is stored in its block by \<^verbatim>\<open>inode_update\<close> and loaded by \<^verbatim>\<open>inode_lock\<close>.
\<close>

section \<open>Reading\<close>

text \<open>The block map of blocks that exist changes nothing.\<close>

definition reading :: "nat \<Rightarrow> 'z fs_state_scheme \<Rightarrow> bool" where
  "reading i s \<longleftrightarrow> ready {} s \<and> layout s \<and> i_dev (inodes s ! i) = 1 \<and> holdingsleep (i_lock (inodes s ! i)) s \<and>
     tree_ok s (addrs s i)"

lemma writing_reading: "writing k i s \<Longrightarrow> reading i s"
  using txn_ready by (auto simp: writing_def reading_def)

lemma reads_fs:
  assumes "reads H s s'"
  shows "layout s' = layout s" and "tree_ok s' a = tree_ok s a" and "dat s' a p = dat s a p"
    and "used s' = used s" and "nfree s' = nfree s" and "holdingsleep lk s' = holdingsleep lk s"
proof -
  note b = readsD(3) [OF assms] and c = calm_lcalm [OF readsD(2) [OF assms]]
  have sb: "global_sb s' = global_sb s" "meta s' = meta s" using lcalm_fs(2) [OF c] meta_cong [OF c] by auto
  show "layout s' = layout s" using layout_cong [OF c b] .
  show u: "used s' = used s" using used_cong [OF b sb(1)] .
  show "tree_ok s' a = tree_ok s a" "dat s' a p = dat s a p" "nfree s' = nfree s"
    using b sb u by (simp_all add: tree_ok_def dat_def nfree_def)
  show "holdingsleep lk s' = holdingsleep lk s" using lcalm_log(3) [OF c] by (simp add: holdingsleep_def me_def)
qed

lemma reading_reads:
  assumes "reading i s" and "reads {} s s'"
  shows "reading i s'" and "inodes s' = inodes s"
proof -
  show i: "inodes s' = inodes s" using calm_fs(1) [OF readsD(2) [OF assms(2)]] .
  show "reading i s'" using assms reads_fs [OF assms(2)] readsD(1) [OF assms(2)] i by (simp add: reading_def)
qed

lemma bmap_entry_mapped:
  assumes r: "reading i s" and p: "vpos p" "home p = Inr (pp, j)" and b: "ptr (blk s) (addrs s i) p \<noteq> 0"
  shows "\<exists>s'. bmap_entry 1 (ptr (blk s) (addrs s i) pp) j s = Inr (ptr (blk s) (addrs s i) p, s') \<and> reads {} s s'"
proof -
  let ?b = "ptr (blk s) (addrs s i) pp"
  have v: "vpos pp" using home_vpos(2) [OF p] .
  have b0: "?b \<noteq> 0" "ptr (blk s) (addrs s i) p = get_entry j (blk s ?b)"
    using p(2) b by (auto simp: ptr_home [of _ _ p] ent_def split: if_splits)
  have "?b < FSSIZE" using r tree_okD(2) [OF _ v b0(1)] layoutD(1) [of s] by (fastforce simp: reading_def)
  then obtain x s1 s2 where "block_read 1 ?b s = Inr (x, s1)" "b_data (bufs s1 ! x) = blk s ?b"
    "block_release x s1 = Inr ((), s2)" "reads {} s s2"
    using ready_read [of "{}" s ?b] r by (auto simp: reading_def free_of_empty)
  with b b0(2) show ?thesis by (auto simp: bmap_entry_def kern_simps)
qed

lemma bmap_slot_mapped:
  "home p = Inl j \<Longrightarrow> ptr (blk s) (addrs s i) p \<noteq> 0 \<Longrightarrow> bmap_slot i j s = Inr (ptr (blk s) (addrs s i) p, s)"
  by (simp add: bmap_slot_def kern_simps ptr_home [of _ _ p])

lemma ptr_parent: "home p = Inr (pp, j) \<Longrightarrow> ptr B a p \<noteq> 0 \<Longrightarrow> ptr B a pp \<noteq> 0"
  by (auto simp: ptr_home [of _ _ p] ent_def split: if_splits)

lemma bmap_mapped:
  assumes r: "reading i s" and bn: "bn < MAXFILE" and b: "ptr (blk s) (addrs s i) (leaf bn) \<noteq> 0"
  shows "\<exists>s'. bmap i bn s = Inr (ptr (blk s) (addrs s i) (leaf bn), s') \<and> reads {} s s'"
proof -
  have R: "ready {} s" "i_dev (inodes s ! i) = 1" "holdingsleep (i_lock (inodes s ! i)) s" using r by (auto simp: reading_def)
  let ?c = "bn - NDIRECT - NINDIRECT"
  consider (d) "bn < NDIRECT" | (s) "\<not> bn < NDIRECT" "bn - NDIRECT < NINDIRECT"
    | (m) "\<not> bn < NDIRECT" "\<not> bn - NDIRECT < NINDIRECT" by blast
  then show ?thesis
  proof cases
    case d
    then show ?thesis
      using bmap_slot_mapped [of "Direct bn" bn s i] b R reads_refl [OF R(1)] by (auto simp: bmap_def kern_simps leaf_def)
  next
    case s
    then have l: "leaf bn = In1 (bn - NDIRECT)" "home (leaf bn) = Inr (Single, bn - NDIRECT)" by (simp_all add: leaf_def)
    note p = ptr_parent [OF l(2) b]
    obtain s' where "bmap_entry 1 (ptr (blk s) (addrs s i) Single) (bn - NDIRECT) s =
        Inr (ptr (blk s) (addrs s i) (leaf bn), s')" "reads {} s s'"
      using bmap_entry_mapped [OF r leaf_vpos [OF bn] l(2) b] by blast
    with bmap_slot_mapped [of Single NDIRECT s i] p s R show ?thesis by (auto simp: bmap_def kern_simps)
  next
    case m
    let ?M = "Mid (?c div NINDIRECT)"
    have l: "leaf bn = In2 (?c div NINDIRECT) (?c mod NINDIRECT)" "home (leaf bn) = Inr (?M, ?c mod NINDIRECT)"
      using m by (simp_all add: leaf_def)
    have c: "?c < NINDIRECT * NINDIRECT" using bn m by (simp add: MAXFILE_def)
    have v: "vpos ?M" "home ?M = Inr (Double, ?c div NINDIRECT)" using leaf_vpos [OF bn] l(1) by auto
    note pM = ptr_parent [OF l(2) b] and pD = ptr_parent [OF v(2) ptr_parent [OF l(2) b]]
    obtain s1 where 1: "bmap_entry 1 (ptr (blk s) (addrs s i) Double) (?c div NINDIRECT) s =
        Inr (ptr (blk s) (addrs s i) ?M, s1)" "reads {} s s1"
      using bmap_entry_mapped [OF r v pM] by blast
    have e: "blk s1 = blk s" "addrs s1 i = addrs s i" using readsD(3) [OF 1(2)] reading_reads(2) [OF r 1(2)] by auto
    obtain s2 where 2: "bmap_entry 1 (ptr (blk s) (addrs s i) ?M) (?c mod NINDIRECT) s1 =
        Inr (ptr (blk s) (addrs s i) (leaf bn), s2)" "reads {} s1 s2"
      using bmap_entry_mapped [OF reading_reads(1) [OF r 1(2)] leaf_vpos [OF bn] l(2)] b e by auto
    from 1 2 bmap_slot_mapped [of Double "NDIRECT + 1" s i] pD m c R reads_trans [OF 1(2) 2(2)]
    show ?thesis by (auto simp: bmap_def kern_simps)
  qed
qed

text \<open>The bytes of a file, and what a run of the reading loop returns.\<close>

definition fbyte :: "'z fs_state_scheme \<Rightarrow> nat \<Rightarrow> nat \<Rightarrow> byte" where
  "fbyte s i p = dat s (addrs s i) (leaf (p div BSIZE)) ! (p mod BSIZE)"

definition mapped :: "'z fs_state_scheme \<Rightarrow> nat \<Rightarrow> nat \<Rightarrow> bool" where
  "mapped s i p \<longleftrightarrow> p div BSIZE < MAXFILE \<and> ptr (blk s) (addrs s i) (leaf (p div BSIZE)) \<noteq> 0"

lemma chunk_same_block: "x < chunk off left \<Longrightarrow> (off + x) div BSIZE = off div BSIZE \<and> (off + x) mod BSIZE = off mod BSIZE + x"
proof -
  assume "x < chunk off left"
  then have r: "off mod BSIZE + x < BSIZE" by (auto simp: chunk_def less_diff_conv)
  have e: "off + x = (off mod BSIZE + x) + BSIZE * (off div BSIZE)" by simp
  have "0 < BSIZE" by (simp add: BSIZE_def)
  with r show ?thesis by (subst (1 2) e) (simp only: div_mult_self2 mod_mult_self2 div_less mod_less, simp)
qed

lemma dat_length: "sized s \<Longrightarrow> length (dat s a p) = BSIZE"
  by (simp add: dat_def sizedD)

lemma fbyte_chunk:
  assumes "sized s"
  shows "take (chunk off left) (drop (off mod BSIZE) (dat s (addrs s i) (leaf (off div BSIZE)))) =
    map (fbyte s i) [off..<off + chunk off left]"
proof (rule nth_equalityI)
  have "chunk off left \<le> BSIZE - off mod BSIZE" by (simp add: chunk_def)
  then show "length (take (chunk off left) (drop (off mod BSIZE) (dat s (addrs s i) (leaf (off div BSIZE))))) =
    length (map (fbyte s i) [off..<off + chunk off left])"
    using dat_length [OF assms] by simp
next
  fix x assume "x < length (take (chunk off left) (drop (off mod BSIZE) (dat s (addrs s i) (leaf (off div BSIZE)))))"
  then have "x < chunk off left" "off mod BSIZE + x < length (dat s (addrs s i) (leaf (off div BSIZE)))" by auto
  then show "take (chunk off left) (drop (off mod BSIZE) (dat s (addrs s i) (leaf (off div BSIZE)))) ! x =
    map (fbyte s i) [off..<off + chunk off left] ! x"
    using chunk_same_block [of x off left] by (simp add: fbyte_def)
qed

lemma reads_fbyte:
  assumes "reads H s s'"
  shows "fbyte s' i = fbyte s i" and "mapped s' i = mapped s i"
proof -
  have e: "inodes s' = inodes s" "blk s' = blk s" using calm_fs(1) [OF readsD(2) [OF assms]] readsD(3) [OF assms] by auto
  show "fbyte s' i = fbyte s i" "mapped s' i = mapped s i"
    by (rule ext, simp add: fbyte_def mapped_def dat_def e)+
qed

lemma ready_sized: "ready H s \<Longrightarrow> sized s"
  using restD(2) by (auto simp: ready_def)

lemma inode_read_loop_spec:
  assumes "reading i s" and "\<forall>p. off \<le> p \<and> p < off + left \<longrightarrow> mapped s i p"
  shows "\<exists>s'. inode_read_loop i off left s = Inr ((True, map (fbyte s i) [off..<off + left]), s') \<and> reads {} s s'"
  using assms
proof (induction i off left arbitrary: s rule: inode_read_loop.induct)
  case (1 i off left)
  have R: "ready {} s" "layout s" "tree_ok s (addrs s i)" "i_dev (inodes s ! i) = 1" using "1.prems"(1) by (auto simp: reading_def)
  show ?case
  proof (cases "left = 0")
    case True
    then show ?thesis using reads_refl [OF R(1)] by (auto simp: inode_read_loop.simps [of i off 0] kern_simps)
  next
    case False
    let ?c = "chunk off left"
    let ?b = "ptr (blk s) (addrs s i) (leaf (off div BSIZE))"
    have m: "off div BSIZE < MAXFILE" "?b \<noteq> 0" using "1.prems"(2) False by (auto simp: mapped_def)
    obtain s1 where 1: "bmap i (off div BSIZE) s = Inr (?b, s1)" "reads {} s s1"
      using bmap_mapped [OF "1.prems"(1) m] by blast
    note r1 = reading_reads [OF "1.prems"(1) 1(2)]
    have "?b < FSSIZE" using tree_okD(2) [OF R(3) leaf_vpos [OF m(1)] m(2)] layoutD(1) [OF R(2)] by simp
    then obtain x s2 s3 where 2: "block_read 1 ?b s1 = Inr (x, s2)" "b_data (bufs s2 ! x) = blk s1 ?b"
      "block_release x s2 = Inr ((), s3)" "reads {} s1 s3"
      using ready_read [OF readsD(1) [OF 1(2)] _ free_of_empty] by blast
    have 3: "reads {} s s3" using 1(2) 2(4) by (rule reads_trans)
    note r3 = reading_reads [OF "1.prems"(1) 3]
    note same = reads_fbyte [OF 3]
    have "\<forall>p. off + ?c \<le> p \<and> p < off + ?c + (left - ?c) \<longrightarrow> mapped s3 i p"
      using "1.prems"(2) chunk_le [of off left] same(2) by auto
    then obtain s4 where 4: "inode_read_loop i (off + ?c) (left - ?c) s3 =
        Inr ((True, map (fbyte s i) [off + ?c..<off + ?c + (left - ?c)]), s4)" "reads {} s3 s4"
      using "1.IH" [OF False m(2) r3(1)] same(1) by auto
    have d: "take ?c (drop (off mod BSIZE) (blk s ?b)) = map (fbyte s i) [off..<off + ?c]"
      using fbyte_chunk [OF ready_sized [OF R(1)], of off left i] m(2) by (simp add: dat_def)
    have "[off..<off + ?c] @ [off + ?c..<off + ?c + (left - ?c)] = [off..<off + left]"
      using chunk_le [of off left] upt_add_eq_append [of off "off + ?c" "left - ?c"] by simp
    then have app: "map (fbyte s i) [off..<off + ?c] @ map (fbyte s i) [off + ?c..<off + ?c + (left - ?c)] =
      map (fbyte s i) [off..<off + left]" by (metis map_append)
    have "inode_read_loop i off left s = Inr ((True, map (fbyte s i) [off..<off + left]), s4)"
      using False 1(1) m(2) 2(1-3) 4(1) r1(2) R(4) readsD(3) [OF 1(2)] d app
      by (simp add: inode_read_loop.simps [of i off left] kern_simps)
    then show ?thesis using reads_trans [OF 3 4(2)] by blast
  qed
qed

definition content :: "'z fs_state_scheme \<Rightarrow> nat \<Rightarrow> byte list" where
  "content s i = map (fbyte s i) [0..<i_size (inodes s ! i)]"

lemma slice_content: "off + m \<le> i_size (inodes s ! i) \<Longrightarrow> map (fbyte s i) [off..<off + m] = take m (drop off (content s i))"
  by (rule nth_equalityI) (auto simp: content_def)

lemma inode_read_spec:
  assumes r: "reading i s" and m: "\<not> S_ISCHR (i_mode (inodes s ! i))"
    and sz: "i_size (inodes s ! i) < 2 ^ 63" "\<forall>p < i_size (inodes s ! i). mapped s i p"
    and off: "off \<le> i_size (inodes s ! i)" "off + n < 2 ^ 63"
  shows "\<exists>s'. inode_read i (int off) n s =
      Inr ((int (min n (i_size (inodes s ! i) - off)), take n (drop off (content s i))), s') \<and> reads {} s s'"
proof -
  let ?z = "i_size (inodes s ! i)"
  let ?m = "min n (?z - off)"
  have h: "holdingsleep (i_lock (inodes s ! i)) s" using r by (simp add: reading_def)
  have "int off mod 2 ^ 64 = int off" using off sz(1) by simp
  then have good: "\<not> off_bad (int off) n ?z" using off by (simp add: off_bad_def)
  have left: "(if off + n > ?z then ?z - off else n) = ?m" using off(1) by auto
  have mp: "\<forall>p. off \<le> p \<and> p < off + ?m \<longrightarrow> mapped s i p" using sz(2) by auto
  obtain s' where l: "inode_read_loop i off ?m s = Inr ((True, map (fbyte s i) [off..<off + ?m]), s')" "reads {} s s'"
    using inode_read_loop_spec [OF r mp] by blast
  have "map (fbyte s i) [off..<off + ?m] = take ?m (drop off (content s i))" using off(1) by (intro slice_content) simp
  also have "\<dots> = take n (drop off (content s i))" by (simp add: content_def min_def)
  finally have d: "map (fbyte s i) [off..<off + ?m] = take n (drop off (content s i))" .
  define q where "q = ?m"
  have "inode_read i (int off) n s = Inr ((int ?m, take n (drop off (content s i))), s')"
    using h m good l(1) left d unfolding q_def [symmetric]
    by (simp only: inode_read_def Let_def bindk_run getk_run thenk_run assertk_run returnk_run sum.case prod.case
        if_True if_False nat_int)
  then show ?thesis using l(2) by blast
qed

section \<open>Writing\<close>

text \<open>The number of blocks that a range of bytes touches.\<close>

definition span :: "nat \<Rightarrow> nat \<Rightarrow> nat" where
  "span off n = (if n = 0 then 0 else (off + n - 1) div BSIZE + 1 - off div BSIZE)"

lemma span_next: "0 < n \<Longrightarrow> span off n = Suc (span (off + chunk off n) (n - chunk off n))"
proof -
  assume n: "0 < n"
  have B: "0 < BSIZE" by (simp add: BSIZE_def)
  have d: "off = off div BSIZE * BSIZE + off mod BSIZE" "off mod BSIZE < BSIZE" using B by auto
  show ?thesis
  proof (cases "n \<le> BSIZE - off mod BSIZE")
    case True
    then have "chunk off n = n" by (simp add: chunk_def)
    moreover have "(off + (n - 1)) div BSIZE = off div BSIZE"
      using chunk_same_block [of "n - 1" off n] n calculation by simp
    ultimately show ?thesis using n by (simp add: span_def)
  next
    case False
    then have c: "chunk off n = BSIZE - off mod BSIZE" by (simp add: chunk_def)
    have "off + chunk off n = off div BSIZE * BSIZE + BSIZE" using c d by linarith
    then have o: "(off + chunk off n) div BSIZE = off div BSIZE + 1"
      using B div_mult_self4 [of BSIZE "off div BSIZE" BSIZE] by (simp add: mult.commute)
    have e: "off + chunk off n + (n - chunk off n) - 1 = off + n - 1" using False c by simp
    have "off div BSIZE + 1 \<le> (off + n - 1) div BSIZE"
      using div_le_mono [of "off + chunk off n" "off + n - 1" BSIZE] o False c by simp
    then show ?thesis using n False c o e by (simp add: span_def)
  qed
qed

text \<open>Writing to a block of data leaves the tree as it is.\<close>

lemma ptr_data_write:
  assumes ok: "tree_ok s a" and x: "vpos x" "dpos x" "ptr (blk s) a x \<noteq> 0" and q: "vpos q"
  shows "ptr ((blk s)(ptr (blk s) a x := d)) a q = ptr (blk s) a q"
  using q
proof (induction q rule: pos_induct)
  case (top q k)
  then show ?case by (simp add: ptr_home [of _ _ q])
next
  case (below q pp k)
  have v: "vpos pp" using home_vpos(2) [OF below(3,1)] .
  have "pp \<noteq> x" using dpos_home [OF below(1)] x(2) by auto
  then have "ptr (blk s) a pp \<noteq> 0 \<Longrightarrow> ptr (blk s) a pp \<noteq> ptr (blk s) a x"
    using tree_okD(5) [OF ok v x(1)] by blast
  then show ?case using below(1) below(2) [OF v] by (auto simp: ptr_home [of _ _ q] ent_def)
qed

lemma data_write:
  assumes w: "writing j i s" and bn: "bn < MAXFILE" and b: "b = ptr (blk s) (addrs s i) (leaf bn)" "b \<noteq> 0"
    and t: "txn k {} s'" "tstep {} s s'" "blk s' = (blk s)(b := d)"
  shows "writing k i s'" and "wstep 0 i s s'" and "addrs s' i = addrs s i"
    and "vpos p \<Longrightarrow> dpos p \<Longrightarrow> dat s' (addrs s' i) p = (if p = leaf bn then d else dat s (addrs s i) p)"
proof -
  note W = writingD [OF w] and v = leaf_vpos [OF bn] and c = tstepD(1) [OF t(2)]
  have b0: "ptr (blk s) (addrs s i) (leaf bn) \<noteq> 0" using b by simp
  show a: "addrs s' i = addrs s i" using tstep_fs(1) [OF t(2)] by simp
  have P: "ptr (blk s') (addrs s i) q = ptr (blk s) (addrs s i) q" if "vpos q" for q
    using ptr_data_write [OF W(6) v leaf_dpos b0 that] t(3) b(1) by simp
  have bm: "b \<notin> map_blocks (global_sb s)" using tree_okD(4) [OF W(6) v b0] map_blocks_meta(2) b(1) by blast
  have u: "used s' x = used s x" if "x < sb_size (global_sb s)" for x
    using used_other [OF t(3) bm tstep_fs(2) [OF t(2)] that] .
  have l: "layout s'" using layout_other [OF t(3) bm c W(2)] .
  have nf: "nfree s' = nfree s" using u tstep_fs(2) [OF t(2)] by (simp add: nfree_def cong: conj_cong)
  have tr: "tree_ok s' (addrs s i)"
    unfolding tree_ok_def using W(6) P u tstep_fs(2,3) [OF t(2)] by (auto simp: tree_ok_def)
  have "grown 0 s (addrs s i) s' (addrs s' i)"
    unfolding grown_def a using tr l nf P u t(3) v b(1) by auto
  then show ws: "wstep 0 i s s'" using t(2) a by (simp add: wstep_def set_addrs_same)
  show "writing k i s'" using wstep_writing [OF w ws t(1)] .
  show "dat s' (addrs s' i) p = (if p = leaf bn then d else dat s (addrs s i) p)" if p: "vpos p" "dpos p"
  proof (cases "p = leaf bn")
    case True
    then show ?thesis using P [OF p(1)] t(3) b a by (simp add: dat_def)
  next
    case False
    then have "ptr (blk s) (addrs s i) p \<noteq> 0 \<Longrightarrow> ptr (blk s) (addrs s i) p \<noteq> b"
      using tree_okD(5) [OF W(6) p(1) v] b(1) by blast
    then show ?thesis using False P [OF p(1)] t(3) a by (simp add: dat_def)
  qed
qed

lemma blit_byte:
  assumes "length d = BSIZE" and "c = chunk off (length src)" and "m < BSIZE"
  shows "blit (off mod BSIZE) (take c src) d ! m =
    (if off mod BSIZE \<le> m \<and> m < off mod BSIZE + c then src ! (m - off mod BSIZE) else d ! m)"
proof -
  have c: "c \<le> length src" "off mod BSIZE + c \<le> BSIZE"
    using assms(2) mod_less_divisor [of BSIZE off] by (auto simp: chunk_def BSIZE_def)
  then show ?thesis using nth_blit [of "off mod BSIZE" "take c src" d m] assms by auto
qed

lemma fbyte_write:
  assumes "length (dat s (addrs s i) (leaf (off div BSIZE))) = BSIZE" and "c = chunk off (length src)"
    and "p div BSIZE < MAXFILE"
    and dat: "\<And>q. vpos q \<Longrightarrow> dpos q \<Longrightarrow> dat s' (addrs s' i) q = (if q = leaf (off div BSIZE)
      then blit (off mod BSIZE) (take c src) (dat s (addrs s i) (leaf (off div BSIZE))) else dat s (addrs s i) q)"
  shows "fbyte s' i p = (if off \<le> p \<and> p < off + c then src ! (p - off) else fbyte s i p)"
proof (cases "p div BSIZE = off div BSIZE")
  case True
  have B: "p mod BSIZE < BSIZE" by (simp add: BSIZE_def)
  have pd: "p = off div BSIZE * BSIZE + p mod BSIZE" "off = off div BSIZE * BSIZE + off mod BSIZE"
    using True by (metis div_mult_mod_eq, simp)
  have "off \<le> p \<longleftrightarrow> off mod BSIZE \<le> p mod BSIZE" "p < off + c \<longleftrightarrow> p mod BSIZE < off mod BSIZE + c"
    "p - off = p mod BSIZE - off mod BSIZE" using pd by linarith+
  then show ?thesis
    using blit_byte [OF assms(1,2) B] dat [OF leaf_vpos [OF assms(3)]] True by (simp add: fbyte_def)
next
  case False
  have "\<not> (off \<le> p \<and> p < off + c)"
  proof
    assume *: "off \<le> p \<and> p < off + c"
    then have "p - off < chunk off (length src)" using assms(2) by auto
    then have "(off + (p - off)) div BSIZE = off div BSIZE" using chunk_same_block by blast
    with * False show False by simp
  qed
  then show ?thesis using False dat [OF leaf_vpos [OF assms(3)]] by (auto simp: fbyte_def leaf_inj)
qed

lemma mapped_wstep:
  assumes "wstep n i s s'" and "mapped s i p"
  shows "mapped s' i p"
proof -
  have m: "p div BSIZE < MAXFILE" "ptr (blk s) (addrs s i) (leaf (p div BSIZE)) \<noteq> 0" using assms(2) by (auto simp: mapped_def)
  with grownD(4) [OF wstepD(1) [OF assms(1)] leaf_vpos [OF m(1)] m(2)] show ?thesis by (simp add: mapped_def)
qed

text \<open>One iteration of the loop of \<^verbatim>\<open>inode_write\<close>.\<close>

lemma write_chunk:
  assumes w: "writing (k + 11) i s" and n: "3 \<le> nfree s" and src: "src \<noteq> []" "off + length src \<le> MAXFILE * BSIZE"
    and c: "c = chunk off (length src)"
  shows "\<exists>b s1 x s2 s3. bmap i (off div BSIZE) s = Inr (b, s1) \<and> b \<noteq> 0 \<and> i_dev (inodes s1 ! i) = 1 \<and>
    block_read 1 b s1 = Inr (x, s2) \<and>
    thenk (set_data x (blit (off mod BSIZE) (take c src) (b_data (bufs s2 ! x)))) (thenk (log_write x) (block_release x)) s2 =
      Inr ((), s3) \<and> writing k i s3 \<and> wstep 3 i s s3 \<and>
    (\<forall>p. p div BSIZE < MAXFILE \<longrightarrow>
       fbyte s3 i p = (if off \<le> p \<and> p < off + c then src ! (p - off) else fbyte s i p)) \<and>
    (\<forall>p. off \<le> p \<and> p < off + c \<longrightarrow> mapped s3 i p)"
proof -
  let ?bn = "off div BSIZE"
  have "0 < length src" using src(1) by simp
  then have "off < MAXFILE * BSIZE" using src(2) by linarith
  then have bn: "?bn < MAXFILE" by (rule less_mult_imp_div_less)
  have "writing ((k + 1) + 10) i s" using w by (rule writing_mono) simp
  then obtain s1 where 1: "bmap i ?bn s = Inr (ptr (blk s1) (addrs s1 i) (leaf ?bn), s1)"
    "ptr (blk s1) (addrs s1 i) (leaf ?bn) \<noteq> 0" "fstep 3 i s s1" "writing (k + 1) i s1"
    using bmap_spec [of "k + 1" i s ?bn] n bn by auto
  let ?b = "ptr (blk s1) (addrs s1 i) (leaf ?bn)"
  let ?f = "\<lambda>d. blit (off mod BSIZE) (take c src) d"
  note W1 = writingD [OF 1(4)]
  have B: "?b < FSSIZE" "?b \<notin> log_area s1"
    using tree_okD(2,4) [OF W1(6) leaf_vpos [OF bn] 1(2)] layoutD(1) [OF W1(2)] by (auto simp: meta_def)
  have "c \<le> length src" "off mod BSIZE + c \<le> BSIZE"
    using c mod_less_divisor [of BSIZE off] by (auto simp: chunk_def BSIZE_def)
  then have "length (?f (blk s1 ?b)) = BSIZE" using sizedD(1) [OF W1(7)] by simp
  then obtain x s2 s3 where 2: "block_read 1 ?b s1 = Inr (x, s2)" "b_data (bufs s2 ! x) = blk s1 ?b"
    "thenk (set_data x (?f (blk s1 ?b))) (thenk (log_write x) (block_release x)) s2 = Inr ((), s3)" "txn k {} s3"
    "blk s3 = (blk s1)(?b := ?f (blk s1 ?b))" "tstep {} s1 s3"
    using txn_modify [of k "{}" s1 ?b ?f] W1(1) B by (auto simp: free_of_empty)
  note D = data_write [OF 1(4) bn refl 1(2) 2(4,6,5)]
  have d1: "dat s1 (addrs s1 i) (leaf ?bn) = blk s1 ?b" using 1(2) by (simp add: dat_def)
  have f1: "fbyte s1 i p = fbyte s i p" if "p div BSIZE < MAXFILE" for p
    using fstep_dat [OF 1(3) leaf_vpos [OF that] leaf_dpos] by (simp add: fbyte_def)
  have "dat s3 (addrs s3 i) q = (if q = leaf ?bn then ?f (dat s1 (addrs s1 i) (leaf ?bn)) else dat s1 (addrs s1 i) q)"
    if "vpos q" "dpos q" for q using D(4) [OF that] d1 by simp
  note fb = fbyte_write [OF dat_length [OF W1(7)] c _ this]
  have bytes: "\<forall>p. p div BSIZE < MAXFILE \<longrightarrow>
      fbyte s3 i p = (if off \<le> p \<and> p < off + c then src ! (p - off) else fbyte s i p)"
    using fb f1 by simp
  have mp: "mapped s3 i p" if p: "off \<le> p \<and> p < off + c" for p
  proof -
    have "p - off < chunk off (length src)" using p c by auto
    then have "p div BSIZE = ?bn" using chunk_same_block [of "p - off" off "length src"] p by simp
    then have "mapped s1 i p" using bn 1(2) by (simp add: mapped_def)
    then show ?thesis by (rule mapped_wstep [OF D(2)])
  qed
  have "wstep 3 i s s3" using wstep_trans [OF fstep_wstep [OF 1(3)] D(2)] by simp
  with 1(1,2) 2 W1(4) D(1) bytes mp show ?thesis by auto
qed

lemma inode_write_loop_spec:
  assumes "writing (k + 11 * span off (length src)) i s" and "3 * span off (length src) \<le> nfree s"
    and "off + length src \<le> MAXFILE * BSIZE"
  shows "\<exists>s'. inode_write_loop i off src s = Inr (True, s') \<and> writing k i s' \<and> wstep (3 * span off (length src)) i s s' \<and>
    (\<forall>p. p div BSIZE < MAXFILE \<longrightarrow>
       fbyte s' i p = (if off \<le> p \<and> p < off + length src then src ! (p - off) else fbyte s i p)) \<and>
    (\<forall>p. off \<le> p \<and> p < off + length src \<longrightarrow> mapped s' i p)"
  using assms
proof (induction i off src arbitrary: s rule: inode_write_loop.induct)
  case (1 i off src)
  show ?case
  proof (cases "src = []")
    case True
    then show ?thesis using "1.prems"(1) wstep_refl [OF "1.prems"(1)]
      by (auto simp: inode_write_loop.simps [of i off "[]"] kern_simps span_def)
  next
    case False
    let ?n = "length src" let ?c = "chunk off (length src)" let ?m = "span (off + ?c) (?n - ?c)"
    have sp: "span off ?n = Suc ?m" using span_next False by simp
    have wr: "writing ((k + 11 * ?m) + 11) i s" using "1.prems"(1) by (rule writing_mono) (simp add: sp)
    have nn: "3 \<le> nfree s" using "1.prems"(2) sp by simp
    obtain b s1 x s2 s3 where 2: "bmap i (off div BSIZE) s = Inr (b, s1)" "b \<noteq> 0" "i_dev (inodes s1 ! i) = 1"
      "block_read 1 b s1 = Inr (x, s2)"
      "thenk (set_data x (blit (off mod BSIZE) (take ?c src) (b_data (bufs s2 ! x)))) (thenk (log_write x) (block_release x)) s2 =
        Inr ((), s3)" "writing (k + 11 * ?m) i s3" "wstep 3 i s s3"
      "\<forall>p. p div BSIZE < MAXFILE \<longrightarrow> fbyte s3 i p = (if off \<le> p \<and> p < off + ?c then src ! (p - off) else fbyte s i p)"
      "\<forall>p. off \<le> p \<and> p < off + ?c \<longrightarrow> mapped s3 i p"
      using write_chunk [OF wr nn False "1.prems"(3) refl] by blast
    have n3: "3 * ?m \<le> nfree s3" using grownD(3) [OF wstepD(1) [OF 2(7)]] "1.prems"(2) sp by simp
    have c: "?c \<le> ?n" by (simp add: chunk_le)
    have dl: "length (drop ?c src) = ?n - ?c" "off + ?c + (?n - ?c) = off + ?n" using c by simp_all
    obtain s' where 3: "inode_write_loop i (off + ?c) (drop ?c src) s3 = Inr (True, s')" "writing k i s'"
      "wstep (3 * ?m) i s3 s'"
      "\<forall>p. p div BSIZE < MAXFILE \<longrightarrow> fbyte s' i p = (if off + ?c \<le> p \<and> p < off + ?n
         then drop ?c src ! (p - (off + ?c)) else fbyte s3 i p)"
      "\<forall>p. off + ?c \<le> p \<and> p < off + ?n \<longrightarrow> mapped s' i p"
      using "1.IH" [OF False 2(2)] 2(6) n3 "1.prems"(3) unfolding dl by blast
    have run: "inode_write_loop i off src s = Inr (True, s')"
      using False 2(1-5) 3(1)
      by (auto simp: inode_write_loop.simps [of i off src] bindk_run getk_run thenk_run split: sum.splits)
    have "fbyte s' i p = (if off \<le> p \<and> p < off + ?n then src ! (p - off) else fbyte s i p)" if "p div BSIZE < MAXFILE" for p
      using 2(8) 3(4) that c by auto
    moreover have "mapped s' i p" if "off \<le> p \<and> p < off + ?n" for p
      using 2(9) 3(5) mapped_wstep [OF 3(3)] that by (meson not_le)
    moreover have "wstep (3 * span off ?n) i s s'" using wstep_trans [OF 2(7) 3(3)] sp by simp
    ultimately show ?thesis using run 3(2) by blast
  qed
qed

section \<open>Inodes on disk\<close>

lemma inode_slot: "dinode_off inum + DINODE_SIZE \<le> BSIZE"
proof -
  have "inum mod IPB < IPB" by (simp add: IPB_def BSIZE_def DINODE_SIZE_def)
  then have "DINODE_SIZE * (inum mod IPB + 1) \<le> DINODE_SIZE * IPB" by (intro mult_le_mono2) simp
  then show ?thesis by (simp add: dinode_off_def IPB_def BSIZE_def DINODE_SIZE_def)
qed

lemma length_concat_le [simp]: "length (concat (map (le_bytes n) vs)) = n * length vs"
  by (induction vs) auto

lemma length_store_dinode:
  "length d = BSIZE \<Longrightarrow> length (i_addrs ip) = NDIRECT + 2 \<Longrightarrow> length (store_dinode (dinode_off inum) now ip d) = BSIZE"
  using inode_slot [of inum] by (simp add: store_dinode_def put_short_def DINODE_SIZE_def NDIRECT_def)

text \<open>A write to an inode block does not touch the tree.\<close>

lemma ptr_meta_write:
  assumes "tree_ok s a" and "b \<in> meta s" and "vpos q"
  shows "ptr ((blk s)(b := d)) a q = ptr (blk s) a q"
  using assms(3)
proof (induction q rule: pos_induct)
  case (top q k)
  then show ?case by (simp add: ptr_home [of _ _ q])
next
  case (below q pp k)
  have v: "vpos pp" using home_vpos(2) [OF below(3,1)] .
  have "ptr (blk s) a pp \<noteq> 0 \<Longrightarrow> ptr (blk s) a pp \<noteq> b" using tree_okD(4) [OF assms(1) v] assms(2) by blast
  then show ?case using below(1) below(2) [OF v] by (auto simp: ptr_home [of _ _ q] ent_def)
qed

lemma meta_write:
  assumes w: "writing j i s" and b: "b \<in> inode_blocks (global_sb s)"
    and t: "txn k {} s'" "tstep {} s s'" "blk s' = (blk s)(b := d)"
  shows "writing k i s'" and "fstep 0 i s s'"
proof -
  note W = writingD [OF w] and c = tstepD(1) [OF t(2)]
  have a: "addrs s' i = addrs s i" using tstep_fs(1) [OF t(2)] by simp
  have bm: "b \<in> meta s" "b \<notin> map_blocks (global_sb s)" using map_blocks_meta(3) [OF b] layoutD(6) [OF W(2) b] by auto
  have P: "ptr (blk s') (addrs s i) q = ptr (blk s) (addrs s i) q" if "vpos q" for q
    using ptr_meta_write [OF W(6) bm(1) that] t(3) by simp
  have u: "used s' x = used s x" if "x < sb_size (global_sb s)" for x
    using used_other [OF t(3) bm(2) tstep_fs(2) [OF t(2)] that] .
  have l: "layout s'" using layout_other [OF t(3) bm(2) c W(2)] .
  have nf: "nfree s' = nfree s" using u tstep_fs(2) [OF t(2)] by (simp add: nfree_def cong: conj_cong)
  have tr: "tree_ok s' (addrs s i)"
    unfolding tree_ok_def using W(6) P u tstep_fs(2,3) [OF t(2)] by (auto simp: tree_ok_def)
  have "grown 0 s (addrs s i) s' (addrs s' i)"
    unfolding grown_def a using tr l nf P u t(3) bm(1) by auto
  then have ws: "wstep 0 i s s'" using t(2) a by (simp add: wstep_def set_addrs_same)
  show "writing k i s'" using wstep_writing [OF w ws t(1)] .
  have "dat s' (addrs s' i) p = dat s (addrs s i) p" if p: "vpos p" for p
  proof -
    have "ptr (blk s) (addrs s i) p \<noteq> 0 \<Longrightarrow> ptr (blk s) (addrs s i) p \<noteq> b" using tree_okD(4) [OF W(6) p] bm(1) by blast
    then show ?thesis using P [OF p] t(3) a by (simp add: dat_def)
  qed
  with ws show "fstep 0 i s s'" by (simp add: fstep_iff)
qed

lemma inode_update_spec:
  assumes w: "writing (Suc k) i s" and inum: "i_inum (inodes s ! i) < sb_ninodes (global_sb s)"
  shows "\<exists>s'. inode_update i s = Inr ((), s') \<and> writing k i s' \<and> fstep 0 i s s' \<and> inodes s' = inodes s \<and>
    blk s' = (blk s)(IBLOCK (i_inum (inodes s ! i)) (global_sb s) :=
      store_dinode (dinode_off (i_inum (inodes s ! i))) (rtc s) (inodes s ! i)
        (blk s (IBLOCK (i_inum (inodes s ! i)) (global_sb s))))"
proof -
  let ?ip = "inodes s ! i"
  let ?b = "IBLOCK (i_inum ?ip) (global_sb s)"
  let ?f = "store_dinode (dinode_off (i_inum ?ip)) (rtc s) ?ip"
  note W = writingD [OF w]
  have b: "?b \<in> inode_blocks (global_sb s)" using inum by (auto simp: inode_blocks_def)
  have B: "?b < FSSIZE" "?b \<notin> log_area s" using layoutD(5,7) [OF W(2)] b map_blocks_meta(3) [OF b] by auto
  have len: "length (?f (blk s ?b)) = BSIZE"
    using length_store_dinode sizedD(1) [OF W(7)] tree_okD(1) [OF W(6)] by simp
  obtain x s1 s' where m: "block_read 1 ?b s = Inr (x, s1)" "b_data (bufs s1 ! x) = blk s ?b" "lcalm s s1"
    "thenk (set_data x (?f (blk s ?b))) (thenk (log_write x) (block_release x)) s1 = Inr ((), s')"
    "txn k {} s'" "blk s' = (blk s)(?b := ?f (blk s ?b))" "tstep {} s s'"
    using txn_modify [OF W(1) B(1) free_of_empty B(2), of ?f] len by blast
  have "inode_update i s = Inr ((), s')"
    using m(1,2,4) W(4) lcalm_fs(3) [OF m(3)] by (simp add: inode_update_def bindk_run getk_run)
  with meta_write [OF w b m(5,7,6)] m(6) tstep_fs(1) [OF m(7)] show ?thesis by blast
qed

section \<open>Writing a file\<close>

definition set_size :: "nat \<Rightarrow> nat \<Rightarrow> 'z fs_state_scheme \<Rightarrow> 'z fs_state_scheme" where
  "set_size i z = upd_inode i (\<lambda>ip. ip\<lparr>i_size := z\<rparr>)"

lemma set_size_simps:
  assumes "i < length (inodes s)"
  shows "inodes (set_size i z s) ! i = (inodes s ! i)\<lparr>i_size := z\<rparr>" and "writing k i (set_size i z s) = writing k i s"
    and "fbyte (set_size i z s) j p = fbyte s j p" and "mapped (set_size i z s) j p = mapped s j p"
    and "global_sb (set_size i z s) = global_sb s" and "blk (set_size i z s) = blk s"
proof -
  show i: "inodes (set_size i z s) ! i = (inodes s ! i)\<lparr>i_size := z\<rparr>" using assms by (simp add: set_size_def)
  have a: "addrs (set_size i z s) j = addrs s j" for j using assms by (cases "j = i") (simp_all add: set_size_def)
  have l: "length (inodes (set_size i z s)) = length (inodes s)" by (simp add: set_size_def)
  have t: "tree_ok (set_size i z s) b = tree_ok s b" "dat (set_size i z s) b q = dat s b q" for b q
    by (simp_all add: tree_ok_def dat_def set_size_def)
  have h: "holdingsleep lk (set_size i z s) = holdingsleep lk s" for lk by (simp add: holdingsleep_def set_size_def)
  show "writing k i (set_size i z s) = writing k i s"
    unfolding writing_def l t h i using a [of i] by (simp add: set_size_def)
  show "fbyte (set_size i z s) j p = fbyte s j p" "mapped (set_size i z s) j p = mapped s j p"
    by (simp_all add: fbyte_def mapped_def a t) (simp add: set_size_def)
  show "global_sb (set_size i z s) = global_sb s" "blk (set_size i z s) = blk s" by (simp_all add: set_size_def)
qed

text \<open>A file that is open for writing, with all of its bytes present on disk.\<close>

definition file_open :: "nat \<Rightarrow> nat \<Rightarrow> 'z fs_state_scheme \<Rightarrow> bool" where
  "file_open k i s \<longleftrightarrow> writing k i s \<and> \<not> S_ISCHR (i_mode (inodes s ! i)) \<and>
     i_inum (inodes s ! i) < sb_ninodes (global_sb s) \<and> i_size (inodes s ! i) \<le> MAXFILE * BSIZE \<and>
     (\<forall>p < i_size (inodes s ! i). mapped s i p)"

lemma content_blit:
  assumes "off \<le> i_size (inodes s ! i)" and z: "i_size (inodes s' ! i) = max (i_size (inodes s ! i)) (off + length src)"
    and b: "\<And>p. p < i_size (inodes s' ! i) \<Longrightarrow>
      fbyte s' i p = (if off \<le> p \<and> p < off + length src then src ! (p - off) else fbyte s i p)"
  shows "content s' i = blit off src (content s i)"
proof (rule nth_equalityI)
  show l: "length (content s' i) = length (blit off src (content s i))"
    using assms(1) z by (auto simp: content_def blit_def)
  fix p assume "p < length (content s' i)"
  then have p: "p < i_size (inodes s' ! i)" by (simp add: content_def)
  then show "content s' i ! p = blit off src (content s i) ! p"
    using b [OF p] assms(1) z by (auto simp: content_def blit_def nth_append)
qed

text \<open>
  The blocks of no other file, no other inode and nothing else but the log and the cache are changed.
\<close>

definition only_inodes :: "'z fs_state_scheme \<Rightarrow> 'z fs_state_scheme \<Rightarrow> bool" where
  "only_inodes s s' \<longleftrightarrow> lcalm (s\<lparr>inodes := inodes s'\<rparr>) s'"

lemma only_inodes_trans:
  assumes "only_inodes s t" and "only_inodes t u"
  shows "only_inodes s u"
  using assms by (cases s; cases t; cases u) (simp add: only_inodes_def lcalm_def me_def cur_def)

lemma only_inodes_upd: "only_inodes s (upd_inode i f s)"
  by (simp add: only_inodes_def upd_inode_def)

lemma only_inodes_tstep: "tstep H s s' \<Longrightarrow> only_inodes s s'"
  using tstep_fs(1) [of H s s'] tstepD(1) [of H s s'] by (simp add: only_inodes_def)

lemma only_inodesD:
  assumes "only_inodes s s'"
  shows "files s' = files s" and "l_outstanding s' = l_outstanding s" and "l_committing s' = l_committing s"
    and "l_size s' = l_size s" and "l_start s' = l_start s" and "global_sb s' = global_sb s" and "me s' = me s"
    and "rtc s' = rtc s" and "devtab s' = devtab s" and "pipes s' = pipes s"
  using assms by (cases s; cases s'; simp add: only_inodes_def lcalm_def me_def cur_def)+

definition spares :: "nat \<Rightarrow> 'z fs_state_scheme \<Rightarrow> 'z fs_state_scheme \<Rightarrow> bool" where
  "spares i s s' \<longleftrightarrow> only_inodes s s' \<and> disk s' = disk s \<and> (\<forall>j. j \<noteq> i \<longrightarrow> inodes s' ! j = inodes s ! j) \<and>
     (\<forall>b < sb_size (global_sb s). used s b \<and> b \<notin> meta s \<and> (\<forall>p. vpos p \<longrightarrow> ptr (blk s) (addrs s i) p \<noteq> b) \<longrightarrow>
        blk s' b = blk s b)"

lemma wstep_only_inodes: "wstep n i s s' \<Longrightarrow> only_inodes s s'"
  unfolding wstep_def set_addrs_def using only_inodes_trans [OF only_inodes_upd only_inodes_tstep] by blast

lemma wstep_spares: "wstep n i s s' \<Longrightarrow> spares i s s'"
  using wstep_only_inodes [of n i s s'] grownD(6) [OF wstepD(1), of n i s s'] wstepD(6) [of n i s s'] wstep_inode(2) [of n i s s']
  by (simp add: spares_def)

text \<open>The end of \<^verbatim>\<open>inode_write\<close>: the size grows and the inode is written.\<close>

lemma write_size:
  assumes w: "writing (Suc k) i s" and inum: "i_inum (inodes s ! i) < sb_ninodes (global_sb s)"
  shows "\<exists>s'. inode_update i (set_size i z s) = Inr ((), s') \<and> writing k i s' \<and>
    inodes s' = inodes (set_size i z s) \<and> global_sb s' = global_sb s \<and> disk s' = disk s \<and> only_inodes s s' \<and>
    (\<forall>b. b \<notin> meta s \<longrightarrow> blk s' b = blk s b) \<and>
    (\<forall>p. p div BSIZE < MAXFILE \<longrightarrow> fbyte s' i p = fbyte s i p) \<and> (\<forall>p. mapped s i p \<longrightarrow> mapped s' i p) \<and>
    nfree s \<le> nfree s'"
proof -
  note W = writingD [OF w] and S = set_size_simps [OF writingD(3) [OF w], where z = z]
  let ?t = "set_size i z s"
  have "writing (Suc k) i ?t" "i_inum (inodes ?t ! i) < sb_ninodes (global_sb ?t)" using w inum S(1,2,5) by auto
  then obtain s' where u: "inode_update i ?t = Inr ((), s')" "writing k i s'" "fstep 0 i ?t s'" "inodes s' = inodes ?t"
    "blk s' = (blk ?t)(IBLOCK (i_inum (inodes ?t ! i)) (global_sb ?t) :=
      store_dinode (dinode_off (i_inum (inodes ?t ! i))) (rtc ?t) (inodes ?t ! i)
        (blk ?t (IBLOCK (i_inum (inodes ?t ! i)) (global_sb ?t))))"
    using inode_update_spec by blast
  have "IBLOCK (i_inum (inodes ?t ! i)) (global_sb ?t) \<in> inode_blocks (global_sb s)"
    using inum S(1,5) by (auto simp: inode_blocks_def)
  then have blk: "\<forall>b. b \<notin> meta s \<longrightarrow> blk s' b = blk s b" using u(5) S(6) map_blocks_meta(3) by fastforce
  have fb: "fbyte s' i p = fbyte s i p" if "p div BSIZE < MAXFILE" for p
    using fstep_dat [OF u(3) leaf_vpos [OF that] leaf_dpos] S(3) [of i p] by (simp add: fbyte_def)
  have "mapped s' i p" if "mapped s i p" for p using mapped_wstep [OF fstep_wstep [OF u(3)]] S(4) that by blast
  moreover have "global_sb s' = global_sb s" "disk s' = disk s"
    using wstepD(3,6) [OF fstep_wstep [OF u(3)]] by (simp_all add: set_size_def)
  moreover have "only_inodes s s'"
    using wstep_only_inodes [OF fstep_wstep [OF u(3)]] unfolding set_size_def
    by (rule only_inodes_trans [OF only_inodes_upd])
  moreover have "nfree s \<le> nfree s'"
    using grownD(3) [OF wstepD(1) [OF fstep_wstep [OF u(3)]]] by (simp add: set_size_def nfree_def)
  ultimately show ?thesis using u(1,2,4) blk fb by blast
qed

lemma inode_write_spec:
  assumes f: "file_open (k + 11 * span off (length src) + 1) i s" and off: "off \<le> i_size (inodes s ! i)"
    and max: "off + length src \<le> MAXFILE * BSIZE" and room: "3 * span off (length src) \<le> nfree s"
  shows "\<exists>s'. inode_write i src (int off) s = Inr (int (length src), s') \<and> file_open k i s' \<and>
    i_size (inodes s' ! i) = max (i_size (inodes s ! i)) (off + length src) \<and>
    content s' i = blit off src (content s i) \<and> spares i s s' \<and> nfree s \<le> nfree s' + 3 * span off (length src) \<and>
    i_ref (inodes s' ! i) = i_ref (inodes s ! i) \<and> i_valid (inodes s' ! i) = i_valid (inodes s ! i)"
proof -
  let ?n = "length src" let ?z = "i_size (inodes s ! i)"
  have F: "writing ((k + 1) + 11 * span off ?n) i s" "\<not> S_ISCHR (i_mode (inodes s ! i))"
    "i_inum (inodes s ! i) < sb_ninodes (global_sb s)" "?z \<le> MAXFILE * BSIZE" "\<forall>p < ?z. mapped s i p"
    using f by (auto simp: file_open_def algebra_simps)
  note W = writingD [OF F(1)]
  obtain s1 where 1: "inode_write_loop i off src s = Inr (True, s1)" "writing (k + 1) i s1" "wstep (3 * span off ?n) i s s1"
    "\<forall>p. p div BSIZE < MAXFILE \<longrightarrow> fbyte s1 i p = (if off \<le> p \<and> p < off + ?n then src ! (p - off) else fbyte s i p)"
    "\<forall>p. off \<le> p \<and> p < off + ?n \<longrightarrow> mapped s1 i p"
    using inode_write_loop_spec [OF F(1) room max] by blast
  have small: "p div BSIZE < MAXFILE" if "p < MAXFILE * BSIZE" for p using that by (rule less_mult_imp_div_less)
  have i1: "i_size (inodes s1 ! i) = ?z" "i_inum (inodes s1 ! i) = i_inum (inodes s ! i)"
    "i_mode (inodes s1 ! i) = i_mode (inodes s ! i)" "global_sb s1 = global_sb s" "meta s1 = meta s"
    "i_ref (inodes s1 ! i) = i_ref (inodes s ! i)" "i_valid (inodes s1 ! i) = i_valid (inodes s ! i)"
    using wstep_inode [OF 1(3)] wstepD(3,4) [OF 1(3)] by auto
  have n1: "nfree s \<le> nfree s1 + 3 * span off ?n" using grownD(3) [OF wstepD(1) [OF 1(3)]] .
  have m1: "mapped s1 i p" if "p < max ?z (off + ?n)" for p
  proof (cases "off \<le> p \<and> p < off + ?n")
    case False
    then have "p < ?z" using that off by auto
    with F(5) mapped_wstep [OF 1(3)] show ?thesis by blast
  qed (use 1(5) in blast)
  have big: "MAXFILE * BSIZE < 2 ^ 62" by (simp add: MAXFILE_def NDIRECT_def NINDIRECT_def BSIZE_def)
  then have good: "\<not> off_bad (int off) ?n ?z" "\<not> MAXFILE * BSIZE < off + ?n"
    using off max F(4) by (auto simp: off_bad_def)
  have head: "inode_write i src (int off) s = (if 0 < ?n \<and> off + ?n > ?z
      then thenk (inode_update i) (returnk (int ?n)) (set_size i (off + ?n) s1) else Inr (int ?n, s1))"
    using W(5) F(2) good 1(1) i1(1)
    by (simp add: inode_write_def Let_def bindk_run getk_run thenk_run assertk_run returnk_run modk_run set_size_def)
  show ?thesis
  proof (cases "0 < ?n \<and> off + ?n > ?z")
    case False
    then have z: "max ?z (off + ?n) = ?z" using off by auto
    have "content s1 i = blit off src (content s i)"
      using content_blit [OF off, of s1 src] i1(1) z 1(4) small F(4) by simp
    moreover have "file_open k i s1"
      using writing_mono [OF 1(2), of k] F i1 m1 z by (simp add: file_open_def)
    ultimately show ?thesis using head False i1(1,6,7) n1 z wstep_spares [OF 1(3)] by auto
  next
    case True
    obtain s2 where 2: "inode_update i (set_size i (off + ?n) s1) = Inr ((), s2)" "writing k i s2"
      "inodes s2 = inodes (set_size i (off + ?n) s1)" "global_sb s2 = global_sb s1" "disk s2 = disk s1"
      "only_inodes s1 s2" "\<forall>b. b \<notin> meta s1 \<longrightarrow> blk s2 b = blk s1 b" "\<forall>p. p div BSIZE < MAXFILE \<longrightarrow> fbyte s2 i p = fbyte s1 i p"
      "\<forall>p. mapped s1 i p \<longrightarrow> mapped s2 i p" "nfree s1 \<le> nfree s2"
      using write_size [of k i s1 "off + ?n"] 1(2) F(3) i1 by auto
    have i2: "inodes s2 ! i = (inodes s1 ! i)\<lparr>i_size := off + ?n\<rparr>" "j \<noteq> i \<Longrightarrow> inodes s2 ! j = inodes s1 ! j" for j
      using 2(3) writingD(3) [OF 1(2)] by (simp_all add: set_size_def)
    have z: "i_size (inodes s2 ! i) = max ?z (off + ?n)" using i2(1) True by simp
    have "content s2 i = blit off src (content s i)"
      using content_blit [OF off z] 1(4) 2(8) small z max F(4) by simp
    moreover have "file_open k i s2"
      using 2 F i1 i2(1) m1 z max by (simp add: file_open_def)
    moreover have "spares i s s2"
      using wstep_spares [OF 1(3)] 2(5,7) i1(5) i2(2) only_inodes_trans [OF wstep_only_inodes [OF 1(3)] 2(6)]
      by (simp add: spares_def)
    ultimately show ?thesis using head True 2(1,10) n1 i1(6,7) i2(1) z by (auto simp: thenk_run returnk_run)
  qed
qed

section \<open>An inode read back\<close>

lemma take_drop_concat:
  assumes "k < length vs"
  shows "take n (drop (n * k) (concat (map (le_bytes n) vs))) = le_bytes n (vs ! k)"
  using assms
proof (induction vs arbitrary: k)
  case (Cons v vs)
  show ?case
  proof (cases k)
    case (Suc j)
    then show ?thesis using Cons by simp
  qed simp
qed simp

lemma get_le_addrs:
  assumes "k < length vs" and "p + 8 * length vs \<le> length d" and "vs ! k < 2 ^ 64"
  shows "get_le (p + 8 * k) 8 (blit p (concat (map (le_bytes 8) vs)) d) = vs ! k"
proof -
  have "drop (p + 8 * k) (blit p (concat (map (le_bytes 8) vs)) d) =
      drop (8 * k) (concat (map (le_bytes 8) vs)) @ drop (p + 8 * length vs) d"
    using assms(1,2) by (simp add: blit_def)
  then have "get_le (p + 8 * k) 8 (blit p (concat (map (le_bytes 8) vs)) d) = le_val (le_bytes 8 (vs ! k))"
    using take_drop_concat [OF assms(1), of 8] assms(1) by (simp add: get_le_def)
  then show ?thesis using assms(3) by (simp add: le_val_le_bytes)
qed

lemma get_put_short:
  assumes "off + 2 \<le> length d"
  shows "- (2 ^ 15) \<le> v \<Longrightarrow> v < 2 ^ 15 \<Longrightarrow> get_short off (put_short off v d) = v"
    and "p + 2 \<le> off \<or> off + 2 \<le> p \<Longrightarrow> get_short p (put_short off v d) = get_short p d"
proof -
  assume v: "- (2 ^ 15) \<le> v" "v < 2 ^ 15"
  have "nat (v mod 2 ^ 16) < 256 ^ 2" by (simp add: nat_less_iff)
  then have g: "get_le off 2 (put_short off v d) = nat (v mod 2 ^ 16)"
    using get_put_le_same assms by (simp add: put_short_def)
  have "v mod 65536 = (v + 65536) mod 65536" by simp
  then have "v mod 2 ^ 16 = (if 0 \<le> v then v else v + 2 ^ 16)" using v by (auto simp del: mod_add_self2)
  then show "get_short off (put_short off v d) = v" using v g by (auto simp: get_short_def Let_def split: if_splits)
next
  show "p + 2 \<le> off \<or> off + 2 \<le> p \<Longrightarrow> get_short p (put_short off v d) = get_short p d"
    using assms by (simp add: get_short_def put_short_def get_put_le_other)
qed

text \<open>The values of an inode fit the fields they are stored in.\<close>

definition inode_fits :: "inode \<Rightarrow> bool" where
  "inode_fits ip \<longleftrightarrow> length (i_addrs ip) = NDIRECT + 2 \<and> (\<forall>a\<in>set (i_addrs ip). a < 2 ^ 64) \<and> i_size ip < 2 ^ 64 \<and>
     i_mode ip < 2 ^ 32 \<and> i_ctime ip < 2 ^ 64 \<and>
     (\<forall>v\<in>{i_major ip, i_minor ip, i_nlink ip}. - (2 ^ 15) \<le> v \<and> v < 2 ^ 15)"

lemma get_short_put_le: "off + n \<le> length d \<Longrightarrow> p + 2 \<le> off \<or> off + n \<le> p \<Longrightarrow> get_short p (put_le off n v d) = get_short p d"
  by (simp add: get_short_def get_put_le_other)

lemma get_le_put_short: "off + 2 \<le> length d \<Longrightarrow> p + n \<le> off \<or> off + 2 \<le> p \<Longrightarrow> get_le p n (put_short off v d) = get_le p n d"
  by (simp add: put_short_def get_put_le_other)

lemma get_short_blit: "off + length new \<le> length d \<Longrightarrow> p + 2 \<le> off \<or> off + length new \<le> p \<Longrightarrow>
   get_short p (blit off new d) = get_short p d"
  by (simp add: get_short_def get_le_blit_other)

lemma length_put_short [simp]: "off + 2 \<le> length d \<Longrightarrow> length (put_short off v d) = length d"
  by (simp add: put_short_def)

lemmas dinode_fields = get_put_le_same get_put_le_other get_short_put_le get_le_put_short get_put_short get_short_blit
  get_le_blit_other

lemma load_store_dinode:
  assumes d: "off + DINODE_SIZE \<le> length d" and f: "inode_fits ip" and now: "now < 2 ^ 64"
  shows "load_dinode off (store_dinode off now ip d) ip =
    ip\<lparr>i_atime := now, i_mtime := now, i_uid := get_le (off + 38) 2 d, i_gid := get_le (off + 36) 2 d\<rparr>"
proof -
  have d': "off + 128 \<le> length d" using d by (simp add: DINODE_SIZE_def)
  have F: "length (i_addrs ip) = 10" "\<forall>k<10. i_addrs ip ! k < 2 ^ 64" "i_size ip < 256 ^ 8" "i_mode ip < 256 ^ 4"
    "i_ctime ip < 256 ^ 8" "now < 256 ^ 8"
    "- (2 ^ 15) \<le> i_major ip" "i_major ip < 2 ^ 15" "- (2 ^ 15) \<le> i_minor ip" "i_minor ip < 2 ^ 15"
    "- (2 ^ 15) \<le> i_nlink ip" "i_nlink ip < 2 ^ 15"
    using f now by (auto simp: inode_fits_def NDIRECT_def)
  let ?d = "store_dinode off now ip d"
  have a: "map (\<lambda>k. get_le (off + 40 + 8 * k) 8 ?d) [0..<NDIRECT + 2] = i_addrs ip"
  proof (rule nth_equalityI)
    fix k assume "k < length (map (\<lambda>k. get_le (off + 40 + 8 * k) 8 ?d) [0..<NDIRECT + 2])"
    then have k: "k < length (i_addrs ip)" using F(1) by (simp add: NDIRECT_def)
    then show "map (\<lambda>k. get_le (off + 40 + 8 * k) 8 ?d) [0..<NDIRECT + 2] ! k = i_addrs ip ! k"
      using get_le_addrs [OF k, of "off + 40"] F(1,2) d' by (simp add: store_dinode_def NDIRECT_def)
  qed (simp add: F(1) NDIRECT_def)
  have s: "get_short (off + 120) ?d = i_major ip" "get_short (off + 122) ?d = i_minor ip" "get_short (off + 124) ?d = i_nlink ip"
    using d' F by (simp_all add: store_dinode_def dinode_fields)
  have l: "get_le (off + 24) 8 ?d = i_size ip" "get_le (off + 32) 4 ?d = i_mode ip" "get_le (off + 8) 8 ?d = now"
    "get_le off 8 ?d = i_ctime ip" "get_le (off + 16) 8 ?d = now"
    "get_le (off + 38) 2 ?d = get_le (off + 38) 2 d" "get_le (off + 36) 2 ?d = get_le (off + 36) 2 d"
    using d' F by (simp_all add: store_dinode_def dinode_fields)
  show ?thesis unfolding load_dinode_def a s l by simp
qed

text \<open>Locking an inode that is not in memory reads it from its block.\<close>

lemma inode_lock_loads:
  assumes r: "ready {} s" and i: "i < length (inodes s)" and b: "IBLOCK (i_inum (inodes s ! i)) (global_sb s) < FSSIZE"
    and ip: "i_dev (inodes s ! i) = 1" "1 \<le> i_ref (inodes s ! i)" "\<not> sl_locked (i_lock (inodes s ! i))"
      "\<not> i_valid (inodes s ! i)"
    and ld: "ip' = load_dinode (dinode_off (i_inum (inodes s ! i))) (blk s (IBLOCK (i_inum (inodes s ! i)) (global_sb s)))
      ((inodes s ! i)\<lparr>i_lock := \<lparr>sl_locked = True, sl_pid = me s\<rparr>\<rparr>)"
    and m: "i_mode ip' \<noteq> 0"
  shows "\<exists>s'. inode_lock i s = Inr ((), s') \<and> inodes s' = (inodes s)[i := ip'\<lparr>i_valid := True\<rparr>] \<and> blk s' = blk s \<and>
    disk s' = disk s \<and> ready {} s'"
proof -
  let ?ip = "inodes s ! i" let ?b = "IBLOCK (i_inum ?ip) (global_sb s)"
  let ?s1 = "upd_inode i (\<lambda>ip. ip\<lparr>i_lock := \<lparr>sl_locked = True, sl_pid = me s\<rparr>\<rparr>) s"
  let ?g = "load_dinode (dinode_off (i_inum ?ip)) (blk s ?b)"
  have r1: "rest {} ?s1" "card (dirty ?s1) < NBUF" using r by (simp_all add: ready_def)
  then obtain x s2 where 1: "block_read 1 ?b ?s1 = Inr (x, s2)" "rest {x} s2" "held s2 x ?b" "settled s2 x"
    "b_data (bufs s2 ! x) = blk s ?b" "blk s2 = blk s" "disk s2 = disk s" "dirty s2 = dirty s" "calm ?s1 s2"
    using rest_read [OF r1(1) _ b] by auto
  let ?s2 = "upd_inode i ?g s2"
  have h: "held ?s2 x ?b" "settled ?s2 x" "rest {x} ?s2" using 1(2-4) by (simp_all add: held_def settled_def)
  obtain s3 where 2: "block_release x ?s2 = Inr ((), s3)" "rest {} s3" "blk s3 = blk s" "disk s3 = disk s"
    "dirty s3 = dirty s" "calm ?s2 s3"
    using rest_release [OF h(3,1,2)] 1(6-8) by auto
  have i2: "inodes s2 = inodes ?s1" "inodes s3 = inodes ?s2" using calm_fs(1) [OF 1(9)] calm_fs(1) [OF 2(6)] by auto
  let ?s' = "upd_inode i (\<lambda>ip. ip\<lparr>i_valid := True\<rparr>) s3"
  have in': "inodes ?s' = (inodes s)[i := ip'\<lparr>i_valid := True\<rparr>]" using i i2 ld by simp
  have "i_mode (inodes ?s' ! i) = i_mode ip'" using in' i by simp
  then have "inode_lock i s = Inr ((), ?s')"
    using ip m 1(1,5) 2(1)
    by (simp add: inode_lock_def Let_def kern_simps acquiresleep_inode_def holdingsleep_def me_def)
  moreover have "ready {} ?s'" using 2 r by (simp add: ready_def)
  ultimately show ?thesis using in' 2(3,4) by auto
qed

section \<open>Properties\<close>

text \<open>An empty regular file, open and locked by process 1, on the example disk.\<close>

definition example_inode :: inode where
  "example_inode = \<lparr>i_dev = 1, i_rf = None, i_wf = None, i_inum = 1, i_fattrs = 0, i_ref = 1,
     i_lock = \<lparr>sl_locked = True, sl_pid = 1\<rparr>, i_valid = True, i_ctime = 0, i_atime = 0, i_mtime = 0, i_size = 0,
     i_mode = S_IFREG, i_gid = 0, i_uid = 0, i_addrs = replicate 10 0, i_major = 0, i_minor = 0, i_nlink = 1\<rparr>"

lemma example_ptr: "vpos p \<Longrightarrow> ptr B (replicate 10 0) p = 0"
  by (cases p) (auto simp: NDIRECT_def ent_def)

lemma example_tree: "tree_ok (fs_example tab) (replicate 10 0)"
  unfolding tree_ok_def using example_ptr by (auto simp: NDIRECT_def)

lemma example_open: "k \<le> 29 \<Longrightarrow> file_open k 0 (fs_example [example_inode])"
proof -
  assume k: "k \<le> 29"
  have "me (fs_example [example_inode]) = 1" by (simp add: me_def cur_def fs_example_def)
  then have "writing k 0 (fs_example [example_inode])"
    using fs_example_txn [OF k] fs_example_layout example_tree
    by (simp add: writing_def example_inode_def holdingsleep_def me_def)
  then show ?thesis
    by (simp add: file_open_def example_inode_def S_ISCHR_def S_ISTYPE_def S_IFREG_def S_IFMT_def S_IFCHR_def fs_example_sb_def)
qed

lemma example_nfree: "nfree (fs_example tab) = 65"
proof -
  have "{b. b < sb_size (global_sb (fs_example tab)) \<and> \<not> used (fs_example tab) b} = {35..<100}"
    using fs_example_used by (auto simp: fs_example_sb_def)
  then show ?thesis by (simp add: nfree_def)
qed

text \<open>
  C8: What is written to a file is what is read from it: on an open file, inside a transaction with
  room in the log and on the disk, \<^verbatim>\<open>inode_write\<close> at any offset up to the end of the file succeeds, the
  contents of the file become the old contents overwritten, and if needed extended, by the bytes
  written, no block of another file and no other inode changes, and \<^verbatim>\<open>inode_read\<close> of the same range
  returns the bytes written. This holds across the direct, indirect and doubly indirect blocks and
  includes the allocation of missing blocks.
\<close>

theorem inode_write_read:
  assumes "file_open (k + 11 * span off (length src) + 1) i s" and "off \<le> i_size (inodes s ! i)"
    and "off + length src \<le> MAXFILE * BSIZE" and "3 * span off (length src) \<le> nfree s"
  shows "\<exists>s1 s2. inode_write i src (int off) s = Inr (int (length src), s1) \<and>
    content s1 i = blit off src (content s i) \<and> spares i s s1 \<and> file_open k i s1 \<and>
    inode_read i (int off) (length src) s1 = Inr ((int (length src), src), s2) \<and> content s2 i = content s1 i"
proof -
  obtain s1 where 1: "inode_write i src (int off) s = Inr (int (length src), s1)" "file_open k i s1"
    "i_size (inodes s1 ! i) = max (i_size (inodes s ! i)) (off + length src)"
    "content s1 i = blit off src (content s i)" "spares i s s1"
    using inode_write_spec [OF assms] by blast
  have F: "writing k i s1" "\<not> S_ISCHR (i_mode (inodes s1 ! i))" "\<forall>p < i_size (inodes s1 ! i). mapped s1 i p"
    "i_size (inodes s1 ! i) \<le> MAXFILE * BSIZE"
    using 1(2) by (auto simp: file_open_def)
  have big: "MAXFILE * BSIZE < 2 ^ 62" by (simp add: MAXFILE_def NDIRECT_def NINDIRECT_def BSIZE_def)
  have bd: "i_size (inodes s1 ! i) < 2 ^ 63" "off \<le> i_size (inodes s1 ! i)" "off + length src < 2 ^ 63"
    using F(4) big assms(2,3) 1(3) by auto
  obtain s2 where 2: "inode_read i (int off) (length src) s1 =
      Inr ((int (min (length src) (i_size (inodes s1 ! i) - off)), take (length src) (drop off (content s1 i))), s2)"
    "reads {} s1 s2"
    using inode_read_spec [OF writing_reading [OF F(1)] F(2) bd(1) F(3) bd(2,3)] by blast
  have "min (length src) (i_size (inodes s1 ! i) - off) = length src" using 1(3) by auto
  moreover have "take (length src) (drop off (content s1 i)) = src"
    using 1(4) assms(2) by (simp add: blit_def content_def)
  moreover have "content s2 i = content s1 i"
    using reads_fbyte(1) [OF 2(2)] calm_fs(1) [OF readsD(2) [OF 2(2)]] by (simp add: content_def)
  ultimately show ?thesis using 1 2(1) by auto
qed

theorem inode_write_read_witness:
  "\<exists>s1 s2. inode_write 0 [1, 2, 3] 0 (fs_example [example_inode]) = Inr (3, s1) \<and> content s1 0 = [1, 2, 3] \<and>
    inode_read 0 0 3 s1 = Inr ((3, [1, 2, 3]), s2)"
proof -
  let ?s = "fs_example [example_inode]" let ?src = "[1, 2, 3] :: byte list"
  have sp: "span 0 (length ?src) = 1" by (simp add: span_def BSIZE_def)
  have c: "content ?s 0 = []" by (simp add: content_def example_inode_def)
  have "\<exists>s1 s2. inode_write 0 ?src (int 0) ?s = Inr (int (length ?src), s1) \<and>
    content s1 0 = blit 0 ?src (content ?s 0) \<and> spares 0 ?s s1 \<and> file_open 0 0 s1 \<and>
    inode_read 0 (int 0) (length ?src) s1 = Inr ((int (length ?src), ?src), s2) \<and> content s2 0 = content s1 0"
    using inode_write_read [of 0 0 ?src 0 ?s] example_open [of 12] example_nfree sp
    by (simp add: MAXFILE_def NDIRECT_def NINDIRECT_def BSIZE_def)
  then show ?thesis using c by (auto simp: blit_def numeral_3_eq_3)
qed



text \<open>
  An offset that is negative or beyond the end of the file, and a request whose end does not fit
  a signed 64-bit integer, are refused by \<^verbatim>\<open>inode_read\<close> and \<^verbatim>\<open>inode_write\<close> alike with \<^verbatim>\<open>-EDOM\<close>, as is a
  write beyond the largest size of a file; nothing is changed.
\<close>

theorem offsets_checked:
  assumes "holdingsleep (i_lock (inodes s ! i)) s" and "\<not> S_ISCHR (i_mode (inodes s ! i))"
    and "i_size (inodes s ! i) < 2 ^ 63" and "- (2 ^ 63) \<le> off" and "off < 2 ^ 63"
  shows "(off < 0 \<or> int (i_size (inodes s ! i)) < off \<or> 2 ^ 63 \<le> off + int n \<longrightarrow>
      inode_read i off n s = Inr ((- 33, []), s)) \<and>
    (off < 0 \<or> int (i_size (inodes s ! i)) < off \<or> int (MAXFILE * BSIZE) < off + int (length src) \<longrightarrow>
      inode_write i src off s = Inr (- 33, s))"
proof (intro conjI impI)
  have big: "int (MAXFILE * BSIZE) < 2 ^ 62" by (simp add: MAXFILE_def NDIRECT_def NINDIRECT_def BSIZE_def)
  have "off < 0 \<Longrightarrow> off mod 2 ^ 64 = off + 2 ^ 64"
    using assms(4) mod_pos_pos_trivial [of "off + 2 ^ 64" "2 ^ 64"] by simp
  then have neg: "off < 0 \<Longrightarrow> off_bad off m (i_size (inodes s ! i))" for m using assms(3,4) by (simp add: off_bad_def zless_nat_eq_int_zless)
  have "0 \<le> off \<Longrightarrow> off mod 2 ^ 64 = off" using assms(5) by simp
  then have pos: "0 \<le> off \<Longrightarrow> off_bad off m (i_size (inodes s ! i)) \<longleftrightarrow> int (i_size (inodes s ! i)) < off \<or> 2 ^ 63 \<le> off + int m"
    for m by (auto simp: off_bad_def)
  show "inode_read i off n s = Inr ((- 33, []), s)"
    if "off < 0 \<or> int (i_size (inodes s ! i)) < off \<or> 2 ^ 63 \<le> off + int n"
  proof -
    have "off_bad off n (i_size (inodes s ! i))" using that neg pos by (cases "off < 0") auto
    then show ?thesis using assms(1,2) by (simp add: inode_read_def Let_def kern_simps)
  qed
  show "inode_write i src off s = Inr (- 33, s)"
    if w: "off < 0 \<or> int (i_size (inodes s ! i)) < off \<or> int (MAXFILE * BSIZE) < off + int (length src)"
  proof (cases "off_bad off (length src) (i_size (inodes s ! i))")
    case False
    then have "0 \<le> off" using neg by (meson not_le)
    with w False pos have "int (MAXFILE * BSIZE) < int (nat off + length src)" by auto
    then have "nat off + length src > MAXFILE * BSIZE" by (simp only: of_nat_less_iff)
    with False assms(1,2) show ?thesis by (simp add: inode_write_def Let_def kern_simps)
  qed (use assms(1,2) in \<open>simp add: inode_write_def Let_def kern_simps\<close>)
qed

theorem offsets_checked_witness:
  "inode_read 0 (- 1) 4 (fs_example [example_inode]) = Inr ((- 33, []), fs_example [example_inode]) \<and>
   inode_write 0 [7] 9 (fs_example [example_inode]) = Inr (- 33, fs_example [example_inode])"
proof -
  let ?s = "fs_example [example_inode]"
  have F: "holdingsleep (i_lock (inodes ?s ! 0)) ?s" "\<not> S_ISCHR (i_mode (inodes ?s ! 0))" "i_size (inodes ?s ! 0) < 2 ^ 63"
    using example_open [of 0] by (auto simp: file_open_def writing_def example_inode_def)
  show ?thesis
    using offsets_checked [OF F, of "- 1" 4 "[]"] offsets_checked [OF F, of 9 0 "[7]"] by (simp add: example_inode_def)
qed



end
