(* ===== verification/Kern_Vfs.thy ===== *)
theory Kern_Vfs
  imports Kern_File Kern_Rw
begin

text \<open>
  Writing to an open file, from \<^verbatim>\<open>vfs_write\<close> of \<^verbatim>\<open>kernel/file.c\<close> down to the disk: each piece is written
  in a transaction of its own, and when the call returns the bytes are in the file and on disk.
\<close>

section \<open>Agreement outside of the log\<close>

text \<open>A commit changes blocks of the log only; nothing of the file system is kept there.\<close>

definition agree :: "'z fs_state_scheme \<Rightarrow> 'z fs_state_scheme \<Rightarrow> bool" where
  "agree s s' \<longleftrightarrow> (\<forall>b. b \<notin> log_area s \<longrightarrow> blk s' b = blk s b) \<and> global_sb s' = global_sb s \<and>
     log_area s' = log_area s"

lemma agree_used:
  assumes "agree s s'" and "layout s" and "b < sb_size (global_sb s)"
  shows "used s' b = used s b"
proof -
  have "BBLOCK b (global_sb s) \<notin> log_area s" using layoutD(4) [OF assms(2)] map_blocks_meta(1) [OF assms(3)] by blast
  with assms(1) show ?thesis by (simp add: agree_def used_def)
qed

lemma agree_meta: "agree s s' \<Longrightarrow> meta s' = meta s"
  by (simp add: agree_def meta_def)

lemma agree_layout: "agree s s' \<Longrightarrow> layout s \<Longrightarrow> layout s'"
  using agree_used [of s s'] layoutD(2,3) [of s] agree_meta [of s s'] by (auto simp: layout_def agree_def)

lemma agree_nfree: "agree s s' \<Longrightarrow> layout s \<Longrightarrow> nfree s' = nfree s"
proof -
  assume *: "agree s s'" "layout s"
  then have "{b. b < sb_size (global_sb s') \<and> \<not> used s' b} = {b. b < sb_size (global_sb s) \<and> \<not> used s b}"
    using agree_used [OF *] by (auto simp: agree_def)
  then show ?thesis by (simp add: nfree_def)
qed

lemma agree_ptr:
  assumes "agree s s'" and "tree_ok s a" and "vpos q"
  shows "ptr (blk s') a q = ptr (blk s) a q"
  using assms(3)
proof (induction q rule: pos_induct)
  case (top q k)
  then show ?case by (simp add: ptr_home [of _ _ q])
next
  case (below q pp k)
  have v: "vpos pp" using home_vpos(2) [OF below(3,1)] .
  have "ptr (blk s) a pp \<noteq> 0 \<Longrightarrow> ptr (blk s) a pp \<notin> log_area s"
    using tree_okD(4) [OF assms(2) v] map_blocks_meta(4) by blast
  then have "ptr (blk s) a pp \<noteq> 0 \<Longrightarrow> blk s' (ptr (blk s) a pp) = blk s (ptr (blk s) a pp)"
    using assms(1) by (simp add: agree_def)
  then show ?case using below(1) below(2) [OF v] by (simp add: ptr_home [of _ _ q] ent_def)
qed

lemma agree_tree:
  assumes "agree s s'" and "layout s" and "tree_ok s a"
  shows "tree_ok s' a" and "vpos p \<Longrightarrow> dat s' a p = dat s a p"
proof -
  have P: "ptr (blk s') a q = ptr (blk s) a q" if "vpos q" for q using agree_ptr [OF assms(1,3) that] .
  show "tree_ok s' a"
    unfolding tree_ok_def using tree_okD [OF assms(3)] P agree_used [OF assms(1,2)] agree_meta [OF assms(1)] assms(1)
    by (auto simp: agree_def)
  show "dat s' a p = dat s a p" if "vpos p"
  proof -
    have "ptr (blk s) a p \<noteq> 0 \<Longrightarrow> ptr (blk s) a p \<notin> log_area s"
      using tree_okD(4) [OF assms(3) that] map_blocks_meta(4) by blast
    then show ?thesis using P [OF that] assms(1) by (auto simp: dat_def agree_def)
  qed
qed

section \<open>A file between operations\<close>

text \<open>
  \<open>at_rest i s\<close>: no operation is open, everything is on disk, and the file of inode \<open>i\<close> is in memory,
  not locked, and complete.
\<close>

definition at_rest :: "nat \<Rightarrow> 'z fs_state_scheme \<Rightarrow> bool" where
  "at_rest i s \<longleftrightarrow> log_inv {} s \<and> l_outstanding s = 0 \<and> \<not> l_committing s \<and> l_n s = 0 \<and> 24 \<le> l_size s \<and>
     layout s \<and> i < length (inodes s) \<and> i_dev (inodes s ! i) = 1 \<and> i_valid (inodes s ! i) \<and> 1 \<le> i_ref (inodes s ! i) \<and>
     \<not> sl_locked (i_lock (inodes s ! i)) \<and> tree_ok s (addrs s i) \<and> \<not> S_ISCHR (i_mode (inodes s ! i)) \<and>
     i_inum (inodes s ! i) < sb_ninodes (global_sb s) \<and> i_size (inodes s ! i) \<le> MAXFILE * BSIZE \<and>
     (\<forall>p < i_size (inodes s ! i). mapped s i p)"

abbreviation lock_it :: "'z fs_state_scheme \<Rightarrow> inode \<Rightarrow> inode" where
  "lock_it s ip \<equiv> ip\<lparr>i_lock := \<lparr>sl_locked = True, sl_pid = me s\<rparr>\<rparr>"

definition opened :: "nat \<Rightarrow> 'z fs_state_scheme \<Rightarrow> 'z fs_state_scheme" where
  "opened i s = upd_inode i (lock_it s) (s\<lparr>l_outstanding := 1\<rparr>)"

lemma outstanding_fs:
  "blk (s\<lparr>l_outstanding := n\<rparr>) = blk s" "me (s\<lparr>l_outstanding := n\<rparr>) = me s" "used (s\<lparr>l_outstanding := n\<rparr>) = used s"
  "meta (s\<lparr>l_outstanding := n\<rparr>) = meta s" "layout (s\<lparr>l_outstanding := n\<rparr>) = layout s"
  "tree_ok (s\<lparr>l_outstanding := n\<rparr>) a = tree_ok s a" "dat (s\<lparr>l_outstanding := n\<rparr>) a p = dat s a p"
  "nfree (s\<lparr>l_outstanding := n\<rparr>) = nfree s" "log_area (s\<lparr>l_outstanding := n\<rparr>) = log_area s"
  "log_inv H (s\<lparr>l_outstanding := n\<rparr>) = log_inv H s"
proof -
  have b: "log_only s (s\<lparr>l_outstanding := n\<rparr>)" by simp
  show B: "blk (s\<lparr>l_outstanding := n\<rparr>) = blk s" "me (s\<lparr>l_outstanding := n\<rparr>) = me s" using log_only_bio [OF b] by auto
  show L: "log_area (s\<lparr>l_outstanding := n\<rparr>) = log_area s" by (simp add: log_area_def)
  show u: "used (s\<lparr>l_outstanding := n\<rparr>) = used s" by (rule used_cong) (simp_all add: B)
  show m: "meta (s\<lparr>l_outstanding := n\<rparr>) = meta s" by (simp add: meta_def L)
  show "layout (s\<lparr>l_outstanding := n\<rparr>) = layout s" by (simp add: layout_def m u L)
  show "tree_ok (s\<lparr>l_outstanding := n\<rparr>) a = tree_ok s a" "dat (s\<lparr>l_outstanding := n\<rparr>) a p = dat s a p"
    "nfree (s\<lparr>l_outstanding := n\<rparr>) = nfree s"
    by (simp_all add: tree_ok_def dat_def nfree_def B u m)
  show "log_inv H (s\<lparr>l_outstanding := n\<rparr>) = log_inv H s" by (rule log_inv_cong [OF b]) simp_all
qed

lemma opened_file:
  assumes "at_rest i s"
  shows "file_open 23 i (opened i s)" and "content (opened i s) i = content s i" and "nfree (opened i s) = nfree s"
    and "i_size (inodes (opened i s) ! i) = i_size (inodes s ! i)"
proof -
  let ?s = "s\<lparr>l_outstanding := 1\<rparr>" and ?t = "opened i s"
  have i: "inodes ?t ! i = lock_it s (inodes s ! i)" "length (inodes ?t) = length (inodes s)"
    using assms by (simp_all add: opened_def at_rest_def)
  have t: "tree_ok ?t a = tree_ok s a" "dat ?t a p = dat s a p" for a p
    by (simp_all add: opened_def tree_ok_def dat_def outstanding_fs)
  have x: "txn 23 {} ?t" using assms by (simp add: opened_def txn_def at_rest_def outstanding_fs)
  have h: "holdingsleep (i_lock (inodes ?t ! i)) ?t"
    using i(1) by (simp add: holdingsleep_def opened_def me_def cur_def)
  have l: "layout ?t" "global_sb ?t = global_sb s" using assms by (simp_all add: opened_def at_rest_def outstanding_fs)
  have w: "writing 23 i ?t" using assms x l h i t by (simp add: writing_def at_rest_def)
  have b: "blk ?t = blk s" by (simp add: opened_def outstanding_fs)
  show "file_open 23 i ?t" using w assms i l b by (simp add: file_open_def at_rest_def mapped_def)
  have "fbyte ?t i p = fbyte s i p" for p using i t by (simp add: fbyte_def)
  then show "content ?t i = content s i" using i by (simp add: content_def)
  show "nfree ?t = nfree s" by (simp add: opened_def nfree_def outstanding_fs)
  show "i_size (inodes ?t ! i) = i_size (inodes s ! i)" using i by simp
qed

lemma files_fs:
  "log_inv H (s\<lparr>files := fs\<rparr>) = log_inv H s" "blk (s\<lparr>files := fs\<rparr>) = blk s" "log_area (s\<lparr>files := fs\<rparr>) = log_area s"
  "layout (s\<lparr>files := fs\<rparr>) = layout s" "tree_ok (s\<lparr>files := fs\<rparr>) a = tree_ok s a" "nfree (s\<lparr>files := fs\<rparr>) = nfree s"
proof -
  show b: "blk (s\<lparr>files := fs\<rparr>) = blk s" by (rule ext) (simp add: blk_def split: option.split)
  have d: "dirty (s\<lparr>files := fs\<rparr>) = dirty s" by (simp add: dirty_def)
  have r: "rest H (s\<lparr>files := fs\<rparr>) = rest H s"
    unfolding rest_def bio_inv_def sized_def b by (simp add: runs_def buf_ok_def cur_def)
  show "log_inv H (s\<lparr>files := fs\<rparr>) = log_inv H s"
    unfolding log_inv_def r d by (simp add: log_shape_def logged_def log_area_def)
  show l: "log_area (s\<lparr>files := fs\<rparr>) = log_area s" by (simp add: log_area_def)
  have u: "used (s\<lparr>files := fs\<rparr>) = used s" by (rule used_cong) (simp_all add: b)
  have m: "meta (s\<lparr>files := fs\<rparr>) = meta s" by (simp add: meta_def l)
  show "layout (s\<lparr>files := fs\<rparr>) = layout s" by (simp add: layout_def m u l)
  show "tree_ok (s\<lparr>files := fs\<rparr>) a = tree_ok s a" "nfree (s\<lparr>files := fs\<rparr>) = nfree s"
    by (simp_all add: tree_ok_def nfree_def b u m)
qed

lemma upd_file_log [simp]:
  "log_inv H (upd_file f g s) = log_inv H s" "blk (upd_file f g s) = blk s" "inodes (upd_file f g s) = inodes s"
  "global_sb (upd_file f g s) = global_sb s" "log_area (upd_file f g s) = log_area s" "me (upd_file f g s) = me s"
  "files (upd_file f g s) = (files s)[f := g (files s ! f)]" "l_outstanding (upd_file f g s) = l_outstanding s"
  "l_committing (upd_file f g s) = l_committing s" "l_size (upd_file f g s) = l_size s" "cur (upd_file f g s) = cur s"
  "l_start (upd_file f g s) = l_start s"
  by (simp_all add: upd_file_def files_fs me_def cur_def)

lemma wakeup1_fs [simp]:
  "inodes (wakeup1 c s) = inodes s" "global_sb (wakeup1 c s) = global_sb s" "files (wakeup1 c s) = files s"
  by (simp_all add: wakeup1_def)

lemma more_fs:
  assumes "log_state.more s' = log_state.more s"
  shows "inodes s' = inodes s" and "files s' = files s" and "global_sb s' = global_sb s"
  using assms by (cases s; cases s'; simp)+

lemma inode_unlock_run:
  "1 \<le> i_ref (inodes s ! i) \<Longrightarrow> holdingsleep (i_lock (inodes s ! i)) s \<Longrightarrow>
   inode_unlock i s = Inr ((), wakeup1 (ChanInodeLock i) (upd_inode i (\<lambda>ip. ip\<lparr>i_lock := unlocked\<rparr>) s))"
  by (simp add: inode_unlock_def Let_def kern_simps releasesleep_inode_def wakeup_run)

lemma begin_op_run:
  "at_rest i s \<Longrightarrow> begin_op s = Inr ((), s\<lparr>l_outstanding := 1\<rparr>)"
  by (simp add: begin_op_def kern_simps at_rest_def MAXOPBLOCKS_def LOGSIZE_def)

lemma inode_lock_run:
  "at_rest i s \<Longrightarrow> inode_lock i (s\<lparr>l_outstanding := 1\<rparr>) = Inr ((), opened i s)"
  by (simp add: inode_lock_def Let_def kern_simps at_rest_def acquiresleep_inode_def holdingsleep_def opened_def me_def cur_def)

text \<open>
  Closing the operation: from the state after the write to the state after \<^verbatim>\<open>end_op\<close>.
\<close>

lemma close_op:
  assumes f: "file_open k i t" and r: "1 \<le> i_ref (inodes t ! i)" "i_valid (inodes t ! i)"
    and l: "l_outstanding t = 1" "\<not> l_committing t" "24 \<le> l_size t"
  shows "\<exists>s'. thenk (inode_unlock i) end_op (upd_file f g t) = Inr ((), s') \<and> at_rest i s' \<and> content s' i = content t i \<and>
    nfree s' = nfree t \<and> files s' = (files t)[f := g (files t ! f)] \<and>
    i_size (inodes s' ! i) = i_size (inodes t ! i) \<and> (\<forall>b. b \<notin> log_area t \<longrightarrow> disk s' 1 b = blk s' b)"
proof -
  let ?t1 = "upd_file f g t"
  let ?t2 = "wakeup1 (ChanInodeLock i) (upd_inode i (\<lambda>ip. ip\<lparr>i_lock := unlocked\<rparr>) ?t1)"
  have F: "writing k i t" "\<not> S_ISCHR (i_mode (inodes t ! i))" "i_inum (inodes t ! i) < sb_ninodes (global_sb t)"
    "i_size (inodes t ! i) \<le> MAXFILE * BSIZE" "\<forall>p < i_size (inodes t ! i). mapped t i p"
    using f by (auto simp: file_open_def)
  note W = writingD [OF F(1)]
  have "holdingsleep (i_lock (inodes ?t1 ! i)) ?t1" using W(5) by (simp add: holdingsleep_def)
  then have u: "inode_unlock i ?t1 = Inr ((), ?t2)" using inode_unlock_run [of ?t1 i] r by simp
  have inv: "log_inv {} ?t2" using txnD(1) [OF W(1)] by simp
  have o: "l_outstanding ?t2 = 1" "\<not> l_committing ?t2" using l by (simp_all add: upd_inode_def)
  obtain s' where e: "end_op ?t2 = Inr ((), s')" "log_inv {} s'" "l_n s' = 0" "l_outstanding s' = 0" "\<not> l_committing s'"
    "\<forall>b. b \<notin> log_area ?t2 \<longrightarrow> disk s' 1 b = blk ?t2 b \<and> blk s' b = blk ?t2 b"
    "log_state.more s' = log_state.more ?t2" "l_start s' = l_start ?t2" "l_size s' = l_size ?t2"
    using end_op_spec [OF inv o] by blast
  note m = more_fs [OF e(7)]
  have area: "log_area ?t2 = log_area t" by (simp add: log_area_def)
  have ag: "agree t s'" unfolding agree_def using e(6,8,9) m(3) area by (simp add: log_area_def)
  have i': "inodes s' ! i = (inodes t ! i)\<lparr>i_lock := unlocked\<rparr>" "length (inodes s') = length (inodes t)"
    using m(1) W(3) by simp_all
  have mp: "mapped s' i p" if "mapped t i p" for p
    using that agree_ptr [OF ag W(6)] i' leaf_vpos by (auto simp: mapped_def)
  have fb: "fbyte s' i p = fbyte t i p" if "p div BSIZE < MAXFILE" for p
    using agree_tree(2) [OF ag W(2,6) leaf_vpos [OF that]] i' by (simp add: fbyte_def)
  have small: "p div BSIZE < MAXFILE" if "p < i_size (inodes t ! i)" for p
    using that F(4) by (intro less_mult_imp_div_less) simp
  have "content s' i = content t i" using fb small i' by (simp add: content_def)
  moreover have "at_rest i s'"
    using e(2-5,9) l(3) agree_layout [OF ag W(2)] i' W(3,4) r F(2-5) m(3) mp agree_tree(1) [OF ag W(2,6)]
    by (simp add: at_rest_def unlocked_def)
  moreover have "disk s' 1 b = blk s' b" if "b \<notin> log_area t" for b using e(6) that area by simp
  ultimately show ?thesis
    using u e(1) agree_nfree [OF ag W(2)] m(2) i' by (simp add: thenk_run)
qed

section \<open>The loop of \<^verbatim>\<open>vfs_write\<close>\<close>

lemma file_open_mono: "file_open k i s \<Longrightarrow> j \<le> k \<Longrightarrow> file_open j i s"
  using writing_mono by (auto simp: file_open_def)

lemma span_short: "n \<le> write_max \<Longrightarrow> span off n \<le> 2"
proof -
  assume "n \<le> write_max"
  then have "n \<le> BSIZE" by (simp add: write_max_def MAXOPBLOCKS_def BSIZE_def)
  then have "(off + n - 1) div BSIZE \<le> (off + BSIZE) div BSIZE" by (intro div_le_mono) simp
  also have "\<dots> = off div BSIZE + 1" by (simp add: BSIZE_def)
  finally have "(off + n - 1) div BSIZE \<le> off div BSIZE + 1" .
  then have "(off + n - 1) div BSIZE + 1 - off div BSIZE \<le> 2" by linarith
  then show ?thesis by (auto simp: span_def)
qed

definition file_at :: "nat \<Rightarrow> nat \<Rightarrow> nat \<Rightarrow> 'z fs_state_scheme \<Rightarrow> bool" where
  "file_at f i off s \<longleftrightarrow> at_rest i s \<and> f < length (files s) \<and> f_ip (files s ! f) = Some i \<and>
     f_off (files s ! f) = int off \<and> off \<le> i_size (inodes s ! i)"

text \<open>Every block of the file system is on disk as it is in the cache.\<close>

definition synced :: "'z fs_state_scheme \<Rightarrow> bool" where
  "synced s \<longleftrightarrow> (\<forall>b. b \<notin> log_area s \<longrightarrow> disk s 1 b = blk s b)"

lemma at_rest_synced:
  assumes "at_rest i s"
  shows "synced s"
proof -
  have inv: "log_inv {} s" "l_n s = 0" using assms by (auto simp: at_rest_def)
  then have "dirty s = {}" using log_invD(5,10) [OF inv(1)] by auto
  then show ?thesis using clean_disk [OF log_invD(1) [OF inv(1)]] by (simp add: synced_def)
qed

lemma write_piece:
  assumes f: "file_at f i off s" and n: "length src \<le> write_max" "src \<noteq> []"
    and max: "off + length src \<le> MAXFILE * BSIZE" and room: "6 \<le> nfree s"
  shows "\<exists>t s'. inode_write i src (int off) (opened i s) = Inr (int (length src), t) \<and> files t = files s \<and>
    thenk (inode_unlock i) end_op (upd_file f (\<lambda>f. f\<lparr>f_off := f_off f + int (length src)\<rparr>) t) = Inr ((), s') \<and>
    file_at f i (off + length src) s' \<and> content s' i = blit off src (content s i) \<and> nfree s \<le> nfree s' + 6 \<and>
    files s' = (files s)[f := (files s ! f)\<lparr>f_off := int (off + length src)\<rparr>]"
proof -
  let ?n = "length src" let ?o = "opened i s"
  have F: "at_rest i s" "f < length (files s)" "f_ip (files s ! f) = Some i" "f_off (files s ! f) = int off"
    "off \<le> i_size (inodes s ! i)" using f by (auto simp: file_at_def)
  note O = opened_file [OF F(1)] and sp = span_short [OF n(1), of off]
  have o: "file_open (0 + 11 * span off ?n + 1) i ?o" using file_open_mono [OF O(1)] sp by simp
  have off: "off \<le> i_size (inodes ?o ! i)" using F(5) O(4) by simp
  have r: "3 * span off ?n \<le> nfree ?o" using room O(3) sp by simp
  obtain t where w: "inode_write i src (int off) ?o = Inr (int ?n, t)" "file_open 0 i t"
    "i_size (inodes t ! i) = max (i_size (inodes ?o ! i)) (off + ?n)" "content t i = blit off src (content ?o i)"
    "spares i ?o t" "nfree ?o \<le> nfree t + 3 * span off ?n"
    "i_ref (inodes t ! i) = i_ref (inodes ?o ! i)" "i_valid (inodes t ! i) = i_valid (inodes ?o ! i)"
    using inode_write_spec [OF o off max r] by blast
  note S = only_inodesD [OF w(5) [unfolded spares_def, THEN conjunct1]]
  have of: "files ?o = files s" "l_outstanding ?o = 1" "l_committing ?o = l_committing s" "l_size ?o = l_size s"
    "i_ref (inodes ?o ! i) = i_ref (inodes s ! i)" "i_valid (inodes ?o ! i) = i_valid (inodes s ! i)"
    using F(1) by (simp_all add: opened_def upd_inode_def at_rest_def)
  have pre: "1 \<le> i_ref (inodes t ! i)" "i_valid (inodes t ! i)" "l_outstanding t = 1" "\<not> l_committing t" "24 \<le> l_size t"
    using F(1) w(7,8) S of by (simp_all add: at_rest_def)
  let ?g = "\<lambda>f. f\<lparr>f_off := f_off f + int ?n\<rparr>"
  obtain s' where c: "thenk (inode_unlock i) end_op (upd_file f ?g t) = Inr ((), s')" "at_rest i s'" "content s' i = content t i"
    "nfree s' = nfree t" "files s' = (files t)[f := ?g (files t ! f)]" "i_size (inodes s' ! i) = i_size (inodes t ! i)"
    using close_op [OF w(2) pre, of f ?g] by blast
  have fl: "files s' = (files s)[f := (files s ! f)\<lparr>f_off := int (off + ?n)\<rparr>]" using c(5) S(1) of(1) F(4) by simp
  have "file_at f i (off + ?n) s'" using c(2,6) fl w(3) F by (simp add: file_at_def)
  moreover have "nfree s \<le> nfree s' + 6" using w(6) c(4) O(3) sp by simp
  ultimately show ?thesis using w(1,4) c(1,3) S(1) of(1) fl O(2) by auto
qed

lemma blit_blit: "off \<le> length c \<Longrightarrow> blit (off + length a) b (blit off a c) = blit off (a @ b) c"
  by (simp add: blit_def ac_simps)

lemma length_content [simp]: "length (content s i) = i_size (inodes s ! i)"
  by (simp add: content_def)

definition pieces :: "nat \<Rightarrow> nat" where
  "pieces n = (n + (write_max - 1)) div write_max"

lemma pieces_drop: "0 < n \<Longrightarrow> pieces n = Suc (pieces (n - write_max))"
proof -
  assume n: "0 < n"
  have "pieces n = Suc ((n - 1) div write_max)"
    using n write_max_pos div_add_self2 [of write_max "n - 1"] by (simp add: pieces_def)
  moreover have "(n - 1) div write_max = pieces (n - write_max)"
    using n write_max_pos by (cases "n \<le> write_max") (auto simp: pieces_def)
  ultimately show ?thesis by simp
qed

lemma vfs_write_loop_spec:
  assumes "file_at f i off s" and "off + length addr \<le> MAXFILE * BSIZE" and "6 * pieces (length addr) \<le> nfree s"
  shows "\<exists>s'. vfs_write_loop f k addr s = Inr (Returns (int (k + length addr)), s') \<and>
    file_at f i (off + length addr) s' \<and> content s' i = blit off addr (content s i) \<and>
    files s' = (files s)[f := (files s ! f)\<lparr>f_off := int (off + length addr)\<rparr>]"
  using assms
proof (induction "length addr" arbitrary: addr k off s rule: less_induct)
  case less
  have F: "at_rest i s" "f_ip (files s ! f) = Some i" "f_off (files s ! f) = int off" "off \<le> i_size (inodes s ! i)"
    "f < length (files s)" using less.prems(1) by (auto simp: file_at_def)
  show ?case
  proof (cases "addr = []")
    case True
    then have "blit off addr (content s i) = content s i" by (simp add: blit_def)
    moreover have "(files s)[f := (files s ! f)\<lparr>f_off := int off\<rparr>] = files s"
      using F(3) list_update_id [of "files s" f] by (simp flip: F(3))
    ultimately show ?thesis using True less.prems(1) by (simp add: vfs_write_loop.simps returnk_run)
  next
    case False
    let ?c = "take write_max addr" let ?n = "length ?c"
    have n: "length ?c \<le> write_max" "?c \<noteq> []" using False write_max_pos by auto
    have p: "pieces (length addr) = Suc (pieces (length (drop write_max addr)))" using pieces_drop False by simp
    have small: "off + ?n \<le> MAXFILE * BSIZE" and room: "6 \<le> nfree s" using less.prems(2,3) p by auto
    obtain t s1 where 1: "inode_write i ?c (int off) (opened i s) = Inr (int ?n, t)" "files t = files s"
      "thenk (inode_unlock i) end_op (upd_file f (\<lambda>f. f\<lparr>f_off := f_off f + int ?n\<rparr>) t) = Inr ((), s1)"
      "file_at f i (off + ?n) s1" "content s1 i = blit off ?c (content s i)" "nfree s \<le> nfree s1 + 6"
      "files s1 = (files s)[f := (files s ! f)\<lparr>f_off := int (off + ?n)\<rparr>]"
      using write_piece [OF less.prems(1) n small room] by blast
    have o: "files (opened i s) = files s" by (simp add: opened_def upd_inode_def)
    obtain s0 where u: "inode_unlock i (upd_file f (\<lambda>f. f\<lparr>f_off := f_off f + int ?n\<rparr>) t) = Inr ((), s0)" "end_op s0 = Inr ((), s1)"
      using 1(3) by (auto simp: thenk_run split: sum.splits)
    have run: "vfs_write_loop f k addr s = vfs_write_loop f (k + ?n) (drop write_max addr) s1"
      using False n(2) begin_op_run [OF F(1)] inode_lock_run [OF F(1)] F(2,3) 1(1) o u
      by (subst vfs_write_loop.simps) (simp add: Let_def kern_simps del: length_take)
    have "length (drop write_max addr) < length addr" using False write_max_pos by simp
    moreover have "off + ?n + length (drop write_max addr) \<le> MAXFILE * BSIZE" using less.prems(2) by simp
    moreover have "6 * pieces (length (drop write_max addr)) \<le> nfree s1" using less.prems(3) p 1(6) by simp
    ultimately obtain s' where 2:
      "vfs_write_loop f (k + ?n) (drop write_max addr) s1 = Inr (Returns (int (k + ?n + length (drop write_max addr))), s')"
      "file_at f i (off + ?n + length (drop write_max addr)) s'"
      "content s' i = blit (off + ?n) (drop write_max addr) (content s1 i)"
      "files s' = (files s1)[f := (files s1 ! f)\<lparr>f_off := int (off + ?n + length (drop write_max addr))\<rparr>]"
      using less.hyps [OF _ 1(4), of "drop write_max addr" "k + ?n"] by auto
    have len: "k + ?n + length (drop write_max addr) = k + length addr"
      "off + ?n + length (drop write_max addr) = off + length addr" by auto
    have "content s' i = blit off addr (content s i)"
      using 2(3) 1(5) blit_blit [of off "content s i" ?c "drop write_max addr"] F(4) by simp
    then show ?thesis using run 2(1,2,4) 1(7) F(5) unfolding len by simp
  qed
qed

text \<open>
  Writing to an open file is durable. For a file at rest and a buffer for which there is room on the
  disk, \<^verbatim>\<open>vfs_write\<close> writes every piece in a transaction of its own, without running out of log space and
  without reaching the panic for a short write: it returns the number of bytes, the offset has moved by it, the
  content of the file is the old content with the buffer put at the offset, all other open files are as before,
  and every block of the file system outside of the log is on the disk as the kernel sees it.
\<close>

theorem vfs_write_durable:
  assumes "file_at f i off s" and "f_type (files s ! f) = FD_INODE" and "f_writable (files s ! f)"
    and "off + length addr \<le> MAXFILE * BSIZE" and "6 * pieces (length addr) \<le> nfree s"
  shows "\<exists>s'. vfs_write f addr s = Inr (Returns (int (length addr)), s') \<and> file_at f i (off + length addr) s' \<and>
    content s' i = blit off addr (content s i) \<and> synced s' \<and>
    files s' = (files s)[f := (files s ! f)\<lparr>f_off := int (off + length addr)\<rparr>]"
proof -
  obtain s' where "vfs_write_loop f 0 addr s = Inr (Returns (int (0 + length addr)), s')"
    "file_at f i (off + length addr) s'" "content s' i = blit off addr (content s i)"
    "files s' = (files s)[f := (files s ! f)\<lparr>f_off := int (off + length addr)\<rparr>]"
    using vfs_write_loop_spec [OF assms(1,4,5), of 0] by blast
  moreover from this(2) have "synced s'" using at_rest_synced [of i s'] by (simp add: file_at_def)
  ultimately show ?thesis using assms(2,3) by (simp add: vfs_write_def kern_simps)
qed

definition write_example :: fs_state where
  "write_example = (fs_example [example_inode\<lparr>i_lock := unlocked\<rparr>])\<lparr>l_outstanding := 0,
     files := [\<lparr>f_type = FD_INODE, f_flags = 2, f_ref = 1, f_readable = True, f_writable = True, f_pipe = None,
       f_ip = Some 0, f_off = 0\<rparr>]\<rparr>"

lemma write_example_at: "file_at 0 0 0 write_example" "nfree write_example = 65"
proof -
  let ?s = "fs_example [example_inode\<lparr>i_lock := unlocked\<rparr>]"
  have "log_inv {} ?s" using txnD(1) [OF fs_example_txn [of 0]] by simp
  moreover have "\<not> l_committing ?s" by (simp add: fs_example_def)
  ultimately show "file_at 0 0 0 write_example"
    using example_tree fs_example_layout
    by (simp add: file_at_def at_rest_def write_example_def files_fs outstanding_fs example_inode_def unlocked_def
        S_ISCHR_def S_ISTYPE_def S_IFREG_def S_IFMT_def S_IFCHR_def fs_example_sb_def)
  show "nfree write_example = 65" by (simp add: write_example_def files_fs outstanding_fs example_nfree)
qed

theorem vfs_write_durable_witness:
  "\<exists>s'. vfs_write 0 [1, 2, 3] write_example = Inr (Returns 3, s') \<and> content s' 0 = [1, 2, 3] \<and> synced s'"
proof -
  have c: "content write_example 0 = []" by (simp add: content_def write_example_def example_inode_def)
  have "\<exists>s'. vfs_write 0 [1, 2, 3] write_example = Inr (Returns (int (length [1, 2, 3 :: byte])), s') \<and>
    file_at 0 0 (0 + length [1, 2, 3 :: byte]) s' \<and> content s' 0 = blit 0 [1, 2, 3] (content write_example 0) \<and> synced s' \<and>
    files s' = (files write_example)[0 := (files write_example ! 0)\<lparr>f_off := int (0 + length [1, 2, 3 :: byte])\<rparr>]"
    by (rule vfs_write_durable [OF write_example_at(1)])
      (simp_all add: write_example_at(2) pieces_def write_max_def MAXOPBLOCKS_def MAXFILE_def NDIRECT_def NINDIRECT_def BSIZE_def,
       simp_all add: write_example_def)
  then show ?thesis using c by (auto simp: blit_def)
qed

end
