(* ===== verification/Kern_Sysio.thy ===== *)
theory Kern_Sysio
  imports Kern_Frame Kern_Sysfile Kern_Vfs
begin

text \<open>
  The system calls \<^verbatim>\<open>read\<close> and \<^verbatim>\<open>write\<close> on a file, from the registers of the caller to the disk:
  \<^verbatim>\<open>sys_read\<close> and \<^verbatim>\<open>sys_write\<close> of \<^verbatim>\<open>kernel/sysfile.c\<close> over the page tables, the table of open files, the
  inodes, the log and the cache. The frame of the file system (\<open>still\<close>) carries the facts on the
  memory of the caller across the operation, and the invariants of the file system do not depend
  on that memory.
\<close>

section \<open>The memory of the caller\<close>

text \<open>Where the byte at a user address is kept: a page of the kernel's and an offset in it.\<close>

definition spot :: "'z proc_state_scheme \<Rightarrow> u64 \<Rightarrow> (u64 \<times> nat) option" where
  "spot s va = map_option (\<lambda>pg. (pg, page_off va)) (user_page va s)"

definition user_byte :: "'z proc_state_scheme \<Rightarrow> u64 \<Rightarrow> byte option" where
  "user_byte s va = map_option (\<lambda>(pg, k). pdata s pg ! k) (spot s va)"

text \<open>A buffer whose pages are all present, in the part of the address space a page directory covers.\<close>

definition user_buf :: "'z proc_state_scheme \<Rightarrow> u64 \<Rightarrow> nat \<Rightarrow> bool" where
  "user_buf s va n \<longleftrightarrow> unat va + n \<le> 2 ^ 30 \<and> (\<forall>k<n. \<exists>pg. user_page (va + of_nat k) s = Some pg)"

text \<open>A buffer that is not mapped twice: no two of its addresses are kept in the same place.\<close>

definition user_dest :: "'z proc_state_scheme \<Rightarrow> u64 \<Rightarrow> nat \<Rightarrow> bool" where
  "user_dest s va n \<longleftrightarrow> user_buf s va n \<and> inj_on (\<lambda>k. spot s (va + of_nat k)) {..<n} \<and>
     (\<forall>k<n. \<forall>pg. user_page (va + of_nat k) s = Some pg \<longrightarrow> length (pdata s pg) = 4096)"

lemma addr_small:
  fixes va :: u64
  assumes "unat va + n \<le> 2 ^ 30" and "k < n"
  shows "\<not> 2 ^ 30 \<le> va + of_nat k"
proof -
  have "unat (va + of_nat k) = (unat va + k) mod 2 ^ 64" by (simp add: unat_word_ariths unat_of_nat mod_add_right_eq)
  then have "unat (va + of_nat k) < 2 ^ 30" using assms by simp
  then show ?thesis by (simp add: word_le_nat_alt)
qed

lemma touch_mapped: "\<not> 2 ^ 30 \<le> va \<Longrightarrow> user_page va s = Some pg \<Longrightarrow> touch va s = Inr (pg, s)"
  by (simp add: touch_def kern_simps)

lemma user_buf_Suc:
  assumes "user_buf s va (Suc n)"
  obtains pg where "touch va s = Inr (pg, s)" and "user_page va s = Some pg" and "user_buf s (va + 1) n"
proof -
  have b: "unat va + Suc n \<le> 2 ^ 30" and m: "\<forall>k<Suc n. \<exists>pg. user_page (va + of_nat k) s = Some pg"
    using assms by (auto simp: user_buf_def)
  obtain pg where pg: "user_page va s = Some pg" using m by force
  have "unat (va + 1) = unat va + 1" using b by (subst unat_add_lem [THEN iffD1]) simp_all
  moreover have "\<exists>pg. user_page (va + 1 + of_nat k) s = Some pg" if "k < n" for k
    using m that by (metis Suc_mono add.assoc of_nat_Suc)
  ultimately have "user_buf s (va + 1) n" using b by (auto simp: user_buf_def)
  then show ?thesis using that touch_mapped [OF _ pg] addr_small [OF b, of 0] pg by simp
qed

lemma uload_run: "user_buf s va n \<Longrightarrow> uload va n s = Inr (map (\<lambda>k. the (user_byte s (va + of_nat k))) [0..<n], s)"
proof (induction n arbitrary: va)
  case (Suc n)
  obtain pg where pg: "touch va s = Inr (pg, s)" "user_page va s = Some pg" "user_buf s (va + 1) n"
    using Suc.prems by (rule user_buf_Suc)
  have "[0..<Suc n] = 0 # map Suc [0..<n]" by (simp add: map_Suc_upt upt_conv_Cons)
  then show ?case
    using pg(1,2) Suc.IH [OF pg(3)] by (simp add: kern_simps user_byte_def spot_def add.assoc o_def del: upt_Suc)
qed (simp add: returnk_run)

text \<open>Storing changes bytes of the pages of the buffer and nothing else.\<close>

lemma pdata_page [simp]: "user_page va (s\<lparr>pdata := D\<rparr>) = user_page va s" "spot (s\<lparr>pdata := D\<rparr>) va = spot s va"
  by (simp_all add: user_page_def spot_def cur_def Let_def split: option.split)

lemma user_buf_pdata [simp]: "user_buf (s\<lparr>pdata := D\<rparr>) va n = user_buf s va n"
  by (simp add: user_buf_def)

lemma ustore_run:
  assumes "user_buf s va (length bs)"
  shows "\<exists>D. ustore va bs s = Inr ((), s\<lparr>pdata := D\<rparr>) \<and> (\<forall>pg. length (D pg) = length (pdata s pg)) \<and>
    (\<forall>pg o'. (\<forall>k<length bs. spot s (va + of_nat k) \<noteq> Some (pg, o')) \<longrightarrow> D pg ! o' = pdata s pg ! o') \<and>
    (user_dest s va (length bs) \<longrightarrow>
      (\<forall>k<length bs. \<forall>pg o'. spot s (va + of_nat k) = Some (pg, o') \<longrightarrow> D pg ! o' = bs ! k))"
  using assms
proof (induction bs arbitrary: va s)
  case (Cons b bs)
  obtain pg where pg: "touch va s = Inr (pg, s)" "user_page va s = Some pg" "user_buf s (va + 1) (length bs)"
    using Cons.prems by (auto elim: user_buf_Suc)
  let ?D = "(pdata s)(pg := (pdata s pg)[page_off va := b])" let ?t = "s\<lparr>pdata := ?D\<rparr>"
  obtain D where D: "ustore (va + 1) bs ?t = Inr ((), ?t\<lparr>pdata := D\<rparr>)" "\<forall>p. length (D p) = length (?D p)"
    "\<forall>p o'. (\<forall>k<length bs. spot s (va + 1 + of_nat k) \<noteq> Some (p, o')) \<longrightarrow> D p ! o' = ?D p ! o'"
    "user_dest ?t (va + 1) (length bs) \<longrightarrow>
      (\<forall>k<length bs. \<forall>p o'. spot s (va + 1 + of_nat k) = Some (p, o') \<longrightarrow> D p ! o' = bs ! k)"
    using Cons.IH [of ?t "va + 1"] pg(3) by auto
  have at: "spot s (va + 1 + of_nat k) = spot s (va + of_nat (Suc k))" for k by (simp add: ac_simps)
  have here: "spot s va = Some (pg, page_off va)" using pg(2) by (simp add: spot_def)
  have "ustore va (b # bs) s = Inr ((), s\<lparr>pdata := D\<rparr>)" using pg(1) D(1) by (simp add: kern_simps)
  moreover have "length (D p) = length (pdata s p)" for p using D(2) by simp
  moreover have "D p ! o' = pdata s p ! o'" if "\<forall>k<length (b # bs). spot s (va + of_nat k) \<noteq> Some (p, o')" for p o'
  proof -
    have "\<forall>k<length bs. spot s (va + 1 + of_nat k) \<noteq> Some (p, o')" using that unfolding at by auto
    moreover have "(pg, page_off va) \<noteq> (p, o')" using that here by force
    ultimately show ?thesis using D(3) by auto
  qed
  moreover have "D p ! o' = (b # bs) ! k"
    if d: "user_dest s va (length (b # bs))" and k: "k < length (b # bs)" "spot s (va + of_nat k) = Some (p, o')" for k p o'
  proof (cases k)
    case 0
    have inj: "inj_on (\<lambda>k. spot s (va + of_nat k)) {..<length (b # bs)}" using d by (simp add: user_dest_def)
    have po: "p = pg" "o' = page_off va" using k(2) here 0 by auto
    have "spot s (va + 1 + of_nat j) \<noteq> Some (p, o')" if "j < length bs" for j
      using inj_onD [OF inj, of "Suc j" 0] that here po unfolding at by auto
    then have "D p ! o' = ?D p ! o'" using D(3) by blast
    moreover have "length (pdata s pg) = 4096" "page_off va < 4096"
      using d pg(2) by (force simp: user_dest_def, simp add: page_off_def)
    ultimately show ?thesis using 0 po by simp
  next
    case (Suc j)
    have "inj_on (\<lambda>k. spot s (va + of_nat k)) (Suc ` {..<length bs})"
      using d by (auto simp: user_dest_def intro: inj_on_subset)
    then have "inj_on (\<lambda>k. spot s (va + 1 + of_nat k)) {..<length bs}"
      unfolding at by (simp add: inj_on_def)
    moreover have "length (?D p) = 4096" if "k < length bs" "user_page (va + 1 + of_nat k) s = Some p" for k p
    proof -
      have "user_page (va + of_nat (Suc k)) s = Some p" using that(2) by (simp add: ac_simps)
      then show ?thesis using d that(1) by (auto simp: user_dest_def)
    qed
    ultimately have "user_dest ?t (va + 1) (length bs)" using pg(3) by (simp add: user_dest_def)
    then show ?thesis using D(4) k unfolding at Suc by simp
  qed
  ultimately show ?case by blast
qed (auto simp: returnk_run intro!: exI [of _ "pdata _"])

section \<open>The file system does not look at processes\<close>

text \<open>Two states with the same cache, disk and tables above them, and the same running process.\<close>

definition same_fs :: "'z fs_state_scheme \<Rightarrow> 'z fs_state_scheme \<Rightarrow> bool" where
  "same_fs s s' \<longleftrightarrow> bufs s' = bufs s \<and> lru s' = lru s \<and> idequeue s' = idequeue s \<and> disk s' = disk s \<and>
     havedisk1 s' = havedisk1 s \<and> ide_ok s' = ide_ok s \<and> bio_state.more s' = bio_state.more s \<and>
     me s' = me s \<and> runs s' = runs s"

lemma same_fs_tables:
  assumes "same_fs s s'"
  shows "inodes s' = inodes s" and "files s' = files s" and "global_sb s' = global_sb s" and "l_n s' = l_n s"
    and "l_start s' = l_start s" and "l_size s' = l_size s" and "l_outstanding s' = l_outstanding s"
    and "l_committing s' = l_committing s" and "l_dev s' = l_dev s" and "l_block s' = l_block s"
  using assms unfolding same_fs_def by (cases s; cases s'; simp)+

lemma same_fs_parts:
  assumes "same_fs s s'"
  shows "blk s' = blk s" and "log_inv H s' = log_inv H s" and "layout s' = layout s" and "tree_ok s' a = tree_ok s a"
    and "nfree s' = nfree s" and "content s' i = content s i" and "mapped s' i p = mapped s i p"
proof -
  note S = assms [unfolded same_fs_def] and T = same_fs_tables [OF assms]
  show b: "blk s' = blk s" by (rule ext) (simp add: blk_def S split: option.split)
  have r: "rest H s' = rest H s"
    unfolding rest_def bio_inv_def sized_def b by (simp add: S buf_ok_def)
  have l: "log_area s' = log_area s" by (simp add: log_area_def T)
  have d: "dirty s' = dirty s" by (simp add: dirty_def S)
  show "log_inv H s' = log_inv H s"
    unfolding log_inv_def r d l by (simp add: log_shape_def logged_def T S)
  have u: "used s' = used s" using b T(3) by (rule used_cong)
  have m: "meta s' = meta s" by (simp add: meta_def l T)
  show "layout s' = layout s" by (simp add: layout_def m u l T)
  show "tree_ok s' a = tree_ok s a" "nfree s' = nfree s" by (simp_all add: tree_ok_def nfree_def b u m T)
  have "fbyte s' i p = fbyte s i p" for p by (simp add: fbyte_def dat_def b T)
  then show "content s' i = content s i" by (simp add: content_def T)
  show "mapped s' i p = mapped s i p" by (simp add: mapped_def b T)
qed

lemma same_fs_file_at: "same_fs s s' \<Longrightarrow> file_at f i off s' = file_at f i off s"
  by (simp add: file_at_def at_rest_def same_fs_tables same_fs_parts)

lemma same_fs_pdata [simp]: "same_fs s (s\<lparr>pdata := D\<rparr>)"
  by (simp add: same_fs_def me_def runs_def cur_def)

section \<open>Reading a file\<close>

text \<open>
  Reading needs no transaction: the inode is locked, the blocks are read through the cache, the
  offset moves, and the inode is unlocked again.
\<close>

lemma upd_inode_tree [simp]: "tree_ok (upd_inode i f s) a = tree_ok s a" "dat (upd_inode i f s) a p = dat s a p"
  "l_committing (upd_inode i f s) = l_committing s"
  by (simp_all add: tree_ok_def dat_def) (simp add: upd_inode_def)

lemma lock_to_read:
  assumes "at_rest i s"
  shows "inode_lock i s = Inr ((), upd_inode i (lock_it s) s)" and "reading i (upd_inode i (lock_it s) s)"
proof -
  show "inode_lock i s = Inr ((), upd_inode i (lock_it s) s)"
    using assms by (simp add: inode_lock_def Let_def kern_simps at_rest_def acquiresleep_inode_def holdingsleep_def me_def)
  let ?t = "upd_inode i (lock_it s) s"
  have "ready {} s" using assms log_invD(1,11) [of "{}" s] by (simp add: at_rest_def ready_def NBUF_def)
  then have "ready {} ?t" by (simp add: ready_def)
  moreover have "holdingsleep (i_lock (inodes ?t ! i)) ?t"
    using assms by (simp add: holdingsleep_def at_rest_def upd_inode_def me_def cur_def)
  ultimately show "reading i ?t" using assms by (simp add: reading_def at_rest_def)
qed

lemma reads_log_inv: "log_inv {} s \<Longrightarrow> reads {} s t \<Longrightarrow> log_inv {} t"
proof -
  assume l: "log_inv {} s" and r: "reads {} s t"
  note R = r [unfolded reads_def ready_def] and C = calm_log [OF readsD(2) [OF r]]
  have "logged t = logged s" "log_area t = log_area s" "log_shape t = log_shape s"
    by (simp_all add: logged_def log_area_def log_shape_def C)
  with l R C show ?thesis by (simp add: log_inv_def)
qed

text \<open>The file is at rest again after the lock on its inode is given up.\<close>

lemma unlock_to_rest:
  assumes rest: "at_rest i s" and r: "reads {} (upd_inode i (lock_it s) s) t" and f: "f < length (files s)"
    and g: "f_ip (g (files s ! f)) = Some i" "f_off (g (files s ! f)) = int off" "off \<le> i_size (inodes s ! i)"
  defines "v \<equiv> upd_file f g t"
  shows "\<exists>u. inode_unlock i v = Inr ((), u) \<and> file_at f i off u \<and> content u i = content s i \<and> disk u = disk s \<and>
    files u = (files s)[f := g (files s ! f)]"
proof -
  let ?L = "upd_inode i (lock_it s) s" and ?w = "upd_inode i (\<lambda>ip. ip\<lparr>i_lock := unlocked\<rparr>) v"
  let ?u = "wakeup1 (ChanInodeLock i) ?w"
  note c = readsD(2) [OF r] and F = reads_fs [OF r] and R = reading_reads [OF lock_to_read(2) [OF rest] r]
  have i: "i < length (inodes s)" using rest by (simp add: at_rest_def)
  have t: "inodes t = (inodes s)[i := lock_it s (inodes s ! i)]" "files t = files s" "global_sb t = global_sb s"
    "l_n t = l_n s" "l_outstanding t = l_outstanding s" "l_committing t = l_committing s" "l_size t = l_size s"
    using R(2) calm_log [OF c] more_fs [OF calm_log(8) [OF c]] by (simp_all add: upd_inode_def)
  have v: "inodes v = inodes t" "files v = (files s)[f := g (files s ! f)]" "layout v = layout t" "tree_ok v a = tree_ok t a"
    "blk v = blk t" "log_inv {} v = log_inv {} t" "disk v = disk t" "l_n v = l_n t" for a
    using t(2) by (simp_all add: v_def upd_file_def files_fs)
  have h: "holdingsleep (i_lock (inodes v ! i)) v"
    using R(1) v(1) by (simp add: reading_def holdingsleep_def v_def)
  have ref: "1 \<le> i_ref (inodes v ! i)" using rest i v(1) t(1) by (simp add: at_rest_def)
  have inv: "log_inv {} ?L" using rest by (simp add: at_rest_def)
  have li: "log_inv {} ?w" using reads_log_inv [OF inv r] v by simp
  have runs: "runs ?w" using log_invD(1) [OF li] by (simp add: rest_def bio_inv_def)
  have w: "inodes ?w ! i = (inodes s ! i)\<lparr>i_lock := unlocked\<rparr>" "length (inodes ?w) = length (inodes s)"
    using i v(1) t(1) by simp_all
  have bl: "blk ?w = blk s" using readsD(3) [OF r] v by simp
  have tr: "tree_ok ?w a = tree_ok s a" for a using F(2) v by simp
  have same: "same_fs ?w ?u" using runs by (simp add: same_fs_def)
  have at: "at_rest i ?w"
    using rest li w tr bl F(1) v t by (simp add: at_rest_def mapped_def unlocked_def) (simp add: v_def)
  have "files ?w = (files s)[f := g (files s ! f)]" by (simp add: v(2))
  then have "file_at f i off ?w" using at f g w by (simp add: file_at_def)
  then have "file_at f i off ?u" using same_fs_file_at [OF same] by simp
  moreover have "content ?w i = content s i" using w bl by (simp add: content_def fbyte_def dat_def)
  then have "content ?u i = content s i" using same_fs_parts(6) [OF same] by simp
  moreover have "disk ?u = disk s" using readsD(4) [OF r] v by simp
  moreover have "files ?u = (files s)[f := g (files s ! f)]" using v(2) by simp
  ultimately show ?thesis using inode_unlock_run [OF ref h] by blast
qed

lemma vfs_read_spec:
  assumes f: "file_at f i off s" and ty: "f_type (files s ! f) = FD_INODE" "f_readable (files s ! f)"
    and n: "off + n < 2 ^ 63"
  defines "m \<equiv> min n (i_size (inodes s ! i) - off)"
  shows "\<exists>u. vfs_read f n s = Inr ((Returns (int m), take n (drop off (content s i))), u) \<and> file_at f i (off + m) u \<and>
    content u i = content s i \<and> disk u = disk s \<and> still s u"
proof -
  have F: "at_rest i s" "f < length (files s)" "f_ip (files s ! f) = Some i" "f_off (files s ! f) = int off"
    "off \<le> i_size (inodes s ! i)" using f by (auto simp: file_at_def)
  let ?L = "upd_inode i (lock_it s) s" and ?g = "\<lambda>f. f\<lparr>f_off := f_off f + int m\<rparr>"
  note K = lock_to_read [OF F(1)]
  have i: "i < length (inodes s)" "i_size (inodes s ! i) < 2 ^ 63" "\<not> S_ISCHR (i_mode (inodes s ! i))"
    "\<forall>p < i_size (inodes s ! i). mapped s i p"
    using F(1) by (auto simp: at_rest_def MAXFILE_def NDIRECT_def NINDIRECT_def BSIZE_def)
  have L: "inodes ?L ! i = lock_it s (inodes s ! i)" "content ?L i = content s i" "mapped ?L i p = mapped s i p" for p
    using i(1) by (simp_all add: content_def fbyte_def mapped_def)
  obtain t where t: "inode_read i (int off) n ?L = Inr ((int m, take n (drop off (content s i))), t)" "reads {} ?L t"
    using inode_read_spec [OF K(2), of off n] i F(5) n L unfolding m_def by auto
  have m: "off + m \<le> i_size (inodes s ! i)" using F(5) by (simp add: m_def)
  have fl: "files t = files s" using more_fs(2) [OF calm_log(8) [OF readsD(2) [OF t(2)]]] by simp
  obtain u where u: "inode_unlock i (upd_file f ?g t) = Inr ((), u)" "file_at f i (off + m) u" "content u i = content s i"
    "disk u = disk s"
    using unlock_to_rest [OF F(1) t(2) F(2), of ?g "off + m"] F(3,4) m by auto
  have id: "upd_file f ?g t = t" if "m = 0"
    using that list_update_id [of "files t" f] by (simp add: upd_file_def)
  have run: "vfs_read f n s = Inr ((Returns (int m), take n (drop off (content s i))), u)"
    using ty F(3,4) K(1) t(1) u(1) id by (cases "m = 0") (simp_all add: vfs_read_def kern_simps)
  have "still s u"
  proof -
    have "still s ?L" by simp
    moreover have "still ?L t" using still_keepsD [OF still_rw(1) t(1)] .
    moreover have "still t (upd_file f ?g t)" by simp
    moreover have "still (upd_file f ?g t) u" using still_keepsD [OF still_inode(2) u(1)] .
    ultimately show ?thesis by (meson still_trans)
  qed
  with run u show ?thesis by blast
qed

section \<open>Arguments of the calls\<close>

text \<open>
  \<open>io_call fd f va n s\<close>: the running process asks for \<open>n\<close> bytes at \<open>va\<close> on its descriptor \<open>fd\<close>, which
  is the open file \<open>f\<close>, and the buffer lies within its memory.
\<close>

definition io_call :: "nat \<Rightarrow> nat \<Rightarrow> u64 \<Rightarrow> nat \<Rightarrow> 'z fs_state_scheme \<Rightarrow> bool" where
  "io_call fd f va n s \<longleftrightarrow> argint 0 s = int fd \<and> fd < OPEN_MAX \<and> p_ofile (cur s) ! fd = Some f \<and>
     fetcharg 1 s = va \<and> fetcharg 2 s = of_nat n \<and> n < 2 ^ 31 \<and> va < p_sz (cur s) \<and> va + of_nat n \<le> p_sz (cur s)"

lemma to_int_small: "n < 2 ^ 31 \<Longrightarrow> to_int (of_nat n) = int n"
  unfolding to_int_def by transfer (simp add: signed_take_bit_int_eq_self signed_take_bit_take_bit)

lemma io_call_args:
  assumes "io_call fd f va n s"
  shows "argfd 0 s = Inr (Inr (int fd, Some f), s)" and "argptr 1 (to_int (of_nat n)) s = Inr (Inr va, s)"
    and "fetcharg 2 s = of_nat n" and "unat (of_nat n :: u64) = n"
proof -
  have n: "to_int (of_nat n) = int n" using assms by (simp add: io_call_def to_int_small)
  show "argfd 0 s = Inr (Inr (int fd, Some f), s)"
    using assms by (simp add: io_call_def argfd_def kern_simps AT_FDCWD_def)
  show "argptr 1 (to_int (of_nat n)) s = Inr (Inr va, s)" "fetcharg 2 s = of_nat n"
    using assms unfolding n by (simp_all add: io_call_def argptr_def kern_simps Let_def not_le linorder_not_less)
  show "unat (of_nat n :: u64) = n" using assms by (simp add: io_call_def unat_of_nat)
qed

section \<open>Properties\<close>


text \<open>
  C3: A \<^verbatim>\<open>read\<close> system call delivers the file. For a descriptor of a readable file at rest and a buffer in
  the caller's memory, \<^verbatim>\<open>sys_read\<close> returns the smaller of the request and the bytes left in the file; the
  first bytes of the buffer are then exactly the bytes of the file at the offset, every other byte of
  every page is as before, the offset has moved by the number returned, and neither the file nor
  the disk is changed. At the end of the file it returns 0.
\<close>

theorem sys_read_fills:
  assumes "io_call fd f va n s" and "file_at f i off s" and "f_type (files s ! f) = FD_INODE"
    and "f_readable (files s ! f)" and "m = min n (i_size (inodes s ! i) - off)" and "user_dest s va m"
  shows "\<exists>s'. sys_read s = Inr (Returns (int m), s') \<and> file_at f i (off + m) s' \<and>
    content s' i = content s i \<and> disk s' = disk s \<and>
    map (\<lambda>k. user_byte s' (va + of_nat k)) [0..<m] = map Some (take m (drop off (content s i))) \<and>
    (\<forall>pg j. (pg, j) \<notin> (\<lambda>k. the (spot s (va + of_nat k))) ` {..<m} \<longrightarrow> pdata s' pg ! j = pdata s pg ! j)"
proof -
  note A = io_call_args [OF assms(1)]
  define bs where "bs = take n (drop off (content s i))"
  have F: "at_rest i s" using assms(2) by (simp add: file_at_def)
  have m: "length bs = m" "take m (drop off (content s i)) = bs" using assms(5) by (auto simp: bs_def min_def)
  have "off \<le> i_size (inodes s ! i)" "i_size (inodes s ! i) \<le> MAXFILE * BSIZE" "n < 2 ^ 31"
    using F assms(1,2) by (auto simp: at_rest_def file_at_def io_call_def)
  then have "off + n < 2 ^ 63" by (simp add: MAXFILE_def NDIRECT_def NINDIRECT_def BSIZE_def)
  then obtain u where u: "vfs_read f n s = Inr ((Returns (int m), bs), u)" "file_at f i (off + m) u"
    "content u i = content s i" "disk u = disk s" "still s u"
    using vfs_read_spec [OF assms(2-4), of n] assms(5) unfolding bs_def by blast
  have runs: "runs s" using F by (auto simp: at_rest_def log_inv_def rest_def bio_inv_def)
  note S = still_mem [OF u(5)] and P = awoken_fields [OF still_cur(1) [OF u(5) runs]]
  have pg: "user_page a u = user_page a s" "spot u a = spot s a" for a
    using S P by (simp_all add: user_page_def spot_def Let_def split: option.split)
  have d: "user_dest u va (length bs)" using assms(6) m(1) S(3) by (simp add: user_dest_def user_buf_def pg)
  then have "user_buf u va (length bs)" by (simp add: user_dest_def)
  from ustore_run [OF this] obtain D where D: "ustore va bs u = Inr ((), u\<lparr>pdata := D\<rparr>)"
    "\<forall>p j. (\<forall>k<length bs. spot s (va + of_nat k) \<noteq> Some (p, j)) \<longrightarrow> D p ! j = pdata s p ! j"
    "\<forall>k<length bs. \<forall>p j. spot s (va + of_nat k) = Some (p, j) \<longrightarrow> D p ! j = bs ! k"
    using d S(3) by (auto simp: pg)
  let ?s = "u\<lparr>pdata := D\<rparr>"
  have "sys_read s = Inr (Returns (int m), ?s)"
    using A u(1) D(1) by (simp add: sys_read_def tryrun_def kern_simps)
  moreover have "file_at f i (off + m) ?s" "content ?s i = content s i" "disk ?s = disk s"
    using u(2-4) same_fs_file_at [of u ?s] same_fs_parts(6) [of u ?s] by simp_all
  moreover have "user_byte ?s (va + of_nat k) = Some (bs ! k)" if k: "k < m" for k
  proof -
    obtain p where "user_page (va + of_nat k) s = Some p" using assms(6) k by (auto simp: user_dest_def user_buf_def)
    then show ?thesis using D(3) k m(1) by (simp add: user_byte_def pg) (simp add: spot_def)
  qed
  then have "map (\<lambda>k. user_byte ?s (va + of_nat k)) [0..<m] = map Some bs" using m(1) by (intro nth_equalityI) auto
  moreover have "pdata ?s p ! j = pdata s p ! j" if "(p, j) \<notin> (\<lambda>k. the (spot s (va + of_nat k))) ` {..<m}" for p j
    using D(2) that m(1) by (force simp: image_iff)
  ultimately show ?thesis unfolding m(2) by blast
qed

text \<open>An example: the process of the example file system with one page of memory, and its file at descriptor 0.\<close>

definition io_example :: "byte list \<Rightarrow> fs_state" where
  "io_example page = write_example\<lparr>ptab := (\<lambda>t k. if k = 0 then (if t = p2v 0x1000 then 0x2007 else 0x3007) else 0),
     pdata := (\<lambda>pg. page @ replicate (4096 - length page) 0),
     procs := [blank_proc\<lparr>p_state := RUNNING, p_pid := 1, p_sz := 4096, p_pgdir := Some (p2v 0x1000),
       p_ofile := [Some 0], p_tf := (p_tf blank_proc)\<lparr>rdi := 0, rsi := 0, rdx := 3\<rparr>\<rparr>]\<rparr>"

lemma io_example_same: "same_fs write_example (io_example page)"
  by (simp add: same_fs_def io_example_def write_example_def fs_example_def me_def runs_def cur_def)

lemma io_example_cur: "cur (io_example page) = blank_proc\<lparr>p_state := RUNNING, p_pid := 1, p_sz := 4096,
    p_pgdir := Some (p2v 0x1000), p_ofile := [Some 0], p_tf := (p_tf blank_proc)\<lparr>rdi := 0, rsi := 0, rdx := 3\<rparr>\<rparr>"
  by (simp add: cur_def io_example_def write_example_def fs_example_def)

lemma io_example_page:
  assumes "unat va < 4096"
  shows "user_page va (io_example page) = Some (p2v 0x3000)"
proof -
  have "unat (drop_bit 12 va) = unat va div 2 ^ 12" "unat (drop_bit 21 va) = unat va div 2 ^ 21"
    by (simp_all only: unat_drop_bit_eq) (simp_all only: drop_bit_eq_div)
  then have "drop_bit 12 va = 0" "drop_bit 21 va = 0" using assms by (simp_all add: unat_eq_0 [symmetric])
  then show ?thesis
    by (simp add: user_page_def io_example_cur PDX_def PTX_def) (simp add: io_example_def present_def PTE_P_def PTE_ADDR_def p2v_def KERNBASE_def)
qed

lemma io_example_call: "io_call 0 0 0 3 (io_example page)" "user_buf (io_example page) 0 3"
proof -
  show "io_call 0 0 0 3 (io_example page)"
    by (simp add: io_call_def argint_def fetcharg_def to_int_def io_example_cur OPEN_MAX_def)
  show "user_buf (io_example page) 0 3" by (auto simp: user_buf_def io_example_page unat_of_nat)
qed

lemma io_example_bytes:
  "k < 4096 \<Longrightarrow> user_byte (io_example page) (of_nat k) = Some ((page @ replicate (4096 - length page) 0) ! k)"
  using io_example_page [of "of_nat k" page]
  by (simp add: user_byte_def spot_def unat_of_nat page_off_def) (simp add: io_example_def)


text \<open>Another: the file written above, rewound, and a page of zeros to read it into.\<close>

lemma read_example:
  "\<exists>s :: fs_state. io_call 0 0 0 3 s \<and> file_at 0 0 0 s \<and> f_type (files s ! 0) = FD_INODE \<and> f_readable (files s ! 0) \<and>
     content s 0 = [7, 8, 9] \<and> user_dest s 0 3 \<and> user_byte s 0 = Some 0"
proof -
  let ?e = "io_example []"
  note S = same_fs_file_at [OF io_example_same] same_fs_parts [OF io_example_same] same_fs_tables [OF io_example_same]
  have c: "content ?e 0 = []" by (simp add: content_def S) (simp add: write_example_def example_inode_def)
  have e: "file_at 0 0 0 ?e" using write_example_at S by simp
  have "\<exists>s'. vfs_write_loop 0 0 [7, 8, 9] ?e = Inr (Returns (int (0 + length [7, 8, 9 :: byte])), s') \<and>
    file_at 0 0 (0 + length [7, 8, 9 :: byte]) s' \<and> content s' 0 = blit 0 [7, 8, 9] (content ?e 0) \<and>
    files s' = (files ?e)[0 := (files ?e ! 0)\<lparr>f_off := int (0 + length [7, 8, 9 :: byte])\<rparr>]"
    using write_example_at(2)
    by (intro vfs_write_loop_spec [OF e])
      (simp_all add: S pieces_def write_max_def MAXOPBLOCKS_def MAXFILE_def NDIRECT_def NINDIRECT_def BSIZE_def)
  then obtain t where t: "vfs_write_loop 0 0 [7, 8, 9] ?e = Inr (Returns 3, t)" "file_at 0 0 3 t" "content t 0 = [7, 8, 9]"
    "files t = (files ?e)[0 := (files ?e ! 0)\<lparr>f_off := 3\<rparr>]"
    by (auto simp: c blit_def numeral_3_eq_3)
  let ?s = "upd_file 0 (\<lambda>f. f\<lparr>f_off := 0\<rparr>) t"
  have st: "still ?e ?s" using still_keepsD [OF still_vfs_write_loop t(1)] still_upd_fs(2) by (rule still_trans)
  have r: "runs ?e" by (simp add: runs_def io_example_def write_example_def fs_example_def)
  note M = still_mem [OF st] and C = still_cur(2) [OF st r]
  have cur: "cur ?s = cur ?e" using C by (simp add: io_example_cur)
  have up: "user_page a ?s = user_page a ?e" "spot ?s a = spot ?e a" "user_byte ?s a = user_byte ?e a" for a
    using M cur by (simp_all add: user_page_def spot_def user_byte_def Let_def split: option.split)
  have sp: "spot ?e (of_nat k) = Some (p2v 0x3000, k)" if "k < 3" for k
    using that by (simp add: spot_def io_example_page unat_of_nat page_off_def)
  have "inj_on (\<lambda>k. spot ?s (0 + of_nat k)) {..<3}" by (intro inj_onI) (auto simp: up sp)
  moreover have "length (pdata ?s pg) = 4096" for pg using M(3) by (simp add: io_example_def)
  ultimately have d: "user_dest ?s 0 3"
    using io_example_call(2) [of "[]"] by (simp add: user_dest_def user_buf_def up)
  have io: "io_call 0 0 0 3 ?s" using io_example_call(1) [of "[]"] unfolding io_call_def argint_def fetcharg_def cur .
  have tr: "tree_ok ?s a = tree_ok t a" "layout ?s = layout t" for a by (simp_all add: upd_file_def files_fs)
  have "fbyte ?s 0 = fbyte t 0" by (rule ext) (simp add: fbyte_def dat_def)
  then have "content ?s 0 = [7, 8, 9]" using t(3) by (simp add: content_def)
  moreover have "file_at 0 0 0 ?s"
    using t(2) tr by (simp add: file_at_def at_rest_def mapped_def) (simp add: upd_file_def)
  moreover have "f_type (files ?s ! 0) = FD_INODE" "f_readable (files ?s ! 0)"
    using t(4) by (simp_all add: S) (simp_all add: write_example_def)
  moreover have "user_byte ?s 0 = Some 0" using io_example_bytes [of 0 "[]"] by (simp add: up)
  ultimately show ?thesis using io d by blast
qed

theorem sys_read_fills_witness:
  "\<exists>(s :: fs_state) s'. user_byte s 0 = Some 0 \<and> content s 0 = [7, 8, 9] \<and> sys_read s = Inr (Returns 3, s') \<and> content s' 0 = [7, 8, 9] \<and>
    map (\<lambda>k. user_byte s' (of_nat k)) [0..<3] = [Some 7, Some 8, Some 9]"
proof -
  obtain s :: fs_state where s: "io_call 0 0 0 3 s" "file_at 0 0 0 s" "f_type (files s ! 0) = FD_INODE" "f_readable (files s ! 0)"
    "content s 0 = [7, 8, 9]" "user_dest s 0 3" "user_byte s 0 = Some 0"
    using read_example by blast
  have "i_size (inodes s ! 0) = 3" using length_content [of s 0] s(5) by simp
  then have "3 = min 3 (i_size (inodes s ! 0) - 0)" by simp
  from sys_read_fills [OF s(1-4) this s(6)] obtain s' where r: "sys_read s = Inr (Returns (int 3), s')"
    "content s' 0 = content s 0" "map (\<lambda>k. user_byte s' (0 + of_nat k)) [0..<3] = map Some (take 3 (drop 0 (content s 0)))"
    by blast
  have "map (\<lambda>k. user_byte s' (of_nat k)) [0..<3] = [Some 7, Some 8, Some 9]" using r(3) s(5) by simp
  moreover have "sys_read s = Inr (Returns 3, s')" "content s' 0 = [7, 8, 9]" using r(1,2) s(5) by simp_all
  ultimately show ?thesis using s(5,7) by (intro exI [of _ s] exI [of _ s'] conjI)
qed

end
