(* ===== verification/Kern_Vga.thy ===== *)
theory Kern_Vga
  imports Kern_Base
begin

text \<open>
  The text screen of \<^verbatim>\<open>kernel/vga.c\<close>, down to the bytes of the framebuffer, and the serial port of
  \<^verbatim>\<open>kernel/uart.c\<close> that repeats what is written. The table of what each cell shows is
  \<^verbatim>\<open>damage_tracking_data\<close>; an access outside of it stops the model. The font is an argument: row \<open>i\<close>
  of the glyph of a character is a byte whose bit \<open>j\<close> is the pixel in column \<open>j\<close>.
\<close>

section \<open>State\<close>

record cell =
  c_data :: byte
  c_fg :: u32
  c_bg :: u32

record vga_state =
  framebuffer_width :: u32
  framebuffer_height :: u32
  framebuffer_pitch :: u32
  framebuffer_bpp :: byte
  fb :: "nat \<Rightarrow> byte"
  damage_tracking_data :: "nat \<Rightarrow> nat \<Rightarrow> cell"
  cursor_x :: u32
  cursor_y :: u32
  fb_char_index :: u32
  uart :: bool
  serial :: "byte list" \<comment> \<open>what went out on the serial line, latest last\<close>

type_synonym font = "nat \<Rightarrow> nat \<Rightarrow> byte"
type_synonym 'a vga = "(vga_state, 'a) kern"

definition SCREEN_WIDTH :: u32 where "SCREEN_WIDTH = 640"
definition SCREEN_HEIGHT :: u32 where "SCREEN_HEIGHT = 480"
definition FONT_WIDTH :: u32 where "FONT_WIDTH = 8"
definition FONT_HEIGHT :: u32 where "FONT_HEIGHT = 16"
definition TAB_WIDTH :: u32 where "TAB_WIDTH = 4"
definition BACKSPACE :: int where "BACKSPACE = 0x100"
definition VGA_COLOR_BLACK :: u32 where "VGA_COLOR_BLACK = 0"
definition VGA_COLOR_WHITE :: u32 where "VGA_COLOR_WHITE = 0xAAAAAA"

lemmas screen_defs = SCREEN_WIDTH_def SCREEN_HEIGHT_def FONT_WIDTH_def FONT_HEIGHT_def

definition vga_init :: "u32 \<Rightarrow> u32 \<Rightarrow> u32 \<Rightarrow> byte \<Rightarrow> (nat \<Rightarrow> byte) \<Rightarrow> vga_state \<Rightarrow> vga_state" where
  "vga_init width height pitch bpp memory s =
     s\<lparr>framebuffer_width := width, framebuffer_height := height, framebuffer_pitch := pitch, framebuffer_bpp := bpp, fb := memory\<rparr>"

section \<open>The serial port\<close>

text \<open>\<^verbatim>\<open>outb\<close> sends the low byte. The wait for the port to be ready is bounded and has no other effect.\<close>

definition uartputc :: "int \<Rightarrow> unit vga" where
  "uartputc c = modk (\<lambda>s. if uart s then s\<lparr>serial := serial s @ [of_int c]\<rparr> else s)"

section \<open>Pixels\<close>

definition store32 :: "nat \<Rightarrow> u32 \<Rightarrow> (nat \<Rightarrow> byte) \<Rightarrow> nat \<Rightarrow> byte" where
  "store32 a v m = (\<lambda>k. if a \<le> k \<and> k < a + 4 then le_bytes 4 (unat v) ! (k - a) else m k)"

definition pixel_offset :: "vga_state \<Rightarrow> u32 \<Rightarrow> u32 \<Rightarrow> nat" where
  "pixel_offset s x y = unat (framebuffer_pitch s * y + ucast (framebuffer_bpp s div 8) * x)"

definition vga_write_pixel :: "u32 \<Rightarrow> u32 \<Rightarrow> u32 \<Rightarrow> vga_state \<Rightarrow> vga_state" where
  "vga_write_pixel x y color s =
     (if x > framebuffer_width s \<or> y > framebuffer_height s then s
      else s\<lparr>fb := store32 (pixel_offset s x y) color (fb s)\<rparr>)"

definition fb_char_index_to_char_x_coord :: "u32 \<Rightarrow> u32" where
  "fb_char_index_to_char_x_coord i = (i mod SCREEN_WIDTH) div FONT_WIDTH"

definition fb_char_index_to_char_y_coord :: "u32 \<Rightarrow> u32" where
  "fb_char_index_to_char_y_coord i = i div SCREEN_WIDTH"

definition x_y_to_fb_char_index :: "u32 \<Rightarrow> u32 \<Rightarrow> u32" where
  "x_y_to_fb_char_index x y = y * SCREEN_WIDTH + x * FONT_WIDTH"

text \<open>\<open>glyph_row\<close> is the inner loop of \<^verbatim>\<open>render_font_glyph\<close>.\<close>

definition glyph_row :: "font \<Rightarrow> byte \<Rightarrow> u32 \<Rightarrow> u32 \<Rightarrow> u32 \<Rightarrow> u32 \<Rightarrow> nat \<Rightarrow> vga_state \<Rightarrow> vga_state" where
  "glyph_row font c x y fg bg i s =
     foldl (\<lambda>s j. vga_write_pixel (x + of_nat j) (y + of_nat i) (if bit (font (unat c) i) j then fg else bg) s) s [0..<8]"

definition render_font_glyph :: "font \<Rightarrow> byte \<Rightarrow> u32 \<Rightarrow> u32 \<Rightarrow> u32 \<Rightarrow> u32 \<Rightarrow> vga_state \<Rightarrow> vga_state" where
  "render_font_glyph font c x y fg bg s = foldl (\<lambda>s i. glyph_row font c x y fg bg i s) s [0..<16]"

section \<open>The table of cells\<close>

definition screen_width_in_chars :: u32 where "screen_width_in_chars = SCREEN_WIDTH div FONT_WIDTH"
definition screen_height_in_chars :: u32 where "screen_height_in_chars = SCREEN_HEIGHT div FONT_HEIGHT"

definition vga_get_winsize_column :: u16 where "vga_get_winsize_column = ucast (SCREEN_WIDTH div FONT_WIDTH)"
definition vga_get_winsize_row :: u16 where "vga_get_winsize_row = ucast (SCREEN_HEIGHT div FONT_HEIGHT)"

definition get_cell :: "u32 \<Rightarrow> u32 \<Rightarrow> cell vga" where
  "get_cell x y = thenk (assertk (x < screen_width_in_chars \<and> y < screen_height_in_chars) ''out of bounds'')
     (getk (\<lambda>s. damage_tracking_data s (unat x) (unat y)))"

definition set_cell :: "u32 \<Rightarrow> u32 \<Rightarrow> cell \<Rightarrow> unit vga" where
  "set_cell x y c = thenk (assertk (x < screen_width_in_chars \<and> y < screen_height_in_chars) ''out of bounds'')
     (modk (\<lambda>s. s\<lparr>damage_tracking_data := (damage_tracking_data s)
        (unat x := (damage_tracking_data s (unat x))(unat y := c))\<rparr>))"

text \<open>\<open>clear_cells\<close> draws at \<open>(i + x, j + y)\<close> and clears the entry \<open>(i, j)\<close> of the table.\<close>

definition clear_cells :: "font \<Rightarrow> u32 \<Rightarrow> u32 \<Rightarrow> u32 \<Rightarrow> u32 \<Rightarrow> u32 \<Rightarrow> u32 \<Rightarrow> unit vga" where
  "clear_cells font x y x_len y_len fg bg =
     (if x > screen_width_in_chars \<or> y > screen_height_in_chars then returnk ()
      else foreachk [0..<unat x_len] (\<lambda>i. foreachk [0..<unat y_len] (\<lambda>j.
        thenk (modk (render_font_glyph font 32 ((of_nat i + x) * FONT_WIDTH) ((of_nat j + y) * FONT_HEIGHT) fg bg))
          (set_cell (of_nat i) (of_nat j) \<lparr>c_data = 32, c_fg = fg, c_bg = bg\<rparr>))))"

section \<open>The cursor\<close>

definition ansi_set_cursor_location_x :: "u16 \<Rightarrow> unit vga" where
  "ansi_set_cursor_location_x x = modk (\<lambda>s. s\<lparr>fb_char_index := x_y_to_fb_char_index (ucast x) (cursor_y s), cursor_x := ucast x\<rparr>)"

definition ansi_set_cursor_location_y :: "u16 \<Rightarrow> unit vga" where
  "ansi_set_cursor_location_y y = modk (\<lambda>s. s\<lparr>fb_char_index := x_y_to_fb_char_index (cursor_x s) (ucast y), cursor_y := ucast y\<rparr>)"

definition ansi_set_cursor_location :: "u16 \<Rightarrow> u16 \<Rightarrow> unit vga" where
  "ansi_set_cursor_location x y = thenk (ansi_set_cursor_location_x x) (ansi_set_cursor_location_y y)"

definition vga_write_carriage_return :: "unit vga" where
  "vga_write_carriage_return = ansi_set_cursor_location_x 0"

definition ROUND_UP :: "u32 \<Rightarrow> u32 \<Rightarrow> u32" where
  "ROUND_UP x round_to = ((x + (round_to - 1)) div round_to) * round_to"

definition vga_write_newline :: "unit vga" where
  "vga_write_newline = modk (\<lambda>s. s\<lparr>fb_char_index :=
     (if fb_char_index s mod SCREEN_WIDTH = 0 then fb_char_index s + SCREEN_WIDTH
      else ROUND_UP (fb_char_index s) SCREEN_WIDTH)\<rparr>)"

definition vga_write_tab :: "unit vga" where
  "vga_write_tab = modk (\<lambda>s. s\<lparr>fb_char_index := fb_char_index s + TAB_WIDTH * FONT_WIDTH\<rparr>)"

text \<open>
  \<open>move_cursor\<close>: the new place of the cursor is a blank in the swapped colours of the cell at the old
  \<^verbatim>\<open>cursor_position\<close>; the cell \<open>(from_x, from_y)\<close> is drawn again.
\<close>

definition move_cursor :: "font \<Rightarrow> u32 \<Rightarrow> u32 \<Rightarrow> u32 \<Rightarrow> u32 \<Rightarrow> unit vga" where
  "move_cursor font from_x from_y to_x to_y =
     bindk (getk (\<lambda>s. (cursor_x s, cursor_y s))) (\<lambda>(cx, cy).
     bindk (get_cell cx cy) (\<lambda>old.
     thenk (modk (render_font_glyph font 32 (to_x * FONT_WIDTH) (to_y * FONT_HEIGHT) (c_bg old) (c_fg old)))
    (bindk (get_cell from_x from_y) (\<lambda>here.
     thenk (modk (render_font_glyph font (c_data here) (from_x * FONT_WIDTH) (from_y * FONT_HEIGHT) (c_fg here) (c_bg here)))
     (modk (\<lambda>s. s\<lparr>cursor_x := to_x, cursor_y := to_y\<rparr>))))))"

definition vga_reset_char_index :: "unit vga" where
  "vga_reset_char_index = modk (\<lambda>s. s\<lparr>fb_char_index := 0\<rparr>)"

section \<open>Scrolling\<close>

text \<open>
  \<open>scroll_cell\<close> is the body of the loop of \<^verbatim>\<open>vga_scroll\<close>, whose variable runs over the pixels from the
  second row of characters on, a character's width at a time: it meets each cell once per row of pixels.
\<close>

definition scroll_cell :: "font \<Rightarrow> u32 \<Rightarrow> unit vga" where
  "scroll_cell font i =
     (let x = fb_char_index_to_char_x_coord i; y = fb_char_index_to_char_y_coord (i div FONT_HEIGHT) in
      bindk (get_cell x y) (\<lambda>here. bindk (get_cell x (y - 1)) (\<lambda>above.
        if here = above then returnk ()
        else thenk (modk (render_font_glyph font (c_data here) (x * FONT_WIDTH) ((y - 1) * FONT_HEIGHT) (c_fg here) (c_bg here)))
               (set_cell x (y - 1) here))))"

definition blank :: cell where
  "blank = \<lparr>c_data = 32, c_fg = VGA_COLOR_WHITE, c_bg = VGA_COLOR_BLACK\<rparr>"

definition clear_last_row :: "font \<Rightarrow> nat \<Rightarrow> unit vga" where
  "clear_last_row font i =
     thenk (set_cell (of_nat i) (screen_height_in_chars - 1) blank)
       (clear_cells font (of_nat i) (screen_height_in_chars - 1) 1 1 VGA_COLOR_WHITE VGA_COLOR_BLACK)"

definition scroll_rows :: "font \<Rightarrow> nat \<Rightarrow> nat \<Rightarrow> unit vga" where
  "scroll_rows font start turns = foreachk (map (\<lambda>k. of_nat (start + k * unat FONT_WIDTH)) [0..<turns]) (scroll_cell font)"

definition clear_row :: "font \<Rightarrow> nat \<Rightarrow> unit vga" where
  "clear_row font n = foreachk [0..<n] (clear_last_row font)"

definition vga_scroll :: "font \<Rightarrow> unit vga" where
  "vga_scroll font =
     (let start = unat (SCREEN_WIDTH * FONT_HEIGHT); fb_in_bytes = unat (SCREEN_HEIGHT * SCREEN_WIDTH) in
      thenk (scroll_rows font start ((fb_in_bytes - start) div unat FONT_WIDTH))
     (thenk (clear_row font (unat screen_width_in_chars))
     (thenk (modk (\<lambda>s. s\<lparr>cursor_x := 0, cursor_y := screen_height_in_chars - 1\<rparr>))
       vga_write_carriage_return)))"

section \<open>Writing a character\<close>

text \<open>
  \<open>vga_write_glyph\<close> is the default branch of the \<^verbatim>\<open>switch\<close>. \<open>vga_emit\<close> is \<^verbatim>\<open>vga_write_char\<close> with the branch
  of a backspace as an argument, because that branch calls \<^verbatim>\<open>vga_write_char\<close> for a blank.
\<close>

definition vga_write_glyph :: "font \<Rightarrow> int \<Rightarrow> u32 \<Rightarrow> u32 \<Rightarrow> unit vga" where
  "vga_write_glyph font c fg bg =
     bindk (getk fb_char_index) (\<lambda>idx.
       (let x = fb_char_index_to_char_x_coord idx; y = fb_char_index_to_char_y_coord idx; idx' = idx + FONT_WIDTH in
        thenk (modk (render_font_glyph font (of_int c) (x * FONT_WIDTH) (y * FONT_HEIGHT) fg bg))
       (thenk (set_cell x y \<lparr>c_data = of_int c, c_fg = fg, c_bg = bg\<rparr>)
       (thenk (modk (\<lambda>s. s\<lparr>fb_char_index := idx'\<rparr>))
         (move_cursor font x y (fb_char_index_to_char_x_coord idx') (fb_char_index_to_char_y_coord idx'))))))"

definition vga_emit_newline :: "font \<Rightarrow> unit vga" where
  "vga_emit_newline font =
     bindk (getk fb_char_index) (\<lambda>old.
     thenk vga_write_newline
    (bindk (getk fb_char_index) (\<lambda>idx.
       move_cursor font (fb_char_index_to_char_x_coord old) (fb_char_index_to_char_y_coord old)
         (fb_char_index_to_char_x_coord idx) (fb_char_index_to_char_y_coord idx))))"

definition vga_emit :: "font \<Rightarrow> unit vga \<Rightarrow> int \<Rightarrow> u32 \<Rightarrow> u32 \<Rightarrow> unit vga" where
  "vga_emit font back c fg bg =
     bindk (getk fb_char_index) (\<lambda>idx.
     thenk
       (if idx \<ge> SCREEN_WIDTH * screen_height_in_chars \<or> (idx \<ge> SCREEN_WIDTH * (screen_height_in_chars - 1) \<and> c = 10)
        then vga_scroll font
        else if c = 10 then vga_emit_newline font
        else if c = 13 then vga_write_carriage_return
        else if c = 9 then vga_write_tab
        else if c = 8 \<or> c = BACKSPACE then back
        else vga_write_glyph font c fg bg)
       (if c = BACKSPACE then thenk (uartputc 8) (thenk (uartputc 32) (uartputc 8)) else uartputc c))"

definition vga_backspace :: "font \<Rightarrow> u32 \<Rightarrow> u32 \<Rightarrow> unit vga" where
  "vga_backspace font fg bg =
     bindk (getk fb_char_index) (\<lambda>idx.
       if idx \<le> 0 then returnk ()
       else thenk (modk (\<lambda>s. s\<lparr>fb_char_index := fb_char_index s - FONT_WIDTH\<rparr>))
           (thenk (vga_emit font (returnk ()) 32 fg bg)
           (bindk (getk fb_char_index) (\<lambda>idx.
              (let x = fb_char_index_to_char_x_coord idx; y = fb_char_index_to_char_y_coord idx in
               thenk (move_cursor font x y (x - 1) y)
                 (modk (\<lambda>s. s\<lparr>fb_char_index := fb_char_index s - FONT_WIDTH\<rparr>)))))))"

definition vga_write_char :: "font \<Rightarrow> int \<Rightarrow> u32 \<Rightarrow> u32 \<Rightarrow> unit vga" where
  "vga_write_char font c fg bg = vga_emit font (vga_backspace font fg bg) c fg bg"

section \<open>Erasing\<close>

definition saturating_sub :: "u32 \<Rightarrow> u32 \<Rightarrow> u32 \<Rightarrow> u32" where
  "saturating_sub x y sat = (if x < sat + y then sat else x - y)"

definition ansi_set_cursor_location_up :: "u16 \<Rightarrow> unit vga" where
  "ansi_set_cursor_location_up by = bindk (getk cursor_y) (\<lambda>cy. ansi_set_cursor_location 0 (ucast (saturating_sub cy (ucast by) 0)))"

text \<open>The four erasing operations take the colours from the cell under the cursor.\<close>

definition under_cursor :: "(u32 \<Rightarrow> u32 \<Rightarrow> u32 \<Rightarrow> u32 \<Rightarrow> unit vga) \<Rightarrow> unit vga" where
  "under_cursor f = bindk (getk (\<lambda>s. (cursor_x s, cursor_y s))) (\<lambda>(x, y).
     bindk (get_cell x y) (\<lambda>c. f x y (c_fg c) (c_bg c)))"

definition ansi_erase_from_cursor_to_beginning_of_line :: "font \<Rightarrow> unit vga" where
  "ansi_erase_from_cursor_to_beginning_of_line font = under_cursor (\<lambda>x y fg bg. clear_cells font 0 y x 1 fg bg)"

definition ansi_erase_from_cursor_to_beginning_of_screen :: "font \<Rightarrow> unit vga" where
  "ansi_erase_from_cursor_to_beginning_of_screen font = under_cursor (\<lambda>x y fg bg.
     thenk (clear_cells font 0 y x 1 fg bg) (clear_cells font 0 0 screen_width_in_chars y fg bg))"

definition ansi_erase_from_cursor_to_end_of_screen :: "font \<Rightarrow> unit vga" where
  "ansi_erase_from_cursor_to_end_of_screen font = under_cursor (\<lambda>x y fg bg.
     thenk (clear_cells font x y (screen_width_in_chars - x) 1 fg bg)
       (clear_cells font 0 (y + 1) screen_width_in_chars (screen_height_in_chars - y + 1) fg bg))"

definition ansi_erase_from_cursor_to_end_of_line :: "font \<Rightarrow> unit vga" where
  "ansi_erase_from_cursor_to_end_of_line font = under_cursor (\<lambda>x y fg bg. clear_cells font x y (screen_width_in_chars - x) 1 fg bg)"

section \<open>What a pixel shows\<close>

text \<open>The mode the kernel asks for: 640 by 480 pixels of 32 bits.\<close>

definition fb_mode :: "vga_state \<Rightarrow> bool" where
  "fb_mode s \<longleftrightarrow> framebuffer_width s = 640 \<and> framebuffer_height s = 480 \<and> framebuffer_pitch s = 2560 \<and> framebuffer_bpp s = 32"

definition pixel :: "vga_state \<Rightarrow> nat \<Rightarrow> nat \<Rightarrow> u32" where
  "pixel s x y = of_nat (le_val (map (fb s) [2560 * y + 4 * x..<2560 * y + 4 * x + 4]))"

lemma word_small: "n < 2 ^ 32 \<Longrightarrow> unat (of_nat n :: u32) = n"
  by (simp add: unat_of_nat)

lemma store32_same: "map (store32 a v m) [a..<a + 4] = le_bytes 4 (unat v)"
  by (rule nth_equalityI) (auto simp: store32_def)

lemma store32_other: "b + 4 \<le> a \<or> a + 4 \<le> b \<Longrightarrow> map (store32 a v m) [b..<b + 4] = map m [b..<b + 4]"
  by (auto simp: store32_def)

lemma unat_bound32: "unat (v::u32) < 4294967296"
  using unsigned_less [of v] by simp

lemma pixel_write:
  assumes "fb_mode s" and "X < 640" and "Y < 65536" and "x < 640" and "y < 480"
  shows "pixel (vga_write_pixel (of_nat X) (of_nat Y) col s) x y = (if x = X \<and> y = Y then col else pixel s x y)"
proof (cases "Y \<le> 480")
  case True
  have a: "2560 * of_nat Y + 4 * of_nat X = (of_nat (2560 * Y + 4 * X) :: u32)" by simp
  have o: "pixel_offset s (of_nat X) (of_nat Y) = 2560 * Y + 4 * X"
    using assms True unfolding pixel_offset_def fb_mode_def by (simp add: a word_small del: of_nat_add of_nat_mult)
  have n: "\<not> (of_nat X > framebuffer_width s \<or> of_nat Y > framebuffer_height s)"
    using assms True by (simp add: fb_mode_def word_less_nat_alt word_small)
  have "2560 * y + 4 * x + 4 \<le> 2560 * Y + 4 * X \<or> 2560 * Y + 4 * X + 4 \<le> 2560 * y + 4 * x" if "\<not> (x = X \<and> y = Y)"
    using assms that by (cases y Y rule: linorder_cases) auto
  then show ?thesis
    using n o unat_bound32 [of col]
    by (auto simp: vga_write_pixel_def pixel_def store32_same store32_other le_val_le_bytes simp del: upt_Suc)
next
  case False
  with assms have "of_nat Y > framebuffer_height s" by (simp add: fb_mode_def word_less_nat_alt word_small)
  with assms False show ?thesis by (auto simp: vga_write_pixel_def)
qed

lemma write_pixel_frame:
  "vga_write_pixel x y col s = s\<lparr>fb := fb (vga_write_pixel x y col s)\<rparr>"
  by (simp add: vga_write_pixel_def)

lemma foldl_frame: "(\<And>s k. f s k = s\<lparr>fb := fb (f s k)\<rparr>) \<Longrightarrow> foldl f s ks = s\<lparr>fb := fb (foldl f s ks)\<rparr>"
proof (induction ks arbitrary: s)
  case (Cons k ks)
  have "foldl f (f s k) ks = (f s k)\<lparr>fb := fb (foldl f (f s k) ks)\<rparr>" using Cons by blast
  also have "\<dots> = s\<lparr>fb := fb (foldl f (f s k) ks)\<rparr>" by (subst Cons.prems) simp
  finally show ?case by simp
qed simp

lemma glyph_row_frame: "glyph_row font c x y fg bg i s = s\<lparr>fb := fb (glyph_row font c x y fg bg i s)\<rparr>"
  unfolding glyph_row_def by (rule foldl_frame) (rule write_pixel_frame)

lemma render_frame: "render_font_glyph font c x y fg bg s = s\<lparr>fb := fb (render_font_glyph font c x y fg bg s)\<rparr>"
  unfolding render_font_glyph_def by (rule foldl_frame) (rule glyph_row_frame)

lemma mode_fb [simp]: "fb_mode (s\<lparr>fb := m\<rparr>) = fb_mode s"
  by (simp add: fb_mode_def)

lemma foldl_data:
  "(\<And>s k. f (s\<lparr>damage_tracking_data := T\<rparr>) k = (f s k)\<lparr>damage_tracking_data := T\<rparr>) \<Longrightarrow>
   foldl f (s\<lparr>damage_tracking_data := T\<rparr>) ks = (foldl f s ks)\<lparr>damage_tracking_data := T\<rparr>"
  by (induction ks arbitrary: s) auto

lemma render_data:
  "render_font_glyph font c x y fg bg (s\<lparr>damage_tracking_data := T\<rparr>) = (render_font_glyph font c x y fg bg s)\<lparr>damage_tracking_data := T\<rparr>"
  unfolding render_font_glyph_def glyph_row_def
  by (intro foldl_data) (simp add: vga_write_pixel_def pixel_offset_def)

lemma render_fields [simp]:
  "fb_mode (render_font_glyph font c x y fg bg s) = fb_mode s"
  "damage_tracking_data (render_font_glyph font c x y fg bg s) = damage_tracking_data s"
  "cursor_x (render_font_glyph font c x y fg bg s) = cursor_x s" "cursor_y (render_font_glyph font c x y fg bg s) = cursor_y s"
  "fb_char_index (render_font_glyph font c x y fg bg s) = fb_char_index s" "uart (render_font_glyph font c x y fg bg s) = uart s"
  "serial (render_font_glyph font c x y fg bg s) = serial s"
  by (subst render_frame; simp)+

text \<open>The colour of a pixel of a glyph.\<close>

definition glyph_pixel :: "font \<Rightarrow> cell \<Rightarrow> nat \<Rightarrow> nat \<Rightarrow> u32" where
  "glyph_pixel font d j i = (if bit (font (unat (c_data d)) i) j then c_fg d else c_bg d)"

lemma pixel_row:
  assumes "fb_mode s" and "X + 8 \<le> 640" and "Y + i < 65536" and "x < 640" and "y < 480" and "n \<le> 8"
  shows "pixel (foldl (\<lambda>s j. vga_write_pixel (of_nat X + of_nat j) (of_nat Y + of_nat i) (if bit (font (unat c) i) j then fg else bg) s)
      s [0..<n]) x y = (if X \<le> x \<and> x < X + n \<and> y = Y + i then glyph_pixel font \<lparr>c_data = c, c_fg = fg, c_bg = bg\<rparr> (x - X) i
      else pixel s x y)"
  using assms(6)
proof (induction n)
  case (Suc n)
  let ?f = "\<lambda>s j. vga_write_pixel (of_nat X + of_nat j) (of_nat Y + of_nat i) (if bit (font (unat c) i) j then fg else bg) s"
  have m: "fb_mode (foldl ?f s [0..<n])"
    using assms(1) by (subst foldl_frame) (simp_all add: write_pixel_frame [symmetric])
  have "pixel (?f (foldl ?f s [0..<n]) n) x y = (if x = X + n \<and> y = Y + i then (if bit (font (unat c) i) n then fg else bg)
      else pixel (foldl ?f s [0..<n]) x y)"
    using pixel_write [OF m, of "X + n" "Y + i" x y] assms Suc.prems by simp
  with Suc show ?case by (auto simp: glyph_pixel_def)
qed auto

lemma pixel_render:
  assumes "fb_mode s" and "X + 8 \<le> 640" and "Y + 16 < 65536" and "x < 640" and "y < 480"
  shows "pixel (render_font_glyph font c (of_nat X) (of_nat Y) fg bg s) x y =
    (if X \<le> x \<and> x < X + 8 \<and> Y \<le> y \<and> y < Y + 16 then glyph_pixel font \<lparr>c_data = c, c_fg = fg, c_bg = bg\<rparr> (x - X) (y - Y)
     else pixel s x y)"
proof -
  let ?f = "\<lambda>s i. glyph_row font c (of_nat X) (of_nat Y) fg bg i s"
  have "pixel (foldl ?f s [0..<n]) x y = (if X \<le> x \<and> x < X + 8 \<and> Y \<le> y \<and> y < Y + n
      then glyph_pixel font \<lparr>c_data = c, c_fg = fg, c_bg = bg\<rparr> (x - X) (y - Y) else pixel s x y)" if "n \<le> 16" for n
    using that
  proof (induction n)
    case (Suc n)
    have m: "fb_mode (foldl ?f s [0..<n])"
      using assms(1) by (subst foldl_frame) (simp_all add: glyph_row_frame [symmetric])
    have "pixel (?f (foldl ?f s [0..<n]) n) x y = (if X \<le> x \<and> x < X + 8 \<and> y = Y + n
        then glyph_pixel font \<lparr>c_data = c, c_fg = fg, c_bg = bg\<rparr> (x - X) n else pixel (foldl ?f s [0..<n]) x y)"
      using pixel_row [OF m assms(2) _ assms(4,5), of Y n 8] assms(3) Suc.prems unfolding glyph_row_def by simp
    with Suc show ?case by auto
  qed auto
  from this [of 16] show ?thesis by (simp add: render_font_glyph_def)
qed

section \<open>Cells\<close>

definition displays :: "font \<Rightarrow> vga_state \<Rightarrow> nat \<Rightarrow> nat \<Rightarrow> cell \<Rightarrow> bool" where
  "displays font s x y d \<longleftrightarrow> (\<forall>j<8. \<forall>i<16. pixel s (8 * x + j) (16 * y + i) = glyph_pixel font d j i)"

lemma displays_other_fields [simp]:
  "displays font (s\<lparr>damage_tracking_data := T\<rparr>) = displays font s" "displays font (s\<lparr>cursor_x := a\<rparr>) = displays font s"
  "displays font (s\<lparr>cursor_y := a\<rparr>) = displays font s" "displays font (s\<lparr>fb_char_index := a\<rparr>) = displays font s"
  "displays font (s\<lparr>serial := b\<rparr>) = displays font s"
  by (simp_all add: displays_def pixel_def fun_eq_iff)

lemma mode_other_fields [simp]:
  "fb_mode (s\<lparr>damage_tracking_data := T\<rparr>) = fb_mode s" "fb_mode (s\<lparr>cursor_x := a\<rparr>) = fb_mode s"
  "fb_mode (s\<lparr>cursor_y := a\<rparr>) = fb_mode s" "fb_mode (s\<lparr>fb_char_index := a\<rparr>) = fb_mode s"
  "fb_mode (s\<lparr>serial := b\<rparr>) = fb_mode s"
  by (simp_all add: fb_mode_def)

abbreviation draw :: "font \<Rightarrow> cell \<Rightarrow> nat \<Rightarrow> nat \<Rightarrow> vga_state \<Rightarrow> vga_state" where
  "draw font d X Y \<equiv> render_font_glyph font (c_data d) (of_nat X * FONT_WIDTH) (of_nat Y * FONT_HEIGHT) (c_fg d) (c_bg d)"

lemma displays_draw:
  assumes "fb_mode s" and "X < 80" and "Y < 1000" and "x < 80" and "y < 30"
  shows "displays font (draw font d X Y s) X Y d \<or> Y \<ge> 30"
    and "x \<noteq> X \<or> y \<noteq> Y \<Longrightarrow> displays font (draw font d X Y s) x y e = displays font s x y e"
proof -
  have e: "draw font d X Y s = render_font_glyph font (c_data d) (of_nat (8 * X)) (of_nat (16 * Y)) (c_fg d) (c_bg d) s"
    by (simp add: screen_defs mult.commute)
  have p: "pixel (draw font d X Y s) u v = (if 8 * X \<le> u \<and> u < 8 * X + 8 \<and> 16 * Y \<le> v \<and> v < 16 * Y + 16
      then glyph_pixel font d (u - 8 * X) (v - 16 * Y) else pixel s u v)" if "u < 640" "v < 480" for u v
    unfolding e using pixel_render [OF assms(1), of "8 * X" "16 * Y" u v] assms that by (simp add: glyph_pixel_def)
  show "displays font (draw font d X Y s) X Y d \<or> Y \<ge> 30"
    using assms by (auto simp: displays_def p)
  show "displays font (draw font d X Y s) x y e = displays font s x y e" if "x \<noteq> X \<or> y \<noteq> Y"
  proof -
    have "\<not> (8 * X \<le> 8 * x + j \<and> 8 * x + j < 8 * X + 8 \<and> 16 * Y \<le> 16 * y + i \<and> 16 * y + i < 16 * Y + 16)"
      if "j < 8" "i < 16" for i j
      using \<open>x \<noteq> X \<or> y \<noteq> Y\<close> that by presburger
    then have "pixel (draw font d X Y s) (8 * x + j) (16 * y + i) = pixel s (8 * x + j) (16 * y + i)" if "j < 8" "i < 16" for i j
      using that assms by (subst p) auto
    then show ?thesis by (simp add: displays_def)
  qed
qed

lemma displays_render:
  assumes "fb_mode s" and "X < 80" and "Y < 1000" and "x < 80" and "y < 30" and "x = X \<longrightarrow> y \<noteq> Y"
  shows "displays font (render_font_glyph font c (of_nat X * FONT_WIDTH) (of_nat Y * FONT_HEIGHT) fg bg s) x y e = displays font s x y e"
  using displays_draw(2) [of s X Y x y font "\<lparr>c_data = c, c_fg = fg, c_bg = bg\<rparr>" e] assms by simp

lemma cell_runs:
  assumes "x < 80" and "y < 30"
  shows "get_cell (of_nat x) (of_nat y) s = Inr (damage_tracking_data s x y, s)"
    and "set_cell (of_nat x) (of_nat y) d s = Inr ((), s\<lparr>damage_tracking_data := (damage_tracking_data s)(x := (damage_tracking_data s x)(y := d))\<rparr>)"
proof -
  have "(of_nat x :: u32) < screen_width_in_chars \<and> (of_nat y :: u32) < screen_height_in_chars"
    using assms by (simp add: screen_width_in_chars_def screen_height_in_chars_def screen_defs word_less_nat_alt word_small unat_div)
  then show "get_cell (of_nat x) (of_nat y) s = Inr (damage_tracking_data s x y, s)"
    "set_cell (of_nat x) (of_nat y) d s = Inr ((), s\<lparr>damage_tracking_data := (damage_tracking_data s)(x := (damage_tracking_data s x)(y := d))\<rparr>)"
    using assms by (simp_all add: get_cell_def set_cell_def kern_simps word_small)
qed

lemma coords:
  assumes "p \<le> 2400"
  shows "fb_char_index_to_char_x_coord (of_nat (8 * p)) = of_nat (p mod 80)"
    and "fb_char_index_to_char_y_coord (of_nat (8 * p)) = of_nat (p div 80)"
proof -
  have u: "unat (of_nat (8 * p) :: u32) = 8 * p" using assms by (simp add: word_small del: of_nat_mult)
  have "(8 * p) mod 640 div 8 = p mod 80" using mult_mod_right [of 8 p 80] by simp
  then show "fb_char_index_to_char_x_coord (of_nat (8 * p)) = of_nat (p mod 80)"
    using assms u by (simp add: fb_char_index_to_char_x_coord_def screen_defs word_unat_eq_iff unat_div unat_mod word_small del: of_nat_mult)
  have "(8 * p) div 640 = p div 80" using div_mult_mult1 [of 8 p 80] by simp
  then show "fb_char_index_to_char_y_coord (of_nat (8 * p)) = of_nat (p div 80)"
    using assms u by (simp add: fb_char_index_to_char_y_coord_def screen_defs word_unat_eq_iff unat_div word_small del: of_nat_mult)
qed

lemma move_cursor_run:
  assumes "cursor_x s = of_nat a" and "cursor_y s = of_nat b" and "a < 80" and "b < 30" and "x < 80" and "y < 30"
  shows "move_cursor font (of_nat x) (of_nat y) (of_nat tx) (of_nat ty) s =
    Inr ((), (draw font (damage_tracking_data s x y) x y
       (draw font \<lparr>c_data = 32, c_fg = c_bg (damage_tracking_data s a b), c_bg = c_fg (damage_tracking_data s a b)\<rparr> tx ty s))
       \<lparr>cursor_x := of_nat tx, cursor_y := of_nat ty\<rparr>)"
  using assms by (simp add: move_cursor_def kern_simps cell_runs)

section \<open>Text on the screen\<close>

text \<open>
  What the code does to the screen, seen from outside: a table of cells and the number of the cell the
  next character goes to. A full screen scrolls and the character that found it full is dropped. The
  entry of the corner is cleared by every scroll.
\<close>

definition shift_up :: "(nat \<Rightarrow> nat \<Rightarrow> cell) \<Rightarrow> nat \<Rightarrow> nat \<Rightarrow> cell" where
  "shift_up T x y = (if y = 29 \<or> x = 0 \<and> y = 0 then blank else T x (y + 1))"

definition put_char :: "u32 \<Rightarrow> u32 \<Rightarrow> (nat \<Rightarrow> nat \<Rightarrow> cell) \<times> nat \<Rightarrow> int \<Rightarrow> (nat \<Rightarrow> nat \<Rightarrow> cell) \<times> nat" where
  "put_char fg bg = (\<lambda>(T, p) c.
     if p \<ge> 2400 \<or> p \<ge> 2320 \<and> c = 10 then (shift_up T, 2320)
     else if c = 10 then (T, 80 * (p div 80 + 1))
     else (T(p mod 80 := (T (p mod 80))(p div 80 := \<lparr>c_data = of_int c, c_fg = fg, c_bg = bg\<rparr>)), p + 1))"

text \<open>
  The state of the code implements such a screen: the table and the index agree with it, and every
  cell but the cursor's and the corner displays its entry.
\<close>

definition in_sync :: "font \<Rightarrow> vga_state \<Rightarrow> (nat \<Rightarrow> nat \<Rightarrow> cell) \<times> nat \<Rightarrow> bool" where
  "in_sync font s = (\<lambda>(T, p). fb_mode s \<and> p \<le> 2400 \<and> fb_char_index s = of_nat (8 * p) \<and>
     cursor_x s = of_nat (p mod 80) \<and> cursor_y s = of_nat (p div 80) \<and>
     (\<forall>x<80. \<forall>y<30. damage_tracking_data s x y = T x y \<and>
        ((x, y) \<noteq> (0, 0) \<and> (x, y) \<noteq> (p mod 80, p div 80) \<longrightarrow> displays font s x y (T x y))))"

lemma in_syncI:
  assumes "fb_mode s" and "p \<le> 2400" and "fb_char_index s = of_nat (8 * p)"
    and "cursor_x s = of_nat (p mod 80)" and "cursor_y s = of_nat (p div 80)"
    and "\<And>x y. x < 80 \<Longrightarrow> y < 30 \<Longrightarrow> damage_tracking_data s x y = T x y"
    and "\<And>x y. x < 80 \<Longrightarrow> y < 30 \<Longrightarrow> (x, y) \<noteq> (0, 0) \<Longrightarrow> (x, y) \<noteq> (p mod 80, p div 80) \<Longrightarrow> displays font s x y (T x y)"
  shows "in_sync font s (T, p)"
  using assms unfolding in_sync_def by blast

lemma in_sync_displays:
  "in_sync font s (T, p) \<Longrightarrow> x < 80 \<Longrightarrow> y < 30 \<Longrightarrow> (x, y) \<noteq> (0, 0) \<Longrightarrow> (x, y) \<noteq> (p mod 80, p div 80) \<Longrightarrow> displays font s x y (T x y)"
  unfolding in_sync_def by blast

lemma uart_sync [simp]: "in_sync font (s\<lparr>serial := b\<rparr>) = in_sync font s"
  by (auto simp: in_sync_def fun_eq_iff)

lemma uartputc_run: "uartputc c s = Inr ((), s\<lparr>serial := serial s @ (if uart s then [of_int c] else [])\<rparr>)"
  by (simp add: uartputc_def kern_simps)

lemma glyph_run:
  fixes p :: nat and c :: int and fg bg :: u32 and font :: font
  assumes "fb_char_index s = of_nat (8 * p)" and "p < 2400" and cu: "cursor_x s = of_nat a" "cursor_y s = of_nat b" "a < 80" "b < 30"
  defines "x \<equiv> p mod 80" and "y \<equiv> p div 80" and "X \<equiv> (p + 1) mod 80" and "Y \<equiv> (p + 1) div 80"
    and "d \<equiv> \<lparr>c_data = of_int c, c_fg = fg, c_bg = bg\<rparr>"
  defines "s2 \<equiv> (draw font d x y s)\<lparr>damage_tracking_data := (damage_tracking_data s)(x := (damage_tracking_data s x)(y := d)),
      fb_char_index := of_nat (8 * (p + 1))\<rparr>"
  defines "e \<equiv> damage_tracking_data s2 a b"
  shows "vga_write_glyph font c fg bg s = Inr ((), (draw font d x y (draw font \<lparr>c_data = 32, c_fg = c_bg e, c_bg = c_fg e\<rparr> X Y s2))
    \<lparr>cursor_x := of_nat X, cursor_y := of_nat Y\<rparr>)"
proof -
  have b: "x < 80" "y < 30" using assms(2) by (auto simp: x_def y_def)
  have n: "of_nat (8 * p) + FONT_WIDTH = (of_nat (8 * (p + 1)) :: u32)" by (simp add: FONT_WIDTH_def)
  have "cursor_x s2 = of_nat a" "cursor_y s2 = of_nat b" "damage_tracking_data s2 x y = d" using cu by (simp_all add: s2_def)
  from move_cursor_run [OF this(1,2) cu(3,4) b, of font X Y] this(3)
  have mv: "move_cursor font (of_nat x) (of_nat y) (of_nat X) (of_nat Y) s2 =
     Inr ((), (draw font d x y (draw font \<lparr>c_data = 32, c_fg = c_bg e, c_bg = c_fg e\<rparr> X Y s2))\<lparr>cursor_x := of_nat X, cursor_y := of_nat Y\<rparr>)"
    by (simp add: e_def)
  have st: "set_cell (of_nat x) (of_nat y) d (draw font d x y s) =
     Inr ((), (draw font d x y s)\<lparr>damage_tracking_data := (damage_tracking_data s)(x := (damage_tracking_data s x)(y := d))\<rparr>)"
    using cell_runs(2) [OF b] by simp
  have q: "p \<le> 2400" "p + 1 \<le> 2400" using assms(2) by simp_all
  show ?thesis
    using mv st unfolding vga_write_glyph_def Let_def bindk_run getk_run assms(1) n sum.case prod.case coords [OF q(1)] coords [OF q(2)]
    by (simp add: kern_simps x_def y_def X_def Y_def d_def s2_def del: of_nat_mult of_nat_add of_nat_Suc)
qed

lemma write_glyph_sync:
  assumes "in_sync font s (T, p)" and "p < 2400" and "c \<noteq> 10"
  shows "\<exists>s'. vga_write_glyph font c fg bg s = Inr ((), s') \<and> in_sync font s' (put_char fg bg (T, p) c) \<and>
    serial s' = serial s \<and> uart s' = uart s"
proof -
  let ?x = "p mod 80" and ?y = "p div 80" and ?X = "(p + 1) mod 80" and ?Y = "(p + 1) div 80"
  let ?d = "\<lparr>c_data = of_int c, c_fg = fg, c_bg = bg\<rparr>"
  let ?s1 = "draw font ?d ?x ?y s"
  let ?s2 = "?s1\<lparr>damage_tracking_data := (damage_tracking_data s)(?x := (damage_tracking_data s ?x)(?y := ?d)), fb_char_index := of_nat (8 * (p + 1))\<rparr>"
  let ?s3 = "draw font \<lparr>c_data = 32, c_fg = bg, c_bg = fg\<rparr> ?X ?Y ?s2"
  let ?s4 = "(draw font ?d ?x ?y ?s3)\<lparr>cursor_x := of_nat ?X, cursor_y := of_nat ?Y\<rparr>"
  have b: "?x < 80" "?y < 30" "?X < 80" "?Y < 1000" and i: "fb_char_index s = of_nat (8 * p)" and m: "fb_mode s"
    and cu: "cursor_x ?s2 = of_nat ?x" "cursor_y ?s2 = of_nat ?y"
    using assms by (auto simp: in_sync_def)
  have run: "vga_write_glyph font c fg bg s = Inr ((), ?s4)"
    using glyph_run [OF i assms(2), of ?x ?y font c fg bg] b cu by simp
  have dp: "displays font ?s4 x y e = displays font s x y e" if "x < 80" "y < 30" "(x, y) \<noteq> (?x, ?y)" "(x, y) \<noteq> (?X, ?Y)" for x y e
    using that b m by (simp add: displays_render)
  have dh: "displays font ?s4 ?x ?y ?d"
    using displays_draw(1) [of ?s3 ?x ?y ?x ?y font ?d] b m by simp
  have "in_sync font ?s4 (put_char fg bg (T, p) c)"
    using assms b m dp dh unfolding in_sync_def put_char_def by auto
  with run show ?thesis by auto
qed

lemma newline_index:
  assumes "p < 2400"
  shows "(if of_nat (8 * p) mod SCREEN_WIDTH = 0 then of_nat (8 * p) + SCREEN_WIDTH else ROUND_UP (of_nat (8 * p)) SCREEN_WIDTH) =
    of_nat (8 * (80 * (p div 80 + 1)))"
proof -
  have u: "unat (of_nat (8 * p) :: u32) = 8 * p" using assms by (simp add: word_small del: of_nat_mult)
  have z: "of_nat (8 * p) mod SCREEN_WIDTH = 0 \<longleftrightarrow> p mod 80 = 0"
    using mult_mod_right [of 8 p 80, symmetric] by (simp add: word_unat_eq_iff unat_mod u screen_defs del: of_nat_mult)
  show ?thesis
  proof (cases "p mod 80 = 0")
    case True
    then have "80 * (p div 80) = p" by (metis add.right_neutral mult_div_mod_eq)
    then have "8 * p + 640 = 8 * (80 * (p div 80 + 1))" by simp
    then have "of_nat (8 * p) + SCREEN_WIDTH = (of_nat (8 * (80 * (p div 80 + 1))) :: u32)"
      by (metis SCREEN_WIDTH_def of_nat_add of_nat_numeral)
    with True z show ?thesis by simp
  next
    case False
    have "unat (of_nat (8 * p) + (SCREEN_WIDTH - 1) :: u32) = 8 * p + 639"
      using assms by (simp add: unat_word_ariths u screen_defs del: of_nat_mult)
    moreover have "(8 * p + 639) div 640 = p div 80 + 1"
    proof -
      have "(8 * (80 * q + r) + 639) div 640 = q + 1" if "r < 80" "0 < r" for q r :: nat
        using that by (intro div_nat_eqI) auto
      from this [of "p mod 80" "p div 80"] False show ?thesis by simp
    qed
    ultimately have "ROUND_UP (of_nat (8 * p)) SCREEN_WIDTH = of_nat (8 * (80 * (p div 80 + 1)))"
      using assms by (simp add: ROUND_UP_def word_unat_eq_iff unat_word_ariths unat_div screen_defs unat_of_nat del: of_nat_mult of_nat_add of_nat_Suc)
    with False z show ?thesis by simp
  qed
qed

lemma newline_sync:
  assumes "in_sync font s (T, p)" and "p < 2320"
  shows "\<exists>s'. vga_emit_newline font s = Inr ((), s') \<and> in_sync font s' (put_char fg bg (T, p) 10) \<and> serial s' = serial s \<and> uart s' = uart s"
proof -
  let ?x = "p mod 80" and ?y = "p div 80" and ?q = "80 * (p div 80 + 1)"
  let ?s1 = "s\<lparr>fb_char_index := of_nat (8 * ?q)\<rparr>"
  let ?s2 = "(draw font (T ?x ?y) ?x ?y (draw font \<lparr>c_data = 32, c_fg = c_bg (T ?x ?y), c_bg = c_fg (T ?x ?y)\<rparr> 0 (?y + 1) ?s1))
     \<lparr>cursor_x := of_nat 0, cursor_y := of_nat (?y + 1)\<rparr>"
  have b: "?x < 80" "?y < 29" and i: "fb_char_index s = of_nat (8 * p)" and m: "fb_mode s"
    and cu: "cursor_x ?s1 = of_nat ?x" "cursor_y ?s1 = of_nat ?y" and t: "damage_tracking_data s ?x ?y = T ?x ?y"
    using assms by (auto simp: in_sync_def)
  have q: "?q \<le> 2400" "?q mod 80 = 0" "?q div 80 = ?y + 1" using b by auto
  have mv: "move_cursor font (of_nat ?x) (of_nat ?y) (of_nat 0) (of_nat (?y + 1)) ?s1 = Inr ((), ?s2)"
    using move_cursor_run [OF cu, of ?x ?y font 0 "?y + 1"] b t by simp
  have nl: "vga_write_newline s = Inr ((), ?s1)"
    using newline_index [of p] assms(2) unfolding vga_write_newline_def i modk_run by simp
  have run: "vga_emit_newline font s = Inr ((), ?s2)"
    using mv coords [of p] coords [OF q(1)] assms(2) b i
    unfolding vga_emit_newline_def bindk_run thenk_run getk_run sum.case prod.case nl q(2,3)
    by (simp del: of_nat_mult of_nat_add of_nat_Suc)
  have dp: "displays font ?s2 x y e = displays font s x y e" if "x < 80" "y < 30" "(x, y) \<noteq> (?x, ?y)" "(x, y) \<noteq> (0, ?y + 1)" for x y e
    using that b m displays_render [of _ 0 "Suc ?y" x y font] by (auto simp: displays_render)
  have dh: "displays font ?s2 ?x ?y (T ?x ?y)"
    using displays_draw(1) [of "draw font \<lparr>c_data = 32, c_fg = c_bg (T ?x ?y), c_bg = c_fg (T ?x ?y)\<rparr> 0 (?y + 1) ?s1" ?x ?y ?x ?y font "T ?x ?y"] b m by simp
  have d: "displays font ?s2 x y (T x y)" if "x < 80" "y < 30" "(x, y) \<noteq> (0, 0)" "(x, y) \<noteq> (0, ?y + 1)" for x y
  proof (cases "(x, y) = (?x, ?y)")
    case False
    with assms(1) that(1-3) have "displays font s x y (T x y)" by (simp add: in_sync_def)
    with dp [OF that(1,2) False that(4)] show ?thesis by blast
  qed (use dh in auto)
  have f: "fb_mode ?s2" "fb_char_index ?s2 = of_nat (8 * ?q)" "cursor_x ?s2 = of_nat 0" "cursor_y ?s2 = of_nat (?y + 1)"
    "damage_tracking_data ?s2 = damage_tracking_data s" "serial ?s2 = serial s" "uart ?s2 = uart s"
    using m by simp_all
  have "in_sync font ?s2 (T, ?q)"
    by (rule in_syncI, unfold f q) (use assms(1) m d q in \<open>auto simp: in_sync_def\<close>)
  moreover have "put_char fg bg (T, p) 10 = (T, ?q)" using assms(2) by (simp add: put_char_def)
  ultimately have "in_sync font ?s2 (put_char fg bg (T, p) 10)" by simp
  with run f(6,7) show ?thesis by blast
qed

subsection \<open>Scrolling the text\<close>

lemma foreachk_steps:
  assumes "\<And>k s. k < length xs \<Longrightarrow> I k s \<Longrightarrow> \<exists>s'. f (xs ! k) s = Inr ((), s') \<and> I (Suc k) s'" and "I 0 s"
  shows "\<exists>s'. foreachk xs f s = Inr ((), s') \<and> I (length xs) s'"
  using assms
proof (induction xs arbitrary: s I)
  case (Cons x xs)
  obtain s1 where s1: "f x s = Inr ((), s1)" "I (Suc 0) s1" using Cons.prems(1) [of 0 s] Cons.prems(2) by auto
  have "\<exists>s'. foreachk xs f s1 = Inr ((), s') \<and> I (Suc (length xs)) s'"
    using Cons.IH [of "\<lambda>k. I (Suc k)" s1] Cons.prems(1) [of "Suc _"] s1(2) by auto
  with s1 show ?case by (auto simp: thenk_run)
qed (simp add: returnk_run)

text \<open>The table after \<open>k\<close> turns of the loop, and what holds of the state then.\<close>

definition moved :: "(nat \<Rightarrow> nat \<Rightarrow> cell) \<Rightarrow> nat \<Rightarrow> nat \<Rightarrow> nat \<Rightarrow> cell" where
  "moved T k x y = (if y < 29 \<and> y * 1280 + x < k then T x (y + 1) else T x y)"

definition same_rest :: "vga_state \<Rightarrow> vga_state \<Rightarrow> bool" where
  "same_rest s0 s \<longleftrightarrow> fb_mode s \<and> serial s = serial s0 \<and> uart s = uart s0"

definition scrolled :: "font \<Rightarrow> vga_state \<Rightarrow> (nat \<Rightarrow> nat \<Rightarrow> cell) \<Rightarrow> vga_state \<Rightarrow> bool" where
  "scrolled font s0 T s \<longleftrightarrow> same_rest s0 s \<and> (\<forall>x<80. \<forall>y<30. damage_tracking_data s x y = T x y) \<and>
     (\<forall>x<80. \<forall>y<29. (x, y) \<noteq> (0, 0) \<longrightarrow> displays font s x y (T x y))"

lemma scroll_coords:
  assumes "k < 37120"
  shows "fb_char_index_to_char_x_coord (of_nat (10240 + k * 8)) = of_nat (k mod 80)"
    and "fb_char_index_to_char_y_coord (of_nat (10240 + k * 8) div FONT_HEIGHT) = of_nat (k div 1280 + 1)"
proof -
  have u: "unat (of_nat (10240 + k * 8) :: u32) = 10240 + k * 8"
    using assms by (intro word_small) simp
  have "(10240 + k * 8) mod 640 = (k * 8) mod 640" using mod_mult_self3 [of 16 640 "k * 8"] by simp
  then have "(10240 + k * 8) mod 640 div 8 = k mod 80" using mult_mod_right [of 8 k 80] by (simp add: mult.commute)
  then show "fb_char_index_to_char_x_coord (of_nat (10240 + k * 8)) = of_nat (k mod 80)"
    by (simp add: fb_char_index_to_char_x_coord_def screen_defs word_unat_eq_iff unat_div unat_mod u word_small del: of_nat_mult of_nat_add)
  have "(10240 + k * 8) div 16 div 640 = k div 1280 + 1"
    using div_mult_mult1 [of 8 "1280 + k" 1280] by (simp add: div_mult2_eq [symmetric] mult.commute distrib_left)
  then show "fb_char_index_to_char_y_coord (of_nat (10240 + k * 8) div FONT_HEIGHT) = of_nat (k div 1280 + 1)"
    using assms by (simp add: fb_char_index_to_char_y_coord_def screen_defs word_unat_eq_iff unat_div u unat_of_nat del: of_nat_mult of_nat_add of_nat_Suc)
qed

lemma moved_step:
  assumes "k < 37120"
  defines "x \<equiv> k mod 80" and "y \<equiv> k div 1280"
  shows "x < 80" and "y < 29" and "moved T k x (y + 1) = T x (y + 1)"
    and "moved T k x y \<noteq> T x (y + 1) \<Longrightarrow> y * 1280 + x = k"
    and "x' < 80 \<Longrightarrow> y' * 1280 + x' = k \<Longrightarrow> x' = x \<and> y' = y"
    and "moved T (Suc k) x' y' = (if y' < 29 \<and> y' * 1280 + x' = k then T x' (y' + 1) else moved T k x' y')"
proof -
  have k: "k = y * 1280 + k mod 1280" "k mod 1280 < 1280" by (simp_all add: y_def)
  have "k mod 80 = k mod 1280 mod 80" by (simp add: mod_mod_cancel)
  then have x: "x \<le> k mod 1280" by (simp add: x_def)
  show "x < 80" "y < 29" using assms(1) by (auto simp: x_def y_def)
  have "k < (y + 1) * 1280" using dividend_less_div_times [of 1280 k] by (simp add: y_def)
  then show "moved T k x (y + 1) = T x (y + 1)" by (simp add: moved_def)
  show "y * 1280 + x = k" if "moved T k x y \<noteq> T x (y + 1)"
    using that x k \<open>y < 29\<close> by (auto simp: moved_def split: if_splits)
  show "x' = x \<and> y' = y" if "x' < 80" "y' * 1280 + x' = k"
  proof -
    have "k mod 80 = x'" "k div 1280 = y'"
      using that mod_mult_self3 [of "y' * 16" 80 x'] by (auto simp: mult.assoc)
    then show ?thesis by (simp add: x_def y_def)
  qed
  show "moved T (Suc k) x' y' = (if y' < 29 \<and> y' * 1280 + x' = k then T x' (y' + 1) else moved T k x' y')"
    by (auto simp: moved_def)
qed

lemma scroll_cell_step:
  assumes "k < 37120" and "scrolled font s0 (moved T k) s"
  shows "\<exists>s'. scroll_cell font (of_nat (10240 + k * 8)) s = Inr ((), s') \<and> scrolled font s0 (moved T (Suc k)) s'"
proof -
  define x y where "x = k mod 80" and "y = k div 1280"
  note st = moved_step [OF assms(1), folded x_def y_def]
  let ?here = "T x (y + 1)" and ?above = "moved T k x y"
  have y1: "of_nat (y + 1) - 1 = (of_nat y :: u32)" by simp
  have run: "scroll_cell font (of_nat (10240 + k * 8)) s = (if ?here = ?above then Inr ((), s)
      else Inr ((), (draw font ?here x y s)\<lparr>damage_tracking_data := (damage_tracking_data s)(x := (damage_tracking_data s x)(y := ?here))\<rparr>))"
    using assms(2) st(1,2,3) cell_runs [of x "y + 1"] cell_runs [of x y]
    unfolding scroll_cell_def scroll_coords [OF assms(1)] x_def [symmetric] y_def [symmetric] Let_def y1 scrolled_def
    by (simp add: kern_simps del: of_nat_add of_nat_Suc)
  show ?thesis
  proof (cases "?here = ?above")
    case True
    have "moved T (Suc k) x' y' = moved T k x' y'" if "x' < 80" for x' y'
      using st(5) [of x' y'] st(6) [of T x' y'] True that by auto
    then have "scrolled font s0 (moved T (Suc k)) s" using assms(2) by (simp add: scrolled_def)
    with run True show ?thesis by auto
  next
    case False
    let ?s = "(draw font ?here x y s)\<lparr>damage_tracking_data := (damage_tracking_data s)(x := (damage_tracking_data s x)(y := ?here))\<rparr>"
    have "y * 1280 + x = k" using st(4) [of T] False by simp
    then have "y' < 29 \<and> y' * 1280 + x' = k \<longleftrightarrow> x' = x \<and> y' = y" if "x' < 80" for x' y'
      using st(2) st(5) [OF that, of y'] by blast
    then have m: "moved T (Suc k) x' y' = (if x' = x \<and> y' = y then ?here else moved T k x' y')" if "x' < 80" for x' y'
      using that unfolding st(6) by (metis (full_types))
    have "fb_mode s" using assms(2) by (simp add: scrolled_def same_rest_def)
    then have d: "displays font ?s x' y' (moved T (Suc k) x' y')" if "x' < 80" "y' < 29" "(x', y') \<noteq> (0, 0)" for x' y'
      using that assms(2) displays_draw [of s x y x' y' font ?here] st(1,2) by (auto simp: m scrolled_def)
    have "scrolled font s0 (moved T (Suc k)) ?s"
      using assms(2) d unfolding scrolled_def same_rest_def by (simp add: m)
    with run False show ?thesis by auto
  qed
qed

lemma scroll_rows_run:
  assumes "n \<le> 37120" and "scrolled font s0 (moved T 0) s"
  shows "\<exists>s'. scroll_rows font 10240 n s = Inr ((), s') \<and> scrolled font s0 (moved T n) s'"
proof -
  let ?xs = "map (\<lambda>k. of_nat (10240 + k * unat FONT_WIDTH) :: u32) [0..<n]"
  have l: "length ?xs = n" by simp
  have "\<exists>s'. scroll_cell font (?xs ! k) s = Inr ((), s') \<and> scrolled font s0 (moved T (Suc k)) s'"
    if "k < length ?xs" "scrolled font s0 (moved T k) s" for k s
    using scroll_cell_step [OF _ that(2)] that(1) assms(1) by (simp add: FONT_WIDTH_def)
  from foreachk_steps [where xs = ?xs, OF this assms(2)] show ?thesis unfolding l scroll_rows_def .
qed

definition cleared :: "(nat \<Rightarrow> nat \<Rightarrow> cell) \<Rightarrow> nat \<Rightarrow> nat \<Rightarrow> nat \<Rightarrow> cell" where
  "cleared T i x y = (if y = 29 \<and> x < i \<or> 0 < i \<and> x = 0 \<and> y = 0 then blank else T x y)"

lemma height_29: "screen_height_in_chars - 1 = of_nat 29"
  by (simp add: screen_height_in_chars_def screen_defs word_unat_eq_iff unat_div)

lemma clear_last_row_step:
  assumes "i < 80" and "scrolled font s0 (cleared T i) s" and "\<And>x. x < i \<Longrightarrow> displays font s x 29 blank"
  shows "\<exists>s'. clear_last_row font i s = Inr ((), s') \<and> scrolled font s0 (cleared T (Suc i)) s' \<and>
    (\<forall>x<Suc i. displays font s' x 29 blank)"
proof -
  let ?put = "\<lambda>x y T. T(x := (T x)(y := blank))"
  let ?s = "(draw font blank i 29 s)\<lparr>damage_tracking_data := ?put 0 0 (?put i 29 (damage_tracking_data s))\<rparr>"
  have g: "\<not> (of_nat i > screen_width_in_chars \<or> of_nat 29 > screen_height_in_chars)"
    using assms(1) by (simp add: screen_width_in_chars_def screen_height_in_chars_def screen_defs word_less_nat_alt word_small unat_div)
  have bl: "\<lparr>c_data = 32, c_fg = VGA_COLOR_WHITE, c_bg = VGA_COLOR_BLACK\<rparr> = blank" by (simp add: blank_def)
  have r: "render_font_glyph font 32 (of_nat i * FONT_WIDTH) (29 * FONT_HEIGHT) VGA_COLOR_WHITE VGA_COLOR_BLACK
      (s\<lparr>damage_tracking_data := T\<rparr>) = (draw font blank i 29 s)\<lparr>damage_tracking_data := T\<rparr>" for T
    by (simp add: blank_def render_data)
  have run: "clear_last_row font i s = Inr ((), ?s)"
    using g cell_runs(2) [OF assms(1), of 29] cell_runs(2) [of 0 0]
    unfolding clear_last_row_def height_29 clear_cells_def bl by (simp add: kern_simps r)
  have m: "fb_mode s" using assms(2) by (simp add: scrolled_def same_rest_def)
  have "displays font ?s x y e = displays font s x y e" if "x < 80" "y < 30" "x \<noteq> i \<or> y \<noteq> 29" for x y e
    using displays_draw(2) [of s i 29 x y font blank] that assms(1) m by simp
  moreover have "displays font ?s i 29 blank"
    using displays_draw(1) [of s i 29 i 29 font blank] assms(1) m by simp
  ultimately have "scrolled font s0 (cleared T (Suc i)) ?s \<and> (\<forall>x<Suc i. displays font ?s x 29 blank)"
    using assms by (auto simp: scrolled_def same_rest_def cleared_def less_Suc_eq)
  with run show ?thesis by blast
qed

lemma clear_row_run:
  assumes "n \<le> 80" and "scrolled font s0 (cleared T 0) s"
  shows "\<exists>s'. clear_row font n s = Inr ((), s') \<and> scrolled font s0 (cleared T n) s' \<and> (\<forall>x<n. displays font s' x 29 blank)"
proof -
  let ?I = "\<lambda>i s. scrolled font s0 (cleared T i) s \<and> (\<forall>x<i. displays font s x 29 blank)"
  have "\<exists>s'. clear_last_row font ([0..<n] ! k) s = Inr ((), s') \<and> ?I (Suc k) s'" if "k < length [0..<n]" "?I k s" for k s
    using clear_last_row_step [of k font s0 T s] that assms(1) by simp
  from foreachk_steps [where xs = "[0..<n]" and I = ?I, OF this] assms(2) show ?thesis by (simp add: clear_row_def)
qed

lemma scroll_sync:
  assumes "in_sync font s (T, p)" and "p \<ge> 2320"
  shows "\<exists>s'. vga_scroll font s = Inr ((), s') \<and> in_sync font s' (shift_up T, 2320) \<and> serial s' = serial s \<and> uart s' = uart s"
proof -
  have p: "p div 80 \<ge> 29" using assms(2) by (simp add: less_eq_div_iff_mult_less_eq)
  have "scrolled font s (moved T 0) s"
    using assms(1) p by (auto simp: scrolled_def same_rest_def moved_def in_sync_def)
  from scroll_rows_run [OF order.refl this] obtain s1 where
    s1: "scroll_rows font 10240 37120 s = Inr ((), s1)" "scrolled font s (moved T 37120) s1" by blast
  then have "scrolled font s (cleared (moved T 37120) 0) s1" by (simp add: cleared_def scrolled_def)
  from clear_row_run [OF order.refl this] obtain s2 where
    s2: "clear_row font 80 s1 = Inr ((), s2)" "scrolled font s (cleared (moved T 37120) 80) s2" "\<forall>x<80. displays font s2 x 29 blank" by blast
  let ?s3 = "s2\<lparr>cursor_y := of_nat 29, fb_char_index := of_nat (8 * 2320), cursor_x := 0\<rparr>"
  have n: "unat (SCREEN_WIDTH * FONT_HEIGHT) = 10240" "unat (SCREEN_HEIGHT * SCREEN_WIDTH) = 307200" "unat FONT_WIDTH = 8"
    "unat screen_width_in_chars = 80"
    by (simp_all add: screen_defs screen_width_in_chars_def unat_div)
  have run: "vga_scroll font s = Inr ((), ?s3)"
    using s1(1) s2(1) unfolding vga_scroll_def Let_def n height_29
    by (simp add: kern_simps vga_write_carriage_return_def ansi_set_cursor_location_x_def x_y_to_fb_char_index_def screen_defs)
  have c: "cleared (moved T 37120) 80 x y = shift_up T x y" if "x < 80" "y < 30" for x y
    using that by (auto simp: cleared_def moved_def shift_up_def)
  have "in_sync font ?s3 (shift_up T, 2320)"
  proof (rule in_syncI)
    fix x y :: nat
    assume xy: "x < 80" "y < 30" "(x, y) \<noteq> (0, 0)"
    show "displays font ?s3 x y (shift_up T x y)"
    proof (cases "y = 29")
      case False
      with xy(2) have "y < 29" by simp
      with s2(2) xy have "displays font s2 x y (cleared (moved T 37120) 80 x y)" unfolding scrolled_def by blast
      then show ?thesis by (simp add: c [OF xy(1,2)])
    qed (use s2(3) xy in \<open>simp add: shift_up_def\<close>)
  qed (use s2(2) c in \<open>auto simp: scrolled_def same_rest_def\<close>)
  with run s2(2) show ?thesis by (auto simp: scrolled_def same_rest_def)
qed

section \<open>Properties\<close>

definition text_char :: "int \<Rightarrow> bool" where
  "text_char c \<longleftrightarrow> c \<noteq> 8 \<and> c \<noteq> 9 \<and> c \<noteq> 13 \<and> c \<noteq> BACKSPACE"

lemma index_tests:
  assumes "p \<le> 2400"
  shows "of_nat (8 * p) \<ge> SCREEN_WIDTH * screen_height_in_chars \<longleftrightarrow> p \<ge> 2400"
    and "of_nat (8 * p) \<ge> SCREEN_WIDTH * (screen_height_in_chars - 1) \<longleftrightarrow> p \<ge> 2320"
  using assms by (simp_all add: screen_height_in_chars_def screen_defs word_le_nat_alt word_small unat_word_ariths unat_div del: of_nat_mult)

lemma put_char_sync:
  assumes "in_sync font s scr" and "text_char c"
  shows "\<exists>s'. vga_write_char font c fg bg s = Inr ((), s') \<and> in_sync font s' (put_char fg bg scr c) \<and>
    serial s' = serial s @ (if uart s then [of_int c] else []) \<and> uart s' = uart s"
proof -
  obtain T p where scr: "scr = (T, p)" by (cases scr)
  let ?body = "if p \<ge> 2400 \<or> (p \<ge> 2320 \<and> c = 10) then vga_scroll font
     else if c = 10 then vga_emit_newline font else vga_write_glyph font c fg bg"
  have p: "p \<le> 2400" and i: "fb_char_index s = of_nat (8 * p)" using assms(1) scr by (auto simp: in_sync_def)
  have "\<exists>s'. ?body s = Inr ((), s') \<and> in_sync font s' (put_char fg bg scr c) \<and> serial s' = serial s \<and> uart s' = uart s"
    using scroll_sync [of font s T p] newline_sync [of font s T p fg bg] write_glyph_sync [of font s T p c fg bg] assms(1)
    by (auto simp: scr put_char_def not_le)
  moreover have "vga_write_char font c fg bg s = thenk ?body (uartputc c) s"
    using assms(2) unfolding vga_write_char_def vga_emit_def bindk_run getk_run sum.case prod.case i index_tests [OF p]
    by (simp add: text_char_def)
  ultimately show ?thesis by (auto simp: thenk_run uartputc_run)
qed


text \<open>The screen after \<^verbatim>\<open>vga_init\<close>, with a framebuffer of zeros: the tables are static and hold zeros.\<close>

definition boot_screen :: vga_state where
  "boot_screen = vga_init 640 480 2560 32 (\<lambda>_. 0)
    \<lparr>framebuffer_width = 0, framebuffer_height = 0, framebuffer_pitch = 0, framebuffer_bpp = 0, fb = (\<lambda>_. 0),
     damage_tracking_data = (\<lambda>_ _. \<lparr>c_data = 0, c_fg = 0, c_bg = 0\<rparr>), cursor_x = 0, cursor_y = 0,
     fb_char_index = 0, uart = True, serial = []\<rparr>"

lemma boot_in_sync: "in_sync font boot_screen (\<lambda>_ _. \<lparr>c_data = 0, c_fg = 0, c_bg = 0\<rparr>, 0)"
proof -
  have "le_val (replicate n 0) = 0" for n by (induction n) simp_all
  then have "pixel boot_screen x y = 0" for x y
    by (simp add: pixel_def boot_screen_def vga_init_def map_replicate_const)
  then show ?thesis
    by (intro in_syncI) (simp_all add: boot_screen_def vga_init_def fb_mode_def displays_def glyph_pixel_def)
qed


section \<open>A backspace at the start of a row\<close>

lemma lost_cursor:
  assumes "cursor_x s = - 1"
  shows "move_cursor font a b c d s = Inl (Panic ''out of bounds'')"
proof -
  have "\<not> (- 1 :: u32) < screen_width_in_chars" by (simp add: not_less)
  with assms show ?thesis by (simp add: move_cursor_def kern_simps get_cell_def)
qed

lemma lost_cursor_write:
  assumes "cursor_x s = - 1" and "fb_char_index s = of_nat (8 * p)" and "p < 2320" and "text_char c"
  shows "vga_write_char font c fg bg s = Inl (Panic ''out of bounds'')"
proof -
  have p: "p \<le> 2400" "\<not> 2400 \<le> p" "\<not> 2320 \<le> p" and b: "p mod 80 < 80" "p div 80 < 30" using assms(3) by auto
  have "vga_emit_newline font s = Inl (Panic ''out of bounds'')"
    using assms(1) by (simp add: vga_emit_newline_def vga_write_newline_def kern_simps lost_cursor)
  moreover have "vga_write_glyph font c fg bg s = Inl (Panic ''out of bounds'')"
    using assms(1) unfolding vga_write_glyph_def Let_def bindk_run getk_run sum.case prod.case assms(2) coords [OF p(1)]
    by (simp add: kern_simps cell_runs [OF b] lost_cursor)
  ultimately show ?thesis
    using assms(4) p unfolding vga_write_char_def vga_emit_def bindk_run getk_run sum.case prod.case assms(2) index_tests [OF p(1)]
    by (simp add: text_char_def thenk_run)
qed

lemma backspace_run:
  assumes "in_sync font s (T, 80 * k)" and "0 < k" and "k < 29"
  shows "\<exists>s'. vga_write_char font 8 fg bg s = Inr ((), s') \<and> cursor_x s' = - 1 \<and> fb_char_index s' = of_nat (8 * (80 * k - 1))"
proof -
  let ?p = "80 * k"
  have i: "fb_char_index s = of_nat (8 * ?p)" and cu: "cursor_x s = of_nat 0" "cursor_y s = of_nat k"
    using assms by (auto simp: in_sync_def)
  have d: "of_nat (640 * k) - FONT_WIDTH = (of_nat (8 * (?p - 1)) :: u32)"
    using assms(2) by (simp add: FONT_WIDTH_def of_nat_diff right_diff_distrib')
  let ?s0 = "s\<lparr>fb_char_index := of_nat (8 * (?p - 1))\<rparr>"
  have q: "?p - 1 \<le> 2400" "\<not> 2400 \<le> ?p - 1" "?p \<le> 2400" "\<not> 2400 \<le> ?p" "?p - 1 + 1 = ?p" "?p - 1 < 2400" using assms(2,3) by auto
  obtain s1 where s1: "vga_write_glyph font 32 fg bg ?s0 = Inr ((), s1)" "fb_char_index s1 = of_nat (8 * ?p)"
      "cursor_x s1 = of_nat 0" "cursor_y s1 = of_nat k"
    using glyph_run [of ?s0 "?p - 1" 0 k font 32 fg bg] cu assms(3) q(5,6) by (simp del: of_nat_mult)
  let ?s2 = "s1\<lparr>serial := serial s1 @ (if uart s1 then [of_int 32] else [])\<rparr>"
  have e: "vga_emit font (returnk ()) 32 fg bg ?s0 = Inr ((), ?s2)"
    using s1(1) q(2) index_tests(1) [OF q(1)] unfolding vga_emit_def bindk_run getk_run sum.case prod.case
    by (simp add: BACKSPACE_def thenk_run uartputc_run del: of_nat_mult of_nat_diff One_nat_def)
  have m: "of_nat 0 - 1 = (of_nat 4294967295 :: u32)" by simp
  obtain s3 where s3: "move_cursor font (of_nat 0) (of_nat k) (of_nat 0 - 1) (of_nat k) ?s2 = Inr ((), s3)"
      "cursor_x s3 = - 1" "fb_char_index s3 = of_nat (8 * ?p)"
    using move_cursor_run [of ?s2 0 k 0 k font 4294967295 k] s1(2-4) assms(3) unfolding m by (simp del: of_nat_mult)
  have c: "?p mod 80 = 0" "?p div 80 = k" by simp_all
  have z: "\<not> (of_nat (8 * ?p) \<le> (0::u32))" using assms(2,3) by (simp add: word_le_nat_alt word_small del: of_nat_mult)
  have "vga_backspace font fg bg s = Inr ((), s3\<lparr>fb_char_index := of_nat (8 * (?p - 1))\<rparr>)"
    using z e s1(2) s3 coords [OF q(3), unfolded c]
    unfolding vga_backspace_def bindk_run getk_run sum.case prod.case i
    by (simp add: kern_simps i d Let_def del: of_nat_mult)
  then show ?thesis
    using s3(2) q unfolding vga_write_char_def vga_emit_def bindk_run getk_run sum.case prod.case i index_tests [OF q(3)]
    by (simp add: kern_simps uartputc_run BACKSPACE_def del: of_nat_mult)
qed

text \<open>
  C37: a backspace at the start of a row loses the cursor. \<^verbatim>\<open>vga_backspace\<close> moves the cursor to column
  \<open>x - 1\<close> of the row, which for \<open>x = 0\<close> wraps around; the next character then reads the table of cells at that
  column, far outside of it.
\<close>

theorem backspace_loses_cursor:
  assumes "in_sync font s (T, 80 * k)" and "0 < k" and "k < 29" and "text_char c"
  shows "\<exists>s'. vga_write_char font 8 fg bg s = Inr ((), s') \<and> cursor_x s' = - 1 \<and>
    vga_write_char font c fg bg s' = Inl (Panic ''out of bounds'')"
proof -
  obtain s' where "vga_write_char font 8 fg bg s = Inr ((), s')" "cursor_x s' = - 1" "fb_char_index s' = of_nat (8 * (80 * k - 1))"
    using backspace_run [OF assms(1-3)] by blast
  moreover from this(2,3) have "vga_write_char font c fg bg s' = Inl (Panic ''out of bounds'')"
    by (rule lost_cursor_write) (use assms(2-4) in simp_all)
  ultimately show ?thesis by blast
qed

theorem backspace_loses_cursor_witness:
  "\<exists>s s'. foreachk [10] (\<lambda>c. vga_write_char (\<lambda>_ _. 0) c 7 0) boot_screen = Inr ((), s) \<and>
     vga_write_char (\<lambda>_ _. 0) 8 7 0 s = Inr ((), s') \<and> vga_write_char (\<lambda>_ _. 0) 65 7 0 s' = Inl (Panic ''out of bounds'')"
proof -
  have "text_char 10" "text_char 65" by (simp_all add: text_char_def BACKSPACE_def)
  then obtain s where s: "vga_write_char (\<lambda>_ _. 0) 10 7 0 boot_screen = Inr ((), s)"
      "in_sync (\<lambda>_ _. 0) s (\<lambda>_ _. \<lparr>c_data = 0, c_fg = 0, c_bg = 0\<rparr>, 80 * 1)"
    using put_char_sync [OF boot_in_sync, of 10 "\<lambda>_ _. 0" 7 0] by (auto simp: put_char_def)
  from backspace_loses_cursor [OF s(2), of 65 7 0] \<open>text_char 65\<close> s(1) show ?thesis
    by (auto simp: thenk_run returnk_run)
qed

end
