(* ===== verification/Kern_Kbd.thy ===== *)
theory Kern_Kbd
  imports Klib_Queue Kern_Base
begin

text \<open>
  The keyboard of \<^verbatim>\<open>kernel/dev/kbd.c\<close>: its tables and the translation of scan codes into characters.
\<close>

section \<open>Tables\<close>

text \<open>An array of 256 bytes given by its first elements and by designated ones; the others are 0.\<close>

definition key_table :: "nat list \<Rightarrow> (nat \<times> nat) list \<Rightarrow> nat \<Rightarrow> nat" where
  "key_table base extra i = (case map_of extra i of Some v \<Rightarrow> v | None \<Rightarrow> if i < length base then base ! i else 0)"

definition SHIFT :: u32 where "SHIFT = 1"
definition CTL :: u32 where "CTL = 2"
definition ALT :: u32 where "ALT = 4"
definition CAPSLOCK :: u32 where "CAPSLOCK = 8"
definition NUMLOCK :: u32 where "NUMLOCK = 16"
definition SCROLLLOCK :: u32 where "SCROLLLOCK = 32"
definition E0ESC :: u32 where "E0ESC = 64"

lemmas kbd_flags = SHIFT_def CTL_def ALT_def CAPSLOCK_def NUMLOCK_def SCROLLLOCK_def E0ESC_def

definition shiftcode :: "nat \<Rightarrow> u32" where
  "shiftcode i = (if i = 0x1D \<or> i = 0x9D then CTL else if i = 0x2A \<or> i = 0x36 then SHIFT else if i = 0x38 \<or> i = 0xB8 then ALT else 0)"

definition togglecode :: "nat \<Rightarrow> u32" where
  "togglecode i = (if i = 0x3A then CAPSLOCK else if i = 0x45 then NUMLOCK else if i = 0x46 then SCROLLLOCK else 0)"

definition pad_keys :: "(nat \<times> nat) list" where
  "pad_keys = [(0xC8, 226), (0xD0, 227), (0xC9, 230), (0xD1, 231), (0xCB, 228), (0xCD, 229), (0x97, 224), (0xCF, 225), (0xD2, 232), (0xD3, 233)]"

definition normal_keys :: "nat list" where
  "normal_keys =
    [0, 27, 49, 50, 51, 52, 53, 54, 55, 56, 57, 48, 45, 61, 8, 9, 113, 119, 101, 114, 116, 121, 117, 105,
     111, 112, 91, 93, 10, 0, 97, 115, 100, 102, 103, 104, 106, 107, 108, 59, 39, 96, 0, 92, 122, 120, 99,
     118, 98, 110, 109, 44, 46, 47, 0, 42, 0, 32, 0, 0, 0, 0, 0, 0, 0, 0, 0, 0, 0, 0, 0, 55, 56, 57, 45, 52,
     53, 54, 43, 49, 50, 51, 48, 46, 0, 0, 0, 0]"

definition normalmap :: "nat \<Rightarrow> nat" where
  "normalmap = key_table normal_keys ((0x9C, 10) # (0xB5, 47) # pad_keys)"

definition shift_keys :: "nat list" where
  "shift_keys =
    [0, 27, 33, 64, 35, 36, 37, 94, 38, 42, 40, 41, 95, 43, 8, 9, 81, 87, 69, 82, 84, 89, 85, 73, 79, 80,
     123, 125, 10, 0, 65, 83, 68, 70, 71, 72, 74, 75, 76, 58, 34, 126, 0, 124, 90, 88, 67, 86, 66, 78, 77,
     60, 62, 63, 0, 42, 0, 32, 0, 0, 0, 0, 0, 0, 0, 0, 0, 0, 0, 0, 0, 55, 56, 57, 45, 52, 53, 54, 43, 49,
     50, 51, 48, 46, 0, 0, 0, 0]"

definition shiftmap :: "nat \<Rightarrow> nat" where
  "shiftmap = key_table shift_keys ((0x9C, 10) # (0xB5, 47) # pad_keys)"

definition ctl_keys :: "nat list" where
  "ctl_keys =
    [0, 0, 0, 0, 0, 0, 0, 0, 0, 0, 0, 0, 0, 0, 0, 0, 17, 23, 5, 18, 20, 25, 21, 9, 15, 16, 0, 0, 13, 0, 1,
     19, 4, 6, 7, 8, 10, 11, 12, 0, 0, 0, 0, 28, 26, 24, 3, 22, 2, 14, 13, 0, 0, 239, 0, 0]"

definition ctlmap :: "nat \<Rightarrow> nat" where
  "ctlmap = key_table ctl_keys ((0x9C, 13) # (0xB5, 239) # pad_keys)"

section \<open>Scan codes\<close>

text \<open>\<open>kbd_scancode_into_char\<close> takes and returns the static variable \<^verbatim>\<open>shift\<close>.\<close>

definition charcode :: "u32 \<Rightarrow> nat \<Rightarrow> nat" where
  "charcode shift = (let k = unat (shift AND (CTL OR SHIFT)) in if k = 0 then normalmap else if k = 1 then shiftmap else ctlmap)"

definition kbd_scancode_into_char :: "u32 \<Rightarrow> nat \<Rightarrow> int \<times> u32" where
  "kbd_scancode_into_char shift data =
     (if data = 0xE0 then (0, shift OR E0ESC)
      else if data \<ge> 0x80
      then (let data = (if shift AND E0ESC \<noteq> 0 then data else data - 0x80) in (0, shift AND NOT (shiftcode data OR E0ESC)))
      else (let (data, shift) = (if shift AND E0ESC \<noteq> 0 then (data + 0x80, shift AND NOT E0ESC) else (data, shift));
                shift = (shift OR shiftcode data) XOR togglecode data;
                c = charcode shift data in
            (int (if shift AND CAPSLOCK \<noteq> 0
                  then (if 97 \<le> c \<and> c \<le> 122 then c - 32 else if 65 \<le> c \<and> c \<le> 90 then c + 32 else c)
                  else c), shift)))"

text \<open>The characters of a sequence of codes, and the final value of \<^verbatim>\<open>shift\<close>.\<close>

fun kbd_chars :: "u32 \<Rightarrow> nat list \<Rightarrow> int list \<times> u32" where
  "kbd_chars shift [] = ([], shift)"
| "kbd_chars shift (d # ds) =
     (let (c, shift') = kbd_scancode_into_char shift d; (cs, shift'') = kbd_chars shift' ds in
      (if c = 0 then cs else c # cs, shift''))"

lemma kbd_chars_append:
  "kbd_chars shift (xs @ ys) = (let (as, sh) = kbd_chars shift xs; (bs, sh') = kbd_chars sh ys in (as @ bs, sh'))"
  by (induction xs arbitrary: shift) (auto simp: Let_def split: prod.split)

section \<open>Typing\<close>

text \<open>
  The key of a printable character: its scan code and whether shift is held. Typing it sends the codes
  of the key going down and up, between those of the shift key when it is needed.
\<close>

definition key_of :: "nat \<Rightarrow> (nat \<times> bool) option" where
  "key_of c = (case first_index (\<lambda>k. normalmap k = c) [0..<0x58] of Some k \<Rightarrow> Some (k, False)
     | None \<Rightarrow> (case first_index (\<lambda>k. shiftmap k = c) [0..<0x58] of Some k \<Rightarrow> Some (k, True) | None \<Rightarrow> None))"

definition typing :: "nat \<Rightarrow> nat list" where
  "typing c = (case key_of c of None \<Rightarrow> [] | Some (k, sh) \<Rightarrow> if sh then [0x2A, k, k + 0x80, 0xAA] else [k, k + 0x80])"

text \<open>Every printable ASCII character, and the newline, has a key.\<close>

definition typable :: "nat list" where
  "typable = 10 # [32..<127]"

lemma key_table_low: "i < 0x58 \<Longrightarrow> length ks = 0x58 \<Longrightarrow> key_table ks ((0x9C, a) # (0xB5, b) # pad_keys) i = ks ! i"
  by (simp add: key_table_def pad_keys_def)

lemma low_maps: "i < 0x58 \<Longrightarrow> normalmap i = normal_keys ! i" "i < 0x58 \<Longrightarrow> shiftmap i = shift_keys ! i"
  unfolding normalmap_def shiftmap_def by (simp_all add: key_table_low normal_keys_def shift_keys_def)

lemma plain_key:
  assumes "k < 0x58" and "normalmap k \<noteq> 0 \<or> shiftmap k \<noteq> 0"
  shows "shiftcode k = 0" and "togglecode k = 0"
proof -
  have "k \<notin> {0x1D, 0x2A, 0x36, 0x38, 0x3A, 0x45, 0x46}"
    using assms(2) by (auto simp: low_maps normal_keys_def shift_keys_def)
  with assms(1) show "shiftcode k = 0" "togglecode k = 0" by (simp_all add: shiftcode_def togglecode_def)
qed

lemma key_chars:
  assumes "k < 0x58"
  shows "normalmap k = c \<Longrightarrow> c \<noteq> 0 \<Longrightarrow> kbd_chars 0 [k, k + 0x80] = ([int c], 0)"
    and "shiftmap k = c \<Longrightarrow> c \<noteq> 0 \<Longrightarrow> kbd_chars 0 [0x2A, k, k + 0x80, 0xAA] = ([int c], 0)"
proof -
  have z: "shiftmap 0x2A = 0" "shiftcode 0x2A = SHIFT" "togglecode 0x2A = 0"
    by (simp_all add: low_maps shift_keys_def shiftcode_def togglecode_def)
  show "kbd_chars 0 [k, k + 0x80] = ([int c], 0)" if "normalmap k = c" "c \<noteq> 0"
    using assms that plain_key [OF assms] by (simp add: kbd_scancode_into_char_def charcode_def)
  show "kbd_chars 0 [0x2A, k, k + 0x80, 0xAA] = ([int c], 0)" if "shiftmap k = c" "c \<noteq> 0"
    using assms that plain_key [OF assms]
    by (simp add: kbd_scancode_into_char_def charcode_def z kbd_flags)
qed

lemma typable_keys: "c \<in> set typable \<Longrightarrow> c \<noteq> 0 \<and> (c \<in> set normal_keys \<or> c \<in> set shift_keys)"
proof -
  have "list_all (\<lambda>c. c \<noteq> 0 \<and> (c \<in> set normal_keys \<or> c \<in> set shift_keys)) typable"
    by (simp add: typable_def normal_keys_def shift_keys_def)
  then show "c \<in> set typable \<Longrightarrow> c \<noteq> 0 \<and> (c \<in> set normal_keys \<or> c \<in> set shift_keys)" by (simp add: list_all_iff)
qed

lemma typing_char:
  assumes "c \<in> set typable"
  shows "kbd_chars 0 (typing c) = ([int c], 0)"
proof -
  have l: "length normal_keys = 0x58" "length shift_keys = 0x58" by (simp_all add: normal_keys_def shift_keys_def)
  have c: "c \<noteq> 0" "c \<in> set normal_keys \<or> c \<in> set shift_keys" using typable_keys [OF assms] by auto
  show ?thesis
  proof (cases "first_index (\<lambda>k. normalmap k = c) [0..<0x58]")
    case (Some k)
    then have "k < 0x58" "normalmap k = c" by (auto dest!: first_index_SomeD simp del: upt_rec_numeral)
    with key_chars(1) [of k c] c(1) Some show ?thesis by (simp add: typing_def key_of_def del: upt_rec_numeral)
  next
    case None
    then have "c \<notin> set normal_keys"
      by (auto simp: first_index_None_iff in_set_conv_nth l low_maps simp del: upt_rec_numeral)
    with c(2) have "\<exists>k<0x58. shiftmap k = c" by (auto simp: in_set_conv_nth l low_maps)
    then obtain k where k: "first_index (\<lambda>k. shiftmap k = c) [0..<0x58] = Some k"
      by (cases "first_index (\<lambda>k. shiftmap k = c) [0..<0x58]") (auto simp: first_index_None_iff simp del: upt_rec_numeral)
    then have "k < 0x58" "shiftmap k = c" by (auto dest!: first_index_SomeD simp del: upt_rec_numeral)
    with key_chars(2) [of k c] c(1) None k show ?thesis by (simp add: typing_def key_of_def del: upt_rec_numeral)
  qed
qed

lemma typing_text: "set cs \<subseteq> set typable \<Longrightarrow> kbd_chars 0 (concat (map typing cs)) = (map int cs, 0)"
  by (induction cs) (simp_all add: kbd_chars_append typing_char)

end
