(* ===== verification/Kern_Console.thy ===== *)
theory Kern_Console
  imports Kern_Vga Kern_Kbd Kern_Sysfile
begin

text \<open>
  The console of \<^verbatim>\<open>kernel/console.c\<close>: the line discipline between the keyboard or the serial port and
  the processes that read, the output with its escape sequences, and the terminals that \<^verbatim>\<open>sys_ioctl\<close> of
  \<^verbatim>\<open>kernel/sysfile.c\<close> configures. The state extends that of the kernel by the static variables of these files
  and by the screen. Escape sequences are decoded by the crate \<^verbatim>\<open>anstyle_parse\<close>; an argument gives the
  commands it reports for a string, and \<^verbatim>\<open>rust_kernel/src/ansi_escape.rs\<close> carries them out.
\<close>

section \<open>State\<close>

record tty_state = fs_state +
  vga :: vga_state
  static_foreg :: u32
  static_backg :: u32
  echo_out :: bool
  input_buf :: "byte list"
  input_r :: u32
  input_w :: u32
  input_e :: u32
  kbd_shift :: u32
  kbd_queue :: "byte queue option"
  kbd_file_ref :: int
  tty_settings :: "byte list list"
  term_pgids :: "int list"
  term_sids :: "int list"
  active_term :: nat
  pci_confs :: "byte list" \<comment> \<open>what \<open>pci_get_conf\<close> points to\<close>

definition INPUT_BUF :: nat where "INPUT_BUF = 128"
definition NTTY :: nat where "NTTY = 128"
definition MINOR_TTY_SERIAL :: int where "MINOR_TTY_SERIAL = 64"
definition DEV_FB :: int where "DEV_FB = 3"
definition DEV_TTY :: int where "DEV_TTY = 6"
definition KEYBOARD_QUEUE_SIZE :: nat where "KEYBOARD_QUEUE_SIZE = 16"
definition TERMIOS_SIZE :: nat where "TERMIOS_SIZE = 68"
definition ECHO :: nat where "ECHO = 1"

definition on_vga :: "'a vga \<Rightarrow> ('z tty_state_scheme, 'a) kern" where
  "on_vga m = (\<lambda>s. case m (vga s) of Inl e \<Rightarrow> Inl e | Inr (x, v) \<Rightarrow> Inr (x, s\<lparr>vga := v\<rparr>))"

section \<open>Output\<close>

definition put_vga :: "font \<Rightarrow> int \<Rightarrow> ('z tty_state_scheme, unit) kern" where
  "put_vga font c = bindk (getk (\<lambda>s. (static_foreg s, static_backg s))) (\<lambda>(fg, bg). on_vga (vga_write_char font c fg bg))"

definition echo :: "font \<Rightarrow> int \<Rightarrow> ('z tty_state_scheme, unit) kern" where
  "echo font c = bindk (getk echo_out) (\<lambda>e. if e then put_vga font c else returnk ())"

definition consputc3 :: "font \<Rightarrow> int \<Rightarrow> ('z tty_state_scheme, unit) kern" where
  "consputc3 font c =
     thenk (if c = BACKSPACE then on_vga (thenk (uartputc 8) (thenk (uartputc 32) (uartputc 8))) else on_vga (uartputc c))
       (echo font c)"

definition put_ctrl_char :: "font \<Rightarrow> int \<Rightarrow> ('z tty_state_scheme, unit) kern" where
  "put_ctrl_char font c = thenk (put_vga font 94) (put_vga font c)"

definition set_term_color :: "u32 \<Rightarrow> u32 \<Rightarrow> bool \<Rightarrow> bool \<Rightarrow> ('z tty_state_scheme, unit) kern" where
  "set_term_color fg bg changed_fg changed_bg =
     (if fg = 0 \<and> bg = 0 then modk (\<lambda>s. s\<lparr>static_foreg := VGA_COLOR_WHITE, static_backg := VGA_COLOR_BLACK\<rparr>)
      else modk (\<lambda>s. s\<lparr>static_foreg := (if \<not> changed_fg then static_foreg s else fg),
                       static_backg := (if \<not> changed_bg then static_backg s else bg)\<rparr>))"

definition rgb :: "u32 \<Rightarrow> u32 \<Rightarrow> u32 \<Rightarrow> u32" where
  "rgb r g b = push_bit 16 r OR push_bit 8 g OR b"

definition ansi_4bit_to_hex_color :: "u16 \<Rightarrow> bool \<Rightarrow> ('z tty_state_scheme, u32) kern" where
  "ansi_4bit_to_hex_color color is_background =
     (let c = (if is_background then (if unat color < 10 then 0 else unat color - 10) else unat color) in
      if c = 0 then thenk (modk (\<lambda>s. s\<lparr>static_foreg := VGA_COLOR_WHITE, static_backg := VGA_COLOR_BLACK\<rparr>)) (returnk 0)
      else returnk (case map_of [(30, rgb 0 0 0), (31, rgb 170 0 0), (32, rgb 0 170 0), (33, rgb 170 85 0), (34, rgb 0 0 170),
        (35, rgb 170 0 170), (36, rgb 0 170 170), (37, rgb 170 170 170), (90, rgb 85 85 85), (91, rgb 255 85 85),
        (92, rgb 85 255 85), (93, rgb 255 255 85), (94, rgb 85 85 255), (95, rgb 255 85 255), (96, rgb 85 255 255),
        (97, rgb 255 255 255)] c of Some v \<Rightarrow> v | None \<Rightarrow> VGA_COLOR_WHITE))"

text \<open>The colour is compared with the numbers of the attributes, so black, which is 0, is never set.\<close>

definition ansi_change_color :: "u32 \<Rightarrow> bool \<Rightarrow> ('z tty_state_scheme, unit) kern" where
  "ansi_change_color color fg =
     (if color \<le> 29 then returnk ()
      else if fg then set_term_color color 0 True False else set_term_color 0 color False True)"

subsection \<open>Escape sequences\<close>

text \<open>\<open>sgr_loop\<close> is the loop over the parameters of a colour command, with its three variables.\<close>

fun sgr_loop :: "u16 list \<Rightarrow> bool \<Rightarrow> u32 \<Rightarrow> bool \<Rightarrow> ('z tty_state_scheme, u32 \<times> bool) kern" where
  "sgr_loop [] bold color changing_fg = returnk (color, changing_fg)"
| "sgr_loop (p # ps) bold color changing_fg =
     (if p = 0 then bindk (ansi_4bit_to_hex_color 0 False) (\<lambda>color. sgr_loop ps bold color changing_fg)
      else if p = 1 then sgr_loop ps True color changing_fg
      else if 30 \<le> p \<and> p \<le> 37
      then bindk (ansi_4bit_to_hex_color (p + (if bold then 60 else 0)) False) (\<lambda>color. sgr_loop ps bold color True)
      else if 40 \<le> p \<and> p \<le> 47
      then bindk (ansi_4bit_to_hex_color (p + (if bold then 60 else 0)) True) (\<lambda>color. sgr_loop ps bold color False)
      else sgr_loop ps bold color changing_fg)"

definition param :: "nat \<Rightarrow> u16 \<Rightarrow> u16 list \<Rightarrow> u16" where
  "param n d ps = (if n < length ps then ps ! n else d)"

definition csi_dispatch :: "font \<Rightarrow> u16 list \<Rightarrow> byte \<Rightarrow> ('z tty_state_scheme, unit) kern" where
  "csi_dispatch font ps c =
     (if c \<ge> 128 then panick ''unwrap''
      else if c = 109 then bindk (sgr_loop ps False 0 False) (\<lambda>(color, fg). ansi_change_color color fg)
      else if c = 72
      then (let x = param 0 1 ps; x = (if x < 1 then 1 else x); y = param 1 1 ps; y = (if y < 1 then 1 else y) in
            on_vga (ansi_set_cursor_location (x - 1) (y - 1)))
      else if c = 65 then on_vga (ansi_set_cursor_location_up (param 0 1 ps))
      else if c = 74
      then (let n = param 0 0 ps in
            if n = 0 then on_vga (ansi_erase_from_cursor_to_end_of_screen font)
            else if n = 1 then on_vga (ansi_erase_from_cursor_to_beginning_of_screen font)
            else if n = 2 then on_vga (thenk (ansi_erase_from_cursor_to_beginning_of_screen font) (ansi_erase_from_cursor_to_end_of_screen font))
            else returnk ())
      else if c = 75
      then (let n = param 0 0 ps in
            if n = 0 then on_vga (ansi_erase_from_cursor_to_end_of_line font)
            else if n = 1 then on_vga (ansi_erase_from_cursor_to_beginning_of_line font)
            else if n = 2 then on_vga (thenk (ansi_erase_from_cursor_to_beginning_of_line font) (ansi_erase_from_cursor_to_end_of_line font))
            else returnk ())
      else returnk ())"

text \<open>\<^verbatim>\<open>CStr::to_str\<close> checks that the bytes are UTF-8.\<close>

fun valid_utf8 :: "byte list \<Rightarrow> bool" where
  "valid_utf8 [] = True"
| "valid_utf8 (a # bs) =
     (if a < 0x80 then valid_utf8 bs
      else if 0xC2 \<le> a \<and> a \<le> 0xDF then (case bs of b # bs' \<Rightarrow> 0x80 \<le> b \<and> b \<le> 0xBF \<and> valid_utf8 bs' | _ \<Rightarrow> False)
      else if 0xE0 \<le> a \<and> a \<le> 0xEF
      then (case bs of b # c # bs' \<Rightarrow> (if a = 0xE0 then 0xA0 else 0x80) \<le> b \<and> b \<le> (if a = 0xED then 0x9F else 0xBF) \<and>
              0x80 \<le> c \<and> c \<le> 0xBF \<and> valid_utf8 bs' | _ \<Rightarrow> False)
      else if 0xF0 \<le> a \<and> a \<le> 0xF4
      then (case bs of b # c # d # bs' \<Rightarrow> (if a = 0xF0 then 0x90 else 0x80) \<le> b \<and> b \<le> (if a = 0xF4 then 0x8F else 0xBF) \<and>
              0x80 \<le> c \<and> c \<le> 0xBF \<and> 0x80 \<le> d \<and> d \<le> 0xBF \<and> valid_utf8 bs' | _ \<Rightarrow> False)
      else False)"

definition is_alphabetic :: "byte \<Rightarrow> bool" where
  "is_alphabetic b \<longleftrightarrow> 65 \<le> b \<and> b \<le> 90 \<or> 97 \<le> b \<and> b \<le> 122"

type_synonym ansi_parser = "byte list \<Rightarrow> (u16 list \<times> byte) list"

text \<open>The string runs to the first zero byte of the memory it is in, beyond the buffer when that has none.\<close>

definition let_rust_handle_it :: "font \<Rightarrow> ansi_parser \<Rightarrow> byte list \<Rightarrow> ('z tty_state_scheme, nat) kern" where
  "let_rust_handle_it font parse memory =
     (let fmt = takeWhile (\<lambda>b. b \<noteq> 0) memory in
      if length fmt = length memory then panick ''out of bounds''
      else if \<not> valid_utf8 fmt then panick ''unwrap''
      else (let index = (case first_index is_alphabetic fmt of Some i \<Rightarrow> i | None \<Rightarrow> 0) in
        thenk (foreachk (parse (take (index + 1) fmt)) (\<lambda>(ps, c). csi_dispatch font ps c))
          (returnk index)))"

text \<open>\<open>console_write_loop\<close> gets the memory from \<^verbatim>\<open>buf + i\<close> on and the number of bytes left.\<close>

fun console_write_loop :: "font \<Rightarrow> ansi_parser \<Rightarrow> nat \<Rightarrow> byte list \<Rightarrow> nat \<Rightarrow> ('z tty_state_scheme, unit) kern" where
  "console_write_loop font parse 0 memory left = returnk ()"
| "console_write_loop font parse (Suc turns) memory left =
     (if left = 0 then returnk ()
      else case memory of [] \<Rightarrow> panick ''out of bounds''
      | b # bs \<Rightarrow>
          if b = 27
          then bindk (let_rust_handle_it font parse memory) (\<lambda>k.
               console_write_loop font parse turns (drop (k + 1) memory) (left - (k + 1)))
          else thenk (put_vga font (uint b)) (console_write_loop font parse turns bs (left - 1)))"

definition console_write :: "font \<Rightarrow> ansi_parser \<Rightarrow> byte list \<Rightarrow> nat \<Rightarrow> ('z tty_state_scheme, int) kern" where
  "console_write font parse memory n = thenk (console_write_loop font parse n memory n) (returnk (int n))"

definition uart_write :: "byte list \<Rightarrow> ('z tty_state_scheme, int) kern" where
  "uart_write buf = thenk (foreachk buf (\<lambda>b. on_vga (uartputc (uint b)))) (returnk (int (length buf)))"

definition tty_write :: "font \<Rightarrow> ansi_parser \<Rightarrow> int \<Rightarrow> byte list \<Rightarrow> nat \<Rightarrow> ('z tty_state_scheme, int) kern" where
  "tty_write font parse minor memory n =
     (if minor \<ge> MINOR_TTY_SERIAL then uart_write (take n memory) else console_write font parse memory n)"

section \<open>Input\<close>

text \<open>
  \<open>kbd_enqueue\<close> keeps the raw code for \<^verbatim>\<open>/dev/kbd\<close>; an allocation that is needed takes the next answer of
  \<^verbatim>\<open>kmalloc\<close>.
\<close>

definition kbd_enqueue :: "byte \<Rightarrow> ('z tty_state_scheme, int) kern" where
  "kbd_enqueue v =
     bindk (getk (\<lambda>s. s)) (\<lambda>s.
       (let full = (case kbd_queue s of None \<Rightarrow> True | Some q \<Rightarrow> KEYBOARD_QUEUE_SIZE \<le> qsize q);
            new = (if kmalloc_ok s (kmalloc_time s) then Some (kmalloc_time s) else None) in
        bindk (derefk (enqueue (kbd_queue s) v new KEYBOARD_QUEUE_SIZE)) (\<lambda>(r, q).
        thenk (modk (\<lambda>s. s\<lparr>kbd_queue := q, kmalloc_time := (if full then kmalloc_time s else kmalloc_time s + 1)\<rparr>))
          (returnk r))))"

definition input_at :: "'z tty_state_scheme \<Rightarrow> u32 \<Rightarrow> byte" where
  "input_at s i = input_buf s ! (unat i mod INPUT_BUF)"

text \<open>\<open>kill_line\<close> is the loop of control-U; it has at most one turn for each byte of the buffer.\<close>

fun kill_line :: "font \<Rightarrow> nat \<Rightarrow> ('z tty_state_scheme, unit) kern" where
  "kill_line font 0 = returnk ()"
| "kill_line font (Suc n) =
     bindk (getk (\<lambda>s. input_e s \<noteq> input_w s \<and> input_at s (input_e s - 1) \<noteq> 10)) (\<lambda>go.
       if go
       then thenk (modk (\<lambda>s. s\<lparr>input_e := input_e s - 1\<rparr>)) (thenk (echo font BACKSPACE) (kill_line font n))
       else returnk ())"

definition store_input :: "byte \<Rightarrow> 'z tty_state_scheme \<Rightarrow> 'z tty_state_scheme" where
  "store_input b s = s\<lparr>input_buf := (input_buf s)[unat (input_e s) mod INPUT_BUF := b], input_e := input_e s + 1\<rparr>"

text \<open>\<open>input_char\<close> is the default branch, \<open>console_char\<close> the \<^verbatim>\<open>switch\<close>; it returns the flags for control-P and control-C.\<close>

definition input_char :: "font \<Rightarrow> int \<Rightarrow> ('z tty_state_scheme, unit) kern" where
  "input_char font c =
     bindk (getk (\<lambda>s. input_e s - input_r s)) (\<lambda>used.
       if c \<noteq> 0 \<and> used < of_nat INPUT_BUF
       then (let c = (if c = 13 then 10 else c) in
         thenk (modk (store_input (of_int c)))
        (thenk (if c \<noteq> 4 then echo font c else returnk ())
        (bindk (getk (\<lambda>s. input_e s = input_r s + of_nat INPUT_BUF)) (\<lambda>full.
           if c = 10 \<or> c = 4 \<or> full
           then thenk (if c = 4 then echo font 10 else returnk ())
               (thenk (modk (\<lambda>s. s\<lparr>input_w := input_e s\<rparr>)) (wakeup ChanInput))
           else returnk ()))))
       else returnk ())"

definition console_char :: "font \<Rightarrow> int \<Rightarrow> bool \<times> bool \<Rightarrow> ('z tty_state_scheme, bool \<times> bool) kern" where
  "console_char font c = (\<lambda>(doprocdump, do_ctrl_c).
     if c = 16 then returnk (True, do_ctrl_c)
     else if c = 21 then bindk (getk (\<lambda>s. unat (input_e s - input_w s))) (\<lambda>n. thenk (kill_line font n) (returnk (doprocdump, do_ctrl_c)))
     else if c = 8
     then bindk (getk (\<lambda>s. input_e s \<noteq> input_w s)) (\<lambda>go.
          thenk (if go then thenk (modk (\<lambda>s. s\<lparr>input_e := input_e s - 1\<rparr>)) (consputc3 font BACKSPACE) else returnk ())
            (returnk (doprocdump, do_ctrl_c)))
     else if c = 3 then returnk (doprocdump, True)
     else thenk (input_char font c) (returnk (doprocdump, do_ctrl_c)))"

fun consoleintr_loop :: "font \<Rightarrow> nat list \<Rightarrow> bool \<times> bool \<Rightarrow> ('z tty_state_scheme, bool \<times> bool) kern" where
  "consoleintr_loop font [] flags = returnk flags"
| "consoleintr_loop font (d # ds) flags =
     bindk (kbd_enqueue (of_nat d)) (\<lambda>r.
       if r = QUEUE_OOM then panick ''Cannot allocate memory for kbd queue''
       else bindk (getk (\<lambda>s. kbd_scancode_into_char (kbd_shift s) d)) (\<lambda>(c, shift).
            thenk (modk (\<lambda>s. s\<lparr>kbd_shift := shift\<rparr>))
           (bindk (console_char font c flags) (\<lambda>flags. consoleintr_loop font ds flags))))"

text \<open>
  \<open>consoleintr\<close> gets the codes that \<^verbatim>\<open>getc\<close> returns before it has none, and \<^verbatim>\<open>procdump\<close>, which prints the processes,
  as arguments.
\<close>

definition consoleintr :: "font \<Rightarrow> ('z tty_state_scheme, unit) kern \<Rightarrow> nat list \<Rightarrow> ('z tty_state_scheme, unit) kern" where
  "consoleintr font procdump codes =
     bindk (consoleintr_loop font codes (False, False)) (\<lambda>(doprocdump, do_ctrl_c).
     thenk (if doprocdump then procdump else returnk ())
       (if do_ctrl_c
        then thenk (put_ctrl_char font 67)
            (bindk (getk (\<lambda>s. term_pgids s ! active_term s)) (\<lambda>pgid. thenk (kill (- pgid) 2) (returnk ())))
        else returnk ()))"

section \<open>Reading\<close>

text \<open>
  Where a read stands: it returned a number and the bytes, or it sleeps with \<open>n\<close> bytes still to read and
  those it has.
\<close>

datatype cons_run = ConsReturns int "byte list" | ConsSleeps nat "byte list"

fun console_read_loop :: "nat \<Rightarrow> nat \<Rightarrow> byte list \<Rightarrow> ('z tty_state_scheme, cons_run) kern" where
  "console_read_loop 0 target dst = returnk (ConsReturns (int target) dst)"
| "console_read_loop (Suc n) target dst =
     bindk (getk (\<lambda>s. s)) (\<lambda>s.
       if input_r s = input_w s
       then (if p_killed (cur s) then returnk (ConsReturns (- 1) dst) else returnk (ConsSleeps (Suc n) dst))
       else (let c = input_at s (input_r s) in
         thenk (modk (\<lambda>s. s\<lparr>input_r := input_r s + 1\<rparr>))
         (if c = 4
          then thenk (if Suc n < target then modk (\<lambda>s. s\<lparr>input_r := input_r s - 1\<rparr>) else returnk ())
                 (returnk (ConsReturns (int target - int (Suc n)) dst))
          else if c = 10 then returnk (ConsReturns (int target - int n) (dst @ [c]))
          else console_read_loop n target (dst @ [c]))))"

definition console_read :: "nat \<Rightarrow> nat \<Rightarrow> ('z tty_state_scheme, cons_run) kern" where
  "console_read ip n =
     thenk (inode_unlock ip)
    (bindk (console_read_loop n n []) (\<lambda>r. case r of
       ConsReturns v bs \<Rightarrow> thenk (inode_lock ip) (returnk r)
     | ConsSleeps m bs \<Rightarrow> returnk r))"

definition tty_read :: "int \<Rightarrow> nat \<Rightarrow> nat \<Rightarrow> ('z tty_state_scheme, cons_run) kern" where
  "tty_read minor ip n = (if minor \<ge> MINOR_TTY_SERIAL then returnk (ConsReturns (int n) []) else console_read ip n)"

text \<open>
  \<^verbatim>\<open>/dev/kbd\<close>: one code per read, whatever the length asked for, which is what the read returns. Without a code
  it fails or spins, the value \<open>None\<close>.
\<close>

definition kbdread :: "nat \<Rightarrow> nat \<Rightarrow> ('z tty_state_scheme, (int \<times> byte list) option) kern" where
  "kbdread ip n =
     bindk (getk (\<lambda>s. s)) (\<lambda>s. bindk (derefk (dequeue (kbd_queue s))) (\<lambda>(ret, data, q).
       thenk (modk (\<lambda>s. s\<lparr>kbd_queue := q\<rparr>))
       (if ret \<noteq> QUEUE_SUCCESS
        then (if i_fattrs (inodes s ! ip) AND O_NONBLOCK = O_NONBLOCK then returnk (Some (- EAGAIN, [])) else returnk None)
        else bindk (derefk data) (\<lambda>b. returnk (Some (int n, [b]))))))"

definition kbdopen :: "('z tty_state_scheme, int) kern" where
  "kbdopen =
     bindk (getk (\<lambda>s. s)) (\<lambda>s.
     thenk (if kbd_file_ref s = 0
            then bindk (derefk (clean_queue (kbd_queue s))) (\<lambda>q. modk (\<lambda>s. s\<lparr>kbd_queue := q\<rparr>)) else returnk ())
    (thenk (modk (\<lambda>s. s\<lparr>kbd_file_ref := kbd_file_ref s + 1\<rparr>)) (returnk 0)))"

definition kbdclose :: "('z tty_state_scheme, int) kern" where
  "kbdclose = thenk (modk (\<lambda>s. s\<lparr>kbd_file_ref := kbd_file_ref s - 1\<rparr>)) (returnk 0)"

section \<open>Terminals\<close>

text \<open>The arrays have \<^verbatim>\<open>NTTY\<close> elements; the minor number of an inode is any 16-bit number.\<close>

definition minor_index :: "int \<Rightarrow> ('z tty_state_scheme, nat) kern" where
  "minor_index m = thenk (assertk (0 \<le> m \<and> m < int NTTY) ''out of bounds'') (returnk (nat m))"

definition set_term_pgid :: "int \<Rightarrow> int \<Rightarrow> ('z tty_state_scheme, unit) kern" where
  "set_term_pgid m pgid = bindk (minor_index m) (\<lambda>i. modk (\<lambda>s. s\<lparr>term_pgids := (term_pgids s)[i := pgid]\<rparr>))"

definition set_term_settings :: "int \<Rightarrow> byte list \<Rightarrow> ('z tty_state_scheme, unit) kern" where
  "set_term_settings m bs = bindk (minor_index m) (\<lambda>i. modk (\<lambda>s. s\<lparr>tty_settings := (tty_settings s)[i := bs]\<rparr>))"

definition tty_open :: "int \<Rightarrow> int \<Rightarrow> ('z tty_state_scheme, int) kern" where
  "tty_open m flags =
     bindk (getk cur) (\<lambda>p.
     thenk (if p_ctty p = PROC_HAS_NO_CTTY \<and> flags AND 0x1000 = 0
            then bindk (minor_index m) (\<lambda>i. bindk (getk (\<lambda>s. term_sids s ! i)) (\<lambda>sid.
                 if sid = 0
                 then modk (\<lambda>s. upd_cur (\<lambda>p. p\<lparr>p_ctty := of_nat (makedev DEV_TTY m)\<rparr>) (s\<lparr>term_sids := (term_sids s)[i := p_sid p]\<rparr>))
                 else returnk ()))
            else returnk ())
       (returnk 0))"

section \<open>\<^verbatim>\<open>ioctl\<close>\<close>

definition IOC :: "nat \<Rightarrow> nat \<Rightarrow> nat \<Rightarrow> nat \<Rightarrow> u64" where
  "IOC drv_magic rw sz number = of_nat (push_bit 24 drv_magic OR push_bit 16 number OR push_bit 2 sz OR rw)"

definition PCIIOCGETCONF :: u64 where "PCIIOCGETCONF = IOC 80 3 18 0"
definition FBIOCGET_VSCREENINFO :: u64 where "FBIOCGET_VSCREENINFO = IOC 70 3 12 0"
definition TIOCGETA :: "u64 set" where "TIOCGETA = {IOC 84 3 68 0, IOC 84 3 68 1, IOC 84 3 68 2}"
definition TIOCSETA :: "u64 set" where "TIOCSETA = {IOC 84 3 68 3, IOC 84 3 68 4, IOC 84 3 68 5}"
definition TIOCSPGRP :: u64 where "TIOCSPGRP = IOC 84 3 4 6"
definition TIOCGPGRP :: u64 where "TIOCGPGRP = IOC 84 3 4 7"
definition TIOCGSID :: u64 where "TIOCGSID = IOC 84 3 4 8"
definition TIOCSWINSZ :: u64 where "TIOCSWINSZ = IOC 84 3 4 16"
definition TIOCGWINSZ :: u64 where "TIOCGWINSZ = IOC 84 3 4 17"

text \<open>
  Every request that copies a structure checks the size of a pointer, 8 bytes, and not of the structure.
  \<open>tty_ioctl\<close> has the requests on terminals.
\<close>

definition tty_ioctl :: "inode \<Rightarrow> u64 \<Rightarrow> ('z tty_state_scheme, int) kern" where
  "tty_ioctl ip request =
     (let tty = (i_major ip = DEV_TTY); m = i_minor ip in
      if request = TIOCGPGRP
      then (if \<not> tty then returnk (- EINVAL)
            else tryk (argptr 2 8) (\<lambda>a. if a = 0 then returnk (- EFAULT)
              else bindk (minor_index m) (\<lambda>i. bindk (getk (\<lambda>s. term_pgids s ! i)) (\<lambda>v.
                   thenk (ustore a (le_int 4 v)) (returnk 0)))))
      else if request \<in> TIOCGETA
      then (if \<not> tty then returnk (- EINVAL)
            else tryk (argptr 2 8) (\<lambda>a. if a = 0 then returnk (- EFAULT)
              else bindk (minor_index m) (\<lambda>i. bindk (getk (\<lambda>s. tty_settings s ! i)) (\<lambda>bs.
                   thenk (ustore a bs) (returnk 0)))))
      else if request = TIOCSPGRP
      then (if \<not> tty then returnk (- EINVAL)
            else bindk (getk (argint 2)) (\<lambda>pgid.
              if pgid < 0 \<or> pgid \<ge> int NPROC then returnk (- EINVAL)
              else thenk (set_term_pgid m pgid) (returnk 0)))
      else if request \<in> TIOCSETA
      then (if \<not> tty then returnk (- ENOTTY)
            else tryk (argptr 2 8) (\<lambda>a. if a = 0 then returnk (- EFAULT)
              else bindk (uload a TERMIOS_SIZE) (\<lambda>bs.
                   thenk (set_term_settings m bs)
                  (thenk (modk (\<lambda>s. s\<lparr>echo_out := odd (get_le 12 4 bs)\<rparr>)) (returnk 0)))))
      else if request = TIOCGSID
      then tryk (argptr 2 8) (\<lambda>a.
           if \<not> tty then returnk (- ENOTTY)
           else bindk (getk cur) (\<lambda>p.
                if unat (p_ctty p) \<noteq> makedev (i_major ip) m then returnk (- ENOTTY)
                else bindk (minor_index m) (\<lambda>i. bindk (getk (\<lambda>s. term_sids s ! i)) (\<lambda>sid.
                     if sid = 0 then returnk (- ENOTTY) else thenk (ustore a (le_int 4 sid)) (returnk 0)))))
      else if request = TIOCGWINSZ
      then tryk (argptr 2 8) (\<lambda>a.
           if \<not> tty then returnk (- ENOTTY)
           else thenk (ustore (a + 2) (le_bytes 2 (unat vga_get_winsize_column)))
               (thenk (ustore a (le_bytes 2 (unat vga_get_winsize_row))) (returnk 0)))
      else if request = TIOCSWINSZ then returnk (- ENOSYS)
      else returnk (- EINVAL))"

definition sys_ioctl :: "('z tty_state_scheme, int) kern" where
  "sys_ioctl =
     tryk (argfd 0) (\<lambda>(_, f). bindk (getk (fetcharg 1)) (\<lambda>request. case f of
       None \<Rightarrow> returnk (- ENOENT)
     | Some f \<Rightarrow>
         bindk (getk (\<lambda>s. f_ip (files s ! f))) (\<lambda>ip. bindk (derefk ip) (\<lambda>ip. bindk (getk (\<lambda>s. inodes s ! ip)) (\<lambda>node.
           if \<not> S_ISCHR (i_mode node) then returnk (- ENOTTY)
           else if request = PCIIOCGETCONF
           then tryk (argptr 2 8) (\<lambda>a. if a = 0 then returnk (- EFAULT)
                else bindk (getk pci_confs) (\<lambda>bs. thenk (ustore a bs) (returnk 0)))
           else if request = FBIOCGET_VSCREENINFO
           then (if i_major node \<noteq> DEV_FB then returnk (- EINVAL)
                 else tryk (argptr 2 8) (\<lambda>a. if a = 0 then returnk (- EFAULT)
                      else thenk (ustore a (le_bytes 4 640 @ le_bytes 4 480 @ le_bytes 4 32)) (returnk 0)))
           else tty_ioctl node request)))))"

end
