(* ===== verification/Kern_Syspath.thy ===== *)
theory Kern_Syspath
  imports Kern_Sysfile
begin

text \<open>
  System calls on paths, \<^verbatim>\<open>kernel/sysfile.c\<close>: links, directories, opening, renaming and the access
  check. Where the code returns without releasing a lock or closing the operation, so does the model.
\<close>

definition AT_SYMLINK_NOFOLLOW :: int where "AT_SYMLINK_NOFOLLOW = 1"
definition AT_SYMLINK_FOLLOW :: int where "AT_SYMLINK_FOLLOW = 1"
definition AT_REMOVEDIR :: int where "AT_REMOVEDIR = 1"
definition O_TMPFILE :: int where "O_TMPFILE = 0x300"

definition argpath :: "nat \<Rightarrow> (byte list \<Rightarrow> ('z fs_state_scheme, int) kern) \<Rightarrow> ('z fs_state_scheme, int) kern" where
  "argpath n f = tryk (argstr n) (\<lambda>a. bindk (user_str a) f)"

definition add_nlink :: "nat \<Rightarrow> int \<Rightarrow> ('z fs_state_scheme, unit) kern" where
  "add_nlink ip d = modk (upd_inode ip (\<lambda>i. i\<lparr>i_nlink := to_short (nat ((i_nlink i + d) mod 2 ^ 16))\<rparr>))"

section \<open>Status and permissions\<close>

definition sys_fstatat :: "('z fs_state_scheme, int) kern" where
  "sys_fstatat =
     tryk (argfd 0) (\<lambda>(dirfd, _).
     argpath 1 (\<lambda>path.
     tryk (argptr 2 STAT_SIZE) (\<lambda>st.
     bindk (getk (argint 3)) (\<lambda>flags.
     bindk (if flags AND AT_SYMLINK_NOFOLLOW \<noteq> 0 then namei_with_fd dirfd path else resolve_nameat dirfd path)
       (\<lambda>r. case r of
         None \<Rightarrow> returnk (- ENOENT)
       | Some ip \<Rightarrow>
           if st = 0 then returnk (- EFAULT)
           else thenk (inode_lock ip)
               (bindk (inode_stat ip) (\<lambda>v.
                thenk (store_stat st v)
               (thenk (inode_unlockput ip) (returnk 0)))))))))"

definition sys_fchmodat :: "('z fs_state_scheme, int) kern" where
  "sys_fchmodat =
     tryk (argfd 0) (\<lambda>(fd, _).
     argpath 1 (\<lambda>path.
     bindk (getk (argmode_t 2)) (\<lambda>mode. bindk (getk (argint 3)) (\<lambda>flags.
     bindk (if flags AND AT_SYMLINK_NOFOLLOW \<noteq> 0 then namei_with_fd fd path else resolve_nameat fd path)
       (\<lambda>r. case r of
         None \<Rightarrow> thenk end_op (returnk (- EINVAL))
       | Some ip \<Rightarrow>
           thenk begin_op
          (thenk (inode_lock ip)
          (thenk (modk (upd_inode ip (\<lambda>i. i\<lparr>i_mode := (i_mode i AND S_IFMT) OR unat mode\<rparr>)))
          (thenk (inode_update ip)
          (thenk (inode_unlock ip)
          (thenk end_op (returnk 0)))))))))))"

definition F_OK :: int where "F_OK = 0"
definition X_OK :: int where "X_OK = 1"
definition W_OK :: int where "W_OK = 2"
definition R_OK :: int where "R_OK = 4"

text \<open>
  One of the three blocks of the check: the kind of access, if it was asked for, is granted by the bits
  of user, group and others. The code takes these bits from the requested mode.
\<close>

definition access_ok :: "int \<Rightarrow> int \<Rightarrow> int \<Rightarrow> int \<Rightarrow> int \<Rightarrow> bool \<Rightarrow> bool \<Rightarrow> bool" where
  "access_ok mode want usr grp oth correct_uid correct_gid \<longleftrightarrow>
     (if mode AND want = want
      then (mode AND usr = usr \<and> correct_uid) \<or> (mode AND grp = grp \<and> correct_gid) \<or> mode AND oth = oth
      else True)"

definition sys_faccessat :: "('z fs_state_scheme, int) kern" where
  "sys_faccessat =
     tryk (argfd 0) (\<lambda>(fd, _).
     argpath 1 (\<lambda>path.
     bindk (getk (argint 2)) (\<lambda>mode.
     thenk begin_op
    (bindk (namei_with_fd fd path) (\<lambda>r. case r of
       None \<Rightarrow> thenk end_op (returnk (- ENOENT))
     | Some ip \<Rightarrow>
         if mode = F_OK then thenk (inode_put ip) (thenk end_op (returnk 0))
         else thenk (inode_lock ip)
             (bindk (getk (\<lambda>s. (p_cred (cur s), inodes s ! ip))) (\<lambda>(c, node).
              thenk (inode_unlockput ip)
             (thenk end_op
             (let u = (c_uid c = 0 \<or> c_uid c = int (i_uid node)); g = is_in_group (int (i_gid node)) c in
              returnk (if access_ok mode R_OK 0x100 0x20 4 u g \<and> access_ok mode W_OK 0x80 0x10 2 u g \<and>
                          access_ok mode X_OK 0x40 8 1 u g then 0 else - 1))))))))))"

section \<open>Links\<close>

text \<open>The label \<^verbatim>\<open>bad\<close> of \<^verbatim>\<open>sys_linkat\<close>.\<close>

definition link_bad :: "nat \<Rightarrow> int \<Rightarrow> ('z fs_state_scheme, int) kern" where
  "link_bad ip retflag =
     thenk (inode_lock ip)
    (thenk (add_nlink ip (- 1))
    (thenk (inode_update ip)
    (thenk (inode_unlockput ip)
    (thenk end_op (returnk retflag)))))"

definition sys_linkat :: "('z fs_state_scheme, int) kern" where
  "sys_linkat =
     tryk (argfd 0) (\<lambda>(fd1, _). argpath 1 (\<lambda>old.
     tryk (argfd 2) (\<lambda>(fd2, _). argpath 3 (\<lambda>new.
     bindk (getk (argint 4)) (\<lambda>flags.
     thenk begin_op
    (bindk (if flags AND AT_SYMLINK_FOLLOW \<noteq> 0 then resolve_nameat fd1 old else namei_with_fd fd1 old) (\<lambda>r. case r of
       None \<Rightarrow> thenk end_op (returnk (- ENOENT))
     | Some ip \<Rightarrow>
         thenk (inode_lock ip)
        (bindk (getk (\<lambda>s. i_mode (inodes s ! ip))) (\<lambda>mode.
           if S_ISDIR mode then thenk (inode_unlockput ip) (thenk end_op (returnk (- EISDIR)))
           else thenk (add_nlink ip 1)
               (thenk (inode_update ip)
               (thenk (inode_unlock ip)
               (bindk (nameiparent_with_fd fd2 new (replicate DIRSIZ 0)) (\<lambda>(dp, name). case dp of
                  None \<Rightarrow> link_bad ip (- ENOENT)
                | Some dp \<Rightarrow>
                    thenk (inode_lock dp)
                   (bindk (getk (\<lambda>s. i_inum (inodes s ! ip))) (\<lambda>inum.
                    bindk (dirlink dp name inum) (\<lambda>ret.
                      if ret < 0 then thenk (inode_unlockput dp) (link_bad ip ret)
                      else thenk (inode_unlockput dp)
                          (thenk (inode_put ip)
                          (thenk end_op (returnk 0)))))))))))))))))))"

fun isdirempty_loop :: "nat \<Rightarrow> nat list \<Rightarrow> byte list \<Rightarrow> ('z fs_state_scheme, bool) kern" where
  "isdirempty_loop dp [] de = returnk True"
| "isdirempty_loop dp (off # offs) de =
     bindk (inode_read dp (int off) DIRENT_SIZE) (\<lambda>(r, bs).
       if r < 0 then panick ''isdirempty: inode_read''
       else if d_ino (blit 0 bs de) \<noteq> 0 then returnk False
       else isdirempty_loop dp offs (blit 0 bs de))"

definition isdirempty :: "nat \<Rightarrow> ('z fs_state_scheme, bool) kern" where
  "isdirempty dp =
     bindk (getk (\<lambda>s. i_size (inodes s ! dp))) (\<lambda>sz.
       isdirempty_loop dp (drop 2 (dir_offsets sz)) (replicate DIRENT_SIZE 0))"

text \<open>The entry is removed: from the write of zeros over it to the end of \<^verbatim>\<open>sys_unlinkat\<close>.\<close>

definition unlink_entry :: "nat \<Rightarrow> nat \<Rightarrow> nat \<Rightarrow> ('z fs_state_scheme, int) kern" where
  "unlink_entry dp ip off =
     bindk (inode_write dp (replicate DIRENT_SIZE 0) (int off)) (\<lambda>r.
       if r < 0 then thenk (inode_unlockput ip) (thenk (inode_unlockput dp) (thenk end_op (returnk r)))
       else bindk (getk (\<lambda>s. i_mode (inodes s ! ip))) (\<lambda>mode.
            thenk (if S_ISDIR mode then thenk (add_nlink dp (- 1)) (inode_update dp) else returnk ())
           (thenk (inode_unlockput dp)
           (thenk (add_nlink ip (- 1))
           (thenk (inode_update ip)
           (thenk (inode_unlockput ip)
           (thenk end_op (returnk 0))))))))"

text \<open>Refusing to unlink \<^verbatim>\<open>.\<close> or \<^verbatim>\<open>..\<close> returns the positive number \<^verbatim>\<open>EINVAL\<close>.\<close>

definition sys_unlinkat :: "('z fs_state_scheme, int) kern" where
  "sys_unlinkat =
     tryk (argfd 0) (\<lambda>(fd, _). argpath 1 (\<lambda>path. bindk (getk (argint 2)) (\<lambda>flags.
     thenk begin_op
    (bindk (nameiparent_with_fd fd path (replicate DIRSIZ 0)) (\<lambda>(dp, name). case dp of
       None \<Rightarrow> thenk end_op (returnk (- ENOENT))
     | Some dp \<Rightarrow>
         (let bad = (\<lambda>e. thenk (inode_unlockput dp) (thenk end_op (returnk e))) in
          thenk (inode_lock dp)
         (bindk (boundsk (namecmp name [46, 0])) (\<lambda>c1. bindk (boundsk (namecmp name [46, 46, 0])) (\<lambda>c2.
            if c1 = 0 \<or> c2 = 0 then bad EINVAL
            else bindk (dirlookup dp name) (\<lambda>found. case found of
                None \<Rightarrow> bad (- ENOENT)
              | Some (ip, off) \<Rightarrow>
                  thenk (assertk (ip \<noteq> dp) ''ip != dp'')
                 (thenk (inode_lock ip)
                 (bindk (getk (\<lambda>s. inodes s ! ip)) (\<lambda>node.
                    if i_nlink node < 1 then thenk (inode_unlock ip) (thenk end_op (returnk (- ENOENT)))
                    else bindk (if S_ISDIR (i_mode node) \<or> flags AND AT_REMOVEDIR \<noteq> 0 then isdirempty ip
                                else returnk True) (\<lambda>empty.
                         if \<not> empty then thenk (inode_unlockput ip) (bad (- ENOTEMPTY))
                         else unlink_entry dp ip off))))))))))))))"

definition sys_symlinkat :: "('z fs_state_scheme, int) kern" where
  "sys_symlinkat =
     argpath 0 (\<lambda>target. tryk (argfd 1) (\<lambda>(fd, _). argpath 2 (\<lambda>linkpath.
     thenk begin_op
    (bindk (namei_with_fd fd linkpath) (\<lambda>r. case r of
       Some ip \<Rightarrow> thenk (inode_put ip) (thenk end_op (returnk (- EEXIST)))
     | None \<Rightarrow> bindk (nameiparent_with_fd fd linkpath (replicate DIRSIZ 0)) (\<lambda>(dp, dir). case dp of
         None \<Rightarrow> thenk end_op (returnk (- ENOENT))
       | Some dp \<Rightarrow>
           thenk (inode_lock dp)
          (bindk (dirlookup dp dir) (\<lambda>found. case found of
             Some (ip, _) \<Rightarrow> thenk (inode_unlockput dp) (thenk (inode_put ip) (thenk end_op (returnk (- EEXIST))))
           | None \<Rightarrow>
               thenk (inode_unlockput dp)
              (bindk (vfs_locked_inode_create fd linkpath (S_IFLNK OR 0x1C0) 0) (\<lambda>r. case r of
                 None \<Rightarrow> thenk end_op (returnk (- ENOSPC))
               | Some ip \<Rightarrow>
                   bindk (inode_write ip target 0) (\<lambda>r.
                   thenk (inode_unlockput ip)
                  (thenk end_op (returnk (if r < 0 then r else 0))))))))))))))"

definition sys_readlinkat :: "('z fs_state_scheme, int) kern" where
  "sys_readlinkat =
     tryk (argfd 0) (\<lambda>(fd, _). argpath 1 (\<lambda>target. tryk (argstr 2) (\<lambda>(ubuf, _).
     bindk (getk (argsize_t 3)) (\<lambda>bufsize.
     thenk begin_op
    (bindk (uload ubuf bufsize) (\<lambda>buf.
     bindk (filereadlinkat fd target buf) (\<lambda>(ret, buf').
     thenk (ustore ubuf buf')
    (thenk end_op (returnk ret)))))))))"

section \<open>Directories and opening\<close>

definition sys_openat :: "('z fs_state_scheme, int) kern" where
  "sys_openat =
     tryk (argfd 0) (\<lambda>(dirfd, _). argpath 1 (\<lambda>path.
     bindk (getk (argint 2)) (\<lambda>flags. bindk (getk (argmode_t 3)) (\<lambda>mode0.
     bindk (getk (\<lambda>s. p_umask (cur s))) (\<lambda>umask.
       (let mode = (if flags AND O_CREATE \<noteq> O_CREATE \<and> flags AND O_TMPFILE \<noteq> O_TMPFILE then 0x1FF else mode0) in
        vfs_openat dirfd (Some path) flags (unat (mode AND NOT umask))))))))"

definition sys_mkdirat :: "('z fs_state_scheme, int) kern" where
  "sys_mkdirat =
     tryk (argfd 0) (\<lambda>(fd, _). argpath 1 (\<lambda>path. bindk (getk (argmode_t 2)) (\<lambda>mode.
     thenk begin_op
    (bindk (getk (\<lambda>s. p_umask (cur s))) (\<lambda>umask.
     bindk (vfs_locked_inode_create fd path (unat ((of_nat S_IFDIR OR mode) AND NOT umask)) 0) (\<lambda>r. case r of
       None \<Rightarrow> thenk end_op (returnk (- ENOENT))
     | Some ip \<Rightarrow> thenk (inode_unlockput ip) (thenk end_op (returnk 0))))))))"

definition sys_mknodat :: "('z fs_state_scheme, int) kern" where
  "sys_mknodat =
     tryk (argfd 0) (\<lambda>(fd, _). argpath 1 (\<lambda>path. bindk (getk (argmode_t 2)) (\<lambda>mode.
     bindk (getk (fetcharg 3)) (\<lambda>dev.
     thenk begin_op
    (bindk (vfs_locked_inode_create fd path (unat mode) (unat dev)) (\<lambda>r. case r of
       None \<Rightarrow> thenk end_op (returnk (- ENOENT))
     | Some ip \<Rightarrow> thenk (inode_unlockput ip) (thenk end_op (returnk 0))))))))"

definition sys_chdir :: "('z fs_state_scheme, int) kern" where
  "sys_chdir =
     argpath 0 (\<lambda>path.
     thenk begin_op
    (bindk (resolve_name path) (\<lambda>r. case r of
       None \<Rightarrow> thenk end_op (returnk (- EINVAL))
     | Some ip \<Rightarrow>
         thenk (inode_lock ip)
        (bindk (getk (\<lambda>s. i_mode (inodes s ! ip))) (\<lambda>mode.
           if \<not> S_ISDIR mode then thenk (inode_unlockput ip) (thenk end_op (returnk (- ENOTDIR)))
           else thenk (inode_unlock ip)
               (bindk (getk (\<lambda>s. p_cwd (cur s))) (\<lambda>cwd. bindk (derefk cwd) (\<lambda>cwd.
                thenk (inode_put cwd)
               (thenk end_op
               (thenk (modk (upd_cur (\<lambda>p. p\<lparr>p_cwd := Some ip\<rparr>))) (returnk 0)))))))))))"

text \<open>
  \<^verbatim>\<open>depth\<close> bounds the recursion of \<^verbatim>\<open>inode_to_path\<close> by the kernel stack. The buffer must hold a
  NUL-terminated string before the call; its size is not checked.
\<close>

definition sys_getcwd :: "nat \<Rightarrow> ('z fs_state_scheme, int) kern" where
  "sys_getcwd depth =
     tryk (argstr 0) (\<lambda>(buf, _). bindk (getk (argsize_t 1)) (\<lambda>sz.
     bindk (getk (\<lambda>s. p_cwd (cur s))) (\<lambda>cwd. bindk (derefk cwd) (\<lambda>cwd.
     bindk (uload buf sz) (\<lambda>bytes.
     bindk (inode_to_path depth bytes sz cwd) (\<lambda>ret. case ret of
       None \<Rightarrow> returnk (- EINVAL)
     | Some path \<Rightarrow> thenk (ustore buf path) (returnk 0)))))))"

definition stat_type_to_getdents_type :: "nat \<Rightarrow> byte" where
  "stat_type_to_getdents_type mode =
     (if mode = S_IFBLK then 1 else if mode = S_IFCHR then 2 else if mode = S_IFDIR then 3
      else if mode = S_IFIFO then 4 else if mode = S_IFLNK then 5 else if mode = S_IFSOCK then 7
      else if mode = S_IFREG then 6 else 0)"

text \<open>
  The size of an entry: 17 bytes before the name, the name with its NUL, rounded up to 8. Each turn of
  the loop moves the offset of a directory by at least a byte, so its size bounds the number of turns; a
  device that returns nothing would keep the loop from ending, which the model shows as a stop.
\<close>

definition dent_size :: "nat \<Rightarrow> nat" where
  "dent_size len = (17 + len + 1 + 7) div 8 * 8"

definition dent_type :: "nat \<Rightarrow> int \<Rightarrow> byte list \<Rightarrow> ('z fs_state_scheme, byte) kern" where
  "dent_type dir flags de =
     (if flags AND 1 \<noteq> 0
      then bindk (getk (\<lambda>s. i_dev (inodes s ! dir))) (\<lambda>dev.
           bindk (inode_get dev (d_ino de)) (\<lambda>ip.
           thenk (inode_lock ip)
          (bindk (getk (\<lambda>s. i_mode (inodes s ! ip))) (\<lambda>mode.
           thenk (inode_unlockput ip)
                 (returnk (stat_type_to_getdents_type (mode AND S_IFMT)))))))
      else returnk 0)"

fun getdents_loop ::
  "nat \<Rightarrow> nat \<Rightarrow> nat \<Rightarrow> u64 \<Rightarrow> nat \<Rightarrow> int \<Rightarrow> nat \<Rightarrow> byte list \<Rightarrow> nat \<Rightarrow> ('z fs_state_scheme, pipe_run) kern" where
  "getdents_loop 0 f dir buf nbyte flags dir_size de got = panick ''getdents does not end''"
| "getdents_loop (Suc fuel) f dir buf nbyte flags dir_size de got =
     bindk (getk (\<lambda>s. f_off (files s ! f))) (\<lambda>off.
       if \<not> nat (off mod 2 ^ 64) < dir_size then returnk (Returns (int got))
       else bindk (vfs_read f DIRENT_SIZE) (\<lambda>(r, bs). case r of
         Returns ret \<Rightarrow>
           if ret < 0 then returnk (Returns ret)
           else (let de = blit 0 bs de in
             if d_ino de = 0 then getdents_loop fuel f dir buf nbyte flags dir_size de got
             else bindk (boundsk (strlen (d_name de))) (\<lambda>len.
               if got + dent_size len \<ge> nbyte
               then thenk (fileseek f (- int DIRENT_SIZE) SEEK_CUR) (returnk (Returns (int got)))
               else (let loc = buf + of_nat got in
                 thenk (ustore loc (le_bytes 4 (d_ino de)))
                (thenk (ustore (loc + 17) (take len (d_name de) @ [0]))
                (bindk (dent_type dir flags de) (\<lambda>ty.
                 thenk (ustore (loc + 16) [ty])
                (thenk (ustore (loc + 8) (le_bytes 8 (dent_size len)))
                 (getdents_loop fuel f dir buf nbyte flags dir_size de (got + dent_size len)))))))))
       | _ \<Rightarrow> returnk r))"

definition sys_getdents :: "('z fs_state_scheme, pipe_run) kern" where
  "sys_getdents =
     tryrun (argfd 0) (\<lambda>(_, f).
     tryrun (argptr 1 8) (\<lambda>buf.
     bindk (getk (argsize_t 2)) (\<lambda>nbyte. bindk (getk (argint 3)) (\<lambda>flags.
       if flags AND NOT 1 \<noteq> 0 then returnk (Returns (- EINVAL))
       else bindk (derefk f) (\<lambda>f.
            bindk (getk (\<lambda>s. f_ip (files s ! f))) (\<lambda>ip. bindk (derefk ip) (\<lambda>dir.
            thenk (inode_lock dir)
           (bindk (getk (\<lambda>s. i_size (inodes s ! dir))) (\<lambda>dir_size.
            thenk (inode_unlock dir)
           (getdents_loop (dir_size + 1) f dir buf nbyte flags dir_size (replicate DIRENT_SIZE 0) 0))))))))))"

section \<open>Renaming\<close>

text \<open>
  One entry of the old directory is compared with the name by the length of the name alone, so that it
  also matches an entry of which the name is a prefix. Once the old entry is gone, a failing \<^verbatim>\<open>dirlink\<close>
  returns with the directory locked and the operation open.
\<close>

definition rename_entry :: "nat \<Rightarrow> nat \<Rightarrow> byte list \<Rightarrow> nat \<Rightarrow> nat \<Rightarrow> ('z fs_state_scheme, int) kern" where
  "rename_entry dp new_dp newelem off inum =
     bindk (inode_write dp (replicate DIRENT_SIZE 0) (int off)) (\<lambda>r.
       if r \<noteq> int DIRENT_SIZE
       then thenk end_op (thenk (inode_unlockput dp) (thenk (inode_put new_dp) (returnk (- ENOSPC))))
       else thenk (if new_dp \<noteq> dp then inode_lock new_dp else returnk ())
           (bindk (dirlink new_dp newelem inum) (\<lambda>r.
            thenk (if new_dp \<noteq> dp then inode_unlockput new_dp else returnk ())
           (if r < 0 then returnk (- EEXIST)
            else thenk (inode_unlockput dp) (thenk end_op (returnk 0))))))"

fun rename_loop ::
  "nat \<Rightarrow> nat \<Rightarrow> byte list \<Rightarrow> byte list \<Rightarrow> nat list \<Rightarrow> byte list \<Rightarrow> ('z fs_state_scheme, int) kern" where
  "rename_loop dp new_dp dir newelem [] de =
     thenk (inode_unlockput dp) (thenk (inode_put new_dp) (thenk end_op (returnk (- ENOENT))))"
| "rename_loop dp new_dp dir newelem (off # offs) de =
     bindk (inode_read dp (int off) DIRENT_SIZE) (\<lambda>(r, bs).
       if r \<noteq> int DIRENT_SIZE
       then thenk end_op (thenk (inode_unlockput dp) (thenk (inode_put new_dp) (returnk (- ENOENT))))
       else (let de = blit 0 bs de in
         bindk (boundsk (strlen dir)) (\<lambda>len.
         bindk (boundsk (strncmp (d_name de) dir (min len 255))) (\<lambda>c.
           if c = 0 then rename_entry dp new_dp newelem off (d_ino de mod 2 ^ 16)
           else rename_loop dp new_dp dir newelem offs de))))"

definition sys_renameat :: "('z fs_state_scheme, int) kern" where
  "sys_renameat =
     tryk (argfd 0) (\<lambda>(fd1, _). argpath 1 (\<lambda>oldpath.
     tryk (argfd 2) (\<lambda>(fd2, _). argpath 3 (\<lambda>newpath.
     thenk begin_op
    (bindk (namei oldpath) (\<lambda>r. case r of
       None \<Rightarrow> thenk end_op (returnk (- ENOENT))
     | Some ip1 \<Rightarrow>
         thenk (inode_put ip1)
        (bindk (nameiparent newpath (replicate DIRSIZ 0)) (\<lambda>(r, newelem). case r of
           None \<Rightarrow> thenk end_op (returnk (- ENOENT))
         | Some ip2 \<Rightarrow>
             thenk (inode_put ip2)
            (bindk (nameiparent_with_fd fd1 oldpath (replicate DIRSIZ 0)) (\<lambda>(dp, dir).
             bindk (nameiparent_with_fd fd2 newpath (replicate DIRSIZ 0)) (\<lambda>(new_dp, _).
             case dp of
               None \<Rightarrow> thenk (case new_dp of None \<Rightarrow> returnk () | Some n \<Rightarrow> inode_put n)
                             (thenk end_op (returnk (- ENOENT)))
             | Some dp \<Rightarrow> (case new_dp of
                 None \<Rightarrow> thenk (inode_put dp) (thenk end_op (returnk (- ENOENT)))
               | Some new_dp \<Rightarrow>
                   thenk (inode_lock dp)
                  (bindk (getk (\<lambda>s. i_size (inodes s ! dp))) (\<lambda>sz.
                   rename_loop dp new_dp dir newelem (drop 2 (dir_offsets sz)) (replicate DIRENT_SIZE 0)))))))))))))))"

end
