(* ===== verification/Kern_Fork.thy ===== *)
theory Kern_Fork
  imports Kern_Syspath
begin

text \<open>
  The life of a process, \<^verbatim>\<open>kernel/proc.c\<close>: the first process, \<^verbatim>\<open>fork\<close>, the first return of a process to
  user mode, and \<^verbatim>\<open>exit\<close>, which use the file system and so come after it.

  Neither \<^verbatim>\<open>allocproc\<close> nor \<^verbatim>\<open>exit\<close> nor \<^verbatim>\<open>waitpid\<close> clears the array of open files of a slot.
\<close>

section \<open>The first process\<close>

definition user_tf :: trapframe where
  "user_tf = \<lparr>rax = 0, rdi = 0, rsi = 0, rdx = 0, r10 = 0, r8 = 0, r9 = 0, rip = 0, rsp = PGSIZE,
     tf_cs = 0x23, tf_ds = 0x1b, rflags = 0x200\<rparr>"

definition userinit :: "byte list \<Rightarrow> ('z fs_state_scheme, unit) kern" where
  "userinit initcode =
     bindk allocproc (\<lambda>r. case r of
       None \<Rightarrow> panick ''userinit: allocproc failed''
     | Some i \<Rightarrow>
         thenk (modk (\<lambda>s. s\<lparr>initproc := Some i\<rparr>))
        (bindk setupkvm (\<lambda>pgdir.
         thenk (modk (upd_proc i (\<lambda>p. p\<lparr>p_pgdir := Some pgdir\<rparr>)))
        (thenk (inituvm pgdir initcode)
        (thenk (modk (upd_proc i (\<lambda>p. p\<lparr>p_sz := PGSIZE, p_tf := user_tf\<rparr>)))
        (bindk (getk (\<lambda>s. p_name (procs s ! i))) (\<lambda>nm.
         bindk (boundsk (safestrcpy nm [105, 110, 105, 116, 99, 111, 100, 101, 0] 16)) (\<lambda>nm.
         bindk (namei [47, 0]) (\<lambda>cwd.
           modk (upd_proc i (\<lambda>p. p\<lparr>p_name := nm, p_cwd := cwd, p_state := RUNNABLE\<rparr>)))))))))))"

text \<open>\<open>first\<close> is the static flag of \<^verbatim>\<open>forkret\<close>; the value returned is its new value.\<close>

definition forkret :: "bool \<Rightarrow> ('z fs_state_scheme, bool) kern" where
  "forkret first =
     thenk (if first then thenk (inode_init ROOTDEV) (initlog ROOTDEV) else returnk ()) (returnk False)"

section \<open>\<^verbatim>\<open>fork\<close>\<close>

text \<open>
  The mappings made by \<^verbatim>\<open>mmap\<close> are copied up to the first empty one; an array without an empty element
  is left at its end.
\<close>

fun fork_mmaps :: "u64 \<Rightarrow> mmap_info list \<Rightarrow> ('z fs_state_scheme, unit) kern" where
  "fork_mmaps pgdir [] = panick ''mmap_info''"
| "fork_mmaps pgdir (m # ms) =
     (if m_length m = 0 then returnk ()
      else bindk (mappages pgdir (m_virt_addr m) (m_length m) (m_addr m) (m_perm m)) (\<lambda>r.
           if r < 0 then panick ''Could not map page'' else fork_mmaps pgdir ms))"

definition fork_file :: "nat \<Rightarrow> nat \<Rightarrow> ('z fs_state_scheme, unit) kern" where
  "fork_file np fd =
     bindk (getk (\<lambda>s. p_ofile (cur s) ! fd)) (\<lambda>x. case x of
       None \<Rightarrow> returnk ()
     | Some f \<Rightarrow> bindk (getk (\<lambda>s. files s ! f)) (\<lambda>ff.
         if f_ref ff \<le> 0 then returnk ()
         else if f_flags ff = O_CLOFORK then thenk (vfs_close f) (returnk ())
         else bindk (filedup f 0) (\<lambda>f.
              modk (upd_proc np (\<lambda>p. p\<lparr>p_ofile := (p_ofile p)[fd := Some f]\<rparr>)))))"

definition child_of :: "proc \<Rightarrow> nat option \<Rightarrow> byte list \<Rightarrow> proc \<Rightarrow> proc" where
  "child_of c cwd nm p = p\<lparr>p_cwd := cwd,
     p_cred := \<lparr>c_uid = c_uid (p_cred c), c_gid = c_gid (p_cred c), c_euid = c_euid (p_cred c),
                c_egid = c_egid (p_cred c), c_gids = c_gids (p_cred c)\<rparr>,
     p_pgid := p_pgid c, p_sid := p_sid c, p_ctty := p_ctty c, p_umask := p_umask c, p_name := nm,
     p_ptrace_mask := take 62 (p_ptrace_mask c) @ drop 62 (p_ptrace_mask p), p_state := RUNNABLE\<rparr>"

definition fork :: "('z fs_state_scheme, int) kern" where
  "fork =
     bindk allocproc (\<lambda>r. case r of
       None \<Rightarrow> returnk (- ENOMEM)
     | Some np \<Rightarrow>
         bindk (getk cur) (\<lambda>c. bindk (derefk (p_pgdir c)) (\<lambda>cpgdir.
         bindk (copyuvm cpgdir (p_sz c)) (\<lambda>pgdir.
         thenk (modk (upd_proc np (\<lambda>p. p\<lparr>p_pgdir := pgdir\<rparr>)))
        (case pgdir of
           None \<Rightarrow>
             bindk (getk (\<lambda>s. p_kstack (procs s ! np))) (\<lambda>k. bindk (derefk k) (\<lambda>k.
             thenk (kpage_free k)
            (thenk (modk (upd_proc np (\<lambda>p. p\<lparr>p_kstack := None, p_state := UNUSED\<rparr>)))
             (returnk (- EIO)))))
         | Some pgdir \<Rightarrow>
             thenk (modk (\<lambda>s. upd_proc np (\<lambda>p. p\<lparr>p_sz := p_sz c, p_heap := p_heap c, p_heapsz := p_heapsz c,
               p_mmap_count := p_mmap_count c, p_mmap_info := p_mmap_info c\<rparr>) s))
            (thenk (fork_mmaps pgdir (p_mmap_info c))
            (thenk (modk (\<lambda>s. upd_proc np (\<lambda>p. p\<lparr>p_parent := Some (curproc s), p_tf := (p_tf c)\<lparr>rax := 0\<rparr>\<rparr>) s))
            (thenk (foreachk [0..<OPEN_MAX] (fork_file np))
            (bindk (derefk (p_cwd c)) (\<lambda>cwd. bindk (inode_dup cwd) (\<lambda>cwd.
             bindk (getk (\<lambda>s. p_name (procs s ! np))) (\<lambda>nm.
             bindk (boundsk (safestrcpy nm (p_name c) 16)) (\<lambda>nm.
             thenk (modk (upd_proc np (child_of c (Some cwd) nm)))
                   (getk (\<lambda>s. p_pid (procs s ! np))))))))))))))))"

section \<open>\<^verbatim>\<open>exit\<close>\<close>

definition exit_file :: "nat \<Rightarrow> ('z fs_state_scheme, unit) kern" where
  "exit_file fd =
     bindk (getk (\<lambda>s. p_ofile (cur s) ! fd)) (\<lambda>x. case x of
       None \<Rightarrow> returnk ()
     | Some f \<Rightarrow> bindk (getk (\<lambda>s. f_ref (files s ! f))) (\<lambda>ref.
         if ref > 0 then thenk (vfs_close f) (returnk ()) else returnk ()))"

text \<open>The children of the process go to \<^verbatim>\<open>init\<close>, which is woken when one of them is a zombie.\<close>

definition adopt :: "nat \<Rightarrow> ('z fs_state_scheme, unit) kern" where
  "adopt j =
     bindk (getk (\<lambda>s. s)) (\<lambda>s.
       if p_parent (procs s ! j) = Some (curproc s)
       then thenk (modk (upd_proc j (\<lambda>p. p\<lparr>p_parent := initproc s\<rparr>)))
           (if p_state (procs s ! j) = ZOMBIE
            then (case initproc s of None \<Rightarrow> returnk () | Some i \<Rightarrow> wakeup (ChanProc i))
            else returnk ())
       else returnk ())"

text \<open>\<open>exit\<close> ends where the process leaves the processor for the last time.\<close>

definition exit :: "int \<Rightarrow> ('z fs_state_scheme, unit) kern" where
  "exit status =
     bindk (getk (\<lambda>s. initproc s = Some (curproc s))) (\<lambda>is_init.
       if is_init then panick ''init exiting''
       else
         thenk (foreachk [0..<OPEN_MAX] exit_file)
        (thenk begin_op
        (bindk (getk (\<lambda>s. p_cwd (cur s))) (\<lambda>cwd. bindk (derefk cwd) (\<lambda>cwd.
         thenk (inode_put cwd)
        (thenk end_op
        (thenk (modk (upd_cur (\<lambda>p. p\<lparr>p_cwd := None, p_status := status\<rparr>)))
        (bindk (getk (\<lambda>s. p_parent (cur s))) (\<lambda>parent.
         thenk (case parent of None \<Rightarrow> returnk () | Some i \<Rightarrow> wakeup (ChanProc i))
        (thenk (foreachk [0..<NPROC] adopt)
        (thenk (modk (upd_cur (\<lambda>p. p\<lparr>p_state := ZOMBIE\<rparr>)))
         sched_check)))))))))))"

end
