(* ===== verification/Kern_Exec.thy ===== *)
theory Kern_Exec
  imports Kern_Fork
begin

text \<open>
  Running a program: \<^verbatim>\<open>execve\<close> of \<^verbatim>\<open>kernel/exec.c\<close> with \<^verbatim>\<open>loaduvm\<close> of \<^verbatim>\<open>kernel/vm.c\<close>, and \<^verbatim>\<open>sys_execve\<close>. The
  argument and environment strings are byte lists that end in a NUL. The fields of the ELF headers are
  read at their offsets; what a short read leaves out of a header is taken as zero.
\<close>

section \<open>Loading\<close>

definition MAXARG :: nat where "MAXARG = 32"
definition MAXENV :: nat where "MAXENV = 32"
definition EHDR_SIZE :: nat where "EHDR_SIZE = 64"
definition PHDR_SIZE :: nat where "PHDR_SIZE = 56"

fun loaduvm_loop :: "nat \<Rightarrow> u64 \<Rightarrow> u64 \<Rightarrow> nat \<Rightarrow> int \<Rightarrow> u64 \<Rightarrow> u64 \<Rightarrow> ('z fs_state_scheme, int) kern" where
  "loaduvm_loop 0 pgdir addr ip offset sz i = returnk 0"
| "loaduvm_loop (Suc turns) pgdir addr ip offset sz i =
     bindk (walkpgdir pgdir (addr + i) False) (\<lambda>l. case l of
       None \<Rightarrow> panick ''loaduvm: address should exist''
     | Some pte \<Rightarrow>
         bindk (getk (read_pte pte)) (\<lambda>e.
         (let pa = PTE_ADDR e; n = (if sz - i < PGSIZE then sz - i else PGSIZE) in
          bindk (inode_read ip (offset + uint i) (unat n)) (\<lambda>(r, bs).
          thenk (modk (\<lambda>s. s\<lparr>pdata := (pdata s)(p2v pa := blit 0 bs (pdata s (p2v pa)))\<rparr>))
         (if r \<noteq> uint n then returnk (- 1)
          else loaduvm_loop turns pgdir addr ip offset sz (i + PGSIZE))))))"

definition loaduvm :: "u64 \<Rightarrow> u64 \<Rightarrow> nat \<Rightarrow> int \<Rightarrow> u64 \<Rightarrow> ('z fs_state_scheme, int) kern" where
  "loaduvm pgdir addr ip offset sz =
     (if addr mod PGSIZE \<noteq> 0 then panick ''loaduvm: addr must be page aligned''
      else loaduvm_loop (pages_between 0 sz) pgdir addr ip offset sz 0)"

text \<open>
  The loop over the program headers. It ends with an errno, 0 standing for \<^verbatim>\<open>-ENOEXEC\<close>, or with the size
  of the image. A remainder by an alignment of 0 is a divide error.
\<close>

definition ph_field :: "nat \<Rightarrow> byte list \<Rightarrow> u64" where
  "ph_field off ph = of_nat (get_le off 8 ph)"

fun load_segments :: "nat \<Rightarrow> u64 \<Rightarrow> nat \<Rightarrow> u64 \<Rightarrow> u64 \<Rightarrow> byte list \<Rightarrow> ('z fs_state_scheme, int + u64) kern" where
  "load_segments 0 pgdir ip off sz ph = returnk (Inr sz)"
| "load_segments (Suc n) pgdir ip off sz ph0 =
     bindk (inode_read ip (sint off) PHDR_SIZE) (\<lambda>(ret, bs).
       if ret < 0 then returnk (Inl ret)
       else (let ph = blit 0 bs ph0; vaddr = ph_field 16 ph; memsz = ph_field 40 ph; filesz = ph_field 32 ph;
                 align = ph_field 48 ph; offset = ph_field 8 ph;
                 next = load_segments n pgdir ip (off + of_nat PHDR_SIZE) in
         if get_le 0 4 ph \<noteq> 1 then next sz ph
         else if memsz = 0 then next sz ph
         else thenk (assertk (align \<noteq> 0) ''divide error'')
             (if vaddr mod align \<noteq> offset mod align then returnk (Inl 0)
              else if memsz < filesz then returnk (Inl 0)
              else if vaddr + memsz < vaddr then returnk (Inl 0)
              else bindk (allocuvm pgdir sz (vaddr + memsz)) (\<lambda>sz.
                   if sz = 0 then returnk (Inl (- ENOMEM))
                   else bindk (loaduvm pgdir vaddr ip (sint offset) filesz) (\<lambda>ret.
                        if ret < 0 then returnk (Inl ret) else next sz ph)))))"

section \<open>The stack of the new image\<close>

text \<open>\<open>push_user_stack\<close> returns the stack pointer and the addresses of the strings.\<close>

fun push_user_stack :: "u64 \<Rightarrow> byte list list \<Rightarrow> nat \<Rightarrow> u64 \<Rightarrow> ('z fs_state_scheme, int + u64 \<times> u64 list) kern" where
  "push_user_stack pgdir [] cnt sp = returnk (Inr (sp, []))"
| "push_user_stack pgdir (v # vec) cnt sp =
     (if cnt \<ge> MAXARG then returnk (Inl (- E2BIG))
      else bindk (boundsk (strlen v)) (\<lambda>len.
           (let sp = (sp - (of_nat len + 1)) AND NOT 7 in
            bindk (copyout pgdir sp (take (len + 1) v)) (\<lambda>r.
              if r < 0 then returnk (Inl r)
              else bindk (push_user_stack pgdir vec (cnt + 1) sp) (\<lambda>res.
                   returnk (map_sum id (\<lambda>(sp', as). (sp', sp # as)) res))))))"

definition ustack_words :: "u64 \<Rightarrow> u64 list \<Rightarrow> u64 list \<Rightarrow> u64 list" where
  "ustack_words sp argv envp =
     (let argv_size = of_nat (length argv + 1); envc_size = of_nat (length envp + 1) in
      [0xffffffff, of_nat (length argv), sp - (argv_size + envc_size) * 8, sp - envc_size * 8] @ argv @ [0] @ envp @ [0])"

definition basename :: "byte list \<Rightarrow> byte list" where
  "basename path =
     (let s = takeWhile (\<lambda>c. c \<noteq> 0) path in
      drop (length s - length (takeWhile (\<lambda>c. c \<noteq> 47) (rev s))) path)"

section \<open>\<^verbatim>\<open>execve\<close>\<close>

definition exec_file :: "nat \<Rightarrow> ('z fs_state_scheme, unit) kern" where
  "exec_file fd =
     bindk (getk (\<lambda>s. p_ofile (cur s) ! fd)) (\<lambda>x. case x of
       None \<Rightarrow> returnk ()
     | Some f \<Rightarrow> bindk (getk (\<lambda>s. files s ! f)) (\<lambda>ff.
         if f_ref ff > 0 \<and> f_flags ff = O_CLOEXEC then thenk (vfs_close f) (returnk ()) else returnk ()))"

definition exec_commit :: "byte list \<Rightarrow> u64 \<Rightarrow> u64 \<Rightarrow> u64 \<Rightarrow> u64 \<Rightarrow> ('z fs_state_scheme, int) kern" where
  "exec_commit path pgdir sz entry sp =
     bindk (getk cur) (\<lambda>c.
     bindk (boundsk (safestrcpy (p_name c) (basename path) 16)) (\<lambda>nm.
     thenk (modk (\<lambda>s. upd_cur (\<lambda>p. p\<lparr>p_name := nm, p_pgdir := Some pgdir, p_sz := sz,
        p_tf := (p_tf p)\<lparr>rip := entry, rsp := ((sp + 15) AND NOT 15) - 8\<rparr>,
        p_mmap_info := map (\<lambda>_. \<lparr>m_length = 0, m_addr = 0, m_virt_addr = 0, m_file = None, m_perm = 0\<rparr>) (p_mmap_info p),
        p_mmap_count := 0,
        p_cred := (case p_parent p of None \<Rightarrow> p_cred p | Some i \<Rightarrow> p_cred (procs s ! i))\<rparr>) s))
    (thenk (foreachk [0..<OPEN_MAX] exec_file)
    (thenk (freevm (p_pgdir c)) (returnk 0)))))"

definition exec_stack ::
  "byte list \<Rightarrow> byte list list \<Rightarrow> byte list list \<Rightarrow> u64 \<Rightarrow> u64 \<Rightarrow> u64 \<Rightarrow> ('z fs_state_scheme, int) kern" where
  "exec_stack path argv envp pgdir entry sz0 =
     (let bad = (\<lambda>e. thenk (freevm (Some pgdir)) (returnk e)); sz1 = PGROUNDUP sz0 in
      bindk (allocuvm pgdir sz1 (sz1 + 4 * PGSIZE)) (\<lambda>sz.
        if sz = 0 then bad (- ENOMEM)
        else thenk (clearpteu pgdir (sz - 4 * PGSIZE))
            (thenk (clearpteu pgdir 0)
            (bindk (push_user_stack pgdir argv 0 sz) (\<lambda>ra. case ra of
               Inl _ \<Rightarrow> bad (- EFAULT)
             | Inr (sp, av) \<Rightarrow>
                 bindk (push_user_stack pgdir envp 0 sp) (\<lambda>re. case re of
                   Inl _ \<Rightarrow> bad (- EFAULT)
                 | Inr (sp, ev) \<Rightarrow>
                     (let ws = ustack_words sp av ev; sp' = sp - of_nat (8 * length ws) in
                      thenk (modk (upd_cur (\<lambda>p. p\<lparr>p_tf := (p_tf p)\<lparr>rdi := ws ! 1, rsi := ws ! 2, rdx := ws ! 3\<rparr>\<rparr>)))
                     (bindk (copyout pgdir sp' (concat (map (\<lambda>w. le_bytes 8 (unat w)) ws))) (\<lambda>r.
                        if r < 0 then bad (- EFAULT)
                        else exec_commit path pgdir sz entry sp')))))))))"

definition elf_ok :: "byte list \<Rightarrow> bool" where
  "elf_ok elf \<longleftrightarrow> get_le 0 4 elf = 0x464C457F \<and> elf ! 4 = 2 \<and> elf ! 5 = 1 \<and> (elf ! 7 = 0 \<or> elf ! 7 = 3) \<and> elf ! 6 = 1"

definition execve :: "byte list \<Rightarrow> byte list list \<Rightarrow> byte list list \<Rightarrow> ('z fs_state_scheme, int) kern" where
  "execve path argv envp =
     thenk begin_op
    (bindk (namei path) (\<lambda>r. case r of
       None \<Rightarrow> thenk end_op (returnk (- ENOENT))
     | Some ip \<Rightarrow>
         thenk (inode_lock ip)
        (bindk (getk (\<lambda>s. inodes s ! ip)) (\<lambda>node.
           if i_mode node AND 0x40 \<noteq> 0x40 \<and> \<not> (i_mode node AND 8 = 8 \<and> odd (i_gid node))
           then thenk end_op (thenk (inode_unlockput ip) (returnk (- EACCES)))
           else (let bad = (\<lambda>e. thenk (inode_unlockput ip) (thenk end_op (returnk (if e = 0 then - ENOEXEC else e)))) in
             bindk (inode_read ip 0 EHDR_SIZE) (\<lambda>(ret, bs).
             (let elf = blit 0 bs (replicate EHDR_SIZE 0) in
              if ret < 0 then bad ret
              else if \<not> elf_ok elf then bad 0
              else bindk setupkvm (\<lambda>pgdir.
                   bindk (load_segments (get_le 56 2 elf) pgdir ip (ph_field 32 elf) 0 (replicate PHDR_SIZE 0)) (\<lambda>res.
                   case res of
                     Inl e \<Rightarrow> thenk (freevm (Some pgdir)) (bad e)
                   | Inr sz \<Rightarrow>
                       thenk (inode_unlockput ip)
                      (thenk end_op
                       (exec_stack path argv envp pgdir (ph_field 24 elf) sz)))))))))))"

text \<open>The arrays of pointers are fetched up to the first null; an array without one is too big.\<close>

fun fetch_vec :: "nat \<Rightarrow> u64 \<Rightarrow> ('z fs_state_scheme, int + byte list list) kern" where
  "fetch_vec 0 uv = returnk (Inl (- E2BIG))"
| "fetch_vec (Suc n) uv =
     bindk (fetchuintptr_t uv) (\<lambda>r. case r of
       Inl _ \<Rightarrow> returnk (Inl (- EINVAL))
     | Inr p \<Rightarrow>
         if p = 0 then returnk (Inr [])
         else bindk (fetchstr p) (\<lambda>r. case r of
             Inl _ \<Rightarrow> returnk (Inl (- EINVAL))
           | Inr a \<Rightarrow> bindk (user_str a) (\<lambda>v.
               bindk (fetch_vec n (uv + 8)) (\<lambda>vs. returnk (map_sum id (Cons v) vs)))))"

definition sys_execve :: "('z fs_state_scheme, int) kern" where
  "sys_execve =
     argpath 0 (\<lambda>path.
     bindk (getk (fetcharg 1)) (\<lambda>uargv. bindk (getk (fetcharg 2)) (\<lambda>uenvp.
     tryk (fetch_vec MAXARG uargv) (\<lambda>argv.
     tryk (fetch_vec MAXENV uenvp) (\<lambda>envp.
       execve path argv envp)))))"

end
