(* ===== verification/Kern_Sysproc.thy ===== *)
theory Kern_Sysproc
  imports Kern_Exec
begin

text \<open>
  System calls on processes, \<^verbatim>\<open>kernel/sysproc.c\<close>, and the dispatch of system calls of \<^verbatim>\<open>kernel/syscall.c\<close>.
  Not modelled are \<^verbatim>\<open>sys_clock_nanosleep\<close>, which programs the HPET, and \<^verbatim>\<open>sys_reboot\<close>, which stops the
  machine. \<^verbatim>\<open>kernel_begin\<close> is the linker symbol \<^verbatim>\<open>__kernel_begin\<close>.
\<close>

section \<open>Processes\<close>

definition sys_fork :: "('z fs_state_scheme, int) kern" where
  "sys_fork = fork"

definition sys__exit :: "('z fs_state_scheme, unit) kern" where
  "sys__exit = bindk (getk (argint 0)) exit"

definition sys_waitpid :: "('z fs_state_scheme, int) kern" where
  "sys_waitpid =
     bindk (getk (argint 0)) (\<lambda>pid. tryk (argptr 1 4) (\<lambda>st. bindk (getk (argint 2)) (\<lambda>options.
       if options \<noteq> 0 \<and> options \<noteq> 1 \<and> options \<noteq> 2 \<and> options \<noteq> 8 then returnk (- EINVAL)
       else if options \<noteq> 0 then returnk (- ENOSYS)
       else bindk (waitpid pid) (\<lambda>(r, v).
            thenk (case v of None \<Rightarrow> returnk () | Some w \<Rightarrow> if st = 0 then returnk () else ustore st (le_int 4 w))
                  (returnk r)))))"

definition sys_kill :: "('z fs_state_scheme, int) kern" where
  "sys_kill = bindk (getk (argint 0)) (\<lambda>pid. bindk (getk (argint 1)) (\<lambda>sig. kill pid sig))"

definition sys_getpid :: "('z fs_state_scheme, int) kern" where
  "sys_getpid = getk (\<lambda>s. p_pid (cur s))"

definition sys_getppid :: "('z fs_state_scheme, int) kern" where
  "sys_getppid = getk (\<lambda>s. case p_parent (cur s) of None \<Rightarrow> 1 | Some i \<Rightarrow> p_pid (procs s ! i))"

definition sys_sbrk :: "('z fs_state_scheme, int) kern" where
  "sys_sbrk =
     bindk (getk (\<lambda>s. (argoff_t 0 s, p_sz (cur s)))) (\<lambda>(n, addr).
     bindk (growproc n) (\<lambda>r. returnk (if r < 0 then r else uint addr)))"

text \<open>\<open>ticks0\<close> is the time of the call: one turn of the waiting loop.\<close>

definition sys_alarm :: "nat \<Rightarrow> ('z fs_state_scheme, int) kern" where
  "sys_alarm ticks0 =
     bindk (getk (\<lambda>s. s)) (\<lambda>s.
       if ticks s - ticks0 < unat ((ucast (fetcharg 0 s) :: u32) * 1000)
       then (if p_killed (cur s) then returnk (- ESRCH) else sleepk ChanTicks)
       else thenk (kill (p_pid (cur s)) SIGALRM) (returnk 0))"

definition sys_uptime :: "('z fs_state_scheme, int) kern" where
  "sys_uptime = getk (\<lambda>s. int (ticks s))"

definition sys_clock_gettime :: "u64 \<Rightarrow> ('z fs_state_scheme, int) kern" where
  "sys_clock_gettime kernel_begin =
     bindk (getk (argint 0)) (\<lambda>clockid. tryk (argptr 1 16) (\<lambda>tp.
       if tp = 0 \<or> tp \<ge> kernel_begin then returnk (- EFAULT)
       else if clockid \<noteq> 1 then returnk (- ENOSYS)
       else bindk (getk rtc) (\<lambda>now. thenk (ustore tp (le_bytes 8 now @ le_bytes 8 0)) (returnk 0))))"

section \<open>Identities\<close>

definition set_cred :: "(cred \<Rightarrow> cred) \<Rightarrow> ('z fs_state_scheme, int) kern" where
  "set_cred f = thenk (modk (upd_cur (\<lambda>p. p\<lparr>p_cred := f (p_cred p)\<rparr>))) (returnk 0)"

definition sys_setgid :: "('z fs_state_scheme, int) kern" where
  "sys_setgid = bindk (getk (\<lambda>s. (p_cred (cur s), argint 0 s))) (\<lambda>(c, gid).
     if c_gid c \<noteq> 0 then returnk (- EPERM) else set_cred (\<lambda>c. c\<lparr>c_gid := gid\<rparr>))"

definition sys_setuid :: "('z fs_state_scheme, int) kern" where
  "sys_setuid = bindk (getk (\<lambda>s. (p_cred (cur s), argint 0 s))) (\<lambda>(c, uid).
     if c_uid c \<noteq> 0 then returnk (- EPERM) else set_cred (\<lambda>c. c\<lparr>c_uid := uid\<rparr>))"

definition sys_seteuid :: "('z fs_state_scheme, int) kern" where
  "sys_seteuid = bindk (getk (\<lambda>s. (p_cred (cur s), argint 0 s))) (\<lambda>(c, euid).
     if c_uid c \<noteq> 0 then returnk (- EPERM) else set_cred (\<lambda>c. c\<lparr>c_euid := euid\<rparr>))"

definition sys_setegid :: "('z fs_state_scheme, int) kern" where
  "sys_setegid = bindk (getk (\<lambda>s. (p_cred (cur s), argint 0 s))) (\<lambda>(c, egid).
     if c_uid c \<noteq> 0 then returnk (- EPERM) else set_cred (\<lambda>c. c\<lparr>c_egid := egid\<rparr>))"

definition sys_getuid :: "('z fs_state_scheme, int) kern" where
  "sys_getuid = getk (\<lambda>s. c_uid (p_cred (cur s)))"

definition sys_geteuid :: "('z fs_state_scheme, int) kern" where
  "sys_geteuid = getk (\<lambda>s. c_euid (p_cred (cur s)))"

definition sys_getegid :: "('z fs_state_scheme, int) kern" where
  "sys_getegid = getk (\<lambda>s. c_egid (p_cred (cur s)))"

definition sys_getgid :: "('z fs_state_scheme, int) kern" where
  "sys_getgid = getk (\<lambda>s. c_gid (p_cred (cur s)))"

text \<open>The process a pid names, the caller for 0.\<close>

definition proc_of :: "int \<Rightarrow> ('z fs_state_scheme, nat option) kern" where
  "proc_of pid = (if pid = 0 then getk (\<lambda>s. Some (curproc s)) else get_process_from_pid pid)"

definition sys_setpgid :: "('z fs_state_scheme, int) kern" where
  "sys_setpgid =
     bindk (getk (\<lambda>s. (argint 0 s, argint 1 s))) (\<lambda>(pid, pgid).
       if pid < 0 \<or> pid \<ge> int NPROC then returnk (- EINVAL)
       else if pgid < 0 \<or> pgid \<ge> int NPROC then returnk (- EINVAL)
       else bindk (proc_of pid) (\<lambda>r. case r of
           None \<Rightarrow> returnk (- ESRCH)
         | Some i \<Rightarrow> thenk (modk (upd_proc i (\<lambda>p. p\<lparr>p_pgid := (if pgid = 0 then p_pid p else pgid)\<rparr>))) (returnk 0)))"

definition sys_getpgid :: "('z fs_state_scheme, int) kern" where
  "sys_getpgid =
     bindk (getk (argint 0)) (\<lambda>pid.
       if pid < 0 \<or> pid \<ge> int NPROC then returnk (- EINVAL)
       else bindk (proc_of pid) (\<lambda>r. case r of
           None \<Rightarrow> returnk (- ESRCH)
         | Some i \<Rightarrow> getk (\<lambda>s. p_pgid (procs s ! i))))"

definition sys_setsid :: "('z fs_state_scheme, int) kern" where
  "sys_setsid =
     bindk (getk cur) (\<lambda>p.
       if p_pid p = p_pgid p then returnk (- EPERM)
       else thenk (modk (upd_cur (\<lambda>p. p\<lparr>p_sid := p_pid p, p_pgid := p_pid p\<rparr>))) (getk (\<lambda>s. p_sid (cur s))))"

definition sys_getsid :: "('z fs_state_scheme, int) kern" where
  "sys_getsid =
     bindk (getk (argint 0)) (\<lambda>pid.
       if pid = 0 then getk (\<lambda>s. p_sid (cur s))
       else bindk (get_process_from_pid pid) (\<lambda>r. case r of
           None \<Rightarrow> returnk (- ESRCH)
         | Some i \<Rightarrow> getk (\<lambda>s. if p_sid (procs s ! i) \<noteq> p_sid (cur s) then - EPERM else p_sid (procs s ! i))))"

text \<open>
  \<^verbatim>\<open>sys_getgroups\<close> takes its buffer from the third argument. Its loop runs up to the size given, one more
  than the array of groups has.
\<close>

fun groups_loop :: "nat \<Rightarrow> nat \<Rightarrow> int list \<Rightarrow> u64 \<Rightarrow> ('z fs_state_scheme, int) kern" where
  "groups_loop 0 k gids a = returnk (int k)"
| "groups_loop (Suc n) k gids a =
     thenk (assertk (k < length gids) ''gids'')
    (if gids ! k = - 1 then returnk (int k)
     else thenk (ustore (a + of_nat (4 * k)) (le_int 4 (gids ! k))) (groups_loop n (k + 1) gids a))"

definition sys_getgroups :: "('z fs_state_scheme, int) kern" where
  "sys_getgroups =
     bindk (getk (argint 0)) (\<lambda>gidsetsize.
       if gidsetsize \<noteq> 0 \<and> \<not> (1 \<le> gidsetsize \<and> gidsetsize \<le> int NGROUPS_MAX + 1) then returnk (- EINVAL)
       else tryk (argptr 2 (4 * gidsetsize)) (\<lambda>a.
            bindk (getk (\<lambda>s. c_gids (p_cred (cur s)))) (\<lambda>gids. groups_loop (nat gidsetsize) 0 gids a)))"

section \<open>Signals and tracing\<close>

definition sys_ptrace :: "('z fs_state_scheme, int) kern" where
  "sys_ptrace =
     tryk (argptr 0 62) (\<lambda>a. bindk (uload a 62) (\<lambda>bs.
       thenk (modk (upd_cur (\<lambda>p. p\<lparr>p_ptrace_mask := map (\<lambda>b. b = 1) bs @ drop 62 (p_ptrace_mask p)\<rparr>))) (returnk 0)))"

definition sys_signal :: "('z fs_state_scheme, int) kern" where
  "sys_signal =
     bindk (getk (argint 0)) (\<lambda>signum. tryk (argptr 1 1) (\<lambda>h.
     bindk (kernel_attach_signal signum h) (\<lambda>old. returnk (sint old))))"

definition sys_times :: "('z fs_state_scheme, int) kern" where
  "sys_times = tryk (argptr 0 32) (\<lambda>_. returnk (- ENOSYS))"

section \<open>Names\<close>

definition HOST_NAME_MAX :: nat where "HOST_NAME_MAX = 255"
definition UTSNAME_LEN :: nat where "UTSNAME_LEN = 64"

text \<open>The name is what \<^verbatim>\<open>/etc/hostname\<close> holds without its last character.\<close>

definition gethostname :: "byte list \<Rightarrow> ('z fs_state_scheme, int \<times> byte list) kern" where
  "gethostname name =
     bindk (vfs_openat AT_FDCWD (Some [47, 101, 116, 99, 47, 104, 111, 115, 116, 110, 97, 109, 101, 0]) O_RDONLY 0) (\<lambda>fd.
       if fd < 0 then returnk (fd, name)
       else bindk (getk (fd_to_struct_file fd)) (\<lambda>r. case r of
           None \<Rightarrow> returnk (- ENOENT, name)
         | Some f \<Rightarrow> bindk (vfs_read f (length name)) (\<lambda>(r, bs). case r of
             Returns ret \<Rightarrow>
               if ret < 0 then returnk (ret, name)
               else bindk (boundsk (strlen (blit 0 bs name))) (\<lambda>len.
                    thenk (assertk (0 < len) ''name'')
                   (bindk (vfs_close f) (\<lambda>c. returnk (c, (blit 0 bs name)[len - 1 := 0]))))
           | _ \<Rightarrow> panick ''hostname is not a file'')))"

definition put_str :: "u64 \<Rightarrow> byte list \<Rightarrow> nat \<Rightarrow> ('z fs_state_scheme, unit) kern" where
  "put_str a s n = bindk (uload a n) (\<lambda>old. bindk (boundsk (strncpy old s n)) (ustore a))"

text \<open>\<open>release\<close> and \<open>version\<close> are the strings the build generates.\<close>

definition sys_uname :: "byte list \<Rightarrow> byte list \<Rightarrow> ('z fs_state_scheme, int) kern" where
  "sys_uname release version =
     tryk (argptr 0 512) (\<lambda>a.
       if a = 0 then returnk (- EFAULT)
       else thenk (put_str (a + 448) [120, 56, 54, 95, 54, 52, 0] UTSNAME_LEN)
           (thenk (put_str (a + 320) release UTSNAME_LEN)
           (thenk (put_str (a + 384) version UTSNAME_LEN)
           (thenk (put_str a [82, 101, 108, 105, 120, 0] UTSNAME_LEN)
           (bindk (gethostname (replicate HOST_NAME_MAX 0)) (\<lambda>(r, name).
              if r < 0 then returnk r
              else thenk (put_str (a + 64) name (HOST_NAME_MAX + 1))
                  (thenk (ustore (a + 64 + 255) [0]) (returnk 0))))))))"

section \<open>Dispatch\<close>

text \<open>
  What a handler leaves: a value for \<^verbatim>\<open>rax\<close>, a wait in the middle of a transfer, or nothing, because the
  process is gone. The table maps a number to a handler; it has an element for each number below
  \<^verbatim>\<open>NELEM(syscalls)\<close>.
\<close>

datatype sys_run = SysRet int | SysWaits pipe_run | SysWaitsv writev_run | SysGone

definition set_rax :: "int \<Rightarrow> ('z fs_state_scheme, unit) kern" where
  "set_rax v = modk (upd_cur (\<lambda>p. p\<lparr>p_tf := (p_tf p)\<lparr>rax := of_int v\<rparr>\<rparr>))"

definition syscall :: "(nat \<Rightarrow> ('z fs_state_scheme, sys_run) kern option) \<Rightarrow> ('z fs_state_scheme, sys_run) kern" where
  "syscall syscalls =
     bindk (getk (\<lambda>s. unat (rax (p_tf (cur s))))) (\<lambda>num.
       case (if 0 < num \<and> num < 63 then syscalls num else None) of
         None \<Rightarrow> thenk (set_rax (- 1)) (returnk (SysRet (- 1)))
       | Some h \<Rightarrow> bindk h (\<lambda>r. case r of
             SysRet v \<Rightarrow> thenk (set_rax v) (returnk r)
           | _ \<Rightarrow> returnk r))"

text \<open>A process that was killed exits on the way in or on the way out of the system call.\<close>

definition syswrap ::
  "(nat \<Rightarrow> ('z fs_state_scheme, sys_run) kern option) \<Rightarrow> trapframe \<Rightarrow> ('z fs_state_scheme, sys_run) kern" where
  "syswrap syscalls tf =
     thenk (modk (upd_cur (\<lambda>p. p\<lparr>p_tf := tf\<rparr>)))
    (bindk (getk (\<lambda>s. p_killed (cur s))) (\<lambda>killed.
       if killed then thenk (exit 0) (returnk SysGone)
       else bindk (syscall syscalls) (\<lambda>r. case r of
           SysRet v \<Rightarrow> bindk (getk (\<lambda>s. p_killed (cur s))) (\<lambda>killed.
             if killed then thenk (exit 0) (returnk SysGone) else returnk r)
         | _ \<Rightarrow> returnk r)))"

end
