(* ===== verification/Kern_Syscall.thy ===== *)
theory Kern_Syscall
  imports Kern_Console Kern_Sysproc
begin

text \<open>
  The table of system calls of \<^verbatim>\<open>kernel/syscall.c\<close>, with the handlers that the theories below it do not have:
  \<^verbatim>\<open>sys_mmap\<close> and \<^verbatim>\<open>sys_munmap\<close> of \<^verbatim>\<open>kernel/sysfile.c\<close>, and the rest of \<^verbatim>\<open>kernel/sysproc.c\<close>.

  The state does not hold the kernel's heap: \<open>kmem t\<close> is the address that the \<open>t\<close>-th call of \<^verbatim>\<open>kmalloc\<close>
  returns when it succeeds, and \<open>kfree\<close> is an argument.
\<close>

section \<open>Memory maps\<close>

definition PROT_WRITE :: int where "PROT_WRITE = 2"
definition MAP_SHARED :: int where "MAP_SHARED = 1"
definition MAP_ANONYMOUS :: int where "MAP_ANONYMOUS = 2"
definition NMMAP :: nat where "NMMAP = 10"

definition mmap_prot_to_perm :: "int \<Rightarrow> u64" where
  "mmap_prot_to_perm prot = (if prot AND PROT_WRITE = PROT_WRITE then PTE_U OR PTE_W else PTE_U)"

definition has_flag :: "int \<Rightarrow> int \<Rightarrow> bool" where
  "has_flag x flag \<longleftrightarrow> x AND flag = flag"

text \<open>The loop of \<^verbatim>\<open>alloc_user_bytes\<close>: the result, and the physical address once there is one.\<close>

fun alloc_user_loop :: "(nat \<Rightarrow> u64) \<Rightarrow> nat \<Rightarrow> u64 \<Rightarrow> u64 \<Rightarrow> u64 \<Rightarrow> u64 \<Rightarrow> ('z fs_state_scheme, int \<times> u64) kern" where
  "alloc_user_loop kmem 0 pgdir virt_addr i phys = returnk (0, phys)"
| "alloc_user_loop kmem (Suc n) pgdir virt_addr i phys =
     bindk (getk (\<lambda>s. kmem (kmalloc_time s))) (\<lambda>mem. bindk kmalloc_call (\<lambda>ok.
       if \<not> ok then returnk (- ENOMEM, phys)
       else (let phys = (if i = 0 then v2p mem else phys) in
         bindk (mappages pgdir (i + PGROUNDUP virt_addr) PGSIZE (v2p mem) (PTE_W OR PTE_U)) (\<lambda>r.
           if r < 0 then returnk (- ENOMEM, phys)
           else alloc_user_loop kmem n pgdir virt_addr (i + PGSIZE) phys))))"

definition alloc_user_bytes :: "(nat \<Rightarrow> u64) \<Rightarrow> u64 option \<Rightarrow> u64 \<Rightarrow> u64 \<Rightarrow> ('z fs_state_scheme, int \<times> u64) kern" where
  "alloc_user_bytes kmem pgdir sz virt_addr =
     (if sz = 0 then returnk (- EINVAL, 0)
      else case pgdir of None \<Rightarrow> returnk (- EINVAL, 0)
      | Some d \<Rightarrow> alloc_user_loop kmem (unat (PGROUNDUP sz) div 4096) d virt_addr 0 0)"

text \<open>
  \<open>mmap_place\<close> is the second half of \<^verbatim>\<open>sys_mmap\<close>. Its test of the count lets one map too many through, and the
  store then falls outside of the array.
\<close>

definition mmap_record :: "mmap_info \<Rightarrow> ('z fs_state_scheme, unit) kern" where
  "mmap_record info =
     bindk (getk cur) (\<lambda>p.
     thenk (assertk (p_mmap_count p < NMMAP) ''out of bounds'')
       (modk (upd_cur (\<lambda>p. p\<lparr>p_heapsz := p_heapsz p + m_length info, p_mmap_info := (p_mmap_info p)[p_mmap_count p := info],
          p_mmap_count := p_mmap_count p + 1\<rparr>))))"

definition mmap_place :: "(nat \<Rightarrow> u64) \<Rightarrow> (u64 \<Rightarrow> ('z fs_state_scheme, unit) kern) \<Rightarrow> u64 \<Rightarrow> mmap_info \<Rightarrow> ('z fs_state_scheme, int) kern" where
  "mmap_place kmem kfree va info =
     bindk (getk cur) (\<lambda>p.
       if p_mmap_count p > NMMAP then returnk (- ENOMEM)
       else if m_virt_addr info = 0
       then (let info = info\<lparr>m_virt_addr := PGROUNDUP (p_heap p + p_heapsz p)\<rparr> in
         bindk (if m_addr info = 0 then alloc_user_bytes kmem (p_pgdir p) (m_length info) (m_virt_addr info)
                else bindk (derefk (p_pgdir p)) (\<lambda>d.
                     bindk (mappages d (m_virt_addr info) (m_length info) (m_addr info) (m_perm info)) (\<lambda>r. returnk (r, m_addr info))))
         (\<lambda>(r, pa).
           if r < 0 then returnk r
           else thenk (mmap_record (info\<lparr>m_addr := pa\<rparr>)) (returnk (uint (m_virt_addr info)))))
       else bindk (derefk (p_pgdir p)) (\<lambda>d.
            bindk (mappages d va (m_length info) (m_addr info) (m_perm info)) (\<lambda>r.
              if r < 0
              then bindk (getk (\<lambda>s. kmem (kmalloc_time s))) (\<lambda>ptr. bindk kmalloc_call (\<lambda>ok.
                   if \<not> ok then returnk (- ENOMEM)
                   else bindk (mappages d va (m_length info) (v2p ptr) (m_perm info)) (\<lambda>r.
                        if r < 0 then thenk (kfree ptr) (returnk (- ENOMEM))
                        else thenk (mmap_record (info\<lparr>m_addr := v2p ptr\<rparr>)) (returnk (uint ptr)))))
              else thenk (mmap_record info) (returnk (uint va)))))"

definition mmap_file ::
  "(nat \<Rightarrow> u64) \<Rightarrow> (u64 \<Rightarrow> ('z fs_state_scheme, unit) kern) \<Rightarrow> u64 \<Rightarrow> u64 \<Rightarrow> int \<Rightarrow> int \<Rightarrow> nat option \<Rightarrow> ('z fs_state_scheme, int) kern" where
  "mmap_file kmem kfree va len prot flags f =
     (let perm = mmap_prot_to_perm prot; anon = has_flag flags MAP_ANONYMOUS;
          plain = mmap_place kmem kfree va \<lparr>m_length = len, m_addr = 0, m_virt_addr = va, m_file = None, m_perm = perm\<rparr> in
      if len = 0 then returnk (- EINVAL)
      else if \<not> has_flag flags MAP_SHARED \<and> \<not> anon then returnk (- EINVAL)
      else if len mod PGSIZE \<noteq> 0 \<or> va mod PGSIZE \<noteq> 0 then returnk (- EINVAL)
      else if anon then plain
      else case f of None \<Rightarrow> plain
      | Some f \<Rightarrow>
          bindk (getk (\<lambda>s. f_ip (files s ! f))) (\<lambda>ip. bindk (derefk ip) (\<lambda>ip. bindk (getk (\<lambda>s. s)) (\<lambda>s.
            (let node = inodes s ! ip in
             if \<not> S_ISCHR (i_mode node) then plain
             else if sl_locked (i_lock node) then returnk (- EAGAIN)
             else case Option.bind (dev_of node s) d_mmap of
               None \<Rightarrow> returnk (- ENODEV)
             | Some m \<Rightarrow>
                 thenk (modk (\<lambda>s. s\<lparr>io_time := io_time s + 1\<rparr>))
                   (mmap_place kmem kfree va ((m (io_time s) (i_minor node) len va perm)\<lparr>m_file := Some f\<rparr>)))))))"

definition sys_mmap :: "(nat \<Rightarrow> u64) \<Rightarrow> (u64 \<Rightarrow> ('z fs_state_scheme, unit) kern) \<Rightarrow> ('z fs_state_scheme, int) kern" where
  "sys_mmap kmem kfree =
     tryk (argptr 0 8) (\<lambda>va. bindk (getk (fetcharg 1)) (\<lambda>len. bindk (getk (argint 2)) (\<lambda>prot. bindk (getk (argint 3)) (\<lambda>flags.
     bindk (argfd 4) (\<lambda>a. case a of
       Inl e \<Rightarrow> if has_flag flags MAP_ANONYMOUS then mmap_file kmem kfree va len prot flags None else returnk e
     | Inr (_, f) \<Rightarrow> mmap_file kmem kfree va len prot flags f)))))"

text \<open>
  The loop of \<^verbatim>\<open>sys_munmap\<close> looks for the last matching map; \<open>map_matches\<close> is its test. The same page is unmapped
  in every turn of the second loop.
\<close>

definition map_matches :: "u64 \<Rightarrow> u64 \<Rightarrow> mmap_info \<Rightarrow> ('z fs_state_scheme, bool) kern" where
  "map_matches addr len m =
     (if m_virt_addr m \<noteq> addr then returnk False
      else if m_length m = len then returnk True
      else case m_file m of None \<Rightarrow> returnk False
      | Some f \<Rightarrow> bindk (getk (\<lambda>s. f_ip (files s ! f))) (\<lambda>ip. bindk (derefk ip) (\<lambda>ip. getk (\<lambda>s. S_ISCHR (i_mode (inodes s ! ip))))))"

fun find_map :: "u64 \<Rightarrow> u64 \<Rightarrow> mmap_info list \<Rightarrow> mmap_info option \<Rightarrow> ('z fs_state_scheme, mmap_info option) kern" where
  "find_map addr len [] j = returnk j"
| "find_map addr len (m # ms) j = bindk (map_matches addr len m) (\<lambda>b. find_map addr len ms (if b then Some m else j))"

definition sys_munmap :: "(u64 \<Rightarrow> ('z fs_state_scheme, unit) kern) \<Rightarrow> ('z fs_state_scheme, int) kern" where
  "sys_munmap kfree =
     bindk (getk cur) (\<lambda>p.
     tryk (argptr 0 8) (\<lambda>addr. bindk (getk (fetcharg 1)) (\<lambda>len.
       if len = 0 then returnk (- EINVAL)
       else bindk (find_map addr len (p_mmap_info p) None) (\<lambda>j. case j of
           None \<Rightarrow> returnk (- EINVAL)
         | Some m \<Rightarrow>
             bindk (derefk (p_pgdir p)) (\<lambda>d.
             thenk (foreachk [0..<unat (PGROUNDUP (m_length m)) div 4096] (\<lambda>_. unmap_user_page d (m_virt_addr m)))
            (thenk (if addr \<noteq> 0 \<and> v2p addr < KERNBASE then kfree addr else returnk ()) (returnk 0)))))))"

section \<open>Sleeping and stopping\<close>

text \<open>
  \<^verbatim>\<open>sys_clock_nanosleep\<close> sets a timer and sleeps; \<open>nanosleep_woken\<close> is what it does when it wakes. Its test for a
  null pointer is a conjunction that never holds.
\<close>

definition sys_clock_nanosleep :: "('z fs_state_scheme, int) kern" where
  "sys_clock_nanosleep =
     bindk (getk (argint 0)) (\<lambda>clockid. bindk (getk (argint 1)) (\<lambda>flags.
     tryk (argptr 2 16) (\<lambda>duration. tryk (argptr 3 16) (\<lambda>rem.
       if clockid \<noteq> 2 then returnk (- ENOSYS)
       else if flags AND NOT 1 \<noteq> 0 then returnk (- EINVAL)
       else bindk (uload (duration + 8) 8) (\<lambda>bs.
            (let n = sint (of_nat (le_val bs) :: u64) in
             if n < 0 \<or> n > 9999999999 then returnk (- EINVAL)
             else bindk (uload duration 8) (\<lambda>_. sleepk ChanHpet)))))))"

definition nanosleep_woken :: "('z fs_state_scheme, int) kern" where
  "nanosleep_woken = getk (\<lambda>s. if p_killed (cur s) then - ESRCH else 0)"

text \<open>A machine that is powered off or halted does not go on; \<open>panick\<close> stands for that.\<close>

definition poweroff :: "('z fs_state_scheme, int) kern" where
  "poweroff = thenk (kill 0 9) (thenk (kill 1 9) (panick ''Unreachable.''))"

definition sys_reboot :: "('z fs_state_scheme, int) kern" where
  "sys_reboot =
     bindk (getk (argint 0)) (\<lambda>cmd.
       if cmd = 0x1234 then thenk (kill 1 9) poweroff
       else if cmd = 0xDEAD then thenk (kill 1 9) (panick ''System Halted.'')
       else returnk (- EINVAL))"

definition sys_sigprocmask :: "('z fs_state_scheme, int) kern" where "sys_sigprocmask = returnk (- ENOSYS)"
definition sys_sigsuspend :: "('z fs_state_scheme, int) kern" where "sys_sigsuspend = returnk (- ENOSYS)"
definition sys_sigaction :: "('z fs_state_scheme, int) kern" where "sys_sigaction = returnk (- ENOSYS)"

section \<open>The table\<close>

text \<open>
  The handlers in the order of their numbers, from 1. \<open>kernel_begin\<close> is the symbol of the linker, \<open>release\<close> and
  \<open>version\<close> are strings of the build, and \<open>depth\<close> bounds the walk of \<^verbatim>\<open>sys_getcwd\<close> to the root.
\<close>

definition ret :: "('s, int) kern \<Rightarrow> ('s, sys_run) kern" where
  "ret m = bindk m (\<lambda>v. returnk (SysRet v))"

definition waits :: "('s, pipe_run) kern \<Rightarrow> ('s, sys_run) kern" where
  "waits m = bindk m (\<lambda>r. returnk (case r of Returns v \<Rightarrow> SysRet v | _ \<Rightarrow> SysWaits r))"

definition waitsv :: "('s, writev_run) kern \<Rightarrow> ('s, sys_run) kern" where
  "waitsv m = bindk m (\<lambda>r. returnk (case r of WritevReturns v \<Rightarrow> SysRet v | _ \<Rightarrow> SysWaitsv r))"

definition handlers ::
  "u64 \<Rightarrow> nat \<Rightarrow> byte list \<Rightarrow> byte list \<Rightarrow> (nat \<Rightarrow> u64) \<Rightarrow> (u64 \<Rightarrow> ('z tty_state_scheme, unit) kern) \<Rightarrow>
   ('z tty_state_scheme, sys_run) kern list" where
  "handlers kernel_begin depth release version kmem kfree =
     [ret sys_fork, thenk sys__exit (returnk SysGone), ret sys_waitpid, ret sys_pipe2, waits sys_read, ret sys_kill,
      ret sys_execve, ret sys_fstat, ret sys_chdir, ret sys_dup3, ret sys_getpid, ret sys_sbrk,
      ret (bindk (getk ticks) sys_alarm), ret sys_uptime, ret sys_openat, waits sys_write, ret sys_mknodat,
      ret sys_unlinkat, ret sys_linkat, ret sys_mkdirat, ret sys_close, ret (sys_clock_gettime kernel_begin),
      ret sys_fchmodat, ret sys_reboot, ret sys_setgid, ret sys_setuid, ret sys_ptrace, ret sys_symlinkat,
      ret sys_readlinkat, ret sys_lseek, ret sys_fsync, waitsv sys_writev, ret sys_ioctl, ret (sys_mmap kmem kfree),
      ret (sys_munmap kfree), ret sys_signal, ret (sys_getcwd depth), ret sys_sigprocmask, ret sys_getpgid,
      ret sys_setpgid, ret sys_sigsuspend, ret sys_umask, ret sys_sigaction, ret sys_renameat, ret sys_getuid,
      ret sys_getgid, ret sys_getppid, ret sys_times, ret sys_fstatat, ret sys_fchmod, ret sys_faccessat, ret sys_fcntl,
      ret (sys_uname release version), waits sys_getdents, ret sys_clock_nanosleep, ret sys_geteuid, ret sys_getegid,
      ret sys_seteuid, ret sys_setegid, ret sys_getgroups, ret sys_getsid, ret sys_setsid]"

definition syscalls ::
  "u64 \<Rightarrow> nat \<Rightarrow> byte list \<Rightarrow> byte list \<Rightarrow> (nat \<Rightarrow> u64) \<Rightarrow> (u64 \<Rightarrow> ('z tty_state_scheme, unit) kern) \<Rightarrow>
   nat \<Rightarrow> ('z tty_state_scheme, sys_run) kern option" where
  "syscalls kernel_begin depth release version kmem kfree n =
     (let hs = handlers kernel_begin depth release version kmem kfree in
      if 0 < n \<and> n \<le> length hs then Some (hs ! (n - 1)) else None)"

end
