(* ===== verification/Kern_Type.thy ===== *)
theory Kern_Type
  imports Kern_Syscall
begin

text \<open>
  Well-typed states. The code refers to buffers, inodes, open files and processes by pointers into
  fixed arrays, here indices. A state is well typed when every array has the length it is declared
  with and every pointer kept in a structure points into its array. \<open>types Q m\<close> says that \<open>m\<close> leaves
  well-typed states well typed and returns values that satisfy \<open>Q\<close>; its rules follow the structure
  of the code, so that the rule of a handler is proved from the rules of the operations it calls.
\<close>

section \<open>Well-typed states\<close>

definition points :: "nat \<Rightarrow> nat option \<Rightarrow> bool" where
  "points n v \<longleftrightarrow> (case v of None \<Rightarrow> True | Some i \<Rightarrow> i < n)"

lemma points_simps [simp]: "points n None" "points n (Some i) \<longleftrightarrow> i < n"
  by (simp_all add: points_def)

definition proc_typed :: "proc \<Rightarrow> bool" where
  "proc_typed p \<longleftrightarrow> length (p_ofile p) = OPEN_MAX \<and> list_all (points NFILE) (p_ofile p) \<and> points NINODE (p_cwd p) \<and>
     points NPROC (p_parent p) \<and> length (p_sig_handlers p) = NSIG \<and> length (p_ptrace_mask p) = 63"

definition inode_typed :: "inode \<Rightarrow> bool" where
  "inode_typed ip \<longleftrightarrow> length (i_addrs ip) = NDIRECT + 2 \<and> points NFILE (i_rf ip) \<and> points NFILE (i_wf ip)"

definition file_typed :: "file_rec \<Rightarrow> bool" where
  "file_typed f \<longleftrightarrow> points NINODE (f_ip f)"

definition well_typed :: "'z fs_state_scheme \<Rightarrow> bool" where
  "well_typed s \<longleftrightarrow> length (procs s) = NPROC \<and> list_all proc_typed (procs s) \<and> curproc s < NPROC \<and>
     points NPROC (initproc s) \<and> length (bufs s) = NBUF \<and> set (lru s) \<subseteq> {..<NBUF} \<and> set (idequeue s) \<subseteq> {..<NBUF} \<and>
     length (l_block s) = LOGSIZE \<and> length (inodes s) = NINODE \<and> list_all inode_typed (inodes s) \<and>
     length (files s) = NFILE \<and> list_all file_typed (files s)"

lemma typedD:
  assumes "well_typed s"
  shows "i < NPROC \<Longrightarrow> proc_typed (procs s ! i)" and "proc_typed (cur s)" and "i < NINODE \<Longrightarrow> inode_typed (inodes s ! i)"
    and "i < NFILE \<Longrightarrow> file_typed (files s ! i)" and "curproc s < NPROC" and "length (procs s) = NPROC"
    and "length (bufs s) = NBUF" and "length (inodes s) = NINODE" and "length (files s) = NFILE"
  using assms by (auto simp: well_typed_def cur_def list_all_length)

lemma typed_pointers:
  assumes "well_typed s"
  shows "f < NFILE \<Longrightarrow> f_ip (files s ! f) = Some i \<Longrightarrow> i < NINODE"
    and "i < NINODE \<Longrightarrow> i_rf (inodes s ! i) = Some f \<Longrightarrow> f < NFILE"
    and "i < NINODE \<Longrightarrow> i_wf (inodes s ! i) = Some f \<Longrightarrow> f < NFILE"
    and "p_cwd (cur s) = Some i \<Longrightarrow> i < NINODE"
    and "fd < OPEN_MAX \<Longrightarrow> p_ofile (cur s) ! fd = Some f \<Longrightarrow> f < NFILE"
    and "initproc s = Some k \<Longrightarrow> k < NPROC"
  using typedD [OF assms] assms
  by (auto simp: file_typed_def inode_typed_def proc_typed_def list_all_length well_typed_def) force+

lemma typed_init: "well_typed s \<Longrightarrow> points NPROC (initproc s)"
  by (simp add: well_typed_def)

subsection \<open>Changes that keep a state well typed\<close>

named_theorems typed_intros

lemma list_all_update: "list_all P xs \<Longrightarrow> (i < length xs \<Longrightarrow> P v) \<Longrightarrow> list_all P (xs[i := v])"
  by (auto simp: list_all_length nth_list_update_if)

lemma typed_upd_proc [typed_intros]:
  "well_typed s \<Longrightarrow> (\<And>p. proc_typed p \<Longrightarrow> proc_typed (f p)) \<Longrightarrow> well_typed (upd_proc i f s)"
  using typedD(1) [of s i] by (auto simp: well_typed_def upd_proc_def intro!: list_all_update)

lemma typed_upd_cur [typed_intros]:
  "well_typed s \<Longrightarrow> (\<And>p. proc_typed p \<Longrightarrow> proc_typed (f p)) \<Longrightarrow> well_typed (upd_cur f s)"
  unfolding upd_cur_def by (rule typed_upd_proc)

lemma typed_upd_inode [typed_intros]:
  "well_typed s \<Longrightarrow> (\<And>ip. inode_typed ip \<Longrightarrow> inode_typed (f ip)) \<Longrightarrow> well_typed (upd_inode i f s)"
  using typedD(3) [of s i] by (auto simp: well_typed_def upd_inode_def intro!: list_all_update)

lemma typed_upd_file [typed_intros]:
  "well_typed s \<Longrightarrow> (\<And>f. file_typed f \<Longrightarrow> file_typed (g f)) \<Longrightarrow> well_typed (upd_file i g s)"
  using typedD(4) [of s i] by (auto simp: well_typed_def upd_file_def intro!: list_all_update)

lemma typed_set_ofile [typed_intros]: "well_typed s \<Longrightarrow> points NFILE v \<Longrightarrow> well_typed (set_ofile fd v s)"
  unfolding set_ofile_def
  by (rule typed_upd_cur) (auto simp: proc_typed_def intro!: list_all_update)

lemma typed_upd_buf [typed_intros]: "well_typed s \<Longrightarrow> well_typed (upd_buf i f s)"
  by (simp add: well_typed_def upd_buf_def)

lemma typed_wakeup1 [typed_intros]: "well_typed s \<Longrightarrow> well_typed (wakeup1 c s)"
  by (auto simp: well_typed_def wakeup1_def list_all_length wake_def proc_typed_def)

lemma typed_fields [simp]:
  "well_typed (disk_write dev bn d s) = well_typed s" "well_typed (upd_pipe p v s) = well_typed s"
  "well_typed (s\<lparr>io_time := n\<rparr>) = well_typed s" "well_typed (s\<lparr>kmalloc_time := n\<rparr>) = well_typed s"
  "well_typed (s\<lparr>l_n := n\<rparr>) = well_typed s" "well_typed (s\<lparr>l_outstanding := n\<rparr>) = well_typed s"
  "well_typed (s\<lparr>l_committing := b\<rparr>) = well_typed s" "well_typed (s\<lparr>nextpid := k\<rparr>) = well_typed s"
  "well_typed (s\<lparr>pdata := D\<rparr>) = well_typed s" "well_typed (s\<lparr>ptab := T\<rparr>) = well_typed s"
  "well_typed (s\<lparr>freelist := l\<rparr>) = well_typed s"
  by (simp_all add: well_typed_def disk_write_def upd_pipe_def)

lemma typed_more: "mem_state.more s' = mem_state.more s \<Longrightarrow> well_typed s' = well_typed s"
  by (cases s; cases s') (simp add: well_typed_def)

section \<open>The rules\<close>

definition types :: "('a \<Rightarrow> bool) \<Rightarrow> ('z fs_state_scheme, 'a) kern \<Rightarrow> bool" where
  "types Q m \<longleftrightarrow> (\<forall>s x s'. well_typed s \<longrightarrow> m s = Inr (x, s') \<longrightarrow> well_typed s' \<and> Q x)"

named_theorems types_rules

lemma typesD: "types Q m \<Longrightarrow> well_typed s \<Longrightarrow> m s = Inr (x, s') \<Longrightarrow> well_typed s' \<and> Q x"
  by (simp add: types_def)

lemma types_weaken: "types P m \<Longrightarrow> (\<And>x. P x \<Longrightarrow> Q x) \<Longrightarrow> types Q m"
  by (auto simp: types_def)

lemma types_bind [types_rules]: "types (\<lambda>x. types Q (f x)) m \<Longrightarrow> types Q (bindk m f)"
  unfolding types_def bindk_eq_Inr by blast

lemma types_then [types_rules]: "types (\<lambda>_. True) m \<Longrightarrow> types Q n \<Longrightarrow> types Q (thenk m n)"
  unfolding types_def thenk_eq_Inr by blast

lemma types_basic [types_rules]:
  "Q x \<Longrightarrow> types Q (returnk x)" "types Q (panick msg)" "types Q (sleepk c)" "(\<And>x. v = Some x \<Longrightarrow> Q x) \<Longrightarrow> types Q (derefk v)"
  "(b \<Longrightarrow> R ()) \<Longrightarrow> types R (assertk b msg)" "(\<And>s. well_typed s \<Longrightarrow> Q (g s)) \<Longrightarrow> types Q (getk g)"
  "(\<And>x. w = Some x \<Longrightarrow> Q x) \<Longrightarrow> types Q (boundsk w)"
  by (auto simp: types_def)

lemma types_mod [types_rules]: "(\<And>s. well_typed s \<Longrightarrow> well_typed (f s)) \<Longrightarrow> Q () \<Longrightarrow> types Q (modk f)"
  by (simp add: types_def)

lemma types_cases [types_rules]:
  "(b \<Longrightarrow> types Q m) \<Longrightarrow> (\<not> b \<Longrightarrow> types Q n) \<Longrightarrow> types Q (if b then m else n)"
  "(v = None \<Longrightarrow> types Q m) \<Longrightarrow> (\<And>x. v = Some x \<Longrightarrow> types Q (f x)) \<Longrightarrow> types Q (case v of None \<Rightarrow> m | Some x \<Rightarrow> f x)"
  "(\<And>a b. w = (a, b) \<Longrightarrow> types Q (g a b)) \<Longrightarrow> types Q (case w of (a, b) \<Rightarrow> g a b)"
  "(\<And>e. z = Inl e \<Longrightarrow> types Q (h e)) \<Longrightarrow> (\<And>x. z = Inr x \<Longrightarrow> types Q (k x)) \<Longrightarrow>
   types Q (case z of Inl e \<Rightarrow> h e | Inr x \<Rightarrow> k x)"
  "(xs = [] \<Longrightarrow> types Q m) \<Longrightarrow> (\<And>y ys. xs = y # ys \<Longrightarrow> types Q (l y ys)) \<Longrightarrow>
   types Q (case xs of [] \<Rightarrow> m | y # ys \<Rightarrow> l y ys)"
  by (auto split: option.split prod.split sum.split list.split)

lemma types_foreach [types_rules]:
  "(\<And>x. x \<in> set xs \<Longrightarrow> types (\<lambda>_. True) (f x)) \<Longrightarrow> Q () \<Longrightarrow> types Q (foreachk xs f)"
  by (induction xs) (auto intro: types_rules)

lemma types_mem: "(\<And>m. keeps (\<lambda>s. mem_state.more s = m) f) \<Longrightarrow> (\<And>x. Q x) \<Longrightarrow> types Q f"
proof -
  assume k: "\<And>m. keeps (\<lambda>s. mem_state.more s = m) f" and q: "\<And>x. Q x"
  show "types Q f"
    unfolding types_def
  proof (intro allI impI)
    fix s x s'
    assume "well_typed s" "f s = Inr (x, s')"
    then show "well_typed s' \<and> Q x" using keepsD [OF k _ refl] typed_more q by blast
  qed
qed

section \<open>Memory and processes\<close>

lemmas types_vm [types_rules] =
  types_mem [OF kpage_alloc_frame] types_mem [OF kpage_free_frame] types_mem [OF walkpgdir_frame]
  types_mem [OF mappages_frame(1)] types_mem [OF allocuvm_frame] types_mem [OF deallocuvm_frame]
  types_mem [OF freevm_frame] types_mem [OF setupkvm_frame] types_mem [OF copyuvm_frame] types_mem [OF copyout_frame]

lemma types_wakeup [types_rules]: "Q () \<Longrightarrow> types Q (wakeup c)"
  unfolding wakeup_def by (intro types_rules) (auto intro: typed_intros)

lemma first_index_less: "first_index P xs = Some i \<Longrightarrow> i < length xs"
  by (auto dest: first_index_SomeD)

lemma types_pid [types_rules]: "(\<And>v. points NPROC v \<Longrightarrow> Q v) \<Longrightarrow> types Q (get_process_from_pid pid)"
proof -
  assume q: "\<And>v. points NPROC v \<Longrightarrow> Q v"
  have "points NPROC (first_index P (procs s))" if "well_typed s" for s :: "'z fs_state_scheme" and P
    using first_index_less [of P "procs s"] typedD(6) [OF that] by (cases "first_index P (procs s)") auto
  with q show ?thesis unfolding get_process_from_pid_def by (intro types_rules) auto
qed

lemma types_prockill [types_rules]: "(\<And>r. Q r) \<Longrightarrow> types Q (prockill i sig)"
  unfolding prockill_def copy_signal_to_stack_def Let_def
  by (intro types_rules) (auto intro!: typed_intros simp: proc_typed_def)

lemma types_kill [types_rules]: "(\<And>r. Q r) \<Longrightarrow> types Q (kill pid sig)"
  unfolding kill_def kill_all_children_def kill_all_procs_def kill_single_proc_def Let_def
  by (intro types_rules) auto

section \<open>The cache and the log\<close>

lemma types_bio [types_rules]:
  "Q () \<Longrightarrow> types Q (acquiresleep_buf i)" "Q () \<Longrightarrow> types Q (releasesleep_buf i)" "Q () \<Longrightarrow> types Q (set_data i d)"
  "Q () \<Longrightarrow> types Q (idestart i)"
  unfolding acquiresleep_buf_def releasesleep_buf_def set_data_def idestart_def
  by (intro types_rules; auto intro: typed_intros)+

lemma types_ideintr [types_rules]: "Q () \<Longrightarrow> types Q ideintr"
proof -
  assume q: "Q ()"
  have "well_typed (t\<lparr>idequeue := rest\<rparr>)" if "well_typed s" "well_typed t" "idequeue s = i # rest"
    for i rest and s t :: "'z fs_state_scheme"
    using that by (simp add: well_typed_def)
  with q show ?thesis
    unfolding ideintr_def by (intro types_rules) (auto intro: typed_intros)
qed

lemma types_ide_serve [types_rules]: "Q () \<Longrightarrow> types Q (ide_serve i n)"
  by (induction n; unfold ide_serve.simps; intro types_rules; auto)

lemma types_iderw [types_rules]: "i < NBUF \<Longrightarrow> Q () \<Longrightarrow> types Q (iderw i)"
  unfolding iderw_def Let_def by (intro types_rules) (auto simp: well_typed_def)

lemma find_mem: "find P xs = Some x \<Longrightarrow> x \<in> set xs"
  by (induction xs) (auto split: if_splits)

lemma types_block_get [types_rules]: "(\<And>i. i < NBUF \<Longrightarrow> Q i) \<Longrightarrow> types Q (block_get dev bn)"
proof -
  assume q: "\<And>i. i < NBUF \<Longrightarrow> Q i"
  have "i < NBUF" if "well_typed s" "find P (lru s) = Some i \<or> find P (rev (lru s)) = Some i" for i P and s :: "'z fs_state_scheme"
    using that find_mem [of P "lru s" i] find_mem [of P "rev (lru s)" i] by (auto simp: well_typed_def)
  with q show ?thesis
    unfolding block_get_def by (intro types_rules) (auto intro: typed_intros)
qed

lemma types_block_read [types_rules]: "(\<And>i. i < NBUF \<Longrightarrow> Q i) \<Longrightarrow> types Q (block_read dev bn)"
  unfolding block_read_def by (intro types_rules) auto

lemma types_block_write [types_rules]: "i < NBUF \<Longrightarrow> Q () \<Longrightarrow> types Q (block_write i)"
  unfolding block_write_def by (intro types_rules) (auto intro: typed_intros)

lemma types_block_release [types_rules]: "i < NBUF \<Longrightarrow> Q () \<Longrightarrow> types Q (block_release i)"
proof -
  assume *: "i < NBUF" "Q ()"
  have "well_typed (s\<lparr>lru := i # remove1 i (lru s)\<rparr>)" if "well_typed s" for s :: "'z fs_state_scheme"
    using that *(1) set_remove1_subset [of i "lru s"] by (auto simp: well_typed_def)
  with * show ?thesis unfolding block_release_def by (intro types_rules) (auto intro: typed_intros)
qed

lemma types_log_loops [types_rules]:
  "Q () \<Longrightarrow> types Q (install_trans_loop bs pos)" "Q () \<Longrightarrow> types Q (write_log_loop bs pos)"
  by (induction bs arbitrary: pos; unfold install_trans_loop.simps write_log_loop.simps; intro types_rules; auto)+

lemma types_commit [types_rules]: "Q () \<Longrightarrow> types Q write_head" "Q () \<Longrightarrow> types Q commit"
proof -
  show h: "Q () \<Longrightarrow> types Q write_head" for Q unfolding write_head_def by (intro types_rules) auto
  show "Q () \<Longrightarrow> types Q commit"
    unfolding commit_def write_log_def install_trans_def by (intro types_rules h) auto
qed

lemma types_op [types_rules]:
  "Q () \<Longrightarrow> types Q begin_op" "Q () \<Longrightarrow> types Q end_op" "Q () \<Longrightarrow> types Q (log_write b)"
proof -
  show "Q () \<Longrightarrow> types Q begin_op" unfolding begin_op_def by (intro types_rules) auto
  show "Q () \<Longrightarrow> types Q end_op" unfolding end_op_def by (intro types_rules) auto
  have "well_typed (s\<lparr>l_block := (l_block s)[k := v], l_n := n\<rparr>)" if "well_typed s" for s :: "'z fs_state_scheme" and k v n
    using that by (simp add: well_typed_def)
  then show "Q () \<Longrightarrow> types Q (log_write b)"
    unfolding log_write_def Let_def by (intro types_rules) (auto intro: typed_intros)
qed

section \<open>Inodes\<close>

lemma types_zero [types_rules]: "Q () \<Longrightarrow> types Q (block_zero dev b)" "Q () \<Longrightarrow> types Q (block_free dev b)"
  unfolding block_zero_def block_free_def by (intro types_rules; auto)+

lemma types_alloc_loop [types_rules]: "(\<And>b. Q b) \<Longrightarrow> types Q (block_alloc_loop dev bs)"
  by (induction bs; unfold block_alloc_loop.simps; intro types_rules; auto)

lemma types_block_alloc [types_rules]: "(\<And>b. Q b) \<Longrightarrow> types Q (block_alloc dev)"
  unfolding block_alloc_def by (intro types_rules) auto

lemma inode_typed_fields [simp]:
  "inode_typed (ip\<lparr>i_lock := l\<rparr>) = inode_typed ip" "inode_typed (ip\<lparr>i_ref := r\<rparr>) = inode_typed ip"
  "inode_typed (ip\<lparr>i_valid := b\<rparr>) = inode_typed ip" "inode_typed (ip\<lparr>i_size := n\<rparr>) = inode_typed ip"
  "inode_typed (ip\<lparr>i_mode := n\<rparr>) = inode_typed ip" "inode_typed (ip\<lparr>i_nlink := k\<rparr>) = inode_typed ip"
  "inode_typed (ip\<lparr>i_fattrs := k\<rparr>) = inode_typed ip" "inode_typed (ip\<lparr>i_addrs := (i_addrs ip)[j := a]\<rparr>) = inode_typed ip"
  "inode_typed (ip\<lparr>i_dev := n\<rparr>) = inode_typed ip" "inode_typed (ip\<lparr>i_inum := n\<rparr>) = inode_typed ip"
  "inode_typed ip \<Longrightarrow> inode_typed (load_dinode off d ip)"
  by (simp_all add: inode_typed_def load_dinode_def)

lemma types_inode_locks [types_rules]:
  "Q () \<Longrightarrow> types Q (acquiresleep_inode i)" "Q () \<Longrightarrow> types Q (releasesleep_inode i)"
  "Q () \<Longrightarrow> types Q (inode_update i)" "Q () \<Longrightarrow> types Q (inode_unlock i)" "Q () \<Longrightarrow> types Q (inode_lock i)"
proof -
  show a: "Q () \<Longrightarrow> types Q (acquiresleep_inode i)" for Q unfolding acquiresleep_inode_def by (intro types_rules) (auto intro!: typed_intros)
  show r: "Q () \<Longrightarrow> types Q (releasesleep_inode i)" for Q unfolding releasesleep_inode_def by (intro types_rules) (auto intro!: typed_intros)
  show "Q () \<Longrightarrow> types Q (inode_update i)" unfolding inode_update_def by (intro types_rules) auto
  show "Q () \<Longrightarrow> types Q (inode_unlock i)" unfolding inode_unlock_def Let_def by (intro types_rules r) auto
  show "Q () \<Longrightarrow> types Q (inode_lock i)"
    unfolding inode_lock_def Let_def by (intro types_rules a) (auto intro!: typed_intros)
qed

lemma types_inode_get [types_rules]: "(\<And>i. i < NINODE \<Longrightarrow> Q i) \<Longrightarrow> types Q (inode_get dev inum)"
proof -
  assume q: "\<And>i. i < NINODE \<Longrightarrow> Q i"
  have "i < NINODE" if "well_typed s" "first_index P (inodes s) = Some i" for i P and s :: "'z fs_state_scheme"
    using first_index_less [OF that(2)] typedD(8) [OF that(1)] by simp
  with q show ?thesis unfolding inode_get_def by (intro types_rules) (auto intro!: typed_intros)
qed

lemma types_inode_alloc_loop [types_rules]: "(\<And>i. i < NINODE \<Longrightarrow> Q i) \<Longrightarrow> types Q (inode_alloc_loop dev mode inums)"
  by (induction inums; unfold inode_alloc_loop.simps; intro types_rules; auto)

lemma types_inode_alloc [types_rules]: "(\<And>i. i < NINODE \<Longrightarrow> Q i) \<Longrightarrow> types Q (inode_alloc dev mode)"
  unfolding inode_alloc_def by (intro types_rules) auto

lemma types_inode_dup [types_rules]: "Q i \<Longrightarrow> types Q (inode_dup i)"
  unfolding inode_dup_def by (intro types_rules) (auto intro!: typed_intros)

lemma types_bmap [types_rules]: "(\<And>b. Q b) \<Longrightarrow> types Q (bmap i bn)"
  unfolding bmap_def bmap_slot_def bmap_entry_def Let_def by (intro types_rules) (auto intro!: typed_intros)

lemma types_free_run [types_rules]: "Q () \<Longrightarrow> types Q (free_run dev as)"
  by (induction as; unfold free_run.simps; intro types_rules; auto)

lemma types_truncate [types_rules]: "Q () \<Longrightarrow> types Q (inode_truncate i)"
  unfolding inode_truncate_def truncate_direct_def truncate_indirect_def truncate_double_def free_indirect_def
  by (intro types_rules) (auto intro!: typed_intros)

lemma types_put [types_rules]: "Q () \<Longrightarrow> types Q (inode_put i)" "Q () \<Longrightarrow> types Q (inode_unlockput i)"
  unfolding inode_unlockput_def inode_put_def by (intro types_rules; auto intro!: typed_intros)+

lemma types_inode_stat [types_rules]: "(\<And>v. Q v) \<Longrightarrow> types Q (inode_stat i)"
  unfolding inode_stat_def Let_def by (intro types_rules) auto

lemma types_read_loop [types_rules]: "(\<And>r. Q r) \<Longrightarrow> types Q (inode_read_loop i off left)"
proof (induction i off left arbitrary: Q rule: inode_read_loop.induct)
  case (1 i off left)
  show ?case by (subst inode_read_loop.simps) (intro types_rules "1.IH" "1.prems" TrueI; assumption)
qed

lemma types_write_loop [types_rules]: "(\<And>r. Q r) \<Longrightarrow> types Q (inode_write_loop i off src)"
proof (induction i off src arbitrary: Q rule: inode_write_loop.induct)
  case (1 i off src)
  show ?case by (subst inode_write_loop.simps) (intro types_rules "1.IH" "1.prems" TrueI; assumption)
qed

lemma types_rw [types_rules]: "(\<And>r. Q r) \<Longrightarrow> types Q (inode_read i off n)" "(\<And>r. R r) \<Longrightarrow> types R (inode_write i src pos)"
  unfolding inode_read_def inode_write_def Let_def by (intro types_rules; auto intro!: typed_intros)+

section \<open>Directories, paths and open files\<close>

lemma types_dirlookup_loop [types_rules]:
  "Q None \<Longrightarrow> (\<And>i off. i < NINODE \<Longrightarrow> Q (Some (i, off))) \<Longrightarrow> types Q (dirlookup_loop dp name offs de)"
  by (induction offs arbitrary: de; unfold dirlookup_loop.simps Let_def; intro types_rules; auto)

lemma types_dirlookup [types_rules]:
  "Q None \<Longrightarrow> (\<And>i off. i < NINODE \<Longrightarrow> Q (Some (i, off))) \<Longrightarrow> types Q (dirlookup dp name)"
  unfolding dirlookup_def Let_def by (intro types_rules) auto

lemma types_dirlink_scan [types_rules]: "(\<And>r. Q r) \<Longrightarrow> types Q (dirlink_scan dp offs eod de)"
  by (induction offs arbitrary: de; unfold dirlink_scan.simps Let_def; intro types_rules; auto)

lemma types_dirlink [types_rules]: "(\<And>r. Q r) \<Longrightarrow> types Q (dirlink dp name inum)"
  unfolding dirlink_def by (intro types_rules) auto

lemma types_namex_loop [types_rules]:
  "ip < NINODE \<Longrightarrow> (\<And>v nm. points NINODE v \<Longrightarrow> Q (v, nm)) \<Longrightarrow> types Q (namex_loop ip path np name)"
proof (induction ip path np name rule: namex_loop.induct)
  case (1 ip path np name)
  show ?case
    by (subst namex_loop.simps) (intro types_rules "1.IH"; (assumption | use "1.prems" in auto)?)
qed

lemma typed_fd: "well_typed s \<Longrightarrow> fd_to_struct_file fd s = Some f \<Longrightarrow> f < NFILE"
  using typed_pointers(5) [of s "nat fd" f] by (auto simp: fd_to_struct_file_def split: if_splits)

lemma types_namex [types_rules]: "(\<And>v nm. points NINODE v \<Longrightarrow> Q (v, nm)) \<Longrightarrow> types Q (namex dirfd path np name)"
  unfolding namex_def by (intro types_rules) (auto dest: typed_fd intro: typed_pointers(1,4))

lemma types_names [types_rules]:
  "(\<And>v. points NINODE v \<Longrightarrow> Q v) \<Longrightarrow> types Q (namei path)"
  "(\<And>v. points NINODE v \<Longrightarrow> Q v) \<Longrightarrow> types Q (namei_with_fd dirfd path)"
  "(\<And>v nm. points NINODE v \<Longrightarrow> R (v, nm)) \<Longrightarrow> types R (nameiparent path name)"
  "(\<And>v nm. points NINODE v \<Longrightarrow> R (v, nm)) \<Longrightarrow> types R (nameiparent_with_fd dirfd path name)"
  unfolding namei_def namei_with_fd_def nameiparent_def nameiparent_with_fd_def by (intro types_rules; auto)+

lemma file_typed_fields [simp]:
  "file_typed (f\<lparr>f_ref := r\<rparr>) = file_typed f" "file_typed (f\<lparr>f_flags := k\<rparr>) = file_typed f"
  "file_typed (f\<lparr>f_off := k\<rparr>) = file_typed f" "file_typed (f\<lparr>f_type := t\<rparr>) = file_typed f"
  "file_typed (f\<lparr>f_readable := b\<rparr>) = file_typed f" "file_typed (f\<lparr>f_writable := b\<rparr>) = file_typed f"
  "file_typed (f\<lparr>f_pipe := v\<rparr>) = file_typed f" "file_typed (f\<lparr>f_ip := v\<rparr>) = points NINODE v"
  by (simp_all add: file_typed_def)

lemma types_filealloc [types_rules]: "(\<And>v. points NFILE v \<Longrightarrow> Q v) \<Longrightarrow> types Q filealloc"
proof -
  assume q: "\<And>v. points NFILE v \<Longrightarrow> Q v"
  have "f < NFILE" if "well_typed s" "first_index P (files s) = Some f" for f P and s :: "'z fs_state_scheme"
    using first_index_less [OF that(2)] typedD(9) [OF that(1)] by simp
  with q show ?thesis unfolding filealloc_def by (intro types_rules) (auto intro!: typed_intros q)
qed

lemma types_file_ops [types_rules]:
  "Q f \<Longrightarrow> types Q (filedup f flags)" "f < NFILE \<Longrightarrow> (\<And>r. R r) \<Longrightarrow> types R (fdalloc f)"
  "S () \<Longrightarrow> types S (pipe_event_run p e)" "S () \<Longrightarrow> types S (pipe_close_end p w)"
  "S () \<Longrightarrow> types S (drop_fifo_ends ip)"
proof -
  show "Q f \<Longrightarrow> types Q (filedup f flags)" unfolding filedup_def by (intro types_rules) (auto intro!: typed_intros)
  show "f < NFILE \<Longrightarrow> (\<And>r. R r) \<Longrightarrow> types R (fdalloc f)" unfolding fdalloc_def by (intro types_rules) (auto intro!: typed_intros)
  show e: "S () \<Longrightarrow> types S (pipe_event_run p e)" for S e
    unfolding pipe_event_run_def by (cases e) (auto intro!: types_rules)
  show "S () \<Longrightarrow> types S (pipe_close_end p w)" unfolding pipe_close_end_def by (intro types_rules e) auto
  show "S () \<Longrightarrow> types S (drop_fifo_ends ip)" unfolding drop_fifo_ends_def by (intro types_rules) (auto intro!: typed_intros)
qed

lemma types_file_release [types_rules]: "Q () \<Longrightarrow> types Q (file_release ff)"
  unfolding file_release_def by (cases "f_type ff") (auto intro!: types_rules)

lemma types_vfs_close [types_rules]: "(\<And>r. Q r) \<Longrightarrow> types Q (vfs_close f)"
  unfolding vfs_close_def Let_def by (intro types_rules) (auto intro!: typed_intros)

lemma types_fdalloc2 [types_rules]: "f < NFILE \<Longrightarrow> (\<And>r. Q r) \<Longrightarrow> types Q (fdalloc2 f fd)"
  unfolding fdalloc2_def by (intro types_rules) (auto intro!: typed_intros)

lemma types_pipealloc [types_rules]:
  "(\<And>r a b. points NFILE a \<Longrightarrow> points NFILE b \<Longrightarrow> Q (r, a, b)) \<Longrightarrow> types Q pipealloc"
  unfolding pipealloc_def new_ring_def kmalloc_call_def by (intro types_rules) (auto intro!: typed_intros)

lemma types_readlink_loop [types_rules]: "(\<And>r. Q r) \<Longrightarrow> types Q (readlink_loop n ip buf nbytes)"
  by (induction n arbitrary: ip buf nbytes; unfold readlink_loop.simps; intro types_rules; auto)

lemma types_resolve [types_rules]:
  "(\<And>r. Q r) \<Longrightarrow> types Q (filereadlinkat dirfd path buf)" "(\<And>v. points NINODE v \<Longrightarrow> R v) \<Longrightarrow> types R (resolve_nameat dirfd path)"
proof -
  show l: "(\<And>r. Q r) \<Longrightarrow> types Q (filereadlinkat dirfd path buf)" for Q buf
    unfolding filereadlinkat_def by (intro types_rules) auto
  show "(\<And>v. points NINODE v \<Longrightarrow> R v) \<Longrightarrow> types R (resolve_nameat dirfd path)"
    unfolding resolve_nameat_def by (intro types_rules l) auto
qed

lemma types_create [types_rules]:
  "points NINODE (Some ip) \<Longrightarrow> (\<And>v. points NINODE v \<Longrightarrow> Q v) \<Longrightarrow> types Q (create_node dp ip name mode dev)"
  "(\<And>v. points NINODE v \<Longrightarrow> Q v) \<Longrightarrow> types Q (vfs_locked_inode_create dirfd path mode dev)"
proof -
  have "inode_typed (ip\<lparr>i_major := a, i_minor := b, i_nlink := 1, i_mode := m, i_gid := 0, i_uid := 0, i_fattrs := 0\<rparr>)"
    if "inode_typed ip" for ip a b m using that by (simp add: inode_typed_def)
  then show n: "points NINODE (Some ip) \<Longrightarrow> (\<And>v. points NINODE v \<Longrightarrow> Q v) \<Longrightarrow> types Q (create_node dp ip name mode dev)"
    for ip dp Q name mode
    unfolding create_node_def by (intro types_rules) (auto intro!: typed_intros)
  show "(\<And>v. points NINODE v \<Longrightarrow> Q v) \<Longrightarrow> types Q (vfs_locked_inode_create dirfd path mode dev)"
    unfolding vfs_locked_inode_create_def Let_def by (intro types_rules n) (auto intro!: typed_intros)
qed

lemma types_open_get_fd [types_rules]: "ip < NINODE \<Longrightarrow> (\<And>r. Q r) \<Longrightarrow> types Q (open_get_fd ip flags)"
  unfolding open_get_fd_def by (intro types_rules) (auto intro!: typed_intros)

lemma types_fifo_create [types_rules]: "ip < NINODE \<Longrightarrow> (\<And>b. Q b) \<Longrightarrow> types Q (fifo_create ip)"
proof -
  assume i: "ip < NINODE" and q: "\<And>b. Q b"
  have "inode_typed (n\<lparr>i_rf := a, i_wf := b\<rparr>)" if "inode_typed n" "points NFILE a" "points NFILE b" for n a b
    using that by (simp add: inode_typed_def)
  with i q show ?thesis unfolding fifo_create_def by (intro types_rules) (auto intro!: typed_intros)
qed

lemma types_fifo_open [types_rules]: "points NFILE f \<Longrightarrow> (\<And>r. Q r) \<Longrightarrow> types Q (fifo_open ip f wr)"
  unfolding fifo_open_def by (intro types_rules) (auto intro!: typed_intros)

lemma types_fifo_open_ends [types_rules]: "ip < NINODE \<Longrightarrow> (\<And>r. Q r) \<Longrightarrow> types Q (fifo_open_ends ip flags)"
proof -
  assume i: "ip < NINODE" and q: "\<And>r. Q r"
  have "points NFILE (i_wf (inodes s ! ip))" "points NFILE (i_rf (inodes s ! ip))" if "well_typed s" for s :: "'z fs_state_scheme"
    using typedD(3) [OF that i] by (auto simp: inode_typed_def)
  with i q show ?thesis unfolding fifo_open_ends_def by (intro types_rules) auto
qed

lemma types_fifo_wait [types_rules]:
  "(\<And>r. Q r) \<Longrightarrow> types Q (fifo_wait_reader p fd)" "(\<And>r. Q r) \<Longrightarrow> types Q (fifo_wait_writer p fd)"
  unfolding fifo_wait_reader_def fifo_wait_writer_def by (intro types_rules; auto)+

lemma types_case_open [types_rules]:
  "(\<And>fd. types Q (f fd)) \<Longrightarrow> (\<And>p fd. types Q (g p fd)) \<Longrightarrow> (\<And>p fd. types Q (h p fd)) \<Longrightarrow>
   types Q (case r of Opened fd \<Rightarrow> f fd | AwaitsReader p fd \<Rightarrow> g p fd | AwaitsWriter p fd \<Rightarrow> h p fd)"
  by (cases r) auto

lemma types_vfs_openat [types_rules]: "(\<And>r. Q r) \<Longrightarrow> types Q (vfs_openat dirfd path flags mode)"
  unfolding vfs_openat_def vfs_openat_start_def open_create_def open_existing_def open_finish_def open_lookup_def Let_def
  by (intro types_rules) (auto intro!: typed_intros)

lemma types_vfs_stat [types_rules]: "(\<And>r. Q r) \<Longrightarrow> types Q (vfs_stat f)"
  unfolding vfs_stat_def by (intro types_rules) auto

lemma types_pipe_file [types_rules]:
  "(\<And>r. Q r) \<Longrightarrow> types Q (pipe_read_file p n)" "(\<And>r. R r) \<Longrightarrow> types R (pipe_write_file p addr)"
  unfolding pipe_read_file_def pipe_write_file_def Let_def by (intro types_rules; auto)+

lemma types_case_file_type [types_rules]:
  "types Q a \<Longrightarrow> types Q b \<Longrightarrow> types Q c \<Longrightarrow> types Q d \<Longrightarrow>
   types Q (case t of FD_NONE \<Rightarrow> a | FD_PIPE \<Rightarrow> b | FD_INODE \<Rightarrow> c | FD_FIFO \<Rightarrow> d)"
  by (cases t) auto

lemma types_vfs_read [types_rules]: "(\<And>r. Q r) \<Longrightarrow> types Q (vfs_read f n)"
  unfolding vfs_read_def by (intro types_rules) (auto intro!: typed_intros)

lemma types_vfs_write_loop [types_rules]: "(\<And>r. Q r) \<Longrightarrow> types Q (vfs_write_loop f k addr)"
proof (induction f k addr rule: vfs_write_loop.induct)
  case (1 f k addr)
  show ?case
    by (subst vfs_write_loop.simps, unfold Let_def) (intro types_rules "1.IH"; (use "1.prems" in \<open>auto intro!: typed_intros\<close>)?)
qed

lemma types_vfs_write [types_rules]: "(\<And>r. Q r) \<Longrightarrow> types Q (vfs_write f addr)"
  unfolding vfs_write_def by (intro types_rules) auto

lemma types_fileseek [types_rules]: "(\<And>r. Q r) \<Longrightarrow> types Q (fileseek f n whence)"
  unfolding fileseek_def by (intro types_rules) (auto intro!: typed_intros)

section \<open>User memory and arguments\<close>

lemma types_touch [types_rules]: "(\<And>pg. Q pg) \<Longrightarrow> types Q (touch va)"
  unfolding touch_def page_fault_def Let_def by (intro types_rules) (auto simp: write_pte_def)

lemma types_uload [types_rules]: "(\<And>bs. length bs = n \<Longrightarrow> Q bs) \<Longrightarrow> types Q (uload va n)"
proof (induction n arbitrary: va Q)
  case (Suc n)
  show ?case unfolding uload.simps by (intro types_rules Suc.IH Suc.prems) simp
qed (auto intro: types_rules)

lemma types_ustore [types_rules]: "Q () \<Longrightarrow> types Q (ustore va bs)"
  by (induction bs arbitrary: va; unfold ustore.simps; intro types_rules; auto)

lemma types_scan_nul [types_rules]: "(\<And>r. Q r) \<Longrightarrow> types Q (scan_nul a n k)"
  by (induction n arbitrary: a k; unfold scan_nul.simps; intro types_rules; auto)

lemma types_args [types_rules]:
  "(\<And>r. (\<forall>fd f. r = Inr (fd, Some f) \<longrightarrow> f < NFILE) \<Longrightarrow> Q r) \<Longrightarrow> types Q (argfd n)"
  "(\<And>r. R r) \<Longrightarrow> types R (argptr n len)" "(\<And>r. S r) \<Longrightarrow> types S (fetchstr a)" "(\<And>r. S r) \<Longrightarrow> types S (argstr n)"
  "(\<And>r. T r) \<Longrightarrow> types T (user_str x)" "(\<And>r. R r) \<Longrightarrow> types R (fetchuintptr_t a)"
proof -
  show "types Q (argfd n)" if q: "\<And>r. (\<forall>fd f. r = Inr (fd, Some f) \<longrightarrow> f < NFILE) \<Longrightarrow> Q r"
    unfolding argfd_def
  proof (intro types_rules q allI impI)
    fix s :: "'z fs_state_scheme" and fd f
    assume "well_typed s" "(let fd = argint n s in if fd = AT_FDCWD then Inr (fd, None) else if fd < 0 then Inl (- EBADF)
      else if fd \<ge> int OPEN_MAX then Inl (- ENFILE)
      else (case p_ofile (cur s) ! nat fd of None \<Rightarrow> Inl (- EBADF) | Some f \<Rightarrow> Inr (fd, Some f))) = Inr (fd, Some f)"
    then show "f < NFILE"
      using typed_pointers(5) [of s "nat (argint n s)" f] by (auto simp: Let_def split: if_splits option.splits)
  qed
  show "(\<And>r. R r) \<Longrightarrow> types R (argptr n len)" unfolding argptr_def by (intro types_rules)
  show s: "(\<And>r. S r) \<Longrightarrow> types S (fetchstr a)" for a S unfolding fetchstr_def by (intro types_rules) auto
  show "(\<And>r. S r) \<Longrightarrow> types S (argstr n)" unfolding argstr_def by (intro types_rules s)
  show "(\<And>r. T r) \<Longrightarrow> types T (user_str x)" unfolding user_str_def by (intro types_rules) auto
  show "(\<And>r. R r) \<Longrightarrow> types R (fetchuintptr_t a)" unfolding fetchuintptr_t_def by (intro types_rules) auto
qed

lemmas types_calls = tryk_def tryrun_def argpath_def Let_def

section \<open>System calls on files\<close>

lemma types_case_pipe_run [types_rules]:
  "(\<And>v. types Q (f v)) \<Longrightarrow> (\<And>bs. types Q (g bs)) \<Longrightarrow> types Q h \<Longrightarrow>
   types Q (case r of Returns v \<Rightarrow> f v | SleepsOnWrite bs \<Rightarrow> g bs | SleepsOnRead \<Rightarrow> h)"
  by (cases r) auto

lemma types_user_bytes [types_rules]: "(\<And>bs. Q bs) \<Longrightarrow> types Q (user_bytes f p n)"
  unfolding user_bytes_def by (intro types_rules) auto

lemma types_writev_loop [types_rules]: "(\<And>r. Q r) \<Longrightarrow> types Q (writev_loop f v n acc)"
  by (induction n arbitrary: acc; unfold writev_loop.simps; intro types_rules; auto)

lemma types_store_stat [types_rules]: "Q () \<Longrightarrow> types Q (store_stat a st)"
  unfolding store_stat_def by (intro types_rules) auto

named_theorems types_handlers

lemma types_rw_calls [types_handlers]:
  "types (\<lambda>_. True) sys_dup3" "types (\<lambda>_. True) sys_close" "types (\<lambda>_. True) sys_read" "types (\<lambda>_. True) sys_write"
  "types (\<lambda>_. True) sys_writev" "types (\<lambda>_. True) sys_lseek" "types (\<lambda>_. True) sys_fsync" "types (\<lambda>_. True) sys_fstat"
  unfolding sys_dup3_def sys_close_def sys_read_def sys_write_def sys_writev_def sys_lseek_def sys_fsync_def sys_fstat_def types_calls
  by (intro types_rules; auto intro!: typed_intros)+

lemma types_fd_calls [types_handlers]:
  "types (\<lambda>_. True) sys_fchmod" "types (\<lambda>_. True) sys_fcntl" "types (\<lambda>_. True) sys_umask" "types (\<lambda>_. True) sys_pipe2"
  unfolding sys_fchmod_def sys_fcntl_def dup_to_new_def sys_umask_def sys_pipe2_def types_calls
  by (intro types_rules; auto intro!: typed_intros)+

section \<open>System calls on paths\<close>

lemma types_add_nlink [types_rules]: "Q () \<Longrightarrow> types Q (add_nlink ip d)"
  unfolding add_nlink_def by (intro types_rules) (auto intro!: typed_intros)

lemma types_isdirempty_loop [types_rules]: "(\<And>b. Q b) \<Longrightarrow> types Q (isdirempty_loop dp offs de)"
  by (induction offs arbitrary: de; unfold isdirempty_loop.simps; intro types_rules; auto)

lemma types_status_calls [types_handlers]:
  "types (\<lambda>_. True) sys_fstatat" "types (\<lambda>_. True) sys_fchmodat" "types (\<lambda>_. True) sys_faccessat"
  unfolding sys_fstatat_def sys_fchmodat_def sys_faccessat_def types_calls
  by (intro types_rules; auto intro!: typed_intros)+

lemma types_link_calls [types_handlers]:
  "types (\<lambda>_. True) sys_linkat" "types (\<lambda>_. True) sys_unlinkat" "types (\<lambda>_. True) sys_symlinkat" "types (\<lambda>_. True) sys_readlinkat"
  unfolding sys_linkat_def link_bad_def sys_unlinkat_def unlink_entry_def isdirempty_def sys_symlinkat_def sys_readlinkat_def types_calls
  by (intro types_rules; auto intro!: typed_intros)+

lemma types_make_calls [types_handlers]:
  "types (\<lambda>_. True) sys_openat" "types (\<lambda>_. True) sys_mkdirat" "types (\<lambda>_. True) sys_mknodat"
  unfolding sys_openat_def sys_mkdirat_def sys_mknodat_def types_calls by (intro types_rules; auto intro!: typed_intros)+

lemma types_chdir [types_handlers]: "types (\<lambda>_. True) sys_chdir"
  unfolding sys_chdir_def resolve_name_def types_calls
  by (intro types_rules; auto intro!: typed_intros simp: proc_typed_def)

lemma types_name_of_inode_loop [types_rules]: "(\<And>r. Q r) \<Longrightarrow> types Q (name_of_inode_loop inum parent offs de buf n)"
  by (induction offs arbitrary: de; unfold name_of_inode_loop.simps Let_def; intro types_rules; auto)

lemma types_inode_to_path [types_rules]: "(\<And>r. Q r) \<Longrightarrow> types Q (inode_to_path depth buf n ip)"
proof (induction depth arbitrary: ip Q)
  case (Suc depth)
  show ?case unfolding inode_to_path.simps name_of_inode_def by (intro types_rules Suc.IH) (auto intro: Suc.prems)
qed (auto intro: types_rules)

lemma types_getdents_loop [types_rules]: "(\<And>r. Q r) \<Longrightarrow> types Q (getdents_loop fuel f dir buf nbyte flags sz de got)"
  by (induction fuel arbitrary: de got; unfold getdents_loop.simps dent_type_def Let_def; intro types_rules; auto)

lemma types_rename_loop [types_rules]: "(\<And>r. Q r) \<Longrightarrow> types Q (rename_loop dp new_dp dir newelem offs de)"
  by (induction offs arbitrary: de; unfold rename_loop.simps rename_entry_def Let_def; intro types_rules; auto)

lemma types_dir_calls [types_handlers]:
  "types (\<lambda>_. True) (sys_getcwd depth)" "types (\<lambda>_. True) sys_getdents" "types (\<lambda>_. True) sys_renameat"
  unfolding sys_getcwd_def sys_getdents_def sys_renameat_def types_calls by (intro types_rules; auto)+

section \<open>System calls on processes\<close>

lemma proc_typed_embryo: "proc_typed p \<Longrightarrow> proc_typed (embryo pid p)" "proc_typed p \<Longrightarrow> proc_typed (fresh k p)"
  by (simp_all add: proc_typed_def embryo_def fresh_def)

lemma types_allocproc [types_rules]: "(\<And>v. points NPROC v \<Longrightarrow> Q v) \<Longrightarrow> types Q allocproc"
proof -
  assume q: "\<And>v. points NPROC v \<Longrightarrow> Q v"
  have "i < NPROC" if "well_typed s" "first_index P (procs s) = Some i" for i P and s :: "'z fs_state_scheme"
    using first_index_less [OF that(2)] typedD(6) [OF that(1)] by simp
  with q show ?thesis
    unfolding allocproc_def
    by (intro types_rules) (auto intro!: typed_intros q proc_typed_embryo simp: proc_typed_def)
qed

lemma types_growproc [types_rules]: "(\<And>r. Q r) \<Longrightarrow> types Q (growproc n)"
  unfolding growproc_def by (intro types_rules) (auto intro!: typed_intros simp: proc_typed_def)

lemma types_fork_mmaps [types_rules]: "Q () \<Longrightarrow> types Q (fork_mmaps pgdir ms)"
  by (induction ms; unfold fork_mmaps.simps; intro types_rules; auto)

lemma types_fork_file [types_rules]: "fd < OPEN_MAX \<Longrightarrow> Q () \<Longrightarrow> types Q (fork_file np fd)"
  unfolding fork_file_def
  by (intro types_rules) (auto intro!: typed_intros list_all_update simp: proc_typed_def, rule typed_pointers(5))

lemma types_fork [types_rules]: "(\<And>r. Q r) \<Longrightarrow> types Q fork"
proof -
  assume q: "\<And>r. Q r"
  have c: "proc_typed (child_of p (Some i) nm p')" if "proc_typed p" "proc_typed p'" "i < NINODE" for p p' i nm
    using that by (simp add: proc_typed_def child_of_def)
  from q show ?thesis
    unfolding fork_def
    by (intro types_rules)
      (auto intro!: typed_intros c intro: typedD(5) simp: proc_typed_def dest: typedD(2) typed_pointers(4))
qed

lemma types_exit [types_rules]: "Q () \<Longrightarrow> types Q (exit status)"
proof -
  assume q: "Q ()"
  have a: "R () \<Longrightarrow> types R (adopt j)" for R and j
    unfolding adopt_def
    by (intro types_rules) (auto intro!: typed_intros intro: typed_init simp: proc_typed_def)
  from q show ?thesis
    unfolding exit_def exit_file_def sched_check_def by (intro types_rules a) (auto intro!: typed_intros simp: proc_typed_def)
qed

lemma types_waitpid [types_rules]: "(\<And>r. Q r) \<Longrightarrow> types Q (waitpid pid)"
  unfolding waitpid_def Let_def by (intro types_rules) (auto intro!: typed_intros simp: proc_typed_def reap_def)

lemma types_signal [types_rules]: "(\<And>r. Q r) \<Longrightarrow> types Q (kernel_attach_signal signum h)"
  unfolding kernel_attach_signal_def by (intro types_rules) (auto intro!: typed_intros simp: proc_typed_def)

lemma types_process_calls [types_handlers]:
  "types (\<lambda>_. True) sys_fork" "types (\<lambda>_. True) sys__exit" "types (\<lambda>_. True) sys_waitpid" "types (\<lambda>_. True) sys_kill"
  "types (\<lambda>_. True) sys_sbrk" "types (\<lambda>_. True) (sys_alarm t0)" "types (\<lambda>_. True) sys_signal"
  "types (\<lambda>_. True) (sys_clock_gettime kb)" "types (\<lambda>_. True) sys_times"
  unfolding sys_fork_def sys__exit_def sys_waitpid_def sys_kill_def sys_sbrk_def sys_alarm_def sys_signal_def
    sys_clock_gettime_def sys_times_def types_calls
  by (intro types_rules; auto)+

lemma types_get_calls [types_handlers]:
  "types (\<lambda>_. True) sys_getpid" "types (\<lambda>_. True) sys_getppid" "types (\<lambda>_. True) sys_uptime" "types (\<lambda>_. True) sys_getuid"
  "types (\<lambda>_. True) sys_geteuid" "types (\<lambda>_. True) sys_getegid" "types (\<lambda>_. True) sys_getgid" "types (\<lambda>_. True) sys_getpgid"
  "types (\<lambda>_. True) sys_getsid"
  unfolding sys_getpid_def sys_getppid_def sys_uptime_def sys_getuid_def sys_geteuid_def sys_getegid_def sys_getgid_def
    sys_getpgid_def sys_getsid_def proc_of_def
  by (intro types_rules; auto)+

lemma types_set_calls [types_handlers]:
  "types (\<lambda>_. True) sys_setgid" "types (\<lambda>_. True) sys_setuid" "types (\<lambda>_. True) sys_seteuid" "types (\<lambda>_. True) sys_setegid"
  "types (\<lambda>_. True) sys_setpgid" "types (\<lambda>_. True) sys_setsid" "types (\<lambda>_. True) sys_ptrace"
  unfolding sys_setgid_def sys_setuid_def sys_seteuid_def sys_setegid_def set_cred_def sys_setpgid_def sys_setsid_def
    sys_ptrace_def proc_of_def types_calls
  by (intro types_rules; auto intro!: typed_intros simp: proc_typed_def)+

lemma types_groups_loop [types_rules]: "(\<And>r. Q r) \<Longrightarrow> types Q (groups_loop n k gids a)"
  by (induction n arbitrary: k; unfold groups_loop.simps; intro types_rules; auto)

lemma types_name_calls [types_handlers]: "types (\<lambda>_. True) sys_getgroups" "types (\<lambda>_. True) (sys_uname rel ver)"
  unfolding sys_getgroups_def sys_uname_def gethostname_def put_str_def types_calls by (intro types_rules; auto)+

section \<open>Running a program\<close>

lemma types_pte [types_rules]: "Q () \<Longrightarrow> types Q (clearpteu d a)" "R () \<Longrightarrow> types R (unmap_user_page d a)"
  unfolding clearpteu_def clear_pte_mask_def unmap_user_page_def by (intro types_rules; auto simp: write_pte_def)+

lemma types_loaduvm_loop [types_rules]: "(\<And>r. Q r) \<Longrightarrow> types Q (loaduvm_loop n pgdir addr ip off sz i)"
  by (induction n arbitrary: i; unfold loaduvm_loop.simps Let_def; intro types_rules; auto)

lemma types_load_segments [types_rules]: "(\<And>r. Q r) \<Longrightarrow> types Q (load_segments n pgdir ip off sz ph)"
  by (induction n arbitrary: off sz ph; unfold load_segments.simps Let_def loaduvm_def; intro types_rules; auto)

lemma types_push_user_stack [types_rules]: "(\<And>r. Q r) \<Longrightarrow> types Q (push_user_stack pgdir vec cnt sp)"
proof (induction vec arbitrary: Q cnt sp)
  case (Cons v vec)
  then show ?case unfolding push_user_stack.simps Let_def by (intro types_rules Cons.IH)
qed (simp add: types_basic)

lemma types_exec_commit [types_rules]: "(\<And>r. Q r) \<Longrightarrow> types Q (exec_commit path pgdir sz entry sp)"
  unfolding exec_commit_def exec_file_def by (intro types_rules) (auto intro!: typed_intros simp: proc_typed_def)

lemma types_exec_stack [types_rules]: "(\<And>r. Q r) \<Longrightarrow> types Q (exec_stack path argv envp pgdir entry sz)"
  unfolding exec_stack_def Let_def by (intro types_rules) (auto intro!: typed_intros simp: proc_typed_def)

lemma types_execve [types_rules]: "(\<And>r. Q r) \<Longrightarrow> types Q (execve path argv envp)"
  unfolding execve_def Let_def by (intro types_rules) auto

lemma types_fetch_vec [types_rules]: "(\<And>r. Q r) \<Longrightarrow> types Q (fetch_vec n uv)"
proof (induction n arbitrary: Q uv)
  case (Suc n)
  then show ?case unfolding fetch_vec.simps by (intro types_rules Suc.IH)
qed (simp add: types_basic)

lemma types_sys_execve [types_handlers]: "types (\<lambda>_. True) sys_execve"
  unfolding sys_execve_def types_calls by (intro types_rules) auto

section \<open>Memory maps, terminals and stopping\<close>

lemma types_kmalloc_call [types_rules]: "(\<And>b. Q b) \<Longrightarrow> types Q kmalloc_call"
  unfolding kmalloc_call_def by (intro types_rules) auto

lemma types_alloc_user_loop [types_rules]: "(\<And>r. Q r) \<Longrightarrow> types Q (alloc_user_loop kmem n d va i pa)"
  by (induction n arbitrary: i pa; unfold alloc_user_loop.simps Let_def; intro types_rules; auto)

lemma types_alloc_user_bytes [types_rules]: "(\<And>r. Q r) \<Longrightarrow> types Q (alloc_user_bytes kmem d sz va)"
  unfolding alloc_user_bytes_def by (intro types_rules)

lemma types_mmap_record [types_rules]: "Q () \<Longrightarrow> types Q (mmap_record info)"
  unfolding mmap_record_def by (intro types_rules) (auto intro!: typed_intros simp: proc_typed_def)

lemma types_find_map [types_rules]: "(\<And>r. Q r) \<Longrightarrow> types Q (find_map addr len ms j)"
  by (induction ms arbitrary: j; unfold find_map.simps map_matches_def; intro types_rules; auto)

lemma types_map_calls:
  assumes "\<And>a Q. Q () \<Longrightarrow> types Q (kfree a)"
  shows "types (\<lambda>_. True) (sys_mmap kmem kfree)" and "types (\<lambda>_. True) (sys_munmap kfree)"
  unfolding sys_mmap_def sys_munmap_def mmap_file_def mmap_place_def types_calls
  by (intro types_rules assms; auto)+

lemma types_stop_calls [types_handlers]:
  "types (\<lambda>_. True) sys_clock_nanosleep" "types (\<lambda>_. True) sys_reboot" "types (\<lambda>_. True) sys_sigprocmask"
  "types (\<lambda>_. True) sys_sigsuspend" "types (\<lambda>_. True) sys_sigaction"
  unfolding sys_clock_nanosleep_def sys_reboot_def poweroff_def sys_sigprocmask_def sys_sigsuspend_def sys_sigaction_def types_calls
  by (intro types_rules; auto)+

lemma typed_tty [simp]:
  "well_typed (s\<lparr>echo_out := b\<rparr>) = well_typed s" "well_typed (s\<lparr>tty_settings := ss\<rparr>) = well_typed s"
  "well_typed (s\<lparr>term_pgids := ps\<rparr>) = well_typed s"
  by (simp_all add: well_typed_def)

lemma types_ioctl [types_handlers]: "types (\<lambda>_. True) sys_ioctl"
  unfolding sys_ioctl_def tty_ioctl_def minor_index_def set_term_pgid_def set_term_settings_def types_calls
  by (intro types_rules) auto

section \<open>Dispatch\<close>

lemma types_case_sys_run [types_rules]:
  "(\<And>v. types Q (f v)) \<Longrightarrow> (\<And>v. types Q (g v)) \<Longrightarrow> (\<And>v. types Q (h v)) \<Longrightarrow> types Q k \<Longrightarrow>
   types Q (case r of SysRet v \<Rightarrow> f v | SysWaits v \<Rightarrow> g v | SysWaitsv v \<Rightarrow> h v | SysGone \<Rightarrow> k)"
  by (cases r) auto

lemma types_syswrap:
  assumes "\<And>n h. tab n = Some h \<Longrightarrow> types (\<lambda>_. True) h"
  shows "types (\<lambda>_. True) (syswrap tab tf)"
proof -
  have h: "types Q h" if "(if b then tab n else None) = Some h" "\<And>r. Q r" for Q h n b
    using that assms [of n h] types_weaken [of "\<lambda>_. True" h Q] by (auto split: if_splits)
  show ?thesis
    unfolding syswrap_def syscall_def set_rax_def
    by (intro types_rules h) (auto intro!: typed_intros simp: proc_typed_def)
qed

lemma types_entries:
  "types (\<lambda>_. True) m \<Longrightarrow> types (\<lambda>_. True) (ret m)" "types (\<lambda>_. True) w \<Longrightarrow> types (\<lambda>_. True) (waits w)"
  "types (\<lambda>_. True) v \<Longrightarrow> types (\<lambda>_. True) (waitsv v)"
  unfolding ret_def waits_def waitsv_def by (auto simp: types_def bindk_eq_Inr)

lemma types_table:
  assumes "\<forall>a. types (\<lambda>_. True) (kfree a)" and "syscalls kernel_begin depth release version kmem kfree n = Some h"
  shows "types (\<lambda>_. True) h"
proof -
  have k: "types Q (kfree a)" if "Q ()" for a Q using assms(1) types_weaken [of "\<lambda>_. True" "kfree a" Q] that by simp
  have g: "types (\<lambda>_. True) (thenk sys__exit (returnk SysGone))" "types (\<lambda>_. True) (bindk (getk ticks) sys_alarm)"
    by (intro types_rules types_handlers; simp)+
  have "list_all (types (\<lambda>_. True)) (handlers kernel_begin depth release version kmem kfree)"
    unfolding handlers_def list.pred_inject
    by (intro conjI TrueI types_entries types_handlers types_map_calls k g list.pred_inject(1))
  then show ?thesis using assms(2) by (auto simp: syscalls_def Let_def list_all_length split: if_splits)
qed

section \<open>Property\<close>


text \<open>An example: the tables after boot, with one process, which asks for its number.\<close>

definition boot_inode :: inode where
  "boot_inode = \<lparr>i_dev = 0, i_rf = None, i_wf = None, i_inum = 0, i_fattrs = 0, i_ref = 0, i_lock = \<lparr>sl_locked = False, sl_pid = 0\<rparr>,
     i_valid = False, i_ctime = 0, i_atime = 0, i_mtime = 0, i_size = 0, i_mode = 0, i_gid = 0, i_uid = 0,
     i_addrs = replicate 10 0, i_major = 0, i_minor = 0, i_nlink = 0\<rparr>"

definition boot_file :: file_rec where
  "boot_file = \<lparr>f_type = FD_NONE, f_flags = 0, f_ref = 0, f_readable = False, f_writable = False, f_pipe = None, f_ip = None, f_off = 0\<rparr>"

definition boot_state :: tty_state where
  "boot_state = \<lparr>freelist = [], kernel_end = 0, available_memory = 0, kpdpt = 0, ptab = (\<lambda>_ _. 0),
     pdata = (\<lambda>_. []), procs = blank_proc\<lparr>p_state := RUNNING, p_pid := 1\<rparr> # replicate 63 blank_proc, nextpid = 2,
     initproc = Some 0, curproc = 0, ticks = 0, bufs = replicate NBUF empty_buf, lru = rev [0..<NBUF],
     idequeue = [], disk = (\<lambda>_ _. []), havedisk1 = True, ide_ok = True, disk_hist = [],
     l_start = 2, l_size = 30, l_outstanding = 0, l_committing = False, l_dev = 1, l_n = 0,
     l_block = replicate LOGSIZE 0, inodes = replicate NINODE boot_inode,
     global_sb = \<lparr>sb_signature = [], sb_size = 0, sb_nblocks = 0, sb_ninodes = 0, sb_nlog = 0, sb_logstart = 0, sb_inodestart = 0, sb_bmapstart = 0\<rparr>,
     rtc = 0, files = replicate NFILE boot_file,
     pipes = (\<lambda>_. None), devtab = [], io_time = 0, kmalloc_ok = (\<lambda>_. True), kmalloc_time = 0,
     vga = boot_screen, static_foreg = VGA_COLOR_WHITE, static_backg = VGA_COLOR_BLACK, echo_out = True,
     input_buf = replicate 128 0, input_r = 0, input_w = 0, input_e = 0, kbd_shift = 0,
     kbd_queue = create_queue True, kbd_file_ref = 0, tty_settings = [], term_pgids = [], term_sids = [], active_term = 0,
     pci_confs = []\<rparr>"

lemma boot_typed: "well_typed boot_state"
proof -
  have "proc_typed blank_proc" "proc_typed (blank_proc\<lparr>p_state := RUNNING, p_pid := 1\<rparr>)"
    by (simp_all add: proc_typed_def blank_proc_def OPEN_MAX_def NSIG_def list_all_length)
  moreover have "inode_typed boot_inode" "file_typed boot_file"
    by (simp_all add: inode_typed_def boot_inode_def NDIRECT_def file_typed_def boot_file_def)
  ultimately show ?thesis
    by (auto simp: well_typed_def boot_state_def NPROC_def list_all_iff)
qed


end
