(* ===== verification/Kern_Line.thy ===== *)
theory Kern_Line
  imports Kern_Console Kern_Rw
begin

text \<open>
  The line discipline of the console. Seen from outside it is two strings: the bytes that a read can have
  and the line that is still edited. The ring buffer with its three 32-bit indices implements them, also
  when the indices wrap around.
\<close>

section \<open>The two strings\<close>

definition put_line :: "byte list \<times> byte list \<Rightarrow> int \<Rightarrow> byte list \<times> byte list" where
  "put_line = (\<lambda>(done, edit) c.
     if c = 16 \<or> c = 3 \<or> c = 0 then (done, edit)
     else if c = 21 then (done, rev (dropWhile (\<lambda>b. b \<noteq> 10) (rev edit)))
     else if c = 8 then (done, butlast edit)
     else if length done + length edit \<ge> INPUT_BUF then (done, edit)
     else (let b = of_int (if c = 13 then 10 else c); edit = edit @ [b] in
       if c = 13 \<or> c = 10 \<or> c = 4 \<or> length done + length edit = INPUT_BUF then (done @ edit, []) else (done, edit)))"

definition segment :: "'z tty_state_scheme \<Rightarrow> u32 \<Rightarrow> nat \<Rightarrow> byte list" where
  "segment s a n = map (\<lambda>i. input_at s (a + of_nat i)) [0..<n]"

definition line_state :: "'z tty_state_scheme \<Rightarrow> byte list \<times> byte list \<Rightarrow> bool" where
  "line_state s = (\<lambda>(done, edit). length (input_buf s) = INPUT_BUF \<and> length done + length edit \<le> INPUT_BUF \<and>
     input_w s = input_r s + of_nat (length done) \<and> input_e s = input_w s + of_nat (length edit) \<and>
     segment s (input_r s) (length done + length edit) = done @ edit)"

lemma input_index: "unat (a + of_nat i :: u32) mod INPUT_BUF = (unat a + i) mod INPUT_BUF"
proof -
  have "unat (a + of_nat i :: u32) = (unat a + i) mod 2 ^ 32"
    by (simp add: unat_word_ariths unat_of_nat mod_add_right_eq)
  then show ?thesis by (simp add: INPUT_BUF_def mod_mod_cancel)
qed

lemma segment_fields [simp]:
  "segment (s\<lparr>input_r := a\<rparr>) = segment s" "segment (s\<lparr>input_w := a\<rparr>) = segment s" "segment (s\<lparr>input_e := a\<rparr>) = segment s"
  "segment (s\<lparr>vga := v\<rparr>) = segment s" "segment (s\<lparr>kbd_shift := a\<rparr>) = segment s" "segment (wakeup1 c s) = segment s"
  "segment (s\<lparr>kbd_queue := q, kmalloc_time := t\<rparr>) = segment s"
  by (simp_all add: segment_def input_at_def fun_eq_iff wakeup1_def)

lemma segment_append: "segment s a (m + n) = segment s a m @ segment s (a + of_nat m) n"
  by (rule nth_equalityI) (auto simp: segment_def nth_append add.assoc of_nat_diff)

lemma length_segment [simp]: "length (segment s a n) = n"
  by (simp add: segment_def)

lemma segment_nth: "i < n \<Longrightarrow> segment s a n ! i = input_at s (a + of_nat i)"
  by (simp add: segment_def)

lemma line_stateD:
  assumes "line_state s (done, edit)"
  shows "input_e s - input_r s = of_nat (length done + length edit)" "input_e s - input_w s = of_nat (length edit)"
    and "input_r s = input_w s \<longleftrightarrow> done = []" "input_e s = input_w s \<longleftrightarrow> edit = []"
proof -
  have l: "length done \<le> 128" "length edit \<le> 128" using assms by (auto simp: line_state_def INPUT_BUF_def)
  have z: "of_nat n = (0::u32) \<longleftrightarrow> n = 0" if "n \<le> 128" for n
    using that by (simp add: word_unat_eq_iff unat_of_nat)
  show "input_e s - input_r s = of_nat (length done + length edit)" "input_e s - input_w s = of_nat (length edit)"
    using assms by (simp_all add: line_state_def)
  show "input_r s = input_w s \<longleftrightarrow> done = []" "input_e s = input_w s \<longleftrightarrow> edit = []"
    using assms z [OF l(1)] z [OF l(2)] by (auto simp: line_state_def)
qed

lemma store_segment:
  assumes "length (input_buf s) = INPUT_BUF" and "n < INPUT_BUF" and "input_e s = a + of_nat n"
  shows "segment (store_input b s) a (Suc n) = segment s a n @ [b]"
proof (rule nth_equalityI)
  fix i assume i: "i < length (segment (store_input b s) a (Suc n))"
  have m: "(unat a + i) mod INPUT_BUF \<noteq> (unat a + n) mod INPUT_BUF" if "i < n"
  proof
    assume "(unat a + i) mod INPUT_BUF = (unat a + n) mod INPUT_BUF"
    then have "(unat a + n - (unat a + i)) mod INPUT_BUF = 0" using that by (metis add_le_cancel_left less_imp_le mod_eq_dvd_iff_nat mod_0_imp_dvd dvd_imp_mod_0)
    then show False using that assms(2) by simp
  qed
  have "(unat a + n) mod INPUT_BUF < length (input_buf s)" using assms(1) by (simp add: INPUT_BUF_def)
  then show "segment (store_input b s) a (Suc n) ! i = (segment s a n @ [b]) ! i"
    using i m by (cases "i < n") (auto simp: segment_nth nth_append store_input_def input_at_def input_index assms(3) less_Suc_eq)
qed simp

section \<open>The echo\<close>

definition echo_vga :: "font \<Rightarrow> 'z tty_state_scheme \<Rightarrow> int \<Rightarrow> stop + vga_state" where
  "echo_vga font s c =
     (if echo_out s then map_sum id snd (vga_write_char font c (static_foreg s) (static_backg s) (vga s)) else Inr (vga s))"

text \<open>What the line discipline does not touch: the settings, the keyboard, the allocator, the inodes and who runs.\<close>

definition outer :: "'z tty_state_scheme \<Rightarrow> _" where
  "outer s = (echo_out s, static_foreg s, static_backg s, inodes s, curproc s, map p_pid (procs s))"

definition settings :: "'z tty_state_scheme \<Rightarrow> _" where
  "settings s = (outer s, kbd_shift s, kbd_queue s, kmalloc_ok s, kmalloc_time s)"

lemma settings_simps [simp]:
  "settings (s\<lparr>vga := v\<rparr>) = settings s" "settings (s\<lparr>input_e := a\<rparr>) = settings s" "settings (s\<lparr>input_w := a\<rparr>) = settings s"
  "settings (s\<lparr>input_r := a\<rparr>) = settings s" "settings (wakeup1 c s) = settings s" "settings (store_input b s) = settings s"
  by (simp_all add: settings_def outer_def wakeup1_def store_input_def wake_def)

lemma echo_run:
  assumes "echo_vga font s c = Inr v"
  shows "echo font c s = Inr ((), s\<lparr>vga := v\<rparr>)"
  using assms by (auto simp: echo_vga_def echo_def put_vga_def on_vga_def kern_simps map_sum_def split: if_splits sum.splits)

lemma echo_vga_cong: "settings s' = settings s \<Longrightarrow> vga s' = vga s \<Longrightarrow> echo_vga font s' c = echo_vga font s c"
  by (simp add: echo_vga_def settings_def outer_def)

lemma echo_store [simp]: "echo_vga font (store_input b s) = echo_vga font s"
  by (simp add: echo_vga_def store_input_def fun_eq_iff)

lemma echo_off: "\<not> echo_out s \<Longrightarrow> echo_vga font s c = Inr (vga s)"
  by (simp add: echo_vga_def)

lemma echo_text:
  assumes "echo_out s" and "in_sync font (vga s) scr" and "text_char c"
  shows "\<exists>v. echo_vga font s c = Inr v \<and> in_sync font v (put_char (static_foreg s) (static_backg s) scr c)"
  using put_char_sync [OF assms(2,3), of "static_foreg s" "static_backg s"] assms(1) by (auto simp: echo_vga_def)

section \<open>Steps\<close>

lemma line_state_cong:
  "input_buf s' = input_buf s \<Longrightarrow> input_r s' = input_r s \<Longrightarrow> input_w s' = input_w s \<Longrightarrow> input_e s' = input_e s \<Longrightarrow>
   line_state s' = line_state s"
  by (simp add: line_state_def segment_def input_at_def fun_eq_iff)

lemma line_state_simps [simp]:
  "line_state (s\<lparr>vga := v\<rparr>) = line_state s" "line_state (wakeup1 c s) = line_state s" "line_state (s\<lparr>kbd_shift := a\<rparr>) = line_state s"
  "line_state (s\<lparr>kbd_queue := q, kmalloc_time := t\<rparr>) = line_state s"
  by (rule line_state_cong; simp add: wakeup1_def)+

lemma line_store:
  assumes "line_state s (done, edit)" and "length done + length edit < INPUT_BUF"
  shows "line_state (store_input b s) (done, edit @ [b])"
proof -
  have e: "input_e s = input_r s + of_nat (length done + length edit)" using assms(1) by (simp add: line_state_def add.assoc)
  show ?thesis
    using store_segment [OF _ assms(2) e, of b] assms by (simp add: line_state_def store_input_def add.assoc)
qed

lemma line_commit: "line_state s (done, edit) \<Longrightarrow> line_state (s\<lparr>input_w := input_e s\<rparr>) (done @ edit, [])"
  by (simp add: line_state_def add.assoc)

lemma line_shrink:
  assumes "line_state s (done, edit)" and "edit \<noteq> []"
  shows "line_state (s\<lparr>input_e := input_e s - 1\<rparr>) (done, butlast edit)" and "input_at s (input_e s - 1) = last edit"
proof -
  obtain es b where e: "edit = es @ [b]" using assms(2) by (cases edit rule: rev_cases) auto
  have seg: "segment s (input_r s) (length done + length es + 1) = (done @ es) @ [b]"
    using assms(1) by (simp add: line_state_def e add.assoc)
  have "segment s (input_r s) (length done + length es) = done @ es \<and> input_at s (input_r s + of_nat (length done + length es)) = b"
    using seg unfolding segment_append by (simp add: segment_def)
  then show "line_state (s\<lparr>input_e := input_e s - 1\<rparr>) (done, butlast edit)" "input_at s (input_e s - 1) = last edit"
    using assms(1) by (simp_all add: line_state_def e add.assoc)
qed

definition shown_as :: "int \<Rightarrow> int" where
  "shown_as c = (if c = 13 \<or> c = 4 then 10 else c)"

lemma full_test:
  assumes "line_state s (done, edit)"
  shows "input_e s = input_r s + of_nat INPUT_BUF \<longleftrightarrow> length done + length edit = INPUT_BUF"
    and "input_e s - input_r s < of_nat INPUT_BUF \<longleftrightarrow> length done + length edit < INPUT_BUF"
proof -
  have l: "length done + length edit \<le> 128" using assms by (auto simp: line_state_def INPUT_BUF_def)
  have u: "unat (of_nat (length done + length edit) :: u32) = length done + length edit"
    using l by (simp add: unat_of_nat del: of_nat_add)
  show "input_e s = input_r s + of_nat INPUT_BUF \<longleftrightarrow> length done + length edit = INPUT_BUF"
  proof -
    have "input_e s = input_r s + of_nat INPUT_BUF \<longleftrightarrow> input_e s - input_r s = of_nat INPUT_BUF" by (auto simp: diff_eq_eq add.commute)
    then show ?thesis using u unfolding line_stateD(1) [OF assms] by (simp add: INPUT_BUF_def word_unat_eq_iff del: of_nat_add)
  qed
  show "input_e s - input_r s < of_nat INPUT_BUF \<longleftrightarrow> length done + length edit < INPUT_BUF"
    using u unfolding line_stateD(1) [OF assms] by (simp add: INPUT_BUF_def word_less_nat_alt del: of_nat_add)
qed

lemma input_char_step:
  assumes st: "line_state s (done, edit)" and c: "c \<notin> {16, 3, 0, 21, 8}"
    and e: "length done + length edit < INPUT_BUF \<Longrightarrow> echo_vga font s (shown_as c) = Inr v"
  shows "\<exists>s'. input_char font c s = Inr ((), s') \<and> line_state s' (put_line (done, edit) c) \<and> settings s' = settings s \<and>
    vga s' = (if length done + length edit < INPUT_BUF then v else vga s)"
proof (cases "length done + length edit < INPUT_BUF")
  case True
  let ?c = "if c = 13 then 10 else c" and ?s1 = "store_input (of_int (if c = 13 then 10 else c)) s"
  let ?commit = "c = 13 \<or> c = 10 \<or> c = 4 \<or> length done + length (edit @ [of_int ?c]) = INPUT_BUF"
  have s1: "line_state ?s1 (done, edit @ [of_int ?c])" by (rule line_store [OF st True])
  have ec: "echo_vga font ?s1 (shown_as c) = Inr v" using e [OF True] by simp
  let ?s2 = "?s1\<lparr>vga := v\<rparr>"
  have s2: "line_state ?s2 (done, edit @ [of_int ?c])" using s1 by simp
  let ?s3 = "if ?commit then wakeup1 ChanInput (?s2\<lparr>input_w := input_e ?s2\<rparr>) else ?s2"
  have run: "input_char font c s = Inr ((), ?s3)"
  proof (cases "c = 4")
    case c4: True
    have "echo font 10 ?s1 = Inr ((), ?s2)" using echo_run [of font ?s1 "shown_as c" v] ec c4 by (simp add: shown_as_def)
    then show ?thesis
      using c True c4 full_test(2) [OF st] by (simp add: input_char_def kern_simps wakeup_run)
  next
    case False
    have "echo font ?c ?s1 = Inr ((), ?s2)" using echo_run [of font ?s1 "shown_as c" v] ec False by (auto simp: shown_as_def)
    then show ?thesis
      using c True False full_test(2) [OF st] full_test(1) [OF s2] by (simp add: input_char_def kern_simps wakeup_run Let_def)
  qed
  have "line_state ?s3 (put_line (done, edit) c)"
    using c True s2 line_commit [OF s2] by (auto simp: put_line_def Let_def)
  moreover have "settings ?s3 = settings s" by simp
  moreover have "vga ?s3 = v" by (simp add: wakeup1_def)
  ultimately show ?thesis using run True by auto
next
  case False
  then have "input_char font c s = Inr ((), s)"
    using full_test(2) [OF st] by (simp add: input_char_def kern_simps)
  moreover have "put_line (done, edit) c = (done, edit)" using c False by (simp add: put_line_def)
  ultimately show ?thesis using st False by auto
qed

section \<open>The queue of raw codes\<close>

definition kbd_ready :: "'z tty_state_scheme \<Rightarrow> bool" where
  "kbd_ready s \<longleftrightarrow> (\<exists>q. kbd_queue s = Some q \<and> queue_inv q \<and> dom (qheap q) \<subseteq> {..<kmalloc_time s}) \<and> (\<forall>t. kmalloc_ok s t)"

lemma kbd_ready_settings: "settings s' = settings s \<Longrightarrow> kbd_ready s' = kbd_ready s"
  by (simp add: settings_def kbd_ready_def)

lemma enqueue_heap:
  "enqueue (Some q) v (Some a) limit = Some (r, Some q') \<Longrightarrow> dom (qheap q') \<subseteq> insert a (dom (qheap q))"
  by (auto simp: enqueue_def set_next_def Let_def split: if_splits option.splits)

lemma kbd_enqueue_run:
  assumes "kbd_ready s"
  shows "\<exists>r q t. kbd_enqueue b s = Inr (r, s\<lparr>kbd_queue := q, kmalloc_time := t\<rparr>) \<and> r \<noteq> QUEUE_OOM \<and>
    kbd_ready (s\<lparr>kbd_queue := q, kmalloc_time := t\<rparr>)"
proof -
  obtain q where q: "kbd_queue s = Some q" "queue_inv q" "dom (qheap q) \<subseteq> {..<kmalloc_time s}" and k: "\<And>t. kmalloc_ok s t"
    using assms by (auto simp: kbd_ready_def)
  show ?thesis
  proof (cases "KEYBOARD_QUEUE_SIZE \<le> qsize q")
    case True
    then have "enqueue (Some q) b (Some (kmalloc_time s)) KEYBOARD_QUEUE_SIZE = Some (QUEUE_FULL, Some q)" by (simp add: enqueue_def)
    then have "kbd_enqueue b s = Inr (QUEUE_FULL, s\<lparr>kbd_queue := Some q, kmalloc_time := kmalloc_time s\<rparr>)"
      using q(1) k True by (simp add: kbd_enqueue_def kern_simps Let_def)
    moreover have "kbd_ready (s\<lparr>kbd_queue := Some q, kmalloc_time := kmalloc_time s\<rparr>)" using assms q by (simp add: kbd_ready_def)
    moreover have "QUEUE_FULL \<noteq> QUEUE_OOM" by (simp add: queue_codes)
    ultimately show ?thesis by blast
  next
    case False
    have "kmalloc_time s \<notin> dom (qheap q)" using q(3) by auto
    from enqueue_spec [OF q(2) this, of KEYBOARD_QUEUE_SIZE b] False obtain q' where
      q': "enqueue (Some q) b (Some (kmalloc_time s)) KEYBOARD_QUEUE_SIZE = Some (QUEUE_SUCCESS, Some q')" "queue_inv q'" by auto
    then have "kbd_enqueue b s = Inr (QUEUE_SUCCESS, s\<lparr>kbd_queue := Some q', kmalloc_time := kmalloc_time s + 1\<rparr>)"
      using q(1) k False by (simp add: kbd_enqueue_def kern_simps Let_def)
    moreover have "dom (qheap q') \<subseteq> {..<kmalloc_time s + 1}" using enqueue_heap [OF q'(1)] q(3) by fastforce
    moreover from this have "kbd_ready (s\<lparr>kbd_queue := Some q', kmalloc_time := kmalloc_time s + 1\<rparr>)"
      using q'(2) k by (simp add: kbd_ready_def)
    moreover have "QUEUE_SUCCESS \<noteq> QUEUE_OOM" by (simp add: queue_codes)
    ultimately show ?thesis by blast
  qed
qed

section \<open>Interrupts with the echo off\<close>

lemma kill_line_run:
  assumes "line_state s (done, edit)" and "\<not> echo_out s" and "n = length edit"
  shows "\<exists>s'. kill_line font n s = Inr ((), s') \<and> line_state s' (done, rev (dropWhile (\<lambda>b. b \<noteq> 10) (rev edit))) \<and>
    settings s' = settings s \<and> vga s' = vga s"
  using assms
proof (induction n arbitrary: s edit)
  case (Suc n)
  obtain es b where e: "edit = es @ [b]" using Suc.prems(3) by (cases edit rule: rev_cases) auto
  have ne: "input_e s \<noteq> input_w s" and b: "input_at s (input_e s - 1) = b"
    using line_stateD(4) [OF Suc.prems(1)] line_shrink(2) [OF Suc.prems(1)] e by auto
  show ?case
  proof (cases "b = 10")
    case True
    then show ?thesis using Suc.prems b by (auto simp: kern_simps e)
  next
    case False
    let ?s = "s\<lparr>input_e := input_e s - 1\<rparr>"
    have "line_state ?s (done, es)" using line_shrink(1) [OF Suc.prems(1)] e by simp
    from Suc.IH [OF this] Suc.prems(2,3) e obtain s' where s': "kill_line font n ?s = Inr ((), s')"
      "line_state s' (done, rev (dropWhile (\<lambda>b. b \<noteq> 10) (rev es)))" "settings s' = settings s" "vga s' = vga s" by auto
    have "echo font BACKSPACE ?s = Inr ((), ?s)" using Suc.prems(2) by (simp add: echo_def kern_simps)
    then show ?thesis using s' ne b False by (simp add: kern_simps e)
  qed
qed (simp add: kern_simps)

lemma console_char_step:
  assumes "line_state s (done, edit)" and "\<not> echo_out s"
  shows "\<exists>s' fl'. console_char font c fl s = Inr (fl', s') \<and> line_state s' (put_line (done, edit) c) \<and> settings s' = settings s"
proof -
  obtain dp cc where fl: "fl = (dp, cc)" by (cases fl)
  consider "c = 16 \<or> c = 3" | "c = 21" | "c = 8" | "c = 0" | "c \<notin> {16, 3, 0, 21, 8}" by auto
  then show ?thesis
  proof cases
    case 1
    then show ?thesis using assms by (auto simp: console_char_def fl kern_simps put_line_def)
  next
    case 2
    have "unat (input_e s - input_w s) = length edit"
      using assms(1) unfolding line_stateD(2) [OF assms(1)] by (simp add: line_state_def INPUT_BUF_def unat_of_nat)
    then show ?thesis
      using 2 kill_line_run [OF assms refl, of font] by (auto simp: console_char_def fl kern_simps put_line_def)
  next
    case 3
    show ?thesis
    proof (cases "edit = []")
      case True
      then show ?thesis using 3 assms line_stateD(4) [OF assms(1)] by (simp add: console_char_def fl kern_simps put_line_def)
    next
      case False
      let ?s = "s\<lparr>input_e := input_e s - 1\<rparr>"
      have "\<exists>s'. consputc3 font BACKSPACE ?s = Inr ((), s') \<and> line_state s' = line_state ?s \<and> settings s' = settings s"
        using assms(2) by (simp add: consputc3_def on_vga_def kern_simps uartputc_run echo_def)
      then show ?thesis
        using 3 False assms line_stateD(4) [OF assms(1)] line_shrink(1) [OF assms(1) False]
        by (auto simp: console_char_def fl kern_simps put_line_def)
    qed
  next
    case 4
    then show ?thesis using assms by (simp add: console_char_def fl kern_simps put_line_def input_char_def)
  next
    case 5
    from input_char_step [OF assms(1) 5 echo_off [OF assms(2)], of font] obtain s' where
      "input_char font c s = Inr ((), s')" "line_state s' (put_line (done, edit) c)" "settings s' = settings s" by auto
    with 5 show ?thesis by (auto simp: console_char_def fl kern_simps)
  qed
qed


section \<open>Reading a line\<close>

lemma line_take:
  assumes "line_state s (b # bs, edit)"
  shows "line_state (s\<lparr>input_r := input_r s + 1\<rparr>) (bs, edit)" and "input_at s (input_r s) = b" and "input_r s \<noteq> input_w s"
proof -
  have "segment s (input_r s) (1 + (length bs + length edit)) = [b] @ (bs @ edit)" using assms by (simp add: line_state_def)
  then have "segment s (input_r s + 1) (length bs + length edit) = bs @ edit \<and> input_at s (input_r s) = b"
    unfolding segment_append by (simp add: segment_def)
  then show "line_state (s\<lparr>input_r := input_r s + 1\<rparr>) (bs, edit)" "input_at s (input_r s) = b"
    using assms by (simp_all add: line_state_def add.assoc)
  show "input_r s \<noteq> input_w s" using line_stateD(3) [OF assms] by simp
qed

lemma read_line_run:
  assumes "line_state s (xs @ 10 # ys, edit)" and "4 \<notin> set xs" and "10 \<notin> set xs" and "length xs < n"
  shows "\<exists>r. console_read_loop n target dst s =
      Inr (ConsReturns (int target - int (n - length xs - 1)) (dst @ xs @ [10]), s\<lparr>input_r := r\<rparr>) \<and> line_state (s\<lparr>input_r := r\<rparr>) (ys, edit)"
  using assms
proof (induction xs arbitrary: s n dst)
  case Nil
  obtain m where n: "n = Suc m" using Nil.prems(4) by (cases n) auto
  show ?case using line_take [of s 10 ys edit] Nil.prems(1) by (auto simp: n kern_simps Let_def)
next
  case (Cons x xs)
  obtain m where n: "n = Suc m" using Cons.prems(4) by (cases n) auto
  note t = line_take [of s x "xs @ 10 # ys" edit]
  let ?s = "s\<lparr>input_r := input_r s + 1\<rparr>"
  have x: "x \<noteq> 4" "x \<noteq> 10" using Cons.prems(2,3) by auto
  have "line_state ?s (xs @ 10 # ys, edit)" using t(1) Cons.prems(1) by simp
  from Cons.IH [OF this, of m "dst @ [x]"] Cons.prems n obtain r where
    "console_read_loop m target (dst @ [x]) ?s = Inr (ConsReturns (int target - int (m - length xs - 1)) ((dst @ [x]) @ xs @ [10]), ?s\<lparr>input_r := r\<rparr>)"
    "line_state (?s\<lparr>input_r := r\<rparr>) (ys, edit)" by auto
  then show ?case using t(2,3) Cons.prems(1) x n by (auto simp: kern_simps Let_def)
qed

section \<open>Typing with the echo on\<close>

definition plain :: "int \<Rightarrow> bool" where
  "plain c \<longleftrightarrow> c = 10 \<or> 32 \<le> c \<and> c < 127"

definition room :: "byte list \<times> byte list \<Rightarrow> nat" where
  "room line = INPUT_BUF - (length (fst line) + length (snd line))"

lemma console_char_text:
  assumes "line_state s line" and "plain c" and "0 < room line" and "echo_out s" and "in_sync font (vga s) scr"
  shows "\<exists>s'. console_char font c flags s = Inr (flags, s') \<and> line_state s' (put_line line c) \<and> settings s' = settings s \<and>
    in_sync font (vga s') (put_char (static_foreg s) (static_backg s) scr c) \<and> room (put_line line c) = room line - 1"
proof -
  obtain dn ed where l: "line = (dn, ed)" by (cases line)
  have c: "c \<notin> {16, 3, 0, 21, 8}" "shown_as c = c" "text_char c"
    using assms(2) by (auto simp: plain_def shown_as_def text_char_def BACKSPACE_def)
  have r: "length dn + length ed < INPUT_BUF" using assms(3) by (simp add: room_def l)
  obtain v where v: "echo_vga font s (shown_as c) = Inr v" "in_sync font v (put_char (static_foreg s) (static_backg s) scr c)"
    using echo_text [OF assms(4,5) c(3)] c(2) by auto
  from input_char_step [OF assms(1) [unfolded l] c(1) v(1)] r obtain s' where
    s': "input_char font c s = Inr ((), s')" "line_state s' (put_line (dn, ed) c)" "settings s' = settings s" "vga s' = v" by auto
  have "room (put_line line c) = room line - 1" using c(1) r by (auto simp: room_def put_line_def l Let_def)
  then show ?thesis using s' v(2) c(1) by (cases flags) (auto simp: console_char_def l kern_simps)
qed

lemma typing_loop:
  assumes "line_state s line" and "echo_out s" and "in_sync font (vga s) scr" and "kbd_ready s"
    and "kbd_chars (kbd_shift s) codes = (cs, sh)" and "list_all plain cs" and "length cs \<le> room line"
  shows "\<exists>s'. consoleintr_loop font codes flags s = Inr (flags, s') \<and> line_state s' (foldl put_line line cs) \<and> outer s' = outer s \<and>
    in_sync font (vga s') (foldl (put_char (static_foreg s) (static_backg s)) scr cs)"
  using assms
proof (induction codes arbitrary: s line scr cs)
  case (Cons d ds)
  obtain c sh1 where c: "kbd_scancode_into_char (kbd_shift s) d = (c, sh1)" by force
  obtain cs1 where cs1: "kbd_chars sh1 ds = (cs1, sh)" "cs = (if c = 0 then cs1 else c # cs1)"
    using Cons.prems(5) c by (auto simp: Let_def split: prod.splits)
  obtain r q t where en: "kbd_enqueue (of_nat d) s = Inr (r, s\<lparr>kbd_queue := q, kmalloc_time := t\<rparr>)" "r \<noteq> QUEUE_OOM"
      "kbd_ready (s\<lparr>kbd_queue := q, kmalloc_time := t\<rparr>)"
    using kbd_enqueue_run [OF Cons.prems(4)] by blast
  let ?s1 = "s\<lparr>kbd_queue := q, kmalloc_time := t, kbd_shift := sh1\<rparr>"
  let ?line = "if c = 0 then line else put_line line c" and ?scr = "if c = 0 then scr else put_char (static_foreg s) (static_backg s) scr c"
  have s1: "line_state ?s1 line" "echo_out ?s1" "in_sync font (vga ?s1) scr" using Cons.prems
    by (auto simp: line_state_def segment_def input_at_def)
  have "\<exists>s2. console_char font c flags ?s1 = Inr (flags, s2) \<and> line_state s2 ?line \<and> settings s2 = settings ?s1 \<and>
      in_sync font (vga s2) ?scr \<and> length cs1 \<le> room ?line"
  proof (cases "c = 0")
    case True
    then show ?thesis using s1 cs1(2) Cons.prems(7) by (cases flags) (simp add: console_char_def kern_simps input_char_def)
  next
    case False
    then have "plain c" "0 < room line" using cs1(2) Cons.prems(6,7) by auto
    from console_char_text [OF s1(1) this s1(2,3), of flags] show ?thesis using False cs1(2) Cons.prems(7) by auto
  qed
  then obtain s2 where s2: "console_char font c flags ?s1 = Inr (flags, s2)" "line_state s2 ?line" "settings s2 = settings ?s1"
      "in_sync font (vga s2) ?scr" "length cs1 \<le> room ?line" by blast
  have k: "echo_out s2" "kbd_ready s2" "kbd_shift s2 = sh1" "static_foreg s2 = static_foreg s" "static_backg s2 = static_backg s" "outer s2 = outer s"
    using en(3) s2(3) Cons.prems(2) by (simp_all add: kbd_ready_def settings_def outer_def)
  have "list_all plain cs1" using cs1(2) Cons.prems(6) by (auto split: if_splits)
  from Cons.IH [OF s2(2) k(1) s2(4) k(2) cs1(1) [folded k(3)] this s2(5)] obtain s3 where
    "consoleintr_loop font ds flags s2 = Inr (flags, s3)" "line_state s3 (foldl put_line ?line cs1)" "outer s3 = outer s2"
    "in_sync font (vga s3) (foldl (put_char (static_foreg s) (static_backg s)) ?scr cs1)" unfolding k by blast
  then show ?case using en(1,2) s2(1) k(6) cs1(2) by (auto simp: kern_simps c)
qed (simp add: returnk_run)

lemma put_line_text:
  assumes "list_all (\<lambda>c. 32 \<le> c \<and> c < 127) cs" and "length e + length cs < INPUT_BUF"
  shows "foldl put_line ([], e) (map int cs) = ([], e @ map of_nat cs)"
  using assms
proof (induction cs arbitrary: e)
  case (Cons c cs)
  then have "put_line ([], e) (int c) = ([], e @ [of_nat c])" by (auto simp: put_line_def Let_def)
  with Cons show ?case by simp
qed simp

lemma console_read_line:
  assumes "line_state s (xs @ 10 # ys, edit)" and "4 \<notin> set xs" and "10 \<notin> set xs" and "length xs < n"
    and ip: "ip < length (inodes s)" "1 \<le> i_ref (inodes s ! ip)" "i_valid (inodes s ! ip)" "holdingsleep (i_lock (inodes s ! ip)) s"
  shows "\<exists>s'. console_read ip n s = Inr (ConsReturns (int (length xs + 1)) (xs @ [10]), s') \<and> line_state s' (ys, edit)"
proof -
  let ?s1 = "wakeup1 (ChanInodeLock ip) (upd_inode ip (\<lambda>i. i\<lparr>i_lock := unlocked\<rparr>) s)"
  have u: "inode_unlock ip s = Inr ((), ?s1)"
    using ip by (simp add: inode_unlock_def Let_def kern_simps releasesleep_inode_def wakeup_run)
  have l1: "line_state ?s1 = line_state s" by (rule line_state_cong) (simp_all add: wakeup1_def upd_inode_def)
  obtain r where r: "console_read_loop n n [] ?s1 = Inr (ConsReturns (int n - int (n - length xs - 1)) (xs @ [10]), ?s1\<lparr>input_r := r\<rparr>)"
      "line_state (?s1\<lparr>input_r := r\<rparr>) (ys, edit)"
    using read_line_run [OF assms(1) [folded l1] assms(2-4), of n "[]"] by auto
  let ?lk = "\<lparr>sl_locked = True, sl_pid = me ?s1\<rparr>"
  let ?s2 = "upd_inode ip (\<lambda>i. i\<lparr>i_lock := ?lk\<rparr>) (?s1\<lparr>input_r := r\<rparr>)"
  have "inode_lock ip (?s1\<lparr>input_r := r\<rparr>) = Inr ((), ?s2)"
    using ip by (simp add: inode_lock_def Let_def kern_simps acquiresleep_inode_def holdingsleep_def unlocked_def upd_inode_def wakeup1_def me_def cur_def)
  moreover have "line_state ?s2 = line_state (?s1\<lparr>input_r := r\<rparr>)" by (rule line_state_cong) (simp_all add: upd_inode_def)
  moreover have "int n - int (n - length xs - 1) = int (length xs + 1)" using assms(4) by simp
  ultimately show ?thesis using u r by (auto simp: console_read_def kern_simps)
qed

lemma outer_same:
  assumes "outer s1 = outer s" and "curproc s < length (procs s)"
  shows "inodes s1 = inodes s" and "me s1 = me s"
proof -
  show "inodes s1 = inodes s" using assms(1) by (simp add: outer_def)
  have "map p_pid (procs s1) = map p_pid (procs s)" "curproc s1 = curproc s" using assms(1) by (simp_all add: outer_def)
  then have "length (procs s1) = length (procs s)" "map p_pid (procs s1) ! curproc s = map p_pid (procs s) ! curproc s"
    by (auto dest: map_eq_imp_length_eq)
  then show "me s1 = me s" using assms(2) \<open>curproc s1 = curproc s\<close> by (simp add: me_def cur_def)
qed


text \<open>An example: a console at boot, with process 1 reading from an open terminal.\<close>

definition tty_example :: "bool \<Rightarrow> tty_state" where
  "tty_example e = \<lparr>freelist = [], kernel_end = 0, available_memory = 0, kpdpt = 0, ptab = (\<lambda>_ _. 0),
     pdata = (\<lambda>_. []), procs = [blank_proc\<lparr>p_state := RUNNING, p_pid := 1\<rparr>], nextpid = 2,
     initproc = Some 0, curproc = 0, ticks = 0, bufs = [], lru = [],
     idequeue = [], disk = (\<lambda>_ _. []), havedisk1 = True, ide_ok = True, disk_hist = [],
     l_start = 2, l_size = 30, l_outstanding = 0, l_committing = False, l_dev = 1, l_n = 0,
     l_block = [], inodes = [example_inode], global_sb = fs_example_sb, rtc = 0, files = [],
     pipes = (\<lambda>_. None), devtab = [], io_time = 0, kmalloc_ok = (\<lambda>_. True), kmalloc_time = 0,
     vga = boot_screen, static_foreg = VGA_COLOR_WHITE, static_backg = VGA_COLOR_BLACK, echo_out = e,
     input_buf = replicate 128 0, input_r = - 3, input_w = - 3, input_e = - 3, kbd_shift = 0,
     kbd_queue = create_queue True, kbd_file_ref = 0, tty_settings = [], term_pgids = [], term_sids = [], active_term = 0,
     pci_confs = []\<rparr>"

lemma tty_example_line: "line_state (tty_example e) ([], [])"
  by (simp add: line_state_def tty_example_def segment_def INPUT_BUF_def)

lemma tty_example_ready: "kbd_ready (tty_example e)"
  by (simp add: kbd_ready_def tty_example_def create_queue_def queue_inv_def)



end
