(* ===== verification/Spec2Isabelle.thy ===== *)
theory Spec2Isabelle
  imports Klib_String Klib_Queue Klib_Search Klib_Qsort Libc_Stdlib Kern_Lock Kern_Malloc Kern_Pipe Kern_Crash Kern_Sysio Kern_Type Kern_Line
begin

text \<open>
  Relix is a Unix-like operating system for 64-bit x86 processors, descended from xv6. This
  development models the C code of its kernel and of the library the kernel shares with user
  programs, and proves the properties below of the model. Paths are relative to \<^verbatim>\<open>src/\<close>.

  \<^bold>\<open>The parts and how they interact.\<close> A process enters the kernel through a system call. \<^verbatim>\<open>kernel/syscall.c\<close>
  fetches the arguments and checks the memory they point to; the handlers in \<^verbatim>\<open>kernel/sysfile.c\<close> and
  \<^verbatim>\<open>kernel/sysproc.c\<close> call the layers below. \<^verbatim>\<open>kernel/file.c\<close> keeps the table of open files and hands a
  read or a write to a pipe (\<^verbatim>\<open>kernel/pipe.c\<close>, over \<^verbatim>\<open>lib/ring_buffer.c\<close>), to a device or to an inode.
  \<^verbatim>\<open>kernel/fs.c\<close> maps the bytes of an inode to disk blocks and resolves paths; every change of a block goes
  through the log of \<^verbatim>\<open>kernel/log.c\<close>, which makes a group of operations atomic against crashes, and through
  the cache of \<^verbatim>\<open>kernel/bio.c\<close> to the disk driver \<^verbatim>\<open>kernel/ide.c\<close>. \<^verbatim>\<open>kernel/proc.c\<close> creates, schedules,
  signals and reaps processes, \<^verbatim>\<open>kernel/exec.c\<close> loads programs, \<^verbatim>\<open>kernel/vm.c\<close> builds address spaces from the
  pages of \<^verbatim>\<open>kernel/kalloc.c\<close>, and \<^verbatim>\<open>kernel/trap.c\<close> resolves page faults. \<^verbatim>\<open>kernel/spinlock.c\<close> and
  \<^verbatim>\<open>kernel/sleeplock.c\<close> serialise access to all of it.
  The keyboard (\<^verbatim>\<open>kernel/dev/kbd.c\<close>) and the serial port (\<^verbatim>\<open>kernel/uart.c\<close>) interrupt into the line discipline of
  \<^verbatim>\<open>kernel/console.c\<close>, which keeps the line being typed, shows it on the screen of \<^verbatim>\<open>kernel/vga.c\<close> and wakes the readers.

  \<^bold>\<open>State and effects.\<close> \<^verbatim>\<open>Relix_Prelude\<close> holds the facts on lists, options, maps and machine words that the
  other theories share. A kernel operation is a function from the state to either a new state with a
  result or the reason it stopped (\<^verbatim>\<open>Kern_Base\<close>): \<^verbatim>\<open>Panic\<close>, or \<^verbatim>\<open>Sleep\<close> on a channel. The state is a record that
  each layer extends: memory (\<^verbatim>\<open>Kern_Mem\<close>), processes (\<^verbatim>\<open>Kern_Proc\<close>), buffers and the disk (\<^verbatim>\<open>Kern_Bio\<close>), the
  log (\<^verbatim>\<open>Kern_Log\<close>), inodes and open files (\<^verbatim>\<open>Kern_Fs\<close>), the console with its screen (\<^verbatim>\<open>Kern_Console\<close>). A C integer is a machine word where its overflow
  matters and an integer or a natural number where the code keeps it in range; bytes are 8-bit words, and
  an access outside an array is the result \<^verbatim>\<open>None\<close> of the library functions and a panic of the kernel
  functions that call them.

  \<^bold>\<open>Theories, sources and what is proved.\<close>
  \<^item> \<^verbatim>\<open>Klib_Bytes\<close>, \<^verbatim>\<open>Klib_Ctype\<close>, \<^verbatim>\<open>Klib_String\<close>: \<^verbatim>\<open>kernel/kernel_string.c\<close> and \<^verbatim>\<open>lib/ctype.c\<close>. \<^verbatim>\<open>memmove\<close> moves whatever the
    overlap, \<^verbatim>\<open>strcmp\<close> orders, \<^verbatim>\<open>safestrcpy\<close> terminates its copy, \<^verbatim>\<open>stpncpy\<close> writes past its destination.
  \<^item> \<^verbatim>\<open>Klib_Ring\<close>, \<^verbatim>\<open>Klib_Queue\<close>: the ring buffer and the linked queue refine lists; the queue runs on an explicit
    heap of nodes.
  \<^item> \<^verbatim>\<open>Klib_Search\<close>, \<^verbatim>\<open>Klib_Qsort\<close>: \<^verbatim>\<open>bsearch\<close> finds what is there, \<^verbatim>\<open>qsort\<close> sorts and permutes.
  \<^item> \<^verbatim>\<open>Klib_Print\<close>, \<^verbatim>\<open>Libc_Stdlib\<close>: the printing of \<^verbatim>\<open>kernel/kernel_print.c\<close> and the conversions of \<^verbatim>\<open>userspace/libc/stdlib.c\<close>. What
    \<^verbatim>\<open>printf\<close> writes for a number that is not negative is what \<^verbatim>\<open>atoi\<close> reads; \<^verbatim>\<open>strtoll\<close> loses the sign of a decimal number.
  \<^item> \<^verbatim>\<open>Kern_Lock\<close>: spin locks and ticket locks on interleaved processors. Mutual exclusion, interrupts off
    while a lock is held, hand-over, and the panic of a contended ticket lock.
  \<^item> \<^verbatim>\<open>Kern_Malloc\<close>: the heap of the kernel. A block that is handed out overlaps no other block, and freeing in any order keeps
    the invariant of the heap.
  \<^item> \<^verbatim>\<open>Kern_Pipe\<close>: pipes. Readers receive what writers sent, in order, and a writer proceeds once there is room.
  \<^item> \<^verbatim>\<open>Kern_Mem\<close>, \<^verbatim>\<open>Kern_Vm\<close>: the page allocator and the page tables.
  \<^item> \<^verbatim>\<open>Kern_Proc\<close>, \<^verbatim>\<open>Kern_Fork\<close>, \<^verbatim>\<open>Kern_Exec\<close>: processes, their creation and end, and program loading. Allocation
    of slots, the scheduler, no lost wake-up, reaping of children.
  \<^item> \<^verbatim>\<open>Kern_Bio\<close>, \<^verbatim>\<open>Kern_Cache\<close>: the disk driver and the block cache. A locked buffer agrees with the disk,
    and a written buffer is on the disk.
  \<^item> \<^verbatim>\<open>Kern_Log\<close>, \<^verbatim>\<open>Kern_Crash\<close>: the log. A commit cut short after any number of disk writes, followed by recovery,
    leaves either all blocks of the transaction or none; recovery may itself be cut short and repeated.
  \<^item> \<^verbatim>\<open>Kern_Fs\<close>, \<^verbatim>\<open>Kern_Balloc\<close>, \<^verbatim>\<open>Kern_Bmap\<close>, \<^verbatim>\<open>Kern_Rw\<close>, \<^verbatim>\<open>Kern_Dir\<close>: inodes and their blocks. Allocation and freeing of blocks,
    the block map with its two levels of indirection, and that reading back gives what was written.
  \<^item> \<^verbatim>\<open>Kern_File\<close>, \<^verbatim>\<open>Kern_Vfs\<close>: open files. A write through an open file, split into transactions, is on the disk
    when it returns and is read back.
  \<^item> \<^verbatim>\<open>Kern_User\<close>, \<^verbatim>\<open>Kern_Sysfile\<close>, \<^verbatim>\<open>Kern_Syspath\<close>, \<^verbatim>\<open>Kern_Sysproc\<close>: user memory, page faults and the system call handlers.
  \<^item> \<^verbatim>\<open>Kern_Frame\<close>, \<^verbatim>\<open>Kern_Sysio\<close>: what the handlers leave alone; \<^verbatim>\<open>sys_write\<close> and \<^verbatim>\<open>sys_read\<close> from the registers of the
    process to the disk and back.
  \<^item> \<^verbatim>\<open>Kern_Vga\<close>: the screen, down to the bytes of the framebuffer. Writing text refines a table of cells that scrolls; a
    backspace at the start of a row loses the cursor.
  \<^item> \<^verbatim>\<open>Kern_Kbd\<close>, \<^verbatim>\<open>Kern_Console\<close>, \<^verbatim>\<open>Kern_Line\<close>: scan codes, the line discipline, escape sequences, the terminals and
    \<^verbatim>\<open>sys_ioctl\<close>. With the echo off the discipline refines an editor of one line, and a line that was typed is the line that is read.
  \<^item> \<^verbatim>\<open>Kern_Syscall\<close>, \<^verbatim>\<open>Kern_Type\<close>: memory maps and the table of system calls. Every call that returns, whatever its arguments, leaves
    a state in which the arrays have their sizes and every index points into its table.

  \<^bold>\<open>Bounds and fuel.\<close> The loops of the library and of the file system are total functions. \<^verbatim>\<open>inode_to_path\<close> recurses
  once per directory level and takes the depth as an argument, as the kernel stack bounds it; \<^verbatim>\<open>sys_getdents\<close>
  takes fuel, one unit per directory entry, because the code advances by the length each record
  carries; \<^verbatim>\<open>filereadlinkat\<close> stops after \<^verbatim>\<open>SYMLOOP_MAX\<close> links, as in the code.

  \<^bold>\<open>Not modelled.\<close> Device drivers other than the IDE disk, the keyboard and the screen, interrupt controllers and
  firmware tables act through ports and memory-mapped registers. Assembly, per-processor registers and
  descriptor tables have no counterpart in the model. Context switches appear as the point where an
  operation sleeps or leaves the processor: above the lock layer, operations run one at a time, which is
  what the locks establish. Of the Rust parts, \<^verbatim>\<open>ansi_escape.rs\<close> is modelled; the crate that splits an escape
  sequence into commands is not part of the sources and is an argument. So are the font, the addresses
  that \<^verbatim>\<open>kmalloc\<close> returns to the memory maps, and \<^verbatim>\<open>procdump\<close>, which prints. Of the C library of user programs,
  \<^verbatim>\<open>stdlib.c\<close> and \<^verbatim>\<open>strcmp\<close> are modelled; the rest, the user programs and the tool that builds disk images are
  not. The clock and the results of devices are arguments or components of the state.
\<close>

end
